(* ===== verification/Prelude.thy ===== *)
theory Prelude
  imports Main "HOL-Library.Word" "HOL-Library.Monad_Syntax"
begin

unbundle bit_operations_syntax

text \<open>
  Shared vocabulary of the development: machine types, the error numbers the C sources
  name, bytes and strings, bit flags, and the generic lemmas the component theories use.

  Error numbers are C \<open>int\<close>s.  Their numeric values are those of Linux; the proofs
  only use that they are positive and distinct.
\<close>

section \<open>Types and named collections\<close>

type_synonym byte = "8 word"
type_synonym u32 = "32 word"
type_synonym u64 = "64 word"

named_theorems os_simps \<open>symbolic execution of one system call\<close>
named_theorems flag_simps \<open>reading and setting bit flags\<close>
named_theorems ledger_simps \<open>the effect of one event on a resource ledger\<close>

section \<open>Error numbers\<close>

abbreviation (input) EPERM :: int where "EPERM \<equiv> 1"
abbreviation (input) ESRCH :: int where "ESRCH \<equiv> 3"
abbreviation (input) EINTR :: int where "EINTR \<equiv> 4"
abbreviation (input) EIO :: int where "EIO \<equiv> 5"
abbreviation (input) E2BIG :: int where "E2BIG \<equiv> 7"
abbreviation (input) EBADF :: int where "EBADF \<equiv> 9"
abbreviation (input) ECHILD :: int where "ECHILD \<equiv> 10"
abbreviation (input) EAGAIN :: int where "EAGAIN \<equiv> 11"
abbreviation (input) ENOMEM :: int where "ENOMEM \<equiv> 12"
abbreviation (input) EBUSY :: int where "EBUSY \<equiv> 16"
abbreviation (input) EINVAL :: int where "EINVAL \<equiv> 22"
abbreviation (input) EPIPE :: int where "EPIPE \<equiv> 32"
abbreviation (input) ENAMETOOLONG :: int where "ENAMETOOLONG \<equiv> 36"
abbreviation (input) ESTALE :: int where "ESTALE \<equiv> 116"

section \<open>The option monad\<close>

text \<open>A sequence of steps that returned: every step returned.\<close>

lemmas bind_Some_conv [simp] = Option.bind_eq_Some_conv

section \<open>Bytes and strings\<close>

definition bytes_of :: "string \<Rightarrow> byte list" where
  "bytes_of s = map of_char s"

lemma length_bytes_of [simp]: "length (bytes_of s) = length s"
  by (simp add: bytes_of_def)

lemma bytes_of_Nil [simp]: "bytes_of [] = []"
  by (simp add: bytes_of_def)

text \<open>The number \<open>snprintf\<close> prints for \<open>%d\<close>.\<close>

fun decimal_digits :: "nat \<Rightarrow> string" where
  "decimal_digits n = (if n < 10 then [char_of (48 + n)] else decimal_digits (n div 10) @ [char_of (48 + n mod 10)])"

declare decimal_digits.simps [simp del]

definition print_int :: "int \<Rightarrow> string" where
  "print_int n = (if n < 0 then CHR ''-'' # decimal_digits (nat (- n)) else decimal_digits (nat n))"

lemma length_decimal_digits: "n < 10 ^ Suc k \<Longrightarrow> length (decimal_digits n) \<le> Suc k"
proof (induction k arbitrary: n)
  case 0
  then show ?case by (subst decimal_digits.simps) simp
next
  case (Suc k)
  from Suc.prems have "n div 10 < 10 ^ Suc k" by (simp add: less_mult_imp_div_less mult.commute)
  with Suc.IH show ?case by (subst decimal_digits.simps) simp
qed

lemma length_print_int:
  assumes "\<bar>n\<bar> < 2 ^ 32"
  shows "length (print_int n) \<le> 11"
proof -
  have "nat n < 10 ^ Suc 9" "nat (- n) < 10 ^ Suc 9" using assms by (simp_all add: nat_less_iff)
  from this [THEN length_decimal_digits] show ?thesis by (simp add: print_int_def)
qed

text \<open>The least index of an element that satisfies a predicate: \<open>memchr\<close>, \<open>strchr\<close>.\<close>

fun index_of :: "('a \<Rightarrow> bool) \<Rightarrow> 'a list \<Rightarrow> nat option" where
  "index_of P [] = None"
| "index_of P (x # xs) = (if P x then Some 0 else map_option Suc (index_of P xs))"

lemma index_of_Some:
  "index_of P xs = Some i \<longleftrightarrow> i < length xs \<and> P (xs ! i) \<and> (\<forall>j < i. \<not> P (xs ! j))"
proof (induction xs arbitrary: i)
  case Nil
  then show ?case by simp
next
  case (Cons x xs)
  show ?case
  proof (cases i)
    case 0
    then show ?thesis by auto
  next
    case (Suc k)
    with Cons.IH show ?thesis by (auto simp: less_Suc_eq_0_disj)
  qed
qed

lemma index_of_None: "index_of P xs = None \<longleftrightarrow> (\<forall>x \<in> set xs. \<not> P x)"
  by (induction xs) auto

lemma index_of_less: "index_of P xs = Some i \<Longrightarrow> i < length xs"
  by (simp add: index_of_Some)

lemma index_of_takeWhile:
  "index_of P xs = Some i \<Longrightarrow> take i xs = takeWhile (\<lambda>x. \<not> P x) xs"
  by (induction xs arbitrary: i) (auto split: if_splits)

lemma index_of_append_hit:
  "(\<forall>x \<in> set xs. \<not> P x) \<Longrightarrow> P y \<Longrightarrow> index_of P (xs @ y # ys) = Some (length xs)"
  by (induction xs) auto

section \<open>Bit flags\<close>

text \<open>\<open>flags & X\<close> as a condition, and \<open>flags |= X\<close>.\<close>

definition has_flag :: "byte \<Rightarrow> byte \<Rightarrow> bool" where
  "has_flag f x \<longleftrightarrow> f AND x \<noteq> 0"

lemma has_flag_or [flag_simps]: "has_flag (f OR g) x \<longleftrightarrow> has_flag f x \<or> has_flag g x"
proof -
  have "(f OR g) AND x = (f AND x) OR (g AND x)"
    by (rule bit.conj_disj_distrib2)
  then show ?thesis by (simp add: has_flag_def or_eq_0_iff)
qed

lemma has_flag_of_or [flag_simps]: "has_flag f (x OR y) \<longleftrightarrow> has_flag f x \<or> has_flag f y"
  by (simp add: has_flag_def bit.conj_disj_distrib or_eq_0_iff)

lemma has_flag_zero [simp]: "\<not> has_flag 0 x"
  by (simp add: has_flag_def)

section \<open>Words\<close>

lemma unat_u64: "unat (x :: u64) < 2 ^ 64"
  using unsigned_less [of x] by simp

section \<open>Sums and counts over lists\<close>

lemma count_list_distinct: "distinct xs \<Longrightarrow> x \<in> set xs \<Longrightarrow> count_list xs x = 1"
  by (induction xs) auto

lemma sum_list_update_diff:
  fixes f :: "'a \<Rightarrow> int"
  assumes "i < length xs"
  shows "sum_list (map f (xs[i := y])) = sum_list (map f xs) - f (xs ! i) + f y"
  using assms
proof (induction xs arbitrary: i)
  case Nil
  then show ?case by simp
next
  case (Cons x xs)
  then show ?case by (cases i) auto
qed

lemma member_le_sum_list_int:
  fixes f :: "'a \<Rightarrow> int"
  assumes "x \<in> set xs" and "\<And>y. y \<in> set xs \<Longrightarrow> 0 \<le> f y"
  shows "f x \<le> sum_list (map f xs)"
  using assms
proof (induction xs)
  case Nil
  then show ?case by simp
next
  case (Cons a xs)
  have "0 \<le> sum_list (map f xs)"
    by (rule sum_list_nonneg) (use Cons.prems(2) in auto)
  moreover have "0 \<le> f a" using Cons.prems(2) by simp
  ultimately show ?case
    using Cons by (cases "x = a") (auto intro: add_increasing)
qed

end
