(* ===== verification/Os_Script.thy ===== *)
theory Os_Script
  imports Prelude
begin

text \<open>
  The operating system as seen by the C code.  A run of the code is driven by a script,
  the list of replies the system will give, and leaves a trace, the calls it made with
  the replies they got.  A theorem about all scripts is a theorem about every behaviour
  of the system.  A reply must be one the manual page of the call allows
  (\<open>documented\<close>); a run that needs more replies than the script holds, or that meets a
  reply its call cannot give, is \<open>None\<close>: there is no such completed run.

  A reply has the call's return value, the \<open>errno\<close> it leaves, the integers it stores
  through pointers (\<open>r_out\<close>) and the bytes it stores (\<open>r_data\<close>).
\<close>

section \<open>Calls, replies and worlds\<close>

record reply =
  r_ret :: int
  r_errno :: int
  r_out :: "int list"
  r_data :: "byte list"

datatype fd_action =
    Add_open int string
  | Add_dup2 int int
  | Add_chdir string
  | Add_close int

text \<open>Calls that make, close or duplicate descriptors.\<close>

datatype fd_call =
    Pipe
  | Pipe2_cloexec
  | Close int
  | Open string
  | Openat int string
  | Mkstemp string
  | Dupfd_cloexec int int \<comment> \<open>descriptor, least number\<close>
  | Dup2 int int
  | Closefrom int
  | Set_cloexec int
  | Set_nonblock int

text \<open>Calls that transfer bytes or look at files.\<close>

datatype io_call =
    Read int nat
  | Write int "byte list"
  | Pread int nat nat
  | Pwrite int "byte list" nat
  | Fsync int
  | Ftruncate int
  | Lseek_start int
  | Fionread int
  | Fstat int
  | Fstatat int string
  | Stat "byte list"
  | Realpath "byte list"
  | Readlinkat int string nat
  | Access string
  | Unlink string

text \<open>The \<open>posix_spawn\<close> family; each returns its error number.\<close>

datatype spawn_call =
    Actions_init
  | Actions_add fd_action
  | Actions_destroy
  | Attr_init
  | Attr_setflags "string list"
  | Attr_setsigmask_empty
  | Attr_setsigdefault_all
  | Attr_destroy
  | Posix_spawn string

datatype proc_call =
    Waitid int
  | Waitpid int bool \<comment> \<open>process, WNOHANG\<close>
  | Kill int int
  | Fork
  | Setsid
  | Setpgid int int
  | Chdir string
  | Execve string
  | Getpid
  | Geteuid

datatype sql_value = Sql_int int | Sql_text string

datatype env_call =
    Getrlimit
  | Setrlimit u64
  | Query string
  | Sigmask_block_pipe
  | Sigmask_restore
  | Sigpending
  | Sigwait_pipe
  | Sigaction_default
  | Sigaction_restore
  | Peercred int
  | Malloc nat
  | Free "byte list"
  | Now
  | Usleep nat
  | Sql string
  | Sql_step "sql_value list" \<comment> \<open>a prepared statement's step, with the values bound to it\<close>
  | Blob_open int
  | Blob_write "byte list" int
  | Curl string

datatype call =
    Fd fd_call
  | Io io_call
  | Spawn spawn_call
  | Proc proc_call
  | Env env_call

section \<open>Documented behaviour\<close>

text \<open>
  What the manual pages promise of a reply and the code relies on: a failing call returns
  -1 and leaves a positive \<open>errno\<close>, a status call returns nothing but 0 or -1, a transfer
  moves no more bytes than asked, the \<open>posix_spawn\<close> family returns an error number.
\<close>

definition out :: "nat \<Rightarrow> reply \<Rightarrow> int" where
  "out i r = (if i < length (r_out r) then r_out r ! i else 0)"

definition fails :: "reply \<Rightarrow> bool" where
  "fails r \<longleftrightarrow> r_ret r = -1 \<and> 0 < r_errno r"

fun documented :: "call \<times> reply \<Rightarrow> bool" where
  "documented (Io (Read _ n), r) =
     (fails r \<or> 0 \<le> r_ret r \<and> r_ret r \<le> int n \<and> r_ret r = int (length (r_data r)))"
| "documented (Io (Pread _ n _), r) =
     (fails r \<or> 0 \<le> r_ret r \<and> r_ret r \<le> int n \<and> r_ret r = int (length (r_data r)))"
| "documented (Io (Write _ bs), r) = (fails r \<or> 0 \<le> r_ret r \<and> r_ret r \<le> int (length bs))"
| "documented (Io (Pwrite _ bs _), r) = (fails r \<or> 0 \<le> r_ret r \<and> r_ret r \<le> int (length bs))"
| "documented (Fd Pipe, r) = (r_ret r = 0 \<and> 0 \<le> out 0 r \<and> 0 \<le> out 1 r \<or> fails r)"
| "documented (Fd Pipe2_cloexec, r) = (r_ret r = 0 \<and> 0 \<le> out 0 r \<and> 0 \<le> out 1 r \<or> fails r)"
| "documented (Fd (Set_cloexec _), r) = (r_ret r = 0 \<or> fails r)"
| "documented (Fd (Set_nonblock _), r) = (r_ret r = 0 \<or> fails r)"
| "documented (Spawn _, r) = (0 \<le> r_ret r)"
| "documented (Env (Malloc n), r) = (r_ret r = 0 \<or> 0 < r_ret r \<and> length (r_data r) = n)"
| "documented (_, r) = (0 \<le> r_ret r \<or> fails r)"

section \<open>Worlds\<close>

record world =
  w_script :: "reply list"
  w_trace :: "(call \<times> reply) list"

definition sys :: "call \<Rightarrow> world \<Rightarrow> (reply \<times> world) option" where
  "sys c w = (case w_script w of
      [] \<Rightarrow> None
    | r # rs \<Rightarrow>
        if documented (c, r)
        then Some (r, w\<lparr>w_script := rs, w_trace := w_trace w @ [(c, r)]\<rparr>)
        else None)"

definition boot :: "reply list \<Rightarrow> world" where
  "boot rs = \<lparr>w_script = rs, w_trace = []\<rparr>"

abbreviation (input) ok :: "int \<Rightarrow> reply" where
  "ok n \<equiv> \<lparr>r_ret = n, r_errno = 0, r_out = [], r_data = []\<rparr>"

abbreviation (input) err :: "int \<Rightarrow> reply" where
  "err e \<equiv> \<lparr>r_ret = -1, r_errno = e, r_out = [], r_data = []\<rparr>"

abbreviation (input) ok_out :: "int \<Rightarrow> int list \<Rightarrow> reply" where
  "ok_out n xs \<equiv> \<lparr>r_ret = n, r_errno = 0, r_out = xs, r_data = []\<rparr>"

abbreviation (input) ok_data :: "byte list \<Rightarrow> reply" where
  "ok_data bs \<equiv> \<lparr>r_ret = int (length bs), r_errno = 0, r_out = [], r_data = bs\<rparr>"

lemma sys_Some:
  "sys c w = Some (r, w') \<longleftrightarrow> documented (c, r) \<and>
     (\<exists>rs. w_script w = r # rs \<and> w' = \<lparr>w_script = rs, w_trace = w_trace w @ [(c, r)]\<rparr>)"
  by (cases w) (auto simp: sys_def split: list.splits)

lemma sys_Cons [simp]:
  "sys c \<lparr>w_script = r # rs, w_trace = t\<rparr> =
     (if documented (c, r) then Some (r, \<lparr>w_script = rs, w_trace = t @ [(c, r)]\<rparr>) else None)"
  by (simp add: sys_def)

lemma sys_Nil [simp]: "sys c \<lparr>w_script = [], w_trace = t\<rparr> = None"
  by (simp add: sys_def)

lemma sys_shrinks: "sys c w = Some (r, w') \<Longrightarrow> length (w_script w') < length (w_script w)"
  by (auto simp: sys_Some)

section \<open>What a run did\<close>

text \<open>\<open>emits w w' es\<close>: between the two worlds the code made exactly the calls \<open>es\<close>.\<close>

definition emits :: "world \<Rightarrow> world \<Rightarrow> (call \<times> reply) list \<Rightarrow> bool" where
  "emits w w' es \<longleftrightarrow>
     w_trace w' = w_trace w @ es \<and> w_script w = map snd es @ w_script w'"

lemma emits_refl [intro, simp]: "emits w w []"
  by (simp add: emits_def)

lemma emits_trans: "emits w w1 es \<Longrightarrow> emits w1 w2 fs \<Longrightarrow> emits w w2 (es @ fs)"
  by (simp add: emits_def)

lemma sys_emits: "sys c w = Some (r, w') \<longleftrightarrow> documented (c, r) \<and> emits w w' [(c, r)]"
  by (cases w, cases w') (auto simp: sys_Some emits_def)

section \<open>Specifications over the trace\<close>

text \<open>
  \<open>runs f \<Phi>\<close>: every completed run of \<open>f\<close> only extends the trace, and its result and its
  own calls satisfy \<open>\<Phi>\<close>.  The rules below decompose a program in the order it is
  written, so a proof is one pass over its text.
\<close>

definition runs :: "(world \<Rightarrow> ('a \<times> world) option) \<Rightarrow> ('a \<Rightarrow> (call \<times> reply) list \<Rightarrow> bool) \<Rightarrow> bool" where
  "runs f \<Phi> \<longleftrightarrow> (\<forall>w x w'. f w = Some (x, w') \<longrightarrow> (\<exists>es. emits w w' es \<and> \<Phi> x es))"

named_theorems runs_intros \<open>decomposition of a program by its text\<close>

lemma runsI:
  "(\<And>w x w'. f w = Some (x, w') \<Longrightarrow> \<exists>es. emits w w' es \<and> \<Phi> x es) \<Longrightarrow> runs f \<Phi>"
  by (simp add: runs_def)

lemma runsD:
  assumes "runs f \<Phi>" and "f w = Some (x, w')"
  obtains es where "emits w w' es" and "\<Phi> x es"
  using assms unfolding runs_def by blast

lemma runs_weaken: "runs f \<Psi> \<Longrightarrow> (\<And>x es. \<Psi> x es \<Longrightarrow> \<Phi> x es) \<Longrightarrow> runs f \<Phi>"
  unfolding runs_def by blast

lemma emits_unique: "emits w w' es \<Longrightarrow> emits w w' fs \<Longrightarrow> es = fs"
  by (simp add: emits_def)

lemma runs_both: "runs f \<Phi> \<Longrightarrow> runs f \<Psi> \<Longrightarrow> runs f (\<lambda>x es. \<Phi> x es \<and> \<Psi> x es)"
  unfolding runs_def using emits_unique by blast

lemma runs_ret: "\<Phi> x [] \<Longrightarrow> runs (\<lambda>w. Some (x, w)) \<Phi>"
  by (auto simp: runs_def)

lemma runs_none: "runs (\<lambda>w. None) \<Phi>"
  by (simp add: runs_def)

lemma runs_sys: "(\<And>r. documented (c, r) \<Longrightarrow> \<Phi> r [(c, r)]) \<Longrightarrow> runs (sys c) \<Phi>"
  by (auto simp: runs_def sys_emits)

lemma runs_if: "(b \<Longrightarrow> runs f \<Phi>) \<Longrightarrow> (\<not> b \<Longrightarrow> runs g \<Phi>) \<Longrightarrow> runs (\<lambda>w. if b then f w else g w) \<Phi>"
  by (cases b) simp_all

lemma runs_let: "runs (f e) \<Phi> \<Longrightarrow> runs (\<lambda>w. Let e (\<lambda>v. f v w)) \<Phi>"
  by simp

lemma runs_pair: "(\<And>a b. p = (a, b) \<Longrightarrow> runs (h a b) \<Phi>) \<Longrightarrow> runs (case_prod h p) \<Phi>"
  by (cases p) simp

lemma runs_bind:
  assumes g: "runs g \<Psi>" and h: "\<And>x es. \<Psi> x es \<Longrightarrow> runs (h x) (\<lambda>y fs. \<Phi> y (es @ fs))"
  shows "runs (\<lambda>w. Option.bind (g w) (case_prod h)) \<Phi>"
proof (rule runsI)
  fix w y w'
  assume "Option.bind (g w) (case_prod h) = Some (y, w')"
  then obtain x w1 where 1: "g w = Some (x, w1)" and 2: "h x w1 = Some (y, w')"
    by auto
  from g 1 obtain es where es: "emits w w1 es" "\<Psi> x es" by (rule runsD)
  from h [OF es(2)] 2 obtain fs where fs: "emits w1 w' fs" "\<Phi> y (es @ fs)"
    by (rule runsD)
  from es(1) fs(1) have "emits w w' (es @ fs)" by (rule emits_trans)
  with fs(2) show "\<exists>es. emits w w' es \<and> \<Phi> y es" by blast
qed

lemma runs_bind_sys:
  "(\<And>r. documented (c, r) \<Longrightarrow> runs (h r) (\<lambda>y fs. \<Phi> y ((c, r) # fs))) \<Longrightarrow>
     runs (\<lambda>w. Option.bind (sys c w) (case_prod h)) \<Phi>"
  by (rule runs_bind [where \<Psi> = "\<lambda>r es. documented (c, r) \<and> es = [(c, r)]"])
    (auto intro: runs_sys)

lemma runs_bind_ret:
  "runs (h x) \<Phi> \<Longrightarrow> runs (\<lambda>w. Option.bind (Some (x, w)) (case_prod h)) \<Phi>"
  by simp

lemma runs_bind_if:
  "(b \<Longrightarrow> runs (\<lambda>w. Option.bind (f w) k) \<Phi>) \<Longrightarrow> (\<not> b \<Longrightarrow> runs (\<lambda>w. Option.bind (g w) k) \<Phi>) \<Longrightarrow>
     runs (\<lambda>w. Option.bind (if b then f w else g w) k) \<Phi>"
  by (cases b) simp_all

lemma runs_case_sum:
  "(\<And>e. s = Inl e \<Longrightarrow> runs (f e) \<Phi>) \<Longrightarrow> (\<And>x. s = Inr x \<Longrightarrow> runs (g x) \<Phi>) \<Longrightarrow>
     runs (\<lambda>w. case s of Inl e \<Rightarrow> f e w | Inr x \<Rightarrow> g x w) \<Phi>"
  by (cases s) simp_all

lemma runs_case_option:
  "(s = None \<Longrightarrow> runs f \<Phi>) \<Longrightarrow> (\<And>x. s = Some x \<Longrightarrow> runs (g x) \<Phi>) \<Longrightarrow>
     runs (\<lambda>w. case s of None \<Rightarrow> f w | Some x \<Rightarrow> g x w) \<Phi>"
  by (cases s) simp_all

lemma runs_bind_case_option:
  "(s = None \<Longrightarrow> runs (\<lambda>w. Option.bind (f w) k) \<Phi>) \<Longrightarrow>
     (\<And>x. s = Some x \<Longrightarrow> runs (\<lambda>w. Option.bind (g x w) k) \<Phi>) \<Longrightarrow>
     runs (\<lambda>w. Option.bind (case s of None \<Rightarrow> f w | Some x \<Rightarrow> g x w) k) \<Phi>"
  by (cases s) simp_all

lemma runs_bind_assoc:
  "runs (\<lambda>w. Option.bind (f w) (\<lambda>p. Option.bind (case_prod g p) (case_prod h))) \<Phi> \<Longrightarrow>
     runs (\<lambda>w. Option.bind (Option.bind (f w) (case_prod g)) (case_prod h)) \<Phi>"
  by (simp add: Option.bind_assoc)

text \<open>A call whose reply is inspected by cases, as a loop does.\<close>

lemma runs_case_sys:
  "(\<And>r. documented (c, r) \<Longrightarrow> runs (h r) (\<lambda>y fs. \<Phi> y ((c, r) # fs))) \<Longrightarrow>
     runs (\<lambda>w. case sys c w of None \<Rightarrow> None | Some (r, w') \<Rightarrow> h r w') \<Phi>"
proof -
  assume h: "\<And>r. documented (c, r) \<Longrightarrow> runs (h r) (\<lambda>y fs. \<Phi> y ((c, r) # fs))"
  have "(\<lambda>w. case sys c w of None \<Rightarrow> None | Some (r, w') \<Rightarrow> h r w') =
    (\<lambda>w. Option.bind (sys c w) (case_prod h))"
    by (rule ext) (simp split: option.split)
  with runs_bind_sys [OF h] show ?thesis by simp
qed

lemmas runs_rules = runs_case_sum runs_case_option runs_bind_case_option runs_case_sys runs_bind_sys runs_bind_ret runs_bind_if runs_if runs_let runs_pair
  runs_ret runs_none runs_sys

lemma runs_shrinks:
  "runs f (\<lambda>_ es. es \<noteq> []) \<Longrightarrow> f w = Some (x, w') \<Longrightarrow> length (w_script w') < length (w_script w)"
  by (erule runsD) (auto simp: emits_def)

section \<open>Calls retried while interrupted\<close>

text \<open>
  \<open>do { r = call; } while (failed(r) && errno == EINTR)\<close>.  The condition for failure is
  the caller's: \<open>!= 0\<close> for \<open>waitid\<close>, \<open>< 0\<close> for the others.
\<close>

definition interrupted :: "(int \<Rightarrow> bool) \<Rightarrow> reply \<Rightarrow> bool" where
  "interrupted failed r \<longleftrightarrow> failed (r_ret r) \<and> r_errno r = EINTR"

function retry_eintr :: "(int \<Rightarrow> bool) \<Rightarrow> call \<Rightarrow> world \<Rightarrow> (reply \<times> world) option" where
  "retry_eintr failed c w =
     (case sys c w of
        None \<Rightarrow> None
      | Some (r, w') \<Rightarrow> if interrupted failed r then retry_eintr failed c w' else Some (r, w'))"
  by pat_completeness auto
termination
  by (relation "measure (\<lambda>(_, _, w). length (w_script w))") (auto dest: sys_shrinks)

declare retry_eintr.simps [simp del]

text \<open>What one retried call leaves: interrupted replies, then one that is not.\<close>

definition retried :: "(int \<Rightarrow> bool) \<Rightarrow> call \<Rightarrow> reply \<Rightarrow> (call \<times> reply) list \<Rightarrow> bool" where
  "retried failed c r es \<longleftrightarrow> documented (c, r) \<and> \<not> interrupted failed r \<and>
     (\<exists>xs. es = map (Pair c) xs @ [(c, r)] \<and> (\<forall>x \<in> set xs. interrupted failed x))"

lemma runs_retry: "runs (retry_eintr failed c) (retried failed c)"
proof (rule runsI)
  fix w x w'
  assume "retry_eintr failed c w = Some (x, w')"
  then show "\<exists>es. emits w w' es \<and> retried failed c x es"
  proof (induction failed c w rule: retry_eintr.induct)
    case (1 failed c w)
    from "1.prems" obtain r w1 where s: "sys c w = Some (r, w1)"
      by (auto simp: retry_eintr.simps [of failed c w] split: option.splits)
    then have d: "documented (c, r)" and e: "emits w w1 [(c, r)]"
      by (simp_all add: sys_emits)
    show ?case
    proof (cases "interrupted failed r")
      case True
      with "1.prems" s have "retry_eintr failed c w1 = Some (x, w')"
        by (simp add: retry_eintr.simps [of failed c w])
      from "1.IH" [OF s refl True this] obtain es xs
        where es: "emits w1 w' es" "documented (c, x)" "\<not> interrupted failed x"
          "es = map (Pair c) xs @ [(c, x)]" "\<forall>x \<in> set xs. interrupted failed x"
        by (auto simp: retried_def)
      have "emits w w' ([(c, r)] @ es)" using e es(1) by (rule emits_trans)
      moreover have "[(c, r)] @ es = map (Pair c) (r # xs) @ [(c, x)]" using es(4) by simp
      ultimately show ?thesis using es True unfolding retried_def
        by (intro exI [of _ "[(c, r)] @ es"]) (auto intro!: exI [of _ "r # xs"])
    next
      case False
      with "1.prems" s have "x = r" "w' = w1"
        by (simp_all add: retry_eintr.simps [of failed c w])
      with d e False show ?thesis
        by (intro exI [of _ "[(c, r)]"]) (auto simp: retried_def)
    qed
  qed
qed

lemma retry_eintr_shrinks:
  "retry_eintr failed c w = Some (r, w') \<Longrightarrow> length (w_script w') < length (w_script w)"
  by (erule runsD [OF runs_retry]) (auto simp: emits_def retried_def)

text \<open>A retried call returns once the system gives a reply that is not an interruption.\<close>

lemma retry_eintr_returns:
  assumes "w_script w = xs @ r # rs" and "\<forall>x \<in> set xs. interrupted failed x \<and> documented (c, x)"
    and "\<not> interrupted failed r" and "documented (c, r)"
  shows "retry_eintr failed c w =
    Some (r, \<lparr>w_script = rs, w_trace = w_trace w @ map (Pair c) xs @ [(c, r)]\<rparr>)"
  using assms
proof (induction xs arbitrary: w)
  case Nil
  then show ?case by (simp add: retry_eintr.simps [of _ _ w] sys_def)
next
  case (Cons x xs)
  let ?w = "w\<lparr>w_script := xs @ r # rs, w_trace := w_trace w @ [(c, x)]\<rparr>"
  have "sys c w = Some (x, ?w)" using Cons.prems by (simp add: sys_def)
  with Cons.prems have "retry_eintr failed c w = retry_eintr failed c ?w"
    by (simp add: retry_eintr.simps [of _ _ w])
  also have "\<dots> = Some (r, \<lparr>w_script = rs, w_trace = w_trace ?w @ map (Pair c) xs @ [(c, r)]\<rparr>)"
    by (rule Cons.IH) (use Cons.prems in auto)
  finally show ?case by simp
qed

lemma retry_eintr_boot:
  assumes "documented (c, r)" and "\<not> interrupted failed r"
    and "failed (-1)" and "documented (c, err EINTR)"
  shows "\<exists>w'. retry_eintr failed c (boot (replicate n (err EINTR) @ r # rs)) = Some (r, w') \<and>
    w_script w' = rs"
  using assms
  by (subst retry_eintr_returns [where xs = "replicate n (err EINTR)" and r = r and rs = rs])
    (auto simp: boot_def interrupted_def)

section \<open>The descriptor ledger\<close>

text \<open>
  \<open>fd_delta e fd\<close> is the number of times the event opens \<open>fd\<close> minus the number of times
  it closes it, and \<open>fd_net\<close> the balance of a whole run.  A routine that leaks a
  descriptor leaves a positive balance, one that closes twice a negative one.
\<close>

fun fd_delta :: "call \<times> reply \<Rightarrow> int \<Rightarrow> int" where
  "fd_delta (Fd Pipe, r) fd =
     (if r_ret r = 0 then of_bool (out 0 r = fd) + of_bool (out 1 r = fd) else 0)"
| "fd_delta (Fd Pipe2_cloexec, r) fd =
     (if r_ret r = 0 then of_bool (out 0 r = fd) + of_bool (out 1 r = fd) else 0)"
| "fd_delta (Fd (Open _), r) fd = of_bool (0 \<le> r_ret r \<and> r_ret r = fd)"
| "fd_delta (Fd (Openat _ _), r) fd = of_bool (0 \<le> r_ret r \<and> r_ret r = fd)"
| "fd_delta (Fd (Mkstemp _), r) fd = of_bool (0 \<le> r_ret r \<and> r_ret r = fd)"
| "fd_delta (Fd (Dupfd_cloexec _ _), r) fd = of_bool (0 \<le> r_ret r \<and> r_ret r = fd)"
| "fd_delta (Fd (Close f), r) fd = - of_bool (f = fd)"
| "fd_delta _ fd = 0"

definition fd_net :: "(call \<times> reply) list \<Rightarrow> int \<Rightarrow> int" where
  "fd_net es fd = sum_list (map (\<lambda>e. fd_delta e fd) es)"

lemma fd_net_Nil [simp]: "fd_net [] fd = 0"
  by (simp add: fd_net_def)

lemma fd_net_Cons [simp]: "fd_net (e # es) fd = fd_delta e fd + fd_net es fd"
  by (simp add: fd_net_def)

lemma fd_net_append [simp]: "fd_net (es @ fs) fd = fd_net es fd + fd_net fs fd"
  by (simp add: fd_net_def)

lemma fd_net_neutral: "(\<forall>e \<in> set es. fd_delta e fd = 0) \<Longrightarrow> fd_net es fd = 0"
  by (induction es) auto

lemma fd_net_retried: "retried failed c r es \<Longrightarrow> (\<And>x. fd_delta (c, x) fd = 0) \<Longrightarrow> fd_net es fd = 0"
  by (auto simp: retried_def intro!: fd_net_neutral)

text \<open>
  The contract of a routine that acquires descriptors: whatever the system replies, the
  run adds to the ledger exactly the descriptors its result owns.
\<close>

definition acquires :: "('r \<Rightarrow> int list) \<Rightarrow> 'r \<Rightarrow> (call \<times> reply) list \<Rightarrow> bool" where
  "acquires owned x es \<longleftrightarrow> (\<forall>fd. fd_net es fd = int (count_list (owned x) fd))"

text \<open>A routine that opens and closes nothing, on balance.\<close>

abbreviation no_fds :: "'a \<Rightarrow> (call \<times> reply) list \<Rightarrow> bool" where
  "no_fds \<equiv> acquires (\<lambda>_. [])"

locale descriptor_discipline =
  fixes op :: "world \<Rightarrow> ('r \<times> world) option"
    and owned :: "'r \<Rightarrow> int list"
  assumes balance: "runs op (acquires owned)"
begin

lemma no_leak:
  "op w = Some (x, w') \<Longrightarrow> owned x = [] \<Longrightarrow> \<exists>es. emits w w' es \<and> (\<forall>fd. fd_net es fd = 0)"
  by (rule runsD [OF balance]) (auto simp: acquires_def)

lemma owns_once:
  "op w = Some (x, w') \<Longrightarrow> distinct (owned x) \<Longrightarrow>
     \<exists>es. emits w w' es \<and> (\<forall>fd. fd_net es fd = of_bool (fd \<in> set (owned x)))"
  by (rule runsD [OF balance]) (auto simp: acquires_def count_list_distinct)

end

end
