(* ===== verification/Bash_Platform.thy ===== *)
theory Bash_Platform
  imports Os_Script
begin

text \<open>
  \<open>src/bash_platform.c\<close>: launching Bash in a session of its own, observing and reaping
  it, and asking about its pipes and its process group.  Out-parameters that a routine
  leaves untouched on a path are returned unchanged.  The branch modelled is the one that
  is not Darwin's, with the Darwin \<open>make_pipe\<close> beside it.
\<close>

section \<open>Observing and reaping\<close>

record rui_bash_observation =
  obs_kind :: int
  obs_value :: int

text \<open>\<open>siginfo_t.si_code\<close> and the wait-status macros of the C library.\<close>

abbreviation (input) CLD_EXITED :: int where "CLD_EXITED \<equiv> 1"
abbreviation (input) CLD_KILLED :: int where "CLD_KILLED \<equiv> 2"
abbreviation (input) CLD_DUMPED :: int where "CLD_DUMPED \<equiv> 3"

definition WIFEXITED :: "int \<Rightarrow> bool" where "WIFEXITED s \<longleftrightarrow> s mod 128 = 0"
definition WEXITSTATUS :: "int \<Rightarrow> int" where "WEXITSTATUS s = s div 256 mod 256"
definition WIFSIGNALED :: "int \<Rightarrow> bool" where "WIFSIGNALED s \<longleftrightarrow> s mod 128 \<noteq> 0 \<and> s mod 128 \<noteq> 127"
definition WTERMSIG :: "int \<Rightarrow> int" where "WTERMSIG s = s mod 128"

lemmas wait_status_defs = WIFEXITED_def WEXITSTATUS_def WIFSIGNALED_def WTERMSIG_def

text \<open>The reply of \<open>waitid\<close> stores \<open>si_pid\<close>, \<open>si_code\<close> and \<open>si_status\<close>.\<close>

definition observe_info :: "reply \<Rightarrow> rui_bash_observation" where
  "observe_info r =
     (if out 1 r = CLD_EXITED then \<lparr>obs_kind = 1, obs_value = out 2 r mod 256\<rparr>
      else if out 1 r = CLD_KILLED \<or> out 1 r = CLD_DUMPED then \<lparr>obs_kind = 2, obs_value = out 2 r\<rparr>
      else \<lparr>obs_kind = 3, obs_value = out 2 r\<rparr>)"

definition rui_bash_observe ::
    "int \<Rightarrow> rui_bash_observation \<Rightarrow> world \<Rightarrow> ((int \<times> rui_bash_observation) \<times> world) option" where
  "rui_bash_observe pid obs w = do {
     (r, w) \<leftarrow> retry_eintr (\<lambda>n. n \<noteq> 0) (Proc (Waitid pid)) w;
     Some (if r_ret r \<noteq> 0 then (- r_errno r, obs)
           else if out 0 r = 0 then (0, obs)
           else (1, observe_info r), w)
   }"

definition reap_info :: "int \<Rightarrow> rui_bash_observation" where
  "reap_info status =
     (if WIFEXITED status then \<lparr>obs_kind = 1, obs_value = WEXITSTATUS status\<rparr>
      else if WIFSIGNALED status then \<lparr>obs_kind = 2, obs_value = WTERMSIG status\<rparr>
      else \<lparr>obs_kind = 3, obs_value = status\<rparr>)"

definition rui_bash_reap ::
    "int \<Rightarrow> rui_bash_observation \<Rightarrow> world \<Rightarrow> ((int \<times> rui_bash_observation) \<times> world) option" where
  "rui_bash_reap pid obs w = do {
     (r, w) \<leftarrow> retry_eintr (\<lambda>n. n < 0) (Proc (Waitpid pid True)) w;
     Some (if r_ret r < 0 then (- r_errno r, obs)
           else if r_ret r = 0 then (0, obs)
           else if r_ret r \<noteq> pid then (- ECHILD, obs)
           else (1, reap_info (out 0 r)), w)
   }"

text \<open>
  How one death of the child is reported by the two calls: \<open>waitid\<close> with a code and a
  status (which may hold all the bits the child passed to \<open>exit\<close>), \<open>waitpid\<close> with one
  encoded integer.
\<close>

datatype death = Exit int | Signalled int bool \<comment> \<open>signal, core dumped\<close>

fun waitid_reply :: "int \<Rightarrow> death \<Rightarrow> reply" where
  "waitid_reply pid (Exit c) = ok_out 0 [pid, CLD_EXITED, c]"
| "waitid_reply pid (Signalled s core) = ok_out 0 [pid, if core then CLD_DUMPED else CLD_KILLED, s]"

fun waitpid_reply :: "int \<Rightarrow> death \<Rightarrow> reply" where
  "waitpid_reply pid (Exit c) = ok_out pid [c mod 256 * 256]"
| "waitpid_reply pid (Signalled s core) = ok_out pid [s + (if core then 128 else 0)]"

fun death_ok :: "death \<Rightarrow> bool" where
  "death_ok (Exit c) = True"
| "death_ok (Signalled s core) = (0 < s \<and> s < 127)"

lemma reap_observe_info:
  "death_ok d \<Longrightarrow> reap_info (out 0 (waitpid_reply pid d)) = observe_info (waitid_reply pid d)"
  by (cases d) (auto simp: reap_info_def observe_info_def wait_status_defs out_def)

section \<open>Pipes and process groups\<close>

text \<open>The two results of \<open>rui_bash_pipe_queued_bytes\<close>: its code and \<open>*bytes\<close>.\<close>

definition rui_bash_pipe_queued_bytes ::
    "int \<Rightarrow> u64 \<Rightarrow> world \<Rightarrow> ((int \<times> u64) \<times> world) option" where
  "rui_bash_pipe_queued_bytes fd bytes w = do {
     (r, w) \<leftarrow> sys (Io (Fionread fd)) w;
     Some (if r_ret r \<noteq> 0 then (- r_errno r, bytes)
           else if out 0 r < 0 then (- EIO, bytes)
           else (0, word_of_int (out 0 r)), w)
   }"

definition rui_bash_group_absent :: "int \<Rightarrow> world \<Rightarrow> (int \<times> world) option" where
  "rui_bash_group_absent pgid w = do {
     (r, w) \<leftarrow> sys (Proc (Kill (- pgid) 0)) w;
     Some (if r_ret r = 0 then 0
           else if r_errno r = ESRCH then 1
           else if r_errno r = EPERM then 0
           else - r_errno r, w)
   }"

text \<open>
  \<open>make_pipe\<close> returns 0 or an error number, and the two descriptors it stores.
\<close>

definition make_pipe :: "world \<Rightarrow> ((int \<times> int \<times> int) \<times> world) option" where
  "make_pipe w = do {
     (r, w) \<leftarrow> sys (Fd Pipe2_cloexec) w;
     Some (if r_ret r = 0 then (0, out 0 r, out 1 r) else (r_errno r, -1, -1), w)
   }"

definition make_pipe_darwin :: "world \<Rightarrow> ((int \<times> int \<times> int) \<times> world) option" where
  "make_pipe_darwin w = do {
     (p, w) \<leftarrow> sys (Fd Pipe) w;
     if r_ret p \<noteq> 0 then Some ((r_errno p, -1, -1), w)
     else do {
       (a, w) \<leftarrow> sys (Fd (Set_cloexec (out 0 p))) w;
       (b, w) \<leftarrow> (if r_ret a = 0 then sys (Fd (Set_cloexec (out 1 p))) w else Some (a, w));
       if r_ret a = 0 \<and> r_ret b = 0 then Some ((0, out 0 p, out 1 p), w)
       else do {
         (_, w) \<leftarrow> sys (Fd (Close (out 0 p))) w;
         (_, w) \<leftarrow> sys (Fd (Close (out 1 p))) w;
         Some ((r_errno b, -1, -1), w)
       }
     }
   }"

section \<open>Spawning\<close>

text \<open>\<open>if (result == 0) result = call;\<close>\<close>

definition when_ok :: "int \<Rightarrow> call \<Rightarrow> world \<Rightarrow> (int \<times> world) option" where
  "when_ok result c w =
     (if result = 0 then do { (r, w) \<leftarrow> sys c w; Some (r_ret r, w) } else Some (result, w))"

definition spawn_flags :: "string list" where
  "spawn_flags = [''POSIX_SPAWN_SETSID'', ''POSIX_SPAWN_SETSIGMASK'', ''POSIX_SPAWN_SETSIGDEF'']"

text \<open>
  The prepared part of \<open>rui_bash_spawn\<close>: file actions and attributes, the spawn itself,
  and their destruction.  The result is the error number and the child's process number,
  which \<open>posix_spawnp\<close> stores.
\<close>

definition spawn_actions ::
    "string \<Rightarrow> int \<Rightarrow> int \<Rightarrow> int \<Rightarrow> int \<Rightarrow> world \<Rightarrow> (int \<times> world) option" where
  "spawn_actions cwd stdin_read out_w err_w result w = do {
     (result, w) \<leftarrow> when_ok result (Spawn (Actions_add (Add_chdir cwd))) w;
     (result, w) \<leftarrow> when_ok result (Spawn (Actions_add
         (if stdin_read < 0 then Add_open 0 ''/dev/null'' else Add_dup2 stdin_read 0))) w;
     (result, w) \<leftarrow> when_ok result (Spawn (Actions_add (Add_dup2 out_w 1))) w;
     when_ok result (Spawn (Actions_add (Add_dup2 err_w 2))) w
   }"

definition spawn_attributes :: "int \<Rightarrow> world \<Rightarrow> (int \<times> world) option" where
  "spawn_attributes result w = do {
     (result, w) \<leftarrow> when_ok result (Spawn (Attr_setflags spawn_flags)) w;
     (result, w) \<leftarrow> when_ok result (Spawn Attr_setsigmask_empty) w;
     when_ok result (Spawn Attr_setsigdefault_all) w
   }"

definition posix_spawnp :: "string \<Rightarrow> int \<Rightarrow> int \<Rightarrow> world \<Rightarrow> ((int \<times> int) \<times> world) option" where
  "posix_spawnp path result pid w =
     (if result = 0 then do {
        (r, w) \<leftarrow> sys (Spawn (Posix_spawn path)) w;
        Some ((r_ret r, if r_ret r = 0 then out 0 r else pid), w)
      } else Some ((result, pid), w))"

definition spawn_prepared ::
    "string \<Rightarrow> string \<Rightarrow> int \<Rightarrow> int \<Rightarrow> int \<Rightarrow> int \<Rightarrow> world \<Rightarrow> ((int \<times> int) \<times> world) option" where
  "spawn_prepared path cwd stdin_read out_w err_w pid w = do {
     (init, w) \<leftarrow> sys (Spawn Actions_init) w;
     let have_actions = (r_ret init = 0);
     (result, w) \<leftarrow> spawn_actions cwd stdin_read out_w err_w (r_ret init) w;
     let attempted = (result = 0);
     (result, w) \<leftarrow> when_ok result (Spawn Attr_init) w;
     let have_attributes = (attempted \<and> result = 0);
     (result, w) \<leftarrow> spawn_attributes result w;
     ((result, pid), w) \<leftarrow> posix_spawnp path result pid w;
     (_, w) \<leftarrow> (if have_attributes then sys (Spawn Attr_destroy) w else Some (ok 0, w));
     (_, w) \<leftarrow> (if have_actions then sys (Spawn Actions_destroy) w else Some (ok 0, w));
     Some ((result, pid), w)
   }"

text \<open>What \<open>rui_bash_spawn\<close> gives the caller: its code, \<open>*pid\<close> and the two read ends.\<close>

record spawned =
  sp_result :: int
  sp_pid :: int
  sp_stdout :: int
  sp_stderr :: int

definition rui_bash_spawn ::
    "string \<Rightarrow> string \<Rightarrow> int \<Rightarrow> spawned \<Rightarrow> world \<Rightarrow> (spawned \<times> world) option" where
  "rui_bash_spawn path cwd stdin_read s w = do {
     ((result, out_r, out_w), w) \<leftarrow> make_pipe w;
     if result \<noteq> 0 then Some (s\<lparr>sp_result := result\<rparr>, w)
     else do {
       ((result, err_r, err_w), w) \<leftarrow> make_pipe w;
       if result \<noteq> 0 then do {
         (_, w) \<leftarrow> sys (Fd (Close out_r)) w;
         (_, w) \<leftarrow> sys (Fd (Close out_w)) w;
         Some (s\<lparr>sp_result := result\<rparr>, w)
       }
       else do {
         ((result, pid), w) \<leftarrow> spawn_prepared path cwd stdin_read out_w err_w (sp_pid s) w;
         (_, w) \<leftarrow> sys (Fd (Close out_w)) w;
         (_, w) \<leftarrow> sys (Fd (Close err_w)) w;
         if result \<noteq> 0 then do {
           (_, w) \<leftarrow> sys (Fd (Close out_r)) w;
           (_, w) \<leftarrow> sys (Fd (Close err_r)) w;
           Some (s\<lparr>sp_result := result, sp_pid := pid\<rparr>, w)
         }
         else Some (\<lparr>sp_result = 0, sp_pid = pid, sp_stdout = out_r, sp_stderr = err_r\<rparr>, w)
       }
     }
   }"

section \<open>Descriptor balance\<close>

definition owned_pipe :: "int \<times> int \<times> int \<Rightarrow> int list" where
  "owned_pipe x = (case x of (result, a, b) \<Rightarrow> if result = 0 then [a, b] else [])"

definition owned_spawn :: "spawned \<Rightarrow> int list" where
  "owned_spawn s = (if sp_result s = 0 then [sp_stdout s, sp_stderr s] else [])"

lemma when_ok_fds: "(\<And>r fd. fd_delta (c, r) fd = 0) \<Longrightarrow> runs (when_ok result c) no_fds"
  unfolding when_ok_def by (intro runs_rules) (auto simp: acquires_def)

lemmas bind_when_ok = runs_bind [OF when_ok_fds]

lemma spawn_actions_fds: "runs (spawn_actions cwd si ow ew result) no_fds"
  unfolding spawn_actions_def
  by (intro bind_when_ok when_ok_fds [THEN runs_weaken]) (auto simp: acquires_def)

lemma spawn_attributes_fds: "runs (spawn_attributes result) no_fds"
  unfolding spawn_attributes_def
  by (intro bind_when_ok when_ok_fds [THEN runs_weaken]) (auto simp: acquires_def)

lemma posix_spawnp_fds: "runs (posix_spawnp path result pid) no_fds"
  unfolding posix_spawnp_def by (intro runs_rules) (auto simp: acquires_def)

lemma spawn_prepared_fds: "runs (spawn_prepared path cwd si ow ew pid) no_fds"
  unfolding spawn_prepared_def
  by (intro runs_bind_sys runs_let runs_bind [OF spawn_actions_fds] bind_when_ok
      runs_bind [OF spawn_attributes_fds] runs_bind [OF posix_spawnp_fds] runs_rules)
    (auto simp: acquires_def)

interpretation mp: descriptor_discipline make_pipe owned_pipe
  unfolding descriptor_discipline_def make_pipe_def
  by (intro runs_rules) (auto simp: acquires_def owned_pipe_def fails_def)

interpretation mpd: descriptor_discipline make_pipe_darwin owned_pipe
  unfolding descriptor_discipline_def make_pipe_darwin_def
  by (intro runs_rules) (auto simp: acquires_def owned_pipe_def fails_def)

lemma rui_bash_spawn_fds: "runs (rui_bash_spawn path cwd si s) (acquires owned_spawn)"
  unfolding rui_bash_spawn_def
  by (intro runs_bind [OF mp.balance] runs_bind [OF spawn_prepared_fds] runs_rules)
    (auto simp: acquires_def owned_pipe_def owned_spawn_def)

interpretation bs: descriptor_discipline "rui_bash_spawn path cwd si s" owned_spawn
  for path cwd si s
  by unfold_locales (rule rui_bash_spawn_fds)

section \<open>Spawn objects and the order of the calls\<close>

text \<open>Initialisations minus destructions of the two objects of the \<open>posix_spawn\<close> family.\<close>

fun actions_delta :: "call \<times> reply \<Rightarrow> int" where
  "actions_delta (Spawn Actions_init, r) = of_bool (r_ret r = 0)"
| "actions_delta (Spawn Actions_destroy, r) = -1"
| "actions_delta _ = 0"

fun attr_delta :: "call \<times> reply \<Rightarrow> int" where
  "attr_delta (Spawn Attr_init, r) = of_bool (r_ret r = 0)"
| "attr_delta (Spawn Attr_destroy, r) = -1"
| "attr_delta _ = 0"

definition actions_live :: "(call \<times> reply) list \<Rightarrow> int" where
  "actions_live es = sum_list (map actions_delta es)"

definition attr_live :: "(call \<times> reply) list \<Rightarrow> int" where
  "attr_live es = sum_list (map attr_delta es)"

lemma live_simps [ledger_simps]:
  "actions_live [] = 0" "attr_live [] = 0"
  "actions_live (e # es) = actions_delta e + actions_live es"
  "attr_live (e # es) = attr_delta e + attr_live es"
  "actions_live (es @ fs) = actions_live es + actions_live fs"
  "attr_live (es @ fs) = attr_live es + attr_live fs"
  by (simp_all add: actions_live_def attr_live_def)

text \<open>
  A conditional call succeeds only if the chain was still successful, and then it is
  exactly that call; a call of another kind leaves both objects alone.
\<close>

definition when_ok_post :: "int \<Rightarrow> call \<Rightarrow> int \<Rightarrow> (call \<times> reply) list \<Rightarrow> bool" where
  "when_ok_post result c x es \<longleftrightarrow>
     (if result = 0 then (\<exists>r. es = [(c, r)] \<and> r_ret r = x) else es = [] \<and> x = result)"

lemma when_ok_runs: "runs (when_ok result c) (when_ok_post result c)"
  unfolding when_ok_def by (intro runs_rules) (auto simp: when_ok_post_def)

lemmas bind_when_ok_post = runs_bind [OF when_ok_runs]

definition neutral_chain :: "call list \<Rightarrow> int \<Rightarrow> int \<Rightarrow> (call \<times> reply) list \<Rightarrow> bool" where
  "neutral_chain cs result x es \<longleftrightarrow>
     actions_live es = 0 \<and> attr_live es = 0 \<and> (x = 0 \<longrightarrow> result = 0 \<and> map fst es = cs)"

definition stdin_action :: "int \<Rightarrow> fd_action" where
  "stdin_action si = (if si < 0 then Add_open 0 ''/dev/null'' else Add_dup2 si 0)"

definition prepared_actions :: "string \<Rightarrow> int \<Rightarrow> int \<Rightarrow> int \<Rightarrow> call list" where
  "prepared_actions cwd si ow ew = map (Spawn \<circ> Actions_add)
     [Add_chdir cwd, stdin_action si, Add_dup2 ow 1, Add_dup2 ew 2]"

lemma spawn_actions_chain:
  "runs (spawn_actions cwd si ow ew result) (neutral_chain (prepared_actions cwd si ow ew) result)"
  unfolding spawn_actions_def
  by (intro bind_when_ok_post when_ok_runs [THEN runs_weaken])
    (auto simp: when_ok_post_def neutral_chain_def ledger_simps prepared_actions_def
      stdin_action_def split: if_splits)

definition prepared_attributes :: "call list" where
  "prepared_attributes = map Spawn
     [Attr_setflags spawn_flags, Attr_setsigmask_empty, Attr_setsigdefault_all]"

lemma spawn_attributes_chain:
  "runs (spawn_attributes result) (neutral_chain prepared_attributes result)"
  unfolding spawn_attributes_def
  by (intro bind_when_ok_post when_ok_runs [THEN runs_weaken])
    (auto simp: when_ok_post_def neutral_chain_def ledger_simps prepared_attributes_def
      split: if_splits)

lemma posix_spawnp_chain:
  "runs (posix_spawnp path result pid) (\<lambda>(x, pid') es. neutral_chain [Spawn (Posix_spawn path)] result x es)"
  unfolding posix_spawnp_def
  by (intro runs_rules) (auto simp: neutral_chain_def ledger_simps)

definition prepared_calls :: "string \<Rightarrow> string \<Rightarrow> int \<Rightarrow> int \<Rightarrow> int \<Rightarrow> call list" where
  "prepared_calls path cwd si ow ew =
     [Spawn Actions_init] @ prepared_actions cwd si ow ew @ [Spawn Attr_init] @
     prepared_attributes @ [Spawn (Posix_spawn path), Spawn Attr_destroy, Spawn Actions_destroy]"

lemma spawn_prepared_chain:
  "runs (spawn_prepared path cwd si ow ew pid) (\<lambda>(x, pid') es.
     actions_live es = 0 \<and> attr_live es = 0 \<and>
     (x = 0 \<longrightarrow> map fst es = prepared_calls path cwd si ow ew))"
  unfolding spawn_prepared_def
  by (intro runs_bind_sys runs_let runs_bind [OF spawn_actions_chain] bind_when_ok_post
      runs_bind [OF spawn_attributes_chain] runs_bind [OF posix_spawnp_chain] runs_rules)
    (auto simp: neutral_chain_def when_ok_post_def ledger_simps prepared_calls_def
      split: if_splits)

section \<open>What a launch and an observation guarantee\<close>

text \<open>C7. Whatever the system replies at each step, a launch leaves the Host owning exactly
  the read ends of the two pipes when it succeeds, and no descriptor at all when it fails
  at any point: nothing leaks and nothing is closed twice.\<close>

theorem rui_bash_spawn_owns_read_ends:
  assumes "rui_bash_spawn path cwd si s w = Some (s', w')"
  shows "\<exists>es. emits w w' es \<and>
    (\<forall>fd. fd_net es fd = (if sp_result s' = 0
        then of_bool (sp_stdout s' = fd) + of_bool (sp_stderr s' = fd) else 0))"
  using bs.balance assms
  by (rule runsD) (auto simp: acquires_def owned_spawn_def split: if_splits)

theorem rui_bash_spawn_owns_read_ends_witness:
  "\<exists>s' w' es. rui_bash_spawn ''bash'' ''/tmp'' (-1) \<lparr>sp_result = 0, sp_pid = 0, sp_stdout = 0, sp_stderr = 0\<rparr>
     (boot ([ok_out 0 [5, 6], ok_out 0 [7, 8]] @ replicate 9 (ok 0) @ [ok_out 0 [321]] @ replicate 4 (ok 0)))
       = Some (s', w') \<and> sp_result s' = 0 \<and> sp_pid s' = 321 \<and>
     fd_net es 5 = 1 \<and> fd_net es 6 = 0 \<and> fd_net es 7 = 1 \<and> fd_net es 8 = 0"
proof -
  let ?s = "\<lparr>sp_result = 0, sp_pid = 0, sp_stdout = 0, sp_stderr = 0\<rparr>"
  let ?w = "boot ([ok_out 0 [5, 6], ok_out 0 [7, 8]] @ replicate 9 (ok 0) @ [ok_out 0 [321]] @ replicate 4 (ok 0))"
  let ?s' = "\<lparr>sp_result = 0, sp_pid = 321, sp_stdout = 5, sp_stderr = 7\<rparr>"
  obtain w' where r: "rui_bash_spawn ''bash'' ''/tmp'' (-1) ?s ?w = Some (?s', w')"
    by (simp add: rui_bash_spawn_def make_pipe_def spawn_prepared_def spawn_actions_def
        spawn_attributes_def posix_spawnp_def when_ok_def boot_def out_def numeral_eq_Suc)
  from rui_bash_spawn_owns_read_ends [OF r] obtain es where
    "\<forall>fd. fd_net es fd = of_bool (5 = fd) + of_bool (7 = fd)" by auto
  with r show ?thesis
    by (intro exI [of _ ?s'] exI [of _ w'] exI [of _ es]) simp
qed

lemma make_pipe_call:
  "runs make_pipe (\<lambda>(result, a, b) es. \<exists>r. es = [(Fd Pipe2_cloexec, r)] \<and>
     (result = 0 \<longrightarrow> r_ret r = 0 \<and> a = out 0 r \<and> b = out 1 r))"
  unfolding make_pipe_def by (intro runs_rules) (auto simp: fails_def)

lemma rui_bash_spawn_chain:
  "runs (rui_bash_spawn path cwd si s) (\<lambda>s' es.
     actions_live es = 0 \<and> attr_live es = 0 \<and>
     (sp_result s' = 0 \<longrightarrow> (\<exists>p q fs. es = (Fd Pipe2_cloexec, p) # (Fd Pipe2_cloexec, q) # fs \<and>
        sp_stdout s' = out 0 p \<and> sp_stderr s' = out 0 q \<and>
        map fst fs = prepared_calls path cwd si (out 1 p) (out 1 q) @
          [Fd (Close (out 1 p)), Fd (Close (out 1 q))])))"
  unfolding rui_bash_spawn_def
  by (intro runs_bind [OF make_pipe_call] runs_bind [OF spawn_prepared_chain] runs_rules)
    (auto simp: ledger_simps)

text \<open>C8. The objects given to \<open>posix_spawnp\<close> are destroyed exactly when they were
  initialised, on every path.  A launch that succeeds made exactly this sequence of
  calls: two pipes, the working directory, standard input, output and error, then the
  session, mask and default-signal attributes, then the spawn itself; no step is skipped
  and none comes after the spawn but the clean-up.\<close>

theorem rui_bash_spawn_isolates:
  assumes "rui_bash_spawn path cwd si s w = Some (s', w')"
  shows "\<exists>es. emits w w' es \<and> actions_live es = 0 \<and> attr_live es = 0 \<and>
    (sp_result s' = 0 \<longrightarrow> (\<exists>p q fs. es = (Fd Pipe2_cloexec, p) # (Fd Pipe2_cloexec, q) # fs \<and>
        sp_stdout s' = out 0 p \<and> sp_stderr s' = out 0 q \<and>
        map fst fs = prepared_calls path cwd si (out 1 p) (out 1 q) @
          [Fd (Close (out 1 p)), Fd (Close (out 1 q))]))"
  using rui_bash_spawn_chain assms by (rule runsD) blast

theorem rui_bash_spawn_isolates_witness:
  "\<exists>s' w' es. rui_bash_spawn ''bash'' ''/tmp'' 9 \<lparr>sp_result = 0, sp_pid = 0, sp_stdout = 0, sp_stderr = 0\<rparr>
     (boot ([ok_out 0 [5, 6], ok_out 0 [7, 8], ok 0, ok 2, ok 0, ok 0, ok 0, ok 0, ok 0]))
       = Some (s', w') \<and> emits (boot ([ok_out 0 [5, 6], ok_out 0 [7, 8], ok 0, ok 2, ok 0, ok 0, ok 0, ok 0, ok 0])) w' es \<and>
     sp_result s' = 2 \<and> actions_live es = 0"
proof -
  let ?s = "\<lparr>sp_result = 0, sp_pid = 0, sp_stdout = 0, sp_stderr = 0\<rparr>"
  let ?w = "boot ([ok_out 0 [5, 6], ok_out 0 [7, 8], ok 0, ok 2, ok 0, ok 0, ok 0, ok 0, ok 0])"
  obtain w' where r: "rui_bash_spawn ''bash'' ''/tmp'' 9 ?s ?w = Some (?s\<lparr>sp_result := 2\<rparr>, w')"
    by (simp add: rui_bash_spawn_def make_pipe_def spawn_prepared_def spawn_actions_def
        spawn_attributes_def posix_spawnp_def when_ok_def boot_def out_def)
  from rui_bash_spawn_isolates [OF r] show ?thesis
    by (intro exI [of _ "?s\<lparr>sp_result := 2\<rparr>"] exI [of _ w']) (use r in auto)
qed

text \<open>C9. The observation made without reaping and the later reap agree: for one death of
  the child, an exit with any integer or a signal with or without a core dump, both
  report the same kind and value however often either call is interrupted first.\<close>

theorem rui_bash_observe_agrees_with_reap:
  assumes "0 < pid" and "death_ok d"
  shows "\<exists>obs w1 w2.
    rui_bash_observe pid a (boot (replicate m (err EINTR) @ [waitid_reply pid d])) = Some ((1, obs), w1) \<and>
    rui_bash_reap pid b (boot (replicate n (err EINTR) @ [waitpid_reply pid d])) = Some ((1, obs), w2)"
proof -
  have doc: "documented (Proc (Waitid pid), waitid_reply pid d)"
    "documented (Proc (Waitpid pid True), waitpid_reply pid d)"
    using assms(1) by (cases d; simp)+
  have ret: "r_ret (waitid_reply pid d) = 0" "out 0 (waitid_reply pid d) = pid"
    "r_ret (waitpid_reply pid d) = pid"
    by (cases d; simp add: out_def)+
  obtain w1 where 1: "retry_eintr (\<lambda>n. n \<noteq> 0) (Proc (Waitid pid))
      (boot (replicate m (err EINTR) @ [waitid_reply pid d])) = Some (waitid_reply pid d, w1)"
    using retry_eintr_boot [OF doc(1), of "\<lambda>n. n \<noteq> 0" m "[]"] ret(1)
    by (auto simp: interrupted_def fails_def)
  obtain w2 where 2: "retry_eintr (\<lambda>n. n < 0) (Proc (Waitpid pid True))
      (boot (replicate n (err EINTR) @ [waitpid_reply pid d])) = Some (waitpid_reply pid d, w2)"
    using retry_eintr_boot [OF doc(2), of "\<lambda>n. n < 0" n "[]"] ret(3) assms(1)
    by (auto simp: interrupted_def fails_def)
  show ?thesis
    by (rule exI [of _ "observe_info (waitid_reply pid d)"], rule exI [of _ w1], rule exI [of _ w2])
      (use assms(1) in \<open>simp add: rui_bash_observe_def rui_bash_reap_def 1 2 ret
        reap_observe_info [OF assms(2)]\<close>)
qed

theorem rui_bash_observe_agrees_with_reap_witness:
  "\<exists>obs w1 w2.
    rui_bash_observe 7 \<lparr>obs_kind = 0, obs_value = 0\<rparr> (boot (replicate 2 (err EINTR) @ [waitid_reply 7 (Exit 259)])) = Some ((1, obs), w1) \<and>
    rui_bash_reap 7 \<lparr>obs_kind = 0, obs_value = 0\<rparr> (boot (replicate 0 (err EINTR) @ [waitpid_reply 7 (Exit 259)])) = Some ((1, obs), w2)"
  by (rule rui_bash_observe_agrees_with_reap) simp_all

end
