(* ===== verification/Exact_Io.thy ===== *)
theory Exact_Io
  imports Os_Script
begin

text \<open>
  Transferring whole buffers.  The C sources repeat one loop: advance by what \<open>write\<close> took
  and go on unless the reply ends it.  They differ in the replies that end it: \<open>go r\<close> says
  that the loop goes on after \<open>r\<close> (a failed call took nothing, so the same bytes are
  written again).  \<open>write_loop\<close> returns the reply it stopped at, if it stopped.  The contract
  of all the routines is the locale \<open>exact_writer\<close>.
\<close>

function write_loop :: "(reply \<Rightarrow> bool) \<Rightarrow> int \<Rightarrow> byte list \<Rightarrow> world \<Rightarrow> (reply option \<times> world) option" where
  "write_loop go fd bytes w =
     (if bytes = [] then Some (None, w)
      else (case sys (Io (Write fd bytes)) w of
          None \<Rightarrow> None
        | Some (r, w') \<Rightarrow>
            if go r then write_loop go fd (drop (nat (r_ret r)) bytes) w' else Some (Some r, w')))"
  by pat_completeness auto
termination
  by (relation "measure (\<lambda>(_, _, _, w). length (w_script w))") (auto dest: sys_shrinks)

declare write_loop.simps [simp del]

text \<open>The three kinds of loop: which replies they go on after.\<close>

definition progress :: "reply \<Rightarrow> bool" where
  "progress r \<longleftrightarrow> 0 < r_ret r"

definition progress_or_eintr :: "reply \<Rightarrow> bool" where
  "progress_or_eintr r \<longleftrightarrow> 0 < r_ret r \<or> r_ret r < 0 \<and> r_errno r = EINTR"

definition no_error_or_eintr :: "reply \<Rightarrow> bool" where
  "no_error_or_eintr r \<longleftrightarrow> 0 \<le> r_ret r \<or> r_errno r = EINTR"

lemmas go_defs = progress_def progress_or_eintr_def no_error_or_eintr_def

section \<open>What a run wrote\<close>

fun written :: "int \<Rightarrow> (call \<times> reply) list \<Rightarrow> byte list" where
  "written fd [] = []"
| "written fd ((Io (Write f bs), r) # es) =
     (if f = fd then take (nat (r_ret r)) bs else []) @ written fd es"
| "written fd (e # es) = written fd es"

lemma written_append [simp]: "written fd (es @ fs) = written fd es @ written fd fs"
  by (induction fd es rule: written.induct) auto

definition writes_only :: "int \<Rightarrow> (call \<times> reply) list \<Rightarrow> bool" where
  "writes_only fd es \<longleftrightarrow> (\<forall>e \<in> set es. \<exists>bs. fst e = Io (Write fd bs))"

lemma writes_only_Nil [simp]: "writes_only fd []"
  by (simp add: writes_only_def)

lemma writes_only_Cons [simp]:
  "writes_only fd (e # es) \<longleftrightarrow> (\<exists>bs. fst e = Io (Write fd bs)) \<and> writes_only fd es"
  by (auto simp: writes_only_def)

lemma fd_net_writes_only: "writes_only fd es \<Longrightarrow> fd_net es x = 0"
  by (rule fd_net_neutral) (force simp: writes_only_def)

definition write_spec :: "int \<Rightarrow> byte list \<Rightarrow> bool \<Rightarrow> (call \<times> reply) list \<Rightarrow> bool" where
  "write_spec fd bytes complete es \<longleftrightarrow> writes_only fd es \<and>
     (\<exists>rest. bytes = written fd es @ rest \<and> (complete \<longleftrightarrow> rest = []))"

lemma write_spec_done: "write_spec fd bytes True es \<Longrightarrow> written fd es = bytes"
  by (auto simp: write_spec_def)

definition goes_on_progress :: "(reply \<Rightarrow> bool) \<Rightarrow> bool" where
  "goes_on_progress go \<longleftrightarrow> (\<forall>r. 0 < r_ret r \<longrightarrow> go r)"

lemma goes_on_progress_cases [simp]:
  "goes_on_progress progress" "goes_on_progress progress_or_eintr" "goes_on_progress no_error_or_eintr"
  by (simp_all add: goes_on_progress_def go_defs)

definition stopped :: "(reply \<Rightarrow> bool) \<Rightarrow> reply option \<Rightarrow> bool" where
  "stopped go x \<longleftrightarrow> (case x of None \<Rightarrow> True | Some r \<Rightarrow> \<not> go r \<and> (r_ret r \<ge> 0 \<or> fails r))"

lemma runs_write_loop:
  assumes "goes_on_progress go"
  shows "runs (write_loop go fd bytes) (\<lambda>x es. write_spec fd bytes (x = None) es \<and> stopped go x)"
proof (rule runsI)
  fix w x w'
  assume "write_loop go fd bytes w = Some (x, w')"
  with assms show "\<exists>es. emits w w' es \<and> write_spec fd bytes (x = None) es \<and> stopped go x"
  proof (induction go fd bytes w rule: write_loop.induct)
    case (1 go fd bytes w)
    note run = "1.prems"(2)
    show ?case
    proof (cases "bytes = []")
      case True
      with run have "x = None" "w' = w" by (simp_all add: write_loop.simps [of go fd "[]" w])
      with True show ?thesis
        by (intro exI [of _ "[]"]) (simp add: write_spec_def stopped_def)
    next
      case False
      with run obtain r w1 where s: "sys (Io (Write fd bytes)) w = Some (r, w1)"
        by (auto simp: write_loop.simps [of go fd bytes w] split: option.splits)
      let ?e = "(Io (Write fd bytes), r)"
      from s have d: "documented ?e" and e: "emits w w1 [?e]" by (simp_all add: sys_emits)
      show ?thesis
      proof (cases "go r")
        case True
        let ?rest = "drop (nat (r_ret r)) bytes"
        from run s False True have "write_loop go fd ?rest w1 = Some (x, w')"
          by (simp add: write_loop.simps [of go fd bytes w])
        from "1.IH" [OF False s refl True "1.prems"(1) this] obtain es
          where es: "emits w1 w' es" "write_spec fd ?rest (x = None) es" "stopped go x" by blast
        have "bytes = written fd [?e] @ ?rest" by simp
        with es(2) have "write_spec fd bytes (x = None) (?e # es)"
          unfolding write_spec_def
          by (metis append.assoc append_Cons append_Nil fst_conv writes_only_Cons written_append)
        moreover have "emits w w' (?e # es)" using emits_trans [OF e es(1)] by simp
        ultimately show ?thesis using es(3) by blast
      next
        case stop: False
        with run s False have x: "x = Some r" "w' = w1"
          by (simp_all add: write_loop.simps [of go fd bytes w])
        from stop "1.prems"(1) have "r_ret r \<le> 0" by (auto simp: goes_on_progress_def not_less [symmetric])
        with e d x False stop show ?thesis
          by (intro exI [of _ "[?e]"]) (auto simp: write_spec_def stopped_def fails_def)
      qed
    qed
  qed
qed

section \<open>The contract\<close>

text \<open>
  \<open>wr fd bytes\<close> reports success by \<open>good\<close>.  It writes to \<open>fd\<close> only, what it wrote is a
  prefix of \<open>bytes\<close>, and it is all of it exactly when it reports success.
\<close>

locale exact_writer =
  fixes wr :: "int \<Rightarrow> byte list \<Rightarrow> world \<Rightarrow> ('r \<times> world) option"
    and good :: "'r \<Rightarrow> bool"
  assumes exact: "runs (wr fd bytes) (\<lambda>x es. write_spec fd bytes (good x) es)"
begin

lemma success_writes_all:
  "wr fd bytes w = Some (x, w') \<Longrightarrow> good x \<Longrightarrow> \<exists>es. emits w w' es \<and> writes_only fd es \<and> written fd es = bytes"
  by (erule runsD [OF exact]) (auto simp: write_spec_def)

lemma failure_writes_less:
  "wr fd bytes w = Some (x, w') \<Longrightarrow> \<not> good x \<Longrightarrow>
     \<exists>es rest. emits w w' es \<and> writes_only fd es \<and> bytes = written fd es @ rest \<and> rest \<noteq> []"
  by (erule runsD [OF exact]) (auto simp: write_spec_def)

lemma neutral: "runs (wr fd bytes) no_fds"
  by (rule runs_weaken [OF exact]) (auto simp: write_spec_def acquires_def fd_net_writes_only)

end

interpretation wl: exact_writer "write_loop progress_or_eintr" "\<lambda>x. x = None"
  by unfold_locales (rule runs_weaken [OF runs_write_loop], simp_all)

text \<open>A routine that runs the loop and reports how it ended.\<close>

definition reporting :: "(reply \<Rightarrow> bool) \<Rightarrow> (reply option \<Rightarrow> 'r) \<Rightarrow> int \<Rightarrow> byte list \<Rightarrow> world \<Rightarrow> ('r \<times> world) option" where
  "reporting go f fd bytes w = do { (x, w) \<leftarrow> write_loop go fd bytes w; Some (f x, w) }"

lemma exact_reporting:
  "goes_on_progress go \<Longrightarrow> (\<And>x. good (f x) \<longleftrightarrow> x = None) \<Longrightarrow> exact_writer (reporting go f) good"
  unfolding reporting_def [abs_def]
  by (unfold_locales, intro runs_bind [OF runs_write_loop] runs_rules) auto

section \<open>Filling a buffer\<close>

text \<open>
  The read loop of \<open>read_proc\<close> and of the receipt loop: it stops at the capacity, at end of
  file or at an error other than an interruption.  The result is the error and the filled
  prefix of the buffer.
\<close>

function read_loop ::
    "int \<Rightarrow> nat \<Rightarrow> byte list \<Rightarrow> world \<Rightarrow> ((int \<times> byte list) \<times> world) option" where
  "read_loop fd cap acc w =
     (if length acc < cap then
        (case sys (Io (Read fd (cap - length acc))) w of
           None \<Rightarrow> None
         | Some (r, w') \<Rightarrow>
             if 0 < r_ret r then read_loop fd cap (acc @ r_data r) w'
             else if r_ret r = 0 then Some ((0, acc), w')
             else if r_errno r \<noteq> EINTR then Some ((r_errno r, acc), w')
             else read_loop fd cap acc w')
      else Some ((0, acc), w))"
  by pat_completeness auto
termination
  by (relation "measure (\<lambda>(_, _, _, w). length (w_script w))") (auto dest: sys_shrinks)

declare read_loop.simps [simp del]


text \<open>The bytes the run read from a descriptor, and the two call shapes of the loop.\<close>

fun file_bytes :: "int \<Rightarrow> (call \<times> reply) list \<Rightarrow> byte list" where
  "file_bytes fd [] = []"
| "file_bytes fd ((Io (Read f n), r) # es) = (if f = fd \<and> 0 < r_ret r then r_data r else []) @ file_bytes fd es"
| "file_bytes fd (e # es) = file_bytes fd es"

lemma file_bytes_append [simp]: "file_bytes fd (es @ fs) = file_bytes fd es @ file_bytes fd fs"
  by (induction fd es rule: file_bytes.induct) auto

definition at_eof :: "int \<Rightarrow> (call \<times> reply) list \<Rightarrow> bool" where
  "at_eof fd es \<longleftrightarrow> (\<exists>xs n r. es = xs @ [(Io (Read fd n), r)] \<and> r_ret r = 0 \<and> 0 < n)"

definition reads_only :: "int \<Rightarrow> (call \<times> reply) list \<Rightarrow> bool" where
  "reads_only fd es \<longleftrightarrow> (\<forall>e \<in> set es. \<exists>n. fst e = Io (Read fd n))"

lemma at_eof_Cons: "at_eof fd es \<Longrightarrow> at_eof fd (e # es)"
  unfolding at_eof_def by (metis append_Cons)

lemma fd_net_reads_only: "reads_only fd es \<Longrightarrow> fd_net es x = 0"
  by (rule fd_net_neutral) (force simp: reads_only_def)

definition read_loop_spec ::
    "int \<Rightarrow> nat \<Rightarrow> byte list \<Rightarrow> int \<times> byte list \<Rightarrow> (call \<times> reply) list \<Rightarrow> bool" where
  "read_loop_spec fd cap acc x es \<longleftrightarrow> reads_only fd es \<and> snd x = acc @ file_bytes fd es \<and>
     (length acc \<le> cap \<longrightarrow> length (snd x) \<le> cap) \<and>
     (fst x = 0 \<longrightarrow> cap \<le> length (snd x) \<or> at_eof fd es) \<and>
     0 \<le> fst x \<and> (length acc < cap \<longrightarrow> es \<noteq> [])"

lemma runs_read_loop: "runs (read_loop fd cap acc) (read_loop_spec fd cap acc)"
proof (rule runsI)
  fix w x w'
  assume "read_loop fd cap acc w = Some (x, w')"
  then show "\<exists>es. emits w w' es \<and> read_loop_spec fd cap acc x es"
  proof (induction fd cap acc w rule: read_loop.induct)
    case (1 fd cap acc w)
    show ?case
    proof (cases "length acc < cap")
      case False
      with "1.prems" have "x = (0, acc)" "w' = w" by (simp_all add: read_loop.simps [of fd cap acc w])
      with False show ?thesis
        by (intro exI [of _ "[]"]) (simp add: read_loop_spec_def reads_only_def)
    next
      case less: True
      with "1.prems" obtain r w1 where s: "sys (Io (Read fd (cap - length acc))) w = Some (r, w1)"
        by (auto simp: read_loop.simps [of fd cap acc w] split: option.splits)
      let ?e = "(Io (Read fd (cap - length acc)), r)"
      from s have d: "documented ?e" and e: "emits w w1 [?e]" by (simp_all add: sys_emits)
      have step: "\<exists>es. emits w w' es \<and> read_loop_spec fd cap acc x es"
        if "emits w1 w' es" "read_loop_spec fd cap (acc @ file_bytes fd [?e]) x es" for es
        using emits_trans [OF e that(1)] that(2) d less
        by (intro exI [of _ "?e # es"]) (auto simp: read_loop_spec_def reads_only_def fails_def intro: at_eof_Cons)
      consider "0 < r_ret r" | "r_ret r = 0" | "r_ret r < 0" "r_errno r \<noteq> EINTR"
        | "r_ret r < 0" "r_errno r = EINTR" by linarith
      then show ?thesis
      proof cases
        case 1
        with "1.prems" s less have "read_loop fd cap (acc @ r_data r) w1 = Some (x, w')"
          by (simp add: read_loop.simps [of fd cap acc w])
        from "1.IH"(1) [OF less s refl 1 this] step 1 show ?thesis by auto
      next
        case 2
        with "1.prems" s less have "x = (0, acc)" "w' = w1"
          by (simp_all add: read_loop.simps [of fd cap acc w])
        with e d 2 less show ?thesis
          by (intro exI [of _ "[?e]"]) (auto simp: read_loop_spec_def reads_only_def at_eof_def fails_def)
      next
        case 3
        with "1.prems" s less have "x = (r_errno r, acc)" "w' = w1"
          by (simp_all add: read_loop.simps [of fd cap acc w])
        with e d 3 less show ?thesis
          by (intro exI [of _ "[?e]"]) (auto simp: read_loop_spec_def reads_only_def fails_def)
      next
        case 4
        with "1.prems" s less have "read_loop fd cap acc w1 = Some (x, w')"
          by (simp add: read_loop.simps [of fd cap acc w])
        from "1.IH"(2) [OF less s refl _ _ _ this] 4 obtain es
          where es: "emits w1 w' es" "read_loop_spec fd cap acc x es" by auto
        with step 4 show ?thesis by simp
      qed
    qed
  qed
qed

end
