(* ===== verification/Host_Identity.thy ===== *)
theory Host_Identity
  imports Exact_Io
begin

text \<open>
  \<open>src/host_identity.c\<close>: who is at the other end of a socket, when a process started,
  and a snapshot of its executable, arguments and environment taken twice and compared.

  A C string held in a byte buffer is the bytes before its first NUL (\<open>cstr\<close>).  Cursors
  into a buffer are the remaining bytes; offsets are differences of lengths.  Both the
  Linux and the Darwin branch are modelled, under the names \<open>..._linux\<close> and
  \<open>..._darwin\<close>; a Linux name without suffix is code that only exists there.
\<close>

section \<open>Strings in buffers\<close>

abbreviation (input) b_nul :: byte where "b_nul \<equiv> 0"
abbreviation (input) b_space :: byte where "b_space \<equiv> 32"
abbreviation (input) b_close :: byte where "b_close \<equiv> 41"
abbreviation (input) b_slash :: byte where "b_slash \<equiv> 47"
abbreviation (input) b_zero :: byte where "b_zero \<equiv> 48"
abbreviation (input) b_nine :: byte where "b_nine \<equiv> 57"
abbreviation (input) b_equals :: byte where "b_equals \<equiv> 61"

definition cstr :: "byte list \<Rightarrow> byte list" where
  "cstr bs = takeWhile (\<lambda>b. b \<noteq> b_nul) bs"

definition is_digit :: "byte \<Rightarrow> bool" where
  "is_digit b \<longleftrightarrow> b_zero \<le> b \<and> b \<le> b_nine"

definition is_space :: "byte \<Rightarrow> bool" where
  "is_space b \<longleftrightarrow> b = b_space \<or> 9 \<le> b \<and> b \<le> 13"

definition digits_value :: "byte list \<Rightarrow> nat" where
  "digits_value ds = foldl (\<lambda>n d. 10 * n + (unat d - 48)) 0 ds"

text \<open>\<open>wipe\<close> zeroes a buffer.\<close>

fun wipe :: "byte list \<Rightarrow> byte list" where
  "wipe [] = []"
| "wipe (b # bs) = 0 # wipe bs"

lemma wipe_eq: "wipe bs = replicate (length bs) 0"
  by (induction bs) simp_all

text \<open>\<open>strrchr\<close>: the bytes after the last occurrence, if there is one.\<close>

fun after_last :: "byte \<Rightarrow> byte list \<Rightarrow> byte list option" where
  "after_last c [] = None"
| "after_last c (b # bs) = (case after_last c bs of
      Some rest \<Rightarrow> Some rest
    | None \<Rightarrow> if b = c then Some bs else None)"

text \<open>\<open>strstr\<close>: the suffix that starts with the needle.\<close>

fun find_sub :: "byte list \<Rightarrow> byte list \<Rightarrow> byte list option" where
  "find_sub needle [] = (if needle = [] then Some [] else None)"
| "find_sub needle (b # bs) =
     (if take (length needle) (b # bs) = needle then Some (b # bs) else find_sub needle bs)"

section \<open>The peer of a socket\<close>

definition rui_host_peer_pid_linux ::
    "bool \<Rightarrow> int \<Rightarrow> int \<Rightarrow> world \<Rightarrow> ((int \<times> int) \<times> world) option" where
  "rui_host_peer_pid_linux pid_given socket old w =
     (if \<not> pid_given then Some ((EINVAL, old), w)
      else do {
        (r, w) \<leftarrow> sys (Env (Peercred socket)) w;
        if r_ret r \<noteq> 0 then Some ((r_errno r, 0), w)
        else if out 2 r \<noteq> 12 \<or> out 0 r \<le> 0 then Some ((EIO, 0), w)
        else do {
          (u, w) \<leftarrow> sys (Proc Geteuid) w;
          if out 1 r \<noteq> r_ret u then Some ((EPERM, 0), w)
          else Some ((0, out 0 r), w)
        }
      })"

definition rui_host_peer_pid_darwin ::
    "bool \<Rightarrow> int \<Rightarrow> int \<Rightarrow> world \<Rightarrow> ((int \<times> int) \<times> world) option" where
  "rui_host_peer_pid_darwin pid_given socket old w =
     (if \<not> pid_given then Some ((EINVAL, old), w)
      else do {
        (r, w) \<leftarrow> sys (Env (Query ''getpeereid'')) w;
        if r_ret r \<noteq> 0 then Some ((r_errno r, 0), w)
        else do {
          (u, w) \<leftarrow> sys (Proc Geteuid) w;
          if out 0 r \<noteq> r_ret u then Some ((EPERM, 0), w)
          else do {
            (p, w) \<leftarrow> sys (Env (Peercred socket)) w;
            if r_ret p \<noteq> 0 then Some ((r_errno p, 0), w)
            else if out 1 p \<noteq> 4 \<or> out 0 p \<le> 0 then Some ((EIO, 0), w)
            else Some ((0, out 0 p), w)
          }
        }
      })"

section \<open>The executable of a process\<close>

record identity =
  id_started :: u64
  id_device :: int
  id_inode :: int
  id_executable :: "byte list"

definition no_identity :: identity where
  "no_identity = \<lparr>id_started = 0, id_device = 0, id_inode = 0, id_executable = []\<rparr>"

text \<open>The reply of a \<open>stat\<close> stores device, inode, owner and whether it is a regular file.\<close>

definition canonical :: "byte list \<Rightarrow> identity \<Rightarrow> world \<Rightarrow> ((int \<times> identity) \<times> world) option" where
  "canonical path result w =
     (if path = [] \<or> hd path \<noteq> b_slash then Some ((EINVAL, result), w)
      else do {
        (r, w) \<leftarrow> sys (Io (Realpath path)) w;
        if r_ret r < 0 then Some ((r_errno r, result), w)
        else do {
          let result = result\<lparr>id_executable := cstr (r_data r)\<rparr>;
          (f, w) \<leftarrow> sys (Io (Stat (id_executable result))) w;
          if r_ret f \<noteq> 0 then Some ((r_errno f, result), w)
          else if out 3 f = 0 then Some ((EINVAL, result), w)
          else Some ((0, result\<lparr>id_device := out 0 f, id_inode := out 1 f\<rparr>), w)
        }
      })"

section \<open>Files of /proc\<close>

definition read_proc_extra :: "int \<Rightarrow> world \<Rightarrow> (int \<times> world) option" where
  "read_proc_extra fd w = do {
     (r, w) \<leftarrow> retry_eintr (\<lambda>n. n < 0) (Io (Read fd 1)) w;
     Some (if r_ret r < 0 then r_errno r else if r_ret r = 0 then 0 else E2BIG, w)
   }"

definition read_proc ::
    "int \<Rightarrow> string \<Rightarrow> nat \<Rightarrow> world \<Rightarrow> ((int \<times> byte list) \<times> world) option" where
  "read_proc directory name cap w = do {
     (f, w) \<leftarrow> sys (Fd (Openat directory name)) w;
     if r_ret f < 0 then Some ((r_errno f, []), w)
     else do {
       ((error, bytes), w) \<leftarrow> read_loop (r_ret f) cap [] w;
       (error, w) \<leftarrow> (if error = 0 \<and> length bytes = cap then read_proc_extra (r_ret f) w
                       else Some (error, w));
       (_, w) \<leftarrow> sys (Fd (Close (r_ret f))) w;
       Some ((error, bytes), w)
     }
   }"

section \<open>When a process started\<close>

text \<open>
  The start time in \<open>/proc/PID/stat\<close> is field 22; the command name before the last closing
  parenthesis may hold spaces and parentheses itself.  \<open>skip_fields\<close> is the loop over
  fields 3 to 21.
\<close>

fun skip_fields :: "nat \<Rightarrow> byte list \<Rightarrow> byte list option" where
  "skip_fields 0 cursor = Some cursor"
| "skip_fields (Suc n) cursor =
     (case index_of (\<lambda>b. b = b_space) cursor of
        None \<Rightarrow> None
      | Some i \<Rightarrow> if i = 0 then None else skip_fields n (drop (Suc i) cursor))"

definition parse_starttime :: "byte list \<Rightarrow> int + u64" where
  "parse_starttime bytes =
     (case after_last b_close (cstr bytes) of
        None \<Rightarrow> Inl EINVAL
      | Some rest \<Rightarrow>
          if rest = [] \<or> hd rest \<noteq> b_space then Inl EINVAL
          else (case skip_fields 19 (tl rest) of
              None \<Rightarrow> Inl EINVAL
            | Some cursor \<Rightarrow>
                if cursor = [] \<or> \<not> is_digit (hd cursor) then Inl EINVAL
                else
                  let ds = takeWhile is_digit cursor;
                      end = dropWhile is_digit cursor;
                      n = digits_value ds
                  in if 2 ^ 64 \<le> n \<or> end = [] \<or> hd end \<noteq> b_space \<or> n = 0 then Inl EINVAL
                     else Inr (word_of_nat n)))"

text \<open>
  One \<open>%lu\<close> of \<open>sscanf\<close>: leading white space, an optional sign, at least one digit; the
  value saturates at the largest \<open>unsigned long\<close> and a minus sign negates it.
\<close>

definition scan_ulong :: "byte list \<Rightarrow> (u64 \<times> byte list) option" where
  "scan_ulong bs =
     (let cs = dropWhile is_space bs;
          neg = (cs \<noteq> [] \<and> hd cs = 45);
          ds = (if cs \<noteq> [] \<and> (hd cs = 45 \<or> hd cs = 43) then tl cs else cs);
          digits = takeWhile is_digit ds;
          v = (if 2 ^ 64 \<le> digits_value digits then -1 else word_of_nat (digits_value digits))
      in if digits = [] then None
         else Some (if neg \<and> digits_value digits < 2 ^ 64 then - v else v, dropWhile is_digit ds))"

text \<open>The effective user in \<open>/proc/PID/status\<close>: the second number of the \<open>Uid:\<close> line.\<close>

definition uid_label :: "byte list" where
  "uid_label = [10, 85, 105, 100, 58, 9]"

definition parse_effective_uid :: "byte list \<Rightarrow> int + u64" where
  "parse_effective_uid bytes =
     (case find_sub uid_label (cstr bytes) of
        None \<Rightarrow> Inl EINVAL
      | Some uids \<Rightarrow>
          (case scan_ulong (drop 6 uids) of
             None \<Rightarrow> Inl EINVAL
           | Some (_, rest) \<Rightarrow>
               (case scan_ulong rest of None \<Rightarrow> Inl EINVAL | Some (e, _) \<Rightarrow> Inr e)))"

definition check_effective_uid :: "byte list \<Rightarrow> world \<Rightarrow> (int \<times> world) option" where
  "check_effective_uid bytes w =
     (case parse_effective_uid bytes of
        Inl e \<Rightarrow> Some (e, w)
      | Inr uid \<Rightarrow> do {
          (u, w) \<leftarrow> sys (Proc Geteuid) w;
          Some (if uid \<noteq> word_of_int (r_ret u) then EPERM else 0, w)
        })"

text \<open>The result is the error and \<open>*started\<close>, which stays at its old value until it is parsed.\<close>

definition observe_generation_linux ::
    "int \<Rightarrow> u64 \<Rightarrow> world \<Rightarrow> ((int \<times> u64) \<times> world) option" where
  "observe_generation_linux directory started w = do {
     (d, w) \<leftarrow> sys (Io (Fstat directory)) w;
     if r_ret d \<noteq> 0 then Some ((r_errno d, started), w)
     else do {
       (u, w) \<leftarrow> sys (Proc Geteuid) w;
       if out 2 d \<noteq> r_ret u then Some ((EPERM, started), w)
       else do {
         ((error, bytes), w) \<leftarrow> read_proc directory ''stat'' 4095 w;
         if error \<noteq> 0 then Some ((error, started), w)
         else (case parse_starttime bytes of
             Inl e \<Rightarrow> Some ((e, started), w)
           | Inr t \<Rightarrow> do {
               ((error, bytes), w) \<leftarrow> read_proc directory ''status'' 4095 w;
               if error \<noteq> 0 then Some ((error, t), w)
               else do {
                 (error, w) \<leftarrow> check_effective_uid bytes w;
                 Some ((error, t), w)
               }
             })
       }
     }
   }"

text \<open>
  Darwin stores process number, user, seconds and microseconds; the sum in microseconds
  must fit 64 bits.
\<close>

definition darwin_started :: "u64 \<Rightarrow> u64 \<Rightarrow> u64 \<Rightarrow> int \<times> u64" where
  "darwin_started sec usec started =
     (let top = (-1) div 1000000; rest = (-1) mod 1000000
      in if sec > top \<or> usec \<ge> 1000000 \<or> (sec = top \<and> usec > rest) then (EINVAL, started)
         else let sum = sec * 1000000 + usec
              in if sum = 0 then (EINVAL, sum) else (0, sum))"

definition observe_generation_darwin ::
    "int \<Rightarrow> u64 \<Rightarrow> world \<Rightarrow> ((int \<times> u64) \<times> world) option" where
  "observe_generation_darwin pid started w = do {
     (p, w) \<leftarrow> sys (Env (Query ''PROC_PIDTBSDINFO'')) w;
     if r_ret p \<noteq> 136 then Some ((if r_errno p \<noteq> 0 then r_errno p else ESRCH, started), w)
     else do {
       (u, w) \<leftarrow> sys (Proc Geteuid) w;
       if out 0 p \<noteq> pid \<or> out 1 p \<noteq> r_ret u then Some ((EPERM, started), w)
       else Some (darwin_started (word_of_int (out 2 p)) (word_of_int (out 3 p)) started, w)
     }
   }"

section \<open>One observation of a process\<close>

definition observe_linux ::
    "int \<Rightarrow> identity \<Rightarrow> world \<Rightarrow> ((int \<times> identity) \<times> world) option" where
  "observe_linux directory result w = do {
     ((error, t), w) \<leftarrow> observe_generation_linux directory (id_started result) w;
     let result = result\<lparr>id_started := t\<rparr>;
     if error \<noteq> 0 then Some ((error, result), w)
     else do {
       (l, w) \<leftarrow> sys (Io (Readlinkat directory ''exe'' 4095)) w;
       if r_ret l < 0 then Some ((r_errno l, result), w)
       else if r_ret l = 4095 then Some ((ENAMETOOLONG, result), w)
       else do {
         ((error, result), w) \<leftarrow> canonical (cstr (take (nat (r_ret l)) (r_data l))) result w;
         if error \<noteq> 0 then Some ((error, result), w)
         else do {
           (a, w) \<leftarrow> sys (Io (Fstatat directory ''exe'')) w;
           if r_ret a \<noteq> 0 then Some ((r_errno a, result), w)
           else if out 0 a \<noteq> id_device result \<or> out 1 a \<noteq> id_inode result
             then Some ((ESTALE, result), w)
           else Some ((0, result), w)
         }
       }
     }
   }"

definition observe_darwin ::
    "int \<Rightarrow> identity \<Rightarrow> world \<Rightarrow> ((int \<times> identity) \<times> world) option" where
  "observe_darwin pid result w = do {
     (c, w) \<leftarrow> sys (Env (Query ''csops'')) w;
     if r_ret c \<noteq> 0 then Some ((r_errno c, result), w)
     else if (word_of_int (out 0 c) :: u32) AND 0x800 \<noteq> 0 then Some ((EPERM, result), w)
     else do {
       ((error, t), w) \<leftarrow> observe_generation_darwin pid (id_started result) w;
       let result = result\<lparr>id_started := t\<rparr>;
       if error \<noteq> 0 then Some ((error, result), w)
       else do {
         (p, w) \<leftarrow> sys (Env (Query ''proc_pidpath'')) w;
         if r_ret p \<le> 0 then Some ((if r_errno p \<noteq> 0 then r_errno p else ESRCH, result), w)
         else if b_nul \<notin> set (r_data p) then Some ((ENAMETOOLONG, result), w)
         else canonical (cstr (r_data p)) result w
       }
     }
   }"

section \<open>Arguments and environment\<close>

text \<open>
  What \<open>arguments\<close> leaves: the written prefix of the caller's buffer and the three outputs,
  the length of arguments and environment, how many arguments there are and where the
  environment begins.
\<close>

record arguments =
  ar_bytes :: "byte list"
  ar_len :: nat
  ar_argc :: nat
  ar_env :: nat

definition no_arguments :: arguments where
  "no_arguments = \<lparr>ar_bytes = [], ar_len = 0, ar_argc = 0, ar_env = 0\<rparr>"

definition arguments_linux ::
    "int \<Rightarrow> nat \<Rightarrow> world \<Rightarrow> ((int \<times> arguments) \<times> world) option" where
  "arguments_linux directory cap w = do {
     ((error, args), w) \<leftarrow> read_proc directory ''cmdline'' cap w;
     if error \<noteq> 0 then Some ((error, no_arguments\<lparr>ar_bytes := args\<rparr>), w)
     else if args = [] \<or> last args \<noteq> b_nul then Some ((EINVAL, no_arguments\<lparr>ar_bytes := args\<rparr>), w)
     else do {
       let argc = length (filter (\<lambda>b. b = b_nul) args);
       ((error, env), w) \<leftarrow> read_proc directory ''environ'' (cap - length args) w;
       Some ((error, \<lparr>ar_bytes = args @ env,
         ar_len = (if error = 0 then length args + length env else 0),
         ar_argc = argc, ar_env = length args\<rparr>), w)
     }
   }"

text \<open>
  The buffer of \<open>KERN_PROCARGS2\<close>: the argument count, the executable's path, padding, the
  arguments, the environment, an empty string, and bytes of no interest.  \<open>skip_strings n\<close>
  moves over \<open>n\<close> terminated strings; \<open>skip_environment\<close> over strings up to an empty one or
  the end of the buffer.
\<close>

definition after_nul :: "byte list \<Rightarrow> byte list option" where
  "after_nul cursor = map_option (\<lambda>i. drop (Suc i) cursor) (index_of (\<lambda>b. b = b_nul) cursor)"

lemma after_nul_length: "after_nul cursor = Some rest \<Longrightarrow> length rest < length cursor"
  by (auto simp: after_nul_def index_of_Some)

fun skip_strings :: "nat \<Rightarrow> byte list \<Rightarrow> byte list option" where
  "skip_strings 0 cursor = Some cursor"
| "skip_strings (Suc n) cursor =
     (if cursor = [] then None
      else (case after_nul cursor of None \<Rightarrow> None | Some rest \<Rightarrow> skip_strings n rest))"

function skip_environment :: "byte list \<Rightarrow> byte list option" where
  "skip_environment cursor =
     (if cursor = [] \<or> hd cursor = b_nul then Some cursor
      else (case after_nul cursor of None \<Rightarrow> None | Some rest \<Rightarrow> skip_environment rest))"
  by pat_completeness auto
termination
  by (relation "measure length") (auto dest: after_nul_length)

declare skip_environment.simps [simp del]

definition le_int32 :: "byte list \<Rightarrow> int" where
  "le_int32 bs = sint (word_of_int (uint (bs ! 0) + 2 ^ 8 * uint (bs ! 1) +
     2 ^ 16 * uint (bs ! 2) + 2 ^ 24 * uint (bs ! 3)) :: u32)"

definition parse_procargs :: "byte list \<Rightarrow> int + arguments" where
  "parse_procargs data =
     (if length data < 4 then Inl EINVAL
      else let count = le_int32 (take 4 data) in
        if count \<le> 0 \<or> int (length data) - 4 < count then Inl EINVAL
        else (case after_nul (drop 4 data) of
            None \<Rightarrow> Inl EINVAL
          | Some rest \<Rightarrow>
              let start = dropWhile (\<lambda>b. b = b_nul) rest in
              (case skip_strings (nat count) start of
                 None \<Rightarrow> Inl EINVAL
               | Some cursor \<Rightarrow>
                   (case skip_environment cursor of
                      None \<Rightarrow> Inl EINVAL
                    | Some rest \<Rightarrow>
                        let kept = take (length start - length rest) start
                        in Inr \<lparr>ar_bytes = kept @ wipe (drop (length kept) data),
                             ar_len = length kept, ar_argc = nat count,
                             ar_env = length start - length cursor\<rparr>))))"

definition arguments_darwin ::
    "nat \<Rightarrow> world \<Rightarrow> ((int \<times> arguments) \<times> world) option" where
  "arguments_darwin cap w = do {
     (m, w) \<leftarrow> sys (Env (Query ''KERN_ARGMAX'')) w;
     if r_ret m \<noteq> 0 then Some ((r_errno m, no_arguments), w)
     else if out 1 m \<noteq> 4 \<or> out 0 m \<le> 0 then Some ((EINVAL, no_arguments), w)
     else do {
       let kernel_cap = nat (out 0 m) + 4;
       let used = min cap kernel_cap;
       (s, w) \<leftarrow> sys (Env (Query ''KERN_PROCARGS2 size'')) w;
       if r_ret s \<noteq> 0 then Some ((r_errno s, no_arguments), w)
       else if int used < out 0 s then Some ((E2BIG, no_arguments), w)
       else do {
         (d, w) \<leftarrow> sys (Env (Query ''KERN_PROCARGS2'')) w;
         if r_ret d \<noteq> 0 then Some ((r_errno d, no_arguments), w)
         else if cap < length (r_data d) then Some ((EINVAL, no_arguments), w)
         else (case parse_procargs (r_data d) of
             Inl e \<Rightarrow> Some ((e, no_arguments\<lparr>ar_bytes := r_data d\<rparr>), w)
           | Inr a \<Rightarrow> Some ((0, a), w))
       }
     }
   }"

text \<open>
  \<open>valid_environment\<close>: every entry from \<open>start\<close> on is terminated and has a nonempty name
  before its first equals sign.
\<close>

function valid_entries :: "byte list \<Rightarrow> int" where
  "valid_entries rest =
     (if rest = [] then 0
      else (case index_of (\<lambda>b. b = b_nul) rest of
          None \<Rightarrow> EINVAL
        | Some end \<Rightarrow>
            (case index_of (\<lambda>b. b = b_equals) (take end rest) of
               None \<Rightarrow> EINVAL
             | Some equals \<Rightarrow> if equals = 0 then EINVAL else valid_entries (drop (Suc end) rest))))"
  by pat_completeness auto
termination
  by (relation "measure length") (auto dest: index_of_less)

declare valid_entries.simps [simp del]

definition valid_environment :: "byte list \<Rightarrow> nat \<Rightarrow> nat \<Rightarrow> int" where
  "valid_environment data len start = valid_entries (drop start (take len data))"

section \<open>Generation and snapshot\<close>

text \<open>\<open>directory\<close> is -1 on Darwin and is closed only when it was opened.\<close>

definition close_directory :: "int \<Rightarrow> world \<Rightarrow> (unit \<times> world) option" where
  "close_directory directory w =
     (if directory \<ge> 0 then do { (_, w) \<leftarrow> sys (Fd (Close directory)) w; Some ((), w) }
      else Some ((), w))"

text \<open>
  \<open>rui_process_generation\<close>: the result is the error and \<open>*started\<close>; a null pointer is
  \<open>given = False\<close> and leaves the caller's value \<open>old\<close>.
\<close>

definition generation_of ::
    "(u64 \<Rightarrow> world \<Rightarrow> ((int \<times> u64) \<times> world) option) \<Rightarrow> int \<Rightarrow> world \<Rightarrow> ((int \<times> u64) \<times> world) option"
  where
  "generation_of observe directory w = do {
     ((error, started), w) \<leftarrow> observe 0 w;
     (_, w) \<leftarrow> close_directory directory w;
     Some ((error, if error = 0 then started else 0), w)
   }"

definition rui_process_generation_linux ::
    "int \<Rightarrow> bool \<Rightarrow> u64 \<Rightarrow> world \<Rightarrow> ((int \<times> u64) \<times> world) option" where
  "rui_process_generation_linux pid given old w =
     (if \<not> given then Some ((EINVAL, old), w)
      else if pid \<le> 0 then Some ((EINVAL, 0), w)
      else do {
        (d, w) \<leftarrow> sys (Fd (Open ''/proc/PID'')) w;
        if r_ret d < 0 then Some ((r_errno d, 0), w)
        else generation_of (observe_generation_linux (r_ret d)) (r_ret d) w
      })"

definition rui_process_generation_darwin ::
    "int \<Rightarrow> bool \<Rightarrow> u64 \<Rightarrow> world \<Rightarrow> ((int \<times> u64) \<times> world) option" where
  "rui_process_generation_darwin pid given old w =
     (if \<not> given then Some ((EINVAL, old), w)
      else if pid \<le> 0 then Some ((EINVAL, 0), w)
      else generation_of (observe_generation_darwin pid) (-1) w)"

text \<open>
  The outputs of \<open>rui_process_snapshot\<close>.  \<open>sn_data\<close> is the caller's whole buffer of
  \<open>cap\<close> bytes, \<open>overlay\<close> writes a prefix of it.
\<close>

record snapshot =
  sn_exe :: "byte list"
  sn_data :: "byte list"
  sn_length :: nat
  sn_argc :: nat
  sn_env :: nat
  sn_started :: u64

definition overlay :: "byte list \<Rightarrow> byte list \<Rightarrow> byte list" where
  "overlay buffer bytes = bytes @ drop (length bytes) buffer"

definition empty_snapshot :: "byte list \<Rightarrow> snapshot" where
  "empty_snapshot data = \<lparr>sn_exe = [], sn_data = data, sn_length = 0, sn_argc = 0,
     sn_env = 0, sn_started = 0\<rparr>"

definition store_arguments :: "arguments \<Rightarrow> snapshot \<Rightarrow> snapshot" where
  "store_arguments a s = s\<lparr>sn_data := overlay (sn_data s) (ar_bytes a), sn_length := ar_len a,
     sn_argc := ar_argc a, sn_env := ar_env a\<rparr>"

text \<open>The observations up to the label \<open>done\<close>; \<open>check\<close> is the second buffer, if it was allocated.\<close>

definition snapshot_body ::
    "(identity \<Rightarrow> world \<Rightarrow> ((int \<times> identity) \<times> world) option) \<Rightarrow>
     (nat \<Rightarrow> world \<Rightarrow> ((int \<times> arguments) \<times> world) option) \<Rightarrow>
     nat \<Rightarrow> nat \<Rightarrow> snapshot \<Rightarrow> world \<Rightarrow> ((int \<times> byte list option \<times> snapshot) \<times> world) option" where
  "snapshot_body observe arguments exe_cap cap s w = do {
     ((error, before), w) \<leftarrow> observe no_identity w;
     if error \<noteq> 0 then Some ((error, None, s), w)
     else do {
       ((error, a), w) \<leftarrow> arguments cap w;
       let s = store_arguments a s;
       if error \<noteq> 0 then Some ((error, None, s), w)
       else if valid_environment (sn_data s) (sn_length s) (sn_env s) \<noteq> 0
         then Some ((valid_environment (sn_data s) (sn_length s) (sn_env s), None, s), w)
       else do {
         (m, w) \<leftarrow> sys (Env (Malloc cap)) w;
         if r_ret m = 0 then Some ((ENOMEM, None, s), w)
         else do {
           ((error, b), w) \<leftarrow> arguments cap w;
           let check = overlay (r_data m) (ar_bytes b);
           if error \<noteq> 0 then Some ((error, Some check, s), w)
           else if ar_len b \<noteq> sn_length s \<or> ar_argc b \<noteq> sn_argc s \<or> ar_env b \<noteq> sn_env s \<or>
             take (sn_length s) check \<noteq> take (sn_length s) (sn_data s)
             then Some ((ESTALE, Some check, s), w)
           else do {
             ((error, after), w) \<leftarrow> observe no_identity w;
             if error \<noteq> 0 then Some ((error, Some check, s), w)
             else if id_started before \<noteq> id_started after \<or> id_device before \<noteq> id_device after \<or>
               id_inode before \<noteq> id_inode after \<or> id_executable before \<noteq> id_executable after
               then Some ((ESTALE, Some check, s), w)
             else if exe_cap \<le> length (id_executable before)
               then Some ((ENAMETOOLONG, Some check, s), w)
             else Some ((0, Some check, s\<lparr>sn_exe := id_executable before,
               sn_started := id_started before\<rparr>), w)
           }
         }
       }
     }
   }"

definition snapshot_done ::
    "int \<Rightarrow> int \<times> byte list option \<times> snapshot \<Rightarrow> world \<Rightarrow> ((int \<times> snapshot) \<times> world) option" where
  "snapshot_done directory outcome w =
     (case outcome of (error, check, s) \<Rightarrow> do {
        (_, w) \<leftarrow> close_directory directory w;
        (_, w) \<leftarrow> (case check of
            None \<Rightarrow> Some ((), w)
          | Some buffer \<Rightarrow> do { (_, w) \<leftarrow> sys (Env (Free (wipe buffer))) w; Some ((), w) });
        Some ((error, if error \<noteq> 0 then empty_snapshot (wipe (sn_data s)) else s), w)
      })"

definition rui_process_snapshot_linux ::
    "int \<Rightarrow> bool \<Rightarrow> nat \<Rightarrow> snapshot \<Rightarrow> world \<Rightarrow> ((int \<times> snapshot) \<times> world) option" where
  "rui_process_snapshot_linux pid given exe_cap old w =
     (if pid \<le> 0 \<or> \<not> given \<or> exe_cap = 0 \<or> sn_data old = [] then Some ((EINVAL, old), w)
      else do {
        let s = empty_snapshot (sn_data old);
        (d, w) \<leftarrow> sys (Fd (Open ''/proc/PID'')) w;
        if r_ret d < 0 then Some ((r_errno d, s), w)
        else do {
          (outcome, w) \<leftarrow> snapshot_body (observe_linux (r_ret d)) (arguments_linux (r_ret d))
            exe_cap (length (sn_data old)) s w;
          snapshot_done (r_ret d) outcome w
        }
      })"

definition rui_process_snapshot_darwin ::
    "int \<Rightarrow> bool \<Rightarrow> nat \<Rightarrow> snapshot \<Rightarrow> world \<Rightarrow> ((int \<times> snapshot) \<times> world) option" where
  "rui_process_snapshot_darwin pid given exe_cap old w =
     (if pid \<le> 0 \<or> \<not> given \<or> exe_cap = 0 \<or> sn_data old = [] then Some ((EINVAL, old), w)
      else do {
        (outcome, w) \<leftarrow> snapshot_body (observe_darwin pid) arguments_darwin
          exe_cap (length (sn_data old)) (empty_snapshot (sn_data old)) w;
        snapshot_done (-1) outcome w
      })"

end
