(* ===== verification/Host_Identity_Laws.thy ===== *)
theory Host_Identity_Laws
  imports Host_Identity
begin

text \<open>
  What \<open>Host_Identity\<close> guarantees.  First the formats (decimal fields, environment entries,
  the Darwin argument buffer) with their parsers, then what every run of a routine leaves
  behind (\<open>clean\<close>), then the properties of the snapshot.
\<close>

section \<open>Decimal numbers\<close>

text \<open>How the kernel prints a number.\<close>

definition digit :: "nat \<Rightarrow> byte" where
  "digit n = word_of_nat (48 + n)"

fun decimal :: "nat \<Rightarrow> byte list" where
  "decimal n = (if n < 10 then [digit n] else decimal (n div 10) @ [digit (n mod 10)])"

declare decimal.simps [simp del]

lemma digits_value_snoc: "digits_value (ds @ [d]) = 10 * digits_value ds + (unat d - 48)"
  by (simp add: digits_value_def)

lemma unat_digit: "n < 10 \<Longrightarrow> unat (digit n) = 48 + n"
  unfolding digit_def by (subst unat_of_nat) (simp add: take_bit_nat_eq_self)

lemma digit_is_digit: "n < 10 \<Longrightarrow> is_digit (digit n)"
  unfolding is_digit_def word_le_nat_alt by (simp only: unat_digit) simp

lemma digits_value_decimal: "digits_value (decimal n) = n"
proof (induction n rule: decimal.induct)
  case (1 n)
  show ?case
  proof (cases "n < 10")
    case True
    then show ?thesis by (simp add: decimal.simps [of n] digits_value_def unat_digit)
  next
    case False
    with 1 show ?thesis
      by (simp add: decimal.simps [of n] digits_value_snoc unat_digit)
  qed
qed

lemma decimal_digits: "\<forall>d \<in> set (decimal n). is_digit d"
proof (induction n rule: decimal.induct)
  case (1 n)
  then show ?case
    using digit_is_digit [of n] digit_is_digit [of "n mod 10"]
    by (cases "n < 10") (simp_all add: decimal.simps [of n])
qed

lemma decimal_nonempty [simp]: "decimal n \<noteq> []"
  by (subst decimal.simps) simp

lemma after_last_append: "c \<notin> set ys \<Longrightarrow> after_last c (xs @ c # ys) = Some ys"
proof -
  assume "c \<notin> set ys"
  then have "after_last c ys = None" by (induction ys) auto
  then show ?thesis by (induction xs) auto
qed

lemma skip_fields_strings:
  assumes "\<forall>f \<in> set fs. f \<noteq> [] \<and> b_space \<notin> set f"
  shows "skip_fields (length fs) (concat (map (\<lambda>f. f @ [b_space]) fs) @ rest) = Some rest"
  using assms
proof (induction fs)
  case Nil
  then show ?case by simp
next
  case (Cons f fs)
  then have "index_of (\<lambda>b. b = b_space) (f @ b_space # concat (map (\<lambda>f. f @ [b_space]) fs) @ rest) = Some (length f)"
    by (intro index_of_append_hit) auto
  with Cons show ?case by simp
qed

text \<open>A line of \<open>/proc/PID/stat\<close>: the command name is between parentheses, and field 22 is the start time.\<close>

definition stat_line :: "byte list \<Rightarrow> byte list \<Rightarrow> byte list list \<Rightarrow> nat \<Rightarrow> byte list \<Rightarrow> byte list" where
  "stat_line pid comm middle started rest =
     pid @ [b_space, 40] @ comm @ [b_close, b_space] @ concat (map (\<lambda>f. f @ [b_space]) middle) @
     decimal started @ [b_space] @ rest"

lemma parse_starttime_stat_line:
  assumes "b_nul \<notin> set pid" and "b_nul \<notin> set comm"
    and "length middle = 19"
    and "\<forall>f \<in> set middle. f \<noteq> [] \<and> set f \<inter> {b_nul, b_space, b_close} = {}"
    and "0 < started" and "started < 2 ^ 64"
    and "set rest \<inter> {b_nul, b_close} = {}"
  shows "parse_starttime (stat_line pid comm middle started rest) = Inr (word_of_nat started)"
proof -
  let ?fs = "concat (map (\<lambda>f. f @ [b_space]) middle)"
  let ?tail = "?fs @ decimal started @ b_space # rest"
  have d: "\<forall>x \<in> set (decimal started). is_digit x" by (rule decimal_digits)
  have not: "\<not> is_digit b_nul" "\<not> is_digit b_close" "\<not> is_digit b_space" by (simp_all add: is_digit_def)
  with d have dn: "b_nul \<notin> set (decimal started)" "b_close \<notin> set (decimal started)" by metis+
  have fn: "b_nul \<notin> set ?fs" "b_close \<notin> set ?fs" using assms(4) by auto
  have "cstr (stat_line pid comm middle started rest) = stat_line pid comm middle started rest"
    unfolding cstr_def stat_line_def takeWhile_eq_all_conv
    using assms(1,2,7) dn fn by auto
  moreover have "after_last b_close (stat_line pid comm middle started rest) = Some (b_space # ?tail)"
    using after_last_append [of b_close "b_space # ?tail" "pid @ [b_space, 40] @ comm"] dn fn assms(7)
    by (simp add: stat_line_def)
  moreover have "skip_fields 19 ?tail = Some (decimal started @ b_space # rest)"
    using skip_fields_strings [of middle] assms(3,4) by auto
  moreover have "takeWhile is_digit (decimal started @ b_space # rest) = decimal started"
    using d not by (subst takeWhile_append2) auto
  moreover have "dropWhile is_digit (decimal started @ b_space # rest) = b_space # rest"
    using d not by (subst dropWhile_append2) auto
  moreover have "is_digit (hd (decimal started))" using d by simp
  ultimately show ?thesis
    using assms(5,6) by (simp add: parse_starttime_def digits_value_decimal Let_def)
qed

section \<open>The environment is a sequence of entries\<close>

definition env_entry :: "byte list \<times> byte list \<Rightarrow> byte list" where
  "env_entry e = fst e @ [b_equals] @ snd e @ [b_nul]"

definition env_ok :: "byte list \<times> byte list \<Rightarrow> bool" where
  "env_ok e \<longleftrightarrow> fst e \<noteq> [] \<and> b_equals \<notin> set (fst e) \<and> b_nul \<notin> set (fst e) \<and> b_nul \<notin> set (snd e)"

lemma valid_entries_sound:
  "valid_entries rest = 0 \<Longrightarrow> \<exists>es. rest = concat (map env_entry es) \<and> (\<forall>e \<in> set es. env_ok e)"
proof (induction rest rule: valid_entries.induct)
  case (1 rest)
  show ?case
  proof (cases "rest = []")
    case True
    then show ?thesis by (intro exI [of _ "[]"]) simp
  next
    case False
    with "1.prems" obtain i k where i: "index_of (\<lambda>b. b = b_nul) rest = Some i"
      and k: "index_of (\<lambda>b. b = b_equals) (take i rest) = Some k" and "0 < k"
      and v: "valid_entries (drop (Suc i) rest) = 0"
      by (auto simp: valid_entries.simps [of rest] split: option.splits if_splits)
    then obtain es where es: "drop (Suc i) rest = concat (map env_entry es)" "\<forall>e \<in> set es. env_ok e"
      using "1.IH" [OF False i k] by auto
    from i have i': "i < length rest" "rest ! i = b_nul" "\<forall>j < i. rest ! j \<noteq> b_nul"
      by (auto simp: index_of_Some)
    from k i'(1) have k': "k < i" "rest ! k = b_equals" "\<forall>j < k. rest ! j \<noteq> b_equals"
      by (auto simp: index_of_Some)
    let ?e = "(take k rest, drop (Suc k) (take i rest))"
    have "take i rest = take k rest @ b_equals # drop (Suc k) (take i rest)"
      using k' i'(1) id_take_nth_drop [of k "take i rest"] by (simp add: min_def)
    moreover have "rest = take i rest @ b_nul # drop (Suc i) rest"
      using i' id_take_nth_drop [of i rest] by simp
    ultimately have "rest = env_entry ?e @ drop (Suc i) rest"
      by (metis append.assoc append_Cons append_Nil env_entry_def fst_conv snd_conv)
    moreover have "env_ok ?e"
    proof -
      have "b_nul \<notin> set (take i rest)" using i' by (auto simp: in_set_conv_nth)
      moreover have "set (take k rest) \<subseteq> set (take i rest)" using k'(1) by (simp add: set_take_subset_set_take)
      moreover have "b_equals \<notin> set (take k rest)" using k' by (auto simp: in_set_conv_nth)
      ultimately show ?thesis using \<open>0 < k\<close> False
        by (auto simp: env_ok_def dest: in_set_dropD)
    qed
    ultimately show ?thesis using es by (intro exI [of _ "?e # es"]) simp
  qed
qed

lemma valid_entries_complete:
  "(\<forall>e \<in> set es. env_ok e) \<Longrightarrow> valid_entries (concat (map env_entry es)) = 0"
proof (induction es)
  case Nil
  then show ?case by (simp add: valid_entries.simps)
next
  case (Cons e es)
  obtain k v where e: "e = (k, v)" by (cases e)
  let ?rest = "concat (map env_entry es)"
  from Cons.prems e have ok: "k \<noteq> []" "b_equals \<notin> set k" "b_nul \<notin> set (k @ b_equals # v)"
    by (auto simp: env_ok_def)
  have "index_of (\<lambda>b. b = b_nul) ((k @ b_equals # v) @ b_nul # ?rest) = Some (length (k @ b_equals # v))"
    by (intro index_of_append_hit) (use ok in auto)
  moreover have "index_of (\<lambda>b. b = b_equals) (k @ b_equals # v) = Some (length k)"
    by (intro index_of_append_hit) (use ok in auto)
  ultimately have "valid_entries (k @ b_equals # v @ b_nul # ?rest) = valid_entries ?rest"
    using ok(1) by (simp add: valid_entries.simps [of "k @ b_equals # v @ b_nul # ?rest"])
  moreover have "concat (map env_entry (e # es)) = k @ b_equals # v @ b_nul # ?rest"
    by (simp add: env_entry_def e)
  moreover have "valid_entries ?rest = 0" using Cons by simp
  ultimately show ?case by (simp only:)
qed

lemma valid_environment_iff:
  "valid_environment data len st = 0 \<longleftrightarrow>
     (\<exists>es. drop st (take len data) = concat (map env_entry es) \<and> list_all env_ok es)"
  unfolding valid_environment_def list_all_iff using valid_entries_sound valid_entries_complete by fastforce


section \<open>Start times on Darwin\<close>

lemma darwin_started_exact:
  assumes "darwin_started sec usec old = (0, t)"
  shows "unat t = unat sec * 1000000 + unat usec" and "0 < t" and "usec < 1000000"
proof -
  have top: "unat ((-1 :: u64) div 1000000) = 18446744073709" "unat ((-1 :: u64) mod 1000000) = 551615"
    by (simp_all add: unat_div unat_mod)
  from assms have n: "\<not> sec > (-1) div 1000000" "\<not> usec \<ge> 1000000"
    "\<not> (sec = (-1) div 1000000 \<and> usec > (-1) mod 1000000)"
    and t: "t = sec * 1000000 + usec" "t \<noteq> 0"
    by (auto simp: darwin_started_def Let_def split: if_splits)
  from n(1) have s: "unat sec \<le> 18446744073709" by (simp add: not_less word_le_nat_alt top)
  from n(2) have u: "unat usec < 1000000" by (simp add: not_le word_less_nat_alt)
  have su: "unat sec = 18446744073709 \<Longrightarrow> unat usec \<le> 551615"
  proof -
    assume "unat sec = 18446744073709"
    then have "sec = (-1) div 1000000" by (intro word_unat_eq_iff [THEN iffD2]) (simp only: top)
    with n(3) show ?thesis by (simp add: not_less word_le_nat_alt top)
  qed
  have "unat sec * 1000000 + unat usec < 2 ^ 64"
    using s u su by (cases "unat sec = 18446744073709") simp_all
  then show "unat t = unat sec * 1000000 + unat usec"
    unfolding t(1) by (simp add: unat_word_ariths)
  show "0 < t" using t(2) by (simp add: word_neq_0_conv)
  show "usec < 1000000" using n(2) by simp
qed

lemma darwin_started_total:
  assumes "unat sec * 1000000 + unat usec < 2 ^ 64" and "usec < 1000000"
    and "0 < unat sec * 1000000 + unat usec"
  shows "fst (darwin_started sec usec old) = 0"
proof -
  have top: "unat ((-1 :: u64) div 1000000) = 18446744073709" "unat ((-1 :: u64) mod 1000000) = 551615"
    by (simp_all add: unat_div unat_mod)
  have s: "unat sec \<le> 18446744073709" using assms(1) by simp
  then have 1: "\<not> sec > (-1) div 1000000" by (simp add: not_less word_le_nat_alt top)
  have 3: "\<not> (sec = (-1) div 1000000 \<and> usec > (-1) mod 1000000)"
    using assms(1) by (auto simp: word_less_nat_alt top)
  have "unat (sec * 1000000 + usec) = unat sec * 1000000 + unat usec"
    using assms(1) by (simp add: unat_word_ariths)
  then have "sec * 1000000 + usec \<noteq> 0" using assms(3) by (metis less_irrefl unat_0)
  with 1 3 assms(2) show ?thesis by (simp add: darwin_started_def Let_def not_le)
qed

section \<open>The layout of KERN_PROCARGS2\<close>

definition terminated :: "byte list list \<Rightarrow> byte list" where
  "terminated ss = concat (map (\<lambda>s. s @ [b_nul]) ss)"

lemma after_nul_append: "b_nul \<notin> set s \<Longrightarrow> after_nul (s @ b_nul # rest) = Some rest"
proof -
  assume "b_nul \<notin> set s"
  then have "index_of (\<lambda>b. b = b_nul) (s @ b_nul # rest) = Some (length s)"
    by (intro index_of_append_hit) auto
  then show ?thesis by (simp add: after_nul_def)
qed

lemma skip_strings_terminated:
  "(\<forall>s \<in> set ss. b_nul \<notin> set s) \<Longrightarrow> skip_strings (length ss) (terminated ss @ rest) = Some rest"
  by (induction ss) (auto simp: terminated_def after_nul_append)

lemma skip_environment_terminated:
  assumes "\<forall>s \<in> set ss. s \<noteq> [] \<and> b_nul \<notin> set s" and "rest = [] \<or> hd rest = b_nul"
  shows "skip_environment (terminated ss @ rest) = Some rest"
  using assms(1)
proof (induction ss)
  case Nil
  then show ?case using assms(2) by (simp add: terminated_def skip_environment.simps)
next
  case (Cons s ss)
  then have "hd (s @ b_nul # terminated ss @ rest) \<noteq> b_nul"
    by (cases s) auto
  with Cons show ?case
    by (simp add: terminated_def after_nul_append skip_environment.simps [of "s @ b_nul # _"])
qed

lemma parse_procargs_layout:
  assumes count: "le_int32 header = int (length argv)" "length header = 4" "argv \<noteq> []"
    and exe: "b_nul \<notin> set exe" and pad: "set padding \<subseteq> {b_nul}"
    and argv: "\<forall>s \<in> set argv. b_nul \<notin> set s" and first: "hd argv \<noteq> []"
    and env: "\<forall>s \<in> set env. s \<noteq> [] \<and> b_nul \<notin> set s" and rest: "rest = [] \<or> hd rest = b_nul"
  shows "\<exists>a. parse_procargs (header @ exe @ [b_nul] @ padding @ terminated argv @ terminated env @ rest) = Inr a \<and>
    take (ar_len a) (ar_bytes a) = terminated argv @ terminated env \<and>
    ar_len a = length (terminated argv @ terminated env) \<and>
    ar_argc a = length argv \<and> ar_env a = length (terminated argv) \<and>
    set (drop (ar_len a) (ar_bytes a)) \<subseteq> {0}"
proof -
  let ?start = "terminated argv @ terminated env @ rest"
  let ?data = "header @ exe @ [b_nul] @ padding @ ?start"
  have "length argv \<le> length (terminated argv)" by (induction argv) (auto simp: terminated_def)
  then have len: "int (length argv) \<le> int (length ?data) - 4" using count(2) by simp
  have 1: "after_nul (drop 4 ?data) = Some (padding @ ?start)"
    using after_nul_append [OF exe, of "padding @ ?start"] count(2) by simp
  have "hd ?start \<noteq> b_nul" "?start \<noteq> []" using count(3) first argv
    by (cases argv; cases "hd argv"; auto simp: terminated_def)+
  then have 2: "dropWhile (\<lambda>b. b = b_nul) (padding @ ?start) = ?start"
    using pad by (subst dropWhile_append2) (auto simp: dropWhile_eq_self_iff)
  have 3: "skip_strings (length argv) ?start = Some (terminated env @ rest)"
    by (rule skip_strings_terminated [OF argv])
  have 4: "skip_environment (terminated env @ rest) = Some rest"
    by (rule skip_environment_terminated [OF env rest])
  have 5: "le_int32 (take 4 ?data) = int (length argv)" using count by simp
  have "parse_procargs ?data = Inr \<lparr>ar_bytes = (terminated argv @ terminated env) @
      wipe (drop (length (terminated argv @ terminated env)) ?data),
      ar_len = length (terminated argv @ terminated env), ar_argc = length argv, ar_env = length (terminated argv)\<rparr>"
    unfolding parse_procargs_def Let_def 5 1 using 2 3 4 len count(3) by simp
  then show ?thesis by (auto simp: wipe_eq)
qed

section \<open>Reading a whole file\<close>

text \<open>
  What every routine here leaves: the descriptors it opened are closed, and a buffer it
  gives back to the allocator holds only zeros.
\<close>

definition zero_frees :: "(call \<times> reply) list \<Rightarrow> bool" where
  "zero_frees es \<longleftrightarrow> (\<forall>buffer r. (Env (Free buffer), r) \<in> set es \<longrightarrow> set buffer \<subseteq> {0})"

definition clean :: "(call \<times> reply) list \<Rightarrow> bool" where
  "clean es \<longleftrightarrow> (\<forall>fd. fd_net es fd = 0) \<and> zero_frees es"

lemma zero_frees_Nil [simp]: "zero_frees []"
  by (simp add: zero_frees_def)

lemma zero_frees_append [simp]: "zero_frees (es @ fs) \<longleftrightarrow> zero_frees es \<and> zero_frees fs"
  by (auto simp: zero_frees_def)

lemma zero_frees_Cons [simp]:
  "zero_frees ((c, r) # es) \<longleftrightarrow> zero_frees es \<and> (case c of Env (Free buffer) \<Rightarrow> set buffer \<subseteq> {0} | _ \<Rightarrow> True)"
  by (auto simp: zero_frees_def split: call.splits env_call.splits)

lemma clean_Nil [simp]: "clean []"
  by (simp add: clean_def)

lemma clean_append: "clean es \<Longrightarrow> clean fs \<Longrightarrow> clean (es @ fs)"
  by (simp add: clean_def)

lemma clean_Io [simp]: "clean ((Io c, r) # es) \<longleftrightarrow> clean es"
  by (simp add: clean_def)

lemma clean_Proc [simp]: "clean ((Proc c, r) # es) \<longleftrightarrow> clean es"
  by (simp add: clean_def)

lemma clean_Query [simp]: "clean ((Env (Query q), r) # es) \<longleftrightarrow> clean es"
  by (simp add: clean_def)

lemma clean_reads: "reads_only fd es \<Longrightarrow> clean es"
  by (auto simp: clean_def fd_net_reads_only zero_frees_def reads_only_def)

lemma file_bytes_failed:
  "(\<forall>r \<in> set rs. r_ret r \<le> 0) \<Longrightarrow> file_bytes fd (map (Pair (Io (Read fd n))) rs) = []"
  by (induction rs) auto

lemma runs_read_proc_extra:
  "runs (read_proc_extra fd) (\<lambda>error es. reads_only fd es \<and>
     (error = 0 \<longrightarrow> file_bytes fd es = [] \<and> at_eof fd es))"
  unfolding read_proc_extra_def
proof (intro runs_bind [OF runs_retry] runs_rules)
  fix r es
  assume "retried (\<lambda>n. n < 0) (Io (Read fd 1)) r es"
  then obtain xs where es: "es = map (Pair (Io (Read fd 1))) xs @ [(Io (Read fd 1), r)]"
    and xs: "\<forall>x \<in> set xs. interrupted (\<lambda>n. n < 0) x" and d: "documented (Io (Read fd 1), r)"
    by (auto simp: retried_def)
  from xs have 1: "file_bytes fd (map (Pair (Io (Read fd 1))) xs) = []"
    by (intro file_bytes_failed) (auto simp: interrupted_def)
  show "reads_only fd (es @ []) \<and> ((if r_ret r < 0 then r_errno r else if r_ret r = 0 then 0 else E2BIG) = 0 \<longrightarrow>
    file_bytes fd (es @ []) = [] \<and> at_eof fd (es @ []))"
    using d 1 unfolding es by (auto simp: reads_only_def at_eof_def fails_def)
qed

text \<open>
  A successful \<open>read_proc\<close> read the file from its beginning to its end, and nothing of it
  is missing: the last read of the descriptor it opened returned 0.
\<close>

definition read_whole :: "int \<Rightarrow> string \<Rightarrow> nat \<Rightarrow> byte list \<Rightarrow> (call \<times> reply) list \<Rightarrow> bool" where
  "read_whole directory name cap bytes es \<longleftrightarrow>
     (\<exists>f xs c. es = (Fd (Openat directory name), f) # xs @ [(Fd (Close (r_ret f)), c)] \<and>
       0 \<le> r_ret f \<and> reads_only (r_ret f) xs \<and> at_eof (r_ret f) xs \<and>
       bytes = file_bytes (r_ret f) xs \<and> length bytes \<le> cap)"

lemma read_wholeI:
  assumes "0 \<le> r_ret f" and "reads_only (r_ret f) xs" and "at_eof (r_ret f) xs"
    and "bytes = file_bytes (r_ret f) xs" and "length bytes \<le> cap"
  shows "read_whole directory name cap bytes
    ((Fd (Openat directory name), f) # xs @ [(Fd (Close (r_ret f)), c)])"
  unfolding read_whole_def using assms by blast

lemma at_eof_append: "at_eof fd fs \<Longrightarrow> at_eof fd (es @ fs)"
  by (auto simp: at_eof_def)

lemma reads_only_append: "reads_only fd es \<Longrightarrow> reads_only fd fs \<Longrightarrow> reads_only fd (es @ fs)"
  by (auto simp: reads_only_def)

lemma clean_open_close:
  assumes "clean xs" and "0 \<le> r_ret f"
  shows "clean ((Fd (Openat directory name), f) # xs @ [(Fd (Close (r_ret f)), c)])"
  using assms by (auto simp: clean_def)

lemma runs_read_proc:
  "runs (read_proc directory name cap) (\<lambda>x es. clean es \<and>
     length (snd x) \<le> cap \<and> (fst x = 0 \<longrightarrow> read_whole directory name cap (snd x) es))"
  (is "runs _ ?\<Phi>")
proof -
  have wrap: "?\<Phi> (error, bytes) ((Fd (Openat directory name), f) # xs @ [(Fd (Close (r_ret f)), c)])"
    if "reads_only (r_ret f) xs" "\<not> r_ret f < 0" "length bytes \<le> cap"
      "error = 0 \<longrightarrow> at_eof (r_ret f) xs \<and> bytes = file_bytes (r_ret f) xs"
    for f xs c error bytes
    using that clean_open_close [OF clean_reads [OF that(1)]] read_wholeI [OF _ that(1)] by auto
  show ?thesis
    unfolding read_proc_def
    apply (intro runs_bind [OF runs_read_loop] runs_bind [OF runs_read_proc_extra] runs_rules)
    subgoal by (auto simp: fails_def clean_def)
    subgoal for f x es error bytes error' fs c
      using wrap [of f "es @ fs" bytes error' c]
      by (auto simp: read_loop_spec_def intro: reads_only_append at_eof_append)
    subgoal for f x es error bytes c
      using wrap [of f es bytes error c] by (auto simp: read_loop_spec_def)
    done
qed

section \<open>Every routine cleans up\<close>

abbreviation cleans :: "(world \<Rightarrow> ('a \<times> world) option) \<Rightarrow> bool" where
  "cleans f \<equiv> runs f (\<lambda>_ es. clean es)"

lemma cleans_read_proc: "cleans (read_proc directory name cap)"
  by (rule runs_weaken [OF runs_read_proc]) simp

lemma cleans_check_effective_uid: "cleans (check_effective_uid bytes)"
  unfolding check_effective_uid_def by (intro runs_rules) simp_all

lemma cleans_observe_generation_linux: "cleans (observe_generation_linux directory t)"
  unfolding observe_generation_linux_def
  by (intro runs_bind [OF cleans_read_proc] runs_bind [OF cleans_check_effective_uid] runs_rules)
    (simp_all add: clean_append)

lemma cleans_observe_generation_darwin: "cleans (observe_generation_darwin pid t)"
  unfolding observe_generation_darwin_def by (intro runs_rules) simp_all

lemma cleans_canonical: "cleans (canonical path result)"
  unfolding canonical_def by (intro runs_rules) simp_all

lemma cleans_observe_linux: "cleans (observe_linux directory result)"
  unfolding observe_linux_def
  by (intro runs_bind [OF cleans_observe_generation_linux] runs_bind [OF cleans_canonical] runs_rules)
    (simp_all add: clean_append)

lemma cleans_observe_darwin: "cleans (observe_darwin pid result)"
  unfolding observe_darwin_def
  by (intro runs_bind [OF cleans_observe_generation_darwin] runs_weaken [OF cleans_canonical] runs_rules)
    (simp_all add: clean_append)

lemma cleans_arguments_linux: "cleans (arguments_linux directory cap)"
  unfolding arguments_linux_def
  by (intro runs_bind [OF cleans_read_proc] runs_rules) (simp_all add: clean_append)

lemma cleans_arguments_darwin: "cleans (arguments_darwin cap)"
  unfolding arguments_darwin_def by (intro runs_rules) simp_all

text \<open>The descriptor a routine was given to close is closed once.\<close>

definition closes :: "int \<Rightarrow> (call \<times> reply) list \<Rightarrow> bool" where
  "closes directory es \<longleftrightarrow> zero_frees es \<and>
     (\<forall>fd. fd_net es fd = - of_bool (0 \<le> directory \<and> fd = directory))"

lemma closes_append: "clean es \<Longrightarrow> closes d fs \<Longrightarrow> closes d (es @ fs)"
  by (simp add: clean_def closes_def)

lemma runs_close_directory: "runs (close_directory directory) (\<lambda>_ es. closes directory es)"
  unfolding close_directory_def by (intro runs_rules) (auto simp: closes_def)

lemma runs_generation_of:
  assumes "\<And>t. cleans (observe t)"
  shows "runs (generation_of observe directory) (\<lambda>x es. closes directory es \<and> (fst x \<noteq> 0 \<longrightarrow> snd x = 0))"
  unfolding generation_of_def
  by (intro runs_bind [OF assms] runs_bind [OF runs_close_directory] runs_rules)
    (auto intro: closes_append)

lemma set_wipe: "set (wipe bs) \<subseteq> {0}"
  by (induction bs) auto

lemma cleans_snapshot_body:
  assumes "\<And>i. cleans (observe i)" and "\<And>cap. cleans (arguments cap)"
  shows "cleans (snapshot_body observe arguments exe_cap cap s)"
  unfolding snapshot_body_def
  by (intro runs_bind [OF assms(1)] runs_bind [OF assms(2)] runs_rules)
    (auto intro!: clean_append simp: clean_def)

lemma runs_snapshot_done:
  "runs (snapshot_done directory outcome) (\<lambda>x es. closes directory es \<and> fst x = fst outcome \<and>
     snd x = (if fst outcome \<noteq> 0 then empty_snapshot (wipe (sn_data (snd (snd outcome)))) else snd (snd outcome)))"
proof -
  obtain error check s where o: "outcome = (error, check, s)" by (cases outcome)
  have f: "runs (\<lambda>w. Option.bind (sys (Env (Free (wipe buffer))) w) (\<lambda>(_, w). Some ((), w)))
      (\<lambda>_ es. \<exists>r. es = [(Env (Free (wipe buffer)), r)])" for buffer
    by (intro runs_rules) auto
  show ?thesis
    unfolding snapshot_done_def o prod.case
    by (intro runs_bind [OF runs_close_directory] runs_bind [OF f] runs_rules)
      (auto simp: closes_def set_wipe)
qed

lemma clean_open_closes:
  "0 \<le> r_ret d \<Longrightarrow> closes (r_ret d) es \<Longrightarrow> clean ((Fd (Open p), d) # es)"
  by (auto simp: clean_def closes_def)

lemma clean_open_failed: "r_ret d < 0 \<Longrightarrow> clean [(Fd (Open p), d)]"
  by (auto simp: clean_def)

lemma clean_closes_none: "closes (-1) es \<Longrightarrow> clean es"
  by (auto simp: clean_def closes_def)

lemma cleans_process_generation_linux: "cleans (rui_process_generation_linux pid given old)"
  unfolding rui_process_generation_linux_def
  by (intro runs_weaken [OF runs_generation_of [OF cleans_observe_generation_linux]] runs_rules)
    (auto intro: clean_open_closes clean_open_failed)

lemma cleans_process_generation_darwin: "cleans (rui_process_generation_darwin pid given old)"
  unfolding rui_process_generation_darwin_def
  by (intro runs_weaken [OF runs_generation_of [OF cleans_observe_generation_darwin]] runs_rules)
    (auto intro: clean_closes_none)

text \<open>
  What an unsuccessful snapshot leaves in the caller's memory: no path, no counts and no start time,
  and a buffer that is either all zeros or, when the process was never opened, as the caller gave it.
\<close>

definition reveals_nothing :: "snapshot \<Rightarrow> (call \<times> reply) list \<Rightarrow> snapshot \<Rightarrow> bool" where
  "reveals_nothing old es s \<longleftrightarrow>
     sn_exe s = [] \<and> sn_length s = 0 \<and> sn_argc s = 0 \<and> sn_env s = 0 \<and> sn_started s = 0 \<and>
     (set (sn_data s) \<subseteq> {0} \<or> sn_data s = sn_data old \<and> (\<exists>p r. es = [(Fd (Open p), r)] \<and> r_ret r < 0))"

text \<open>An argument that the snapshot refuses at once.\<close>

definition refused_arguments :: "int \<Rightarrow> bool \<Rightarrow> nat \<Rightarrow> snapshot \<Rightarrow> bool" where
  "refused_arguments pid given exe_cap old \<longleftrightarrow> pid \<le> 0 \<or> \<not> given \<or> exe_cap = 0 \<or> sn_data old = []"

definition failed_snapshot :: "int \<Rightarrow> bool \<Rightarrow> nat \<Rightarrow> snapshot \<Rightarrow> int \<times> snapshot \<Rightarrow> (call \<times> reply) list \<Rightarrow> bool" where
  "failed_snapshot pid given exe_cap old x es \<longleftrightarrow>
     (if refused_arguments pid given exe_cap old then x = (EINVAL, old) \<and> es = []
      else fst x \<noteq> 0 \<longrightarrow> reveals_nothing old es (snd x))"

lemma reveals_wiped: "reveals_nothing old es (empty_snapshot (wipe bs))"
  by (simp add: reveals_nothing_def empty_snapshot_def set_wipe)

lemma reveals_unopened: "r_ret d < 0 \<Longrightarrow> reveals_nothing old [(Fd (Open p), d)] (empty_snapshot (sn_data old))"
  by (auto simp: reveals_nothing_def empty_snapshot_def)

lemma runs_snapshot_linux:
  "runs (rui_process_snapshot_linux pid given exe_cap old) (\<lambda>x es. clean es \<and> failed_snapshot pid given exe_cap old x es)"
  unfolding rui_process_snapshot_linux_def
  by (intro runs_bind [OF cleans_snapshot_body [OF cleans_observe_linux cleans_arguments_linux]]
      runs_weaken [OF runs_snapshot_done] runs_rules)
   (auto simp: failed_snapshot_def refused_arguments_def
     intro: reveals_wiped reveals_unopened clean_open_closes clean_open_failed closes_append)

lemma runs_snapshot_darwin:
  "runs (rui_process_snapshot_darwin pid given exe_cap old) (\<lambda>x es. clean es \<and> failed_snapshot pid given exe_cap old x es)"
  unfolding rui_process_snapshot_darwin_def
  by (intro runs_bind [OF cleans_snapshot_body [OF cleans_observe_darwin cleans_arguments_darwin]]
      runs_weaken [OF runs_snapshot_done] runs_rules)
   (auto simp: failed_snapshot_def refused_arguments_def intro: reveals_wiped clean_closes_none closes_append)

lemma snapshot_body_agrees:
  assumes "snapshot_body observe arguments exe_cap cap s w = Some ((0, check, t), w')"
  shows "\<exists>i a b m w1 w2 w3 w4. observe no_identity w = Some ((0, i), w1) \<and>
    arguments cap w1 = Some ((0, a), w2) \<and>
    sys (Env (Malloc cap)) w2 = Some (m, w3) \<and> r_ret m \<noteq> 0 \<and>
    arguments cap w3 = Some ((0, b), w4) \<and>
    observe no_identity w4 = Some ((0, i), w') \<and>
    check = Some (overlay (r_data m) (ar_bytes b)) \<and> ar_len a = ar_len b \<and> ar_argc a = ar_argc b \<and> ar_env a = ar_env b \<and>
    take (ar_len a) (overlay (sn_data s) (ar_bytes a)) = take (ar_len b) (overlay (r_data m) (ar_bytes b)) \<and>
    valid_environment (sn_data t) (sn_length t) (sn_env t) = 0 \<and>
    length (id_executable i) < exe_cap \<and>
    t = (store_arguments a s)\<lparr>sn_exe := id_executable i, sn_started := id_started i\<rparr>"
proof -
  from assms obtain i w1 a w2 m w3 b w4 j where
    1: "observe no_identity w = Some ((0, i), w1)" "arguments cap w1 = Some ((0, a), w2)"
      "sys (Env (Malloc cap)) w2 = Some (m, w3)" "r_ret m \<noteq> 0"
      "arguments cap w3 = Some ((0, b), w4)" "observe no_identity w4 = Some ((0, j), w')"
      "check = Some (overlay (r_data m) (ar_bytes b))"
    and 2: "valid_environment (sn_data (store_arguments a s)) (sn_length (store_arguments a s)) (sn_env (store_arguments a s)) = 0"
    and 3: "ar_len b = sn_length (store_arguments a s)" "ar_argc b = sn_argc (store_arguments a s)"
      "ar_env b = sn_env (store_arguments a s)"
      "take (sn_length (store_arguments a s)) (overlay (r_data m) (ar_bytes b)) =
        take (sn_length (store_arguments a s)) (sn_data (store_arguments a s))"
    and 4: "id_started i = id_started j" "id_device i = id_device j" "id_inode i = id_inode j"
      "id_executable i = id_executable j" "length (id_executable i) < exe_cap"
    and 5: "t = (store_arguments a s)\<lparr>sn_exe := id_executable i, sn_started := id_started i\<rparr>"
    by (auto simp: snapshot_body_def Let_def not_le split: if_splits)
  from 4 have "i = j" by simp
  have sel: "sn_length (store_arguments a s) = ar_len a" "sn_argc (store_arguments a s) = ar_argc a"
    "sn_env (store_arguments a s) = ar_env a"
    "sn_data (store_arguments a s) = overlay (sn_data s) (ar_bytes a)"
    by (simp_all add: store_arguments_def)
  show ?thesis
    using 1 2 3 4 5 \<open>i = j\<close> unfolding sel
    by (intro exI [of _ i] exI [of _ a] exI [of _ b] exI [of _ m] exI [of _ w1] exI [of _ w2]
        exI [of _ w3] exI [of _ w4]) (simp add: sel)
qed

section \<open>The descriptor contract\<close>

lemma acquires_clean: "clean es \<Longrightarrow> no_fds x es"
  by (simp add: clean_def acquires_def)

interpretation gl: descriptor_discipline "rui_process_generation_linux pid given old" "\<lambda>_. []"
  for pid given old
  by unfold_locales (rule runs_weaken [OF cleans_process_generation_linux acquires_clean])

interpretation sl: descriptor_discipline "rui_process_snapshot_linux pid given exe_cap old" "\<lambda>_. []"
  for pid given exe_cap old
  by unfold_locales (rule runs_weaken [OF runs_snapshot_linux], simp add: acquires_clean)

interpretation sd: descriptor_discipline "rui_process_snapshot_darwin pid given exe_cap old" "\<lambda>_. []"
  for pid given exe_cap old
  by unfold_locales (rule runs_weaken [OF runs_snapshot_darwin], simp add: acquires_clean)

lemma arguments_linux_len:
  "arguments_linux directory cap w = Some ((0, a), w') \<Longrightarrow> ar_len a = length (ar_bytes a)"
  by (auto simp: arguments_linux_def no_arguments_def Let_def split: if_splits)

lemma take_overlay: "take (length bs) (overlay buffer bs) = bs"
  by (simp add: overlay_def)

lemma arguments_eqI:
  "ar_bytes a = ar_bytes b \<Longrightarrow> ar_len a = ar_len b \<Longrightarrow> ar_argc a = ar_argc b \<Longrightarrow> ar_env a = ar_env b \<Longrightarrow> a = (b :: arguments)"
  by simp

section \<open>Properties\<close>

text \<open>The end of a snapshot that succeeded: the directory is closed, then the zeroed buffer freed.\<close>

lemma snapshot_done_good:
  assumes "snapshot_done d (0, Some buffer, t) w = Some (x, w')" and "0 \<le> d"
  shows "x = (0, t) \<and> (\<exists>c f. emits w w' [(Fd (Close d), c), (Env (Free (wipe buffer)), f)])"
proof -
  from assms obtain c f w1 where "sys (Fd (Close d)) w = Some (c, w1)" "sys (Env (Free (wipe buffer))) w1 = Some (f, w')" "x = (0, t)"
    by (auto simp: snapshot_done_def close_directory_def)
  moreover from this(1,2) have "emits w w1 [(Fd (Close d), c)]" "emits w1 w' [(Env (Free (wipe buffer)), f)]"
    by (simp_all add: sys_emits)
  from emits_trans [OF this] have "emits w w' [(Fd (Close d), c), (Env (Free (wipe buffer)), f)]" by simp
  ultimately show ?thesis by blast
qed

text \<open>
  C5. A snapshot that \<open>rui_process_snapshot\<close> returns on Linux was observed twice and the two
  observations agreed.  The run is exactly this: the directory of the process is opened; the
  process is observed and its arguments read; a second buffer is allocated; the arguments are
  read again, from the calls that follow, and are the same; the process is observed again, from
  the calls that follow, and is the same; the directory is closed and the second buffer, zeroed,
  is freed.  The result is what was read; the environment is a sequence of name=value entries
  with nonempty names, and the path fits.
\<close>

theorem snapshot_observes_twice:
  assumes "rui_process_snapshot_linux pid given exe_cap old w = Some ((0, s), w')"
  shows "\<exists>d i a entries m c f n w1 w2 w3 w4 w5 w6.
    emits w w1 [(Fd (Open ''/proc/PID''), d)] \<and> 0 \<le> r_ret d \<and>
    observe_linux (r_ret d) no_identity w1 = Some ((0, i), w2) \<and>
    arguments_linux (r_ret d) (length (sn_data old)) w2 = Some ((0, a), w3) \<and>
    emits w3 w4 [(Env (Malloc (length (sn_data old))), m)] \<and> r_ret m \<noteq> 0 \<and>
    arguments_linux (r_ret d) (length (sn_data old)) w4 = Some ((0, a), w5) \<and>
    observe_linux (r_ret d) no_identity w5 = Some ((0, i), w6) \<and>
    emits w6 w' [(Fd (Close (r_ret d)), c), (Env (Free (replicate n 0)), f)] \<and>
    take (sn_length s) (sn_data s) = ar_bytes a \<and> sn_argc s = ar_argc a \<and> sn_env s = ar_env a \<and>
    sn_exe s = id_executable i \<and> length (id_executable i) < exe_cap \<and> sn_started s = id_started i \<and>
    drop (sn_env s) (ar_bytes a) = concat (map env_entry entries) \<and> list_all env_ok entries"
proof -
  let ?s = "empty_snapshot (sn_data old)"
  let ?cap = "length (sn_data old)"
  from assms obtain d w1 outcome w6 where
    opened: "emits w w1 [(Fd (Open ''/proc/PID''), d)]" "0 \<le> r_ret d" and
    body: "snapshot_body (observe_linux (r_ret d)) (arguments_linux (r_ret d)) exe_cap ?cap ?s w1 = Some (outcome, w6)"
    and fin: "snapshot_done (r_ret d) outcome w6 = Some ((0, s), w')"
    by (auto simp: rui_process_snapshot_linux_def Let_def fails_def not_less sys_emits split: if_splits)
  from fin have "fst outcome = 0" "s = snd (snd outcome)"
    by (auto elim!: runsD [OF runs_snapshot_done])
  with body fin obtain check where
    run: "snapshot_body (observe_linux (r_ret d)) (arguments_linux (r_ret d)) exe_cap ?cap ?s w1 = Some ((0, check, s), w6)"
    and fin: "snapshot_done (r_ret d) (0, check, s) w6 = Some ((0, s), w')"
    by (cases outcome) auto
  from snapshot_body_agrees [OF run] obtain i a b m w2 w3 w4 w5 where
    1: "observe_linux (r_ret d) no_identity w1 = Some ((0, i), w2)"
      "arguments_linux (r_ret d) ?cap w2 = Some ((0, a), w3)"
      "arguments_linux (r_ret d) ?cap w4 = Some ((0, b), w5)"
      "observe_linux (r_ret d) no_identity w5 = Some ((0, i), w6)"
    and m: "sys (Env (Malloc ?cap)) w3 = Some (m, w4)" "r_ret m \<noteq> 0" "check = Some (overlay (r_data m) (ar_bytes b))"
    and 2: "ar_len a = ar_len b" "ar_argc a = ar_argc b" "ar_env a = ar_env b"
      "take (ar_len a) (overlay (sn_data ?s) (ar_bytes a)) = take (ar_len b) (overlay (r_data m) (ar_bytes b))"
    and 3: "valid_environment (sn_data s) (sn_length s) (sn_env s) = 0"
      "length (id_executable i) < exe_cap"
      "s = (store_arguments a ?s)\<lparr>sn_exe := id_executable i, sn_started := id_started i\<rparr>"
    by blast
  have len: "ar_len a = length (ar_bytes a)" "ar_len b = length (ar_bytes b)"
    using 1 by (auto dest: arguments_linux_len)
  have "ar_bytes a = ar_bytes b" using 2(4) unfolding len take_overlay .
  with 2 have "a = b" by (intro arguments_eqI)
  have data: "take (sn_length s) (sn_data s) = ar_bytes a"
    using 3(3) len(1) by (simp add: store_arguments_def take_overlay)
  then obtain entries where "drop (sn_env s) (ar_bytes a) = concat (map env_entry entries)"
    "list_all env_ok entries"
    using 3(1) by (auto simp: valid_environment_iff list_all_iff)
  moreover have "sn_argc s = ar_argc a" "sn_env s = ar_env a" "sn_exe s = id_executable i"
    "sn_started s = id_started i"
    by (simp_all add: 3(3) store_arguments_def)
  moreover from snapshot_done_good [OF fin [unfolded m(3)] opened(2)] obtain c f n where
    "emits w6 w' [(Fd (Close (r_ret d)), c), (Env (Free (replicate n 0)), f)]" by (auto simp: wipe_eq)
  ultimately show ?thesis
    using 1 [folded \<open>a = b\<close>] data 3(2) opened m(1,2) unfolding sys_emits by blast
qed

text \<open>A process observed twice without a change.\<close>

definition sample_observation :: "reply list" where
  "sample_observation =
     [ok_out 0 [0, 0, 1000, 0], ok 1000,
      ok 9, ok_data (stat_line [55] [97, 41, 32, 98] (replicate 19 [48]) 42 [10]), ok 0, ok 0,
      ok 9, ok_data [10, 85, 105, 100, 58, 9, 49, 48, 48, 48, 9, 49, 48, 48, 48], ok 0, ok 0, ok 1000,
      ok_data [47, 98], ok_data [47, 98], ok_out 0 [1, 2, 1000, 1], ok_out 0 [1, 2]]"

definition sample_arguments :: "reply list" where
  "sample_arguments = [ok 9, ok_data [97, 0], ok 0, ok 0, ok 9, ok_data [65, 61, 66, 0], ok 0, ok 0]"

definition sample_snapshot :: "reply list" where
  "sample_snapshot = [ok 8] @ sample_observation @ sample_arguments @
     [\<lparr>r_ret = 4096, r_errno = 0, r_out = [], r_data = replicate 8 7\<rparr>] @ sample_arguments @
     sample_observation @ [ok 0, ok 0]"

text \<open>A file that arrives in one read.\<close>

lemma read_proc_one_read:
  assumes "bs \<noteq> []" and "length bs < cap" and "0 \<le> fd" and "n = int (length bs)"
  shows "\<exists>t'. read_proc directory name cap \<lparr>w_script = ok fd #
      \<lparr>r_ret = n, r_errno = 0, r_out = [], r_data = bs\<rparr> # ok 0 # ok 0 # rs, w_trace = t\<rparr> =
    Some ((0, bs), \<lparr>w_script = rs, w_trace = t'\<rparr>)"
  using assms by (simp add: read_proc_def read_loop.simps)

lemma parse_sample_uid:
  "parse_effective_uid [10, 85, 105, 100, 58, 9, 49, 48, 48, 48, 9, 49, 48, 48, 48] = Inr 1000"
  by (simp add: parse_effective_uid_def uid_label_def cstr_def scan_ulong_def is_digit_def is_space_def digits_value_def)

lemma sample_observation_runs:
  "\<exists>t'. observe_linux 8 no_identity \<lparr>w_script = sample_observation @ rs, w_trace = t\<rparr> =
    Some ((0, \<lparr>id_started = 42, id_device = 1, id_inode = 2, id_executable = [47, 98]\<rparr>), \<lparr>w_script = rs, w_trace = t'\<rparr>)"
proof -
  let ?line = "stat_line [55] [97, 41, 32, 98] (replicate 19 [48]) 42 [10]"
  have s: "parse_starttime ?line = Inr (word_of_nat 42)"
    by (rule parse_starttime_stat_line) auto
  have "length ?line < 4095" "?line \<noteq> []"
    by (simp_all add: stat_line_def decimal.simps digit_def length_concat sum_list_replicate)
  then have st: "\<exists>t'. read_proc 8 ''stat'' 4095 \<lparr>w_script = ok 9 # ok_data ?line # ok 0 # ok 0 # rs, w_trace = t\<rparr> =
      Some ((0, ?line), \<lparr>w_script = rs, w_trace = t'\<rparr>)" for rs t
    by (intro read_proc_one_read) simp_all
  let ?uid = "[10, 85, 105, 100, 58, 9, 49, 48, 48, 48, 9, 49, 48, 48, 48] :: byte list"
  have ui: "\<exists>t'. read_proc 8 ''status'' 4095 \<lparr>w_script = ok 9 # ok_data ?uid # ok 0 # ok 0 # rs, w_trace = t\<rparr> =
      Some ((0, ?uid), \<lparr>w_script = rs, w_trace = t'\<rparr>)" for rs t
    by (intro read_proc_one_read) simp_all
  let ?rest = "[ok_data [47, 98], ok_data [47, 98], ok_out 0 [1, 2, 1000, 1], ok_out 0 [1, 2]] @ rs"
  let ?t1 = "t @ [(Io (Fstat 8), ok_out 0 [0, 0, 1000, 0]), (Proc Geteuid, ok 1000)]"
  obtain t2 where t2: "read_proc 8 ''stat'' 4095 \<lparr>w_script = ok 9 # ok_data ?line # ok 0 # ok 0 # ok 9 # ok_data ?uid # ok 0 # ok 0 # ok 1000 # ?rest, w_trace = ?t1\<rparr> =
      Some ((0, ?line), \<lparr>w_script = ok 9 # ok_data ?uid # ok 0 # ok 0 # ok 1000 # ?rest, w_trace = t2\<rparr>)"
    using st by blast
  obtain t3 where t3: "read_proc 8 ''status'' 4095 \<lparr>w_script = ok 9 # ok_data ?uid # ok 0 # ok 0 # ok 1000 # ?rest, w_trace = t2\<rparr> =
      Some ((0, ?uid), \<lparr>w_script = ok 1000 # ?rest, w_trace = t3\<rparr>)"
    using ui by blast
  have "\<exists>t'. observe_generation_linux 8 0 \<lparr>w_script = sample_observation @ rs, w_trace = t\<rparr> =
    Some ((0, 42), \<lparr>w_script = ?rest, w_trace = t'\<rparr>)"
    using t2 t3 s by (simp add: sample_observation_def observe_generation_linux_def
        check_effective_uid_def parse_sample_uid out_def)
  then show ?thesis
    by (force simp: observe_linux_def no_identity_def canonical_def cstr_def out_def)
qed


lemma sample_arguments_run:
  "\<exists>t'. arguments_linux 8 8 \<lparr>w_script = sample_arguments @ rs, w_trace = t\<rparr> =
    Some ((0, \<lparr>ar_bytes = [97, 0, 65, 61, 66, 0], ar_len = 6, ar_argc = 1, ar_env = 2\<rparr>),
      \<lparr>w_script = rs, w_trace = t'\<rparr>)"
  by (simp add: sample_arguments_def arguments_linux_def read_proc_def read_loop.simps)

lemma sample_snapshot_runs:
  "\<exists>w'. rui_process_snapshot_linux 7 True 10 (empty_snapshot (replicate 8 1)) (boot sample_snapshot) =
   Some ((0, \<lparr>sn_exe = [47, 98], sn_data = [97, 0, 65, 61, 66, 0, 1, 1], sn_length = 6, sn_argc = 1,
     sn_env = 2, sn_started = 42\<rparr>), w')"
proof -
  let ?m = "\<lparr>r_ret = 4096, r_errno = 0, r_out = [], r_data = replicate 8 7\<rparr>"
  let ?i = "\<lparr>id_started = 42, id_device = 1, id_inode = 2, id_executable = [47, 98]\<rparr> :: identity"
  let ?a = "\<lparr>ar_bytes = [97, 0, 65, 61, 66, 0], ar_len = 6, ar_argc = 1, ar_env = 2\<rparr>"
  let ?r1 = "sample_observation @ [ok 0, ok 0]"
  let ?r2 = "?m # sample_arguments @ ?r1"
  let ?t0 = "[(Fd (Open ''/proc/PID''), ok 8)]"
  have v: "valid_environment [97, 0, 65, 61, 66, 0, 1, 1] 6 2 = 0"
    by (simp add: valid_environment_def valid_entries.simps)
  obtain t1 where 1: "observe_linux 8 no_identity \<lparr>w_script = sample_observation @ sample_arguments @ ?r2, w_trace = ?t0\<rparr> =
      Some ((0, ?i), \<lparr>w_script = sample_arguments @ ?r2, w_trace = t1\<rparr>)"
    using sample_observation_runs by blast
  obtain t2 where 2: "arguments_linux 8 8 \<lparr>w_script = sample_arguments @ ?r2, w_trace = t1\<rparr> =
      Some ((0, ?a), \<lparr>w_script = ?r2, w_trace = t2\<rparr>)"
    using sample_arguments_run by blast
  obtain t3 where 3: "arguments_linux 8 8 \<lparr>w_script = sample_arguments @ ?r1, w_trace = t2 @ [(Env (Malloc 8), ?m)]\<rparr> =
      Some ((0, ?a), \<lparr>w_script = ?r1, w_trace = t3\<rparr>)"
    using sample_arguments_run by blast
  obtain t4 where 4: "observe_linux 8 no_identity \<lparr>w_script = ?r1, w_trace = t3\<rparr> =
      Some ((0, ?i), \<lparr>w_script = [ok 0, ok 0], w_trace = t4\<rparr>)"
    using sample_observation_runs by blast
  have s: "store_arguments ?a (empty_snapshot (replicate 8 1)) =
      \<lparr>sn_exe = [], sn_data = [97, 0, 65, 61, 66, 0, 1, 1], sn_length = 6, sn_argc = 1, sn_env = 2, sn_started = 0\<rparr>"
    by (simp add: store_arguments_def empty_snapshot_def overlay_def eval_nat_numeral)
  have "\<exists>b. snapshot_body (observe_linux 8) (arguments_linux 8) 10 8 (empty_snapshot (replicate 8 1))
      \<lparr>w_script = sample_observation @ sample_arguments @ ?r2, w_trace = ?t0\<rparr> =
    Some ((0, Some b, \<lparr>sn_exe = [47, 98], sn_data = [97, 0, 65, 61, 66, 0, 1, 1], sn_length = 6, sn_argc = 1,
     sn_env = 2, sn_started = 42\<rparr>), \<lparr>w_script = [ok 0, ok 0], w_trace = t4\<rparr>)"
    using 1 2 3 4 s v by (simp add: snapshot_body_def overlay_def)
  then show ?thesis
    by (auto simp: rui_process_snapshot_linux_def boot_def sample_snapshot_def empty_snapshot_def
        snapshot_done_def close_directory_def)
qed

lemma snapshot_observes_twice_witness:
  "\<exists>s w'. rui_process_snapshot_linux 7 True 10 (empty_snapshot (replicate 8 1)) (boot sample_snapshot) = Some ((0, s), w') \<and>
    (\<exists>d a w1 w2 w3 w4. arguments_linux d 8 w1 = Some ((0, a), w2) \<and> arguments_linux d 8 w3 = Some ((0, a), w4) \<and>
      w_script w1 \<noteq> w_script w3 \<and> ar_bytes a = [97, 0, 65, 61, 66, 0])"
proof -
  obtain w' where run: "rui_process_snapshot_linux 7 True 10 (empty_snapshot (replicate 8 1)) (boot sample_snapshot) =
   Some ((0, \<lparr>sn_exe = [47, 98], sn_data = [97, 0, 65, 61, 66, 0, 1, 1], sn_length = 6, sn_argc = 1,
     sn_env = 2, sn_started = 42\<rparr>), w')"
    using sample_snapshot_runs by blast
  from snapshot_observes_twice [OF this] obtain d a m w1 w2 w3 w4 w5 where
    first: "arguments_linux d 8 w1 = Some ((0, a), w2)" and between: "emits w2 w3 [(Env (Malloc 8), m)]"
    and second: "arguments_linux d 8 w3 = Some ((0, a), w4)" and bytes: "ar_bytes a = [97, 0, 65, 61, 66, 0]"
    by (fastforce simp: empty_snapshot_def)
  obtain es where "emits w1 w2 es" by (rule runsD [OF cleans_arguments_linux first])
  with between have "length (w_script w3) < length (w_script w1)" by (simp add: emits_def)
  then have "w_script w1 \<noteq> w_script w3" by auto
  with run first second bytes show ?thesis by blast
qed

text \<open>
  C6. Whatever the system replies, a failed snapshot reveals nothing of the process.  Arguments that
  are refused touch no output and make no call.  Otherwise the path, the counts and the start time
  are zero, and the caller's buffer is all zeros, unless the process could not even be opened, when
  it is as the caller gave it.  Every descriptor the run opened is closed, and the second buffer is
  zeroed before it is freed.
\<close>

theorem snapshot_failure_reveals_nothing:
  assumes "rui_process_snapshot_linux pid given exe_cap old w = Some ((error, s), w')"
  shows "\<exists>es. emits w w' es \<and> (\<forall>fd. fd_net es fd = 0) \<and> zero_frees es \<and>
    (if pid \<le> 0 \<or> \<not> given \<or> exe_cap = 0 \<or> sn_data old = [] then error = EINVAL \<and> s = old \<and> es = []
     else error \<noteq> 0 \<longrightarrow>
       sn_exe s = [] \<and> sn_length s = 0 \<and> sn_argc s = 0 \<and> sn_env s = 0 \<and> sn_started s = 0 \<and>
       (set (sn_data s) \<subseteq> {0} \<or> sn_data s = sn_data old \<and> (\<exists>p r. es = [(Fd (Open p), r)] \<and> r_ret r < 0)))"
proof -
  from runsD [OF runs_snapshot_linux assms] obtain es where
    "emits w w' es" "clean es" "failed_snapshot pid given exe_cap old (error, s) es" by auto
  then show ?thesis
    by (intro exI [of _ es]) (auto simp: clean_def failed_snapshot_def refused_arguments_def reveals_nothing_def split: if_splits)
qed

text \<open>A caller's leftovers are reset when the process cannot be opened, and when it cannot be observed.\<close>

lemma snapshot_failure_reveals_nothing_witness:
  "\<exists>s w' t v'. rui_process_snapshot_linux 7 True 10 ((empty_snapshot [1, 2, 3])\<lparr>sn_exe := [47], sn_argc := 4\<rparr>) (boot [err EIO])
     = Some ((EIO, s), w') \<and> sn_exe s = [] \<and> sn_argc s = 0 \<and>
   rui_process_snapshot_linux 7 True 10 (empty_snapshot [1, 2, 3]) (boot [ok 8, err EIO, ok 0]) = Some ((EIO, t), v') \<and>
     set (sn_data t) \<subseteq> {0}"
proof -
  let ?old = "(empty_snapshot [1, 2, 3])\<lparr>sn_exe := [47], sn_argc := 4\<rparr>"
  obtain s w' where run: "rui_process_snapshot_linux 7 True 10 ?old (boot [err EIO]) = Some ((EIO, s), w')"
    by (simp add: rui_process_snapshot_linux_def boot_def empty_snapshot_def fails_def)
  have s: "sn_exe s = [] \<and> sn_argc s = 0"
    using snapshot_failure_reveals_nothing [OF run] by (auto simp: empty_snapshot_def)
  obtain t v' where run': "rui_process_snapshot_linux 7 True 10 (empty_snapshot [1, 2, 3]) (boot [ok 8, err EIO, ok 0])
     = Some ((EIO, t), v')"
    by (simp add: rui_process_snapshot_linux_def snapshot_body_def observe_linux_def snapshot_done_def
        observe_generation_linux_def close_directory_def boot_def empty_snapshot_def fails_def)
  have "set (sn_data t) \<subseteq> {0}"
    using snapshot_failure_reveals_nothing [OF run'] by (fastforce simp: empty_snapshot_def boot_def emits_def)
  with run run' s show ?thesis by blast
qed

text \<open>
  \<open>read_proc\<close> never returns a truncated file: on success the bytes are all the bytes read
  from the descriptor it opened, up to a read that returned 0, and they fit the buffer.
\<close>

lemma read_proc_reads_whole_file:
  assumes "read_proc directory name cap w = Some ((0, bytes), w')"
  shows "\<exists>es. emits w w' es \<and> read_whole directory name cap bytes es"
  using assms by (elim runsD [OF runs_read_proc]) auto

lemma read_proc_reads_whole_file_witness:
  "\<exists>w' es. read_proc 4 ''stat'' 3 (boot [ok 9, err EINTR, ok_data [1, 2], ok_data [3], err EINTR, ok 0, ok 0])
     = Some ((0, [1, 2, 3]), w') \<and> read_whole 4 ''stat'' 3 [1, 2, 3] es"
proof -
  obtain w' where "read_proc 4 ''stat'' 3 (boot [ok 9, err EINTR, ok_data [1, 2], ok_data [3], err EINTR, ok 0, ok 0])
     = Some ((0, [1, 2, 3]), w')"
    by (simp add: read_proc_def read_loop.simps read_proc_extra_def retry_eintr.simps boot_def
        fails_def interrupted_def)
  from this read_proc_reads_whole_file [OF this] show ?thesis by blast
qed

text \<open>
  C29. The start time is read from field 22 whatever bytes the command name holds, spaces
  and closing parentheses included.
\<close>

theorem starttime_is_field_22:
  assumes "b_nul \<notin> set pid" and "b_nul \<notin> set comm" and "length middle = 19"
    and "\<forall>f \<in> set middle. f \<noteq> [] \<and> set f \<inter> {b_nul, b_space, b_close} = {}"
    and "0 < started" and "started < 2 ^ 64" and "set rest \<inter> {b_nul, b_close} = {}"
  shows "parse_starttime (stat_line pid comm middle started rest) = Inr (word_of_nat started)"
  using assms by (rule parse_starttime_stat_line)

lemma starttime_is_field_22_witness:
  "parse_starttime (stat_line [55] [41, 32, 41] (replicate 19 [48]) 1234 [48]) = Inr (word_of_nat 1234)"
  by (rule starttime_is_field_22) auto

text \<open>
  \<open>valid_environment\<close> accepts exactly the sequences of terminated name=value entries
  with a nonempty name.
\<close>

lemma valid_environment_accepts_entries:
  "valid_environment data len st = 0 \<longleftrightarrow>
     (\<exists>es. drop st (take len data) = concat (map env_entry es) \<and> list_all env_ok es)"
  by (rule valid_environment_iff)

text \<open>
  C28. From a \<open>KERN_PROCARGS2\<close> buffer in the kernel's layout, with a nonempty first argument,
  the Darwin parser returns the arguments and the environment, nothing that follows the
  environment, and zeros in the rest of the buffer.
\<close>

theorem procargs_layout:
  assumes "le_int32 header = int (length argv)" and "length header = 4" and "argv \<noteq> []"
    and "b_nul \<notin> set exe" and "set padding \<subseteq> {b_nul}"
    and "\<forall>s \<in> set argv. b_nul \<notin> set s" and "hd argv \<noteq> []"
    and "\<forall>s \<in> set env. s \<noteq> [] \<and> b_nul \<notin> set s" and "rest = [] \<or> hd rest = b_nul"
  shows "\<exists>a. parse_procargs (header @ exe @ [b_nul] @ padding @ terminated argv @ terminated env @ rest) = Inr a \<and>
    take (ar_len a) (ar_bytes a) = terminated argv @ terminated env \<and>
    ar_len a = length (terminated argv @ terminated env) \<and>
    ar_argc a = length argv \<and> ar_env a = length (terminated argv) \<and>
    set (drop (ar_len a) (ar_bytes a)) \<subseteq> {0}"
  using assms by (rule parse_procargs_layout)

lemma procargs_layout_witness:
  "\<exists>a. parse_procargs ([2, 0, 0, 0] @ [47, 98] @ [b_nul] @ [0, 0] @ terminated [[97], []] @
      terminated [[65, 61]] @ [0, 9]) = Inr a \<and> ar_argc a = 2"
proof -
  have "le_int32 [2, 0, 0, 0] = int (length ([[97], []] :: byte list list))"
    by (simp add: le_int32_def)
  from procargs_layout [OF this, of "[47, 98]" "[0, 0]" "[[65, 61]]" "[0, 9]"] show ?thesis by auto
qed

text \<open>
  The Darwin start time does not overflow: it is accepted exactly when the seconds in
  microseconds plus the microseconds fit 64 bits and are not zero, and then it is their sum.
\<close>

lemma darwin_started_is_exact:
  "fst (darwin_started sec usec old) = 0 \<longleftrightarrow> usec < 1000000 \<and>
     0 < unat sec * 1000000 + unat usec \<and> unat sec * 1000000 + unat usec < 2 ^ 64 \<and>
     unat (snd (darwin_started sec usec old)) = unat sec * 1000000 + unat usec"
proof
  assume "fst (darwin_started sec usec old) = 0"
  then have d: "darwin_started sec usec old = (0, snd (darwin_started sec usec old))"
    by (simp add: prod_eq_iff)
  note e = darwin_started_exact [OF d]
  show "usec < 1000000 \<and> 0 < unat sec * 1000000 + unat usec \<and>
    unat sec * 1000000 + unat usec < 2 ^ 64 \<and>
    unat (snd (darwin_started sec usec old)) = unat sec * 1000000 + unat usec"
    using e(2,3) unat_u64 [of "snd (darwin_started sec usec old)"]
    unfolding e(1) [symmetric] by (simp add: word_less_nat_alt)
next
  assume "usec < 1000000 \<and> 0 < unat sec * 1000000 + unat usec \<and>
    unat sec * 1000000 + unat usec < 2 ^ 64 \<and>
    unat (snd (darwin_started sec usec old)) = unat sec * 1000000 + unat usec"
  then show "fst (darwin_started sec usec old) = 0" by (intro darwin_started_total) auto
qed

end
