(* ===== verification/Host_Launch.thy ===== *)
theory Host_Launch
  imports Host_Identity_Laws Bash_Platform
begin

text \<open>
  \<open>src/host_launch.c\<close>: launching a detached process.  The parent makes a report pipe and,
  in exact mode, an acknowledgement pipe; a helper process makes a session and a second
  process, which closes what it inherited and executes the target.  In exact mode the second
  process reports its number, waits for the release byte and confirms before it executes,
  and the parent observes its start time in between.

  One process's run may end in three ways: it goes on in the code (\<open>Here\<close>), it exits
  (\<open>Gone\<close>), or it executes another program (\<open>Became\<close>).  A run in which \<open>fork\<close> returns 0 is
  the new process's run.
\<close>

datatype 'a process = Here 'a | Gone int | Became string

section \<open>The descriptor limit\<close>

text \<open>
  \<open>infinity\<close> is \<open>RLIM_INFINITY\<close>.  \<open>clamp\<close> is the least of the two; the Darwin branch also
  clamps to the per-process ceiling and to \<open>OPEN_MAX\<close>.
\<close>

definition raise_target :: "u64 \<Rightarrow> u64 \<Rightarrow> u64 \<Rightarrow> u64" where
  "raise_target infinity required maximum =
     (if maximum \<noteq> infinity \<and> required > maximum then maximum else required)"

definition set_limit :: "u64 \<Rightarrow> u64 \<Rightarrow> world \<Rightarrow> (int \<times> world) option" where
  "set_limit target current w =
     (if target \<le> current then Some (0, w)
      else do {
        (s, w) \<leftarrow> sys (Env (Setrlimit target)) w;
        Some (if r_ret s = 0 then 0 else r_errno s, w)
      })"

definition rui_raise_descriptor_limit_linux :: "u64 \<Rightarrow> u64 \<Rightarrow> world \<Rightarrow> (int \<times> world) option" where
  "rui_raise_descriptor_limit_linux infinity required w = do {
     (g, w) \<leftarrow> sys (Env Getrlimit) w;
     let current = word_of_int (out 0 g);
     let maximum = word_of_int (out 1 g);
     if r_ret g \<noteq> 0 then Some (r_errno g, w)
     else if current = infinity \<or> current \<ge> required then Some (0, w)
     else set_limit (raise_target infinity required maximum) current w
   }"

definition rui_raise_descriptor_limit_darwin :: "u64 \<Rightarrow> u64 \<Rightarrow> world \<Rightarrow> (int \<times> world) option" where
  "rui_raise_descriptor_limit_darwin infinity required w = do {
     (g, w) \<leftarrow> sys (Env Getrlimit) w;
     let current = word_of_int (out 0 g);
     let maximum = word_of_int (out 1 g);
     if r_ret g \<noteq> 0 then Some (r_errno g, w)
     else if current = infinity \<or> current \<ge> required then Some (0, w)
     else do {
       (c, w) \<leftarrow> sys (Env (Query ''kern.maxfilesperproc'')) w;
       if r_ret c \<noteq> 0 then Some (r_errno c, w)
       else if out 0 c \<le> 0 then Some (EINVAL, w)
       else set_limit (min (min (raise_target infinity required maximum) (word_of_int (out 0 c))) 10240)
         current w
     }
   }"

section \<open>Receipts\<close>

text \<open>An \<open>int\<close> in memory, and the two that make a receipt.\<close>

definition int_bytes :: "int \<Rightarrow> byte list" where
  "int_bytes v = map (\<lambda>i. word_of_int (v div 256 ^ i)) [0, 1, 2, 3]"

abbreviation (input) receipt_pid :: int where "receipt_pid \<equiv> 1"
abbreviation (input) receipt_error :: int where "receipt_error \<equiv> 2"
abbreviation (input) receipt_confirm :: int where "receipt_confirm \<equiv> 3"
abbreviation (input) launch_report_fd :: int where "launch_report_fd \<equiv> 3"
abbreviation (input) launch_ack_fd :: int where "launch_ack_fd \<equiv> 4"
abbreviation (input) launch_first_unreserved_fd :: int where "launch_first_unreserved_fd \<equiv> 5"

definition receipt :: "int \<Rightarrow> int \<Rightarrow> byte list" where
  "receipt tag v = int_bytes tag @ int_bytes v"

definition receipt_tag :: "byte list \<Rightarrow> int" where
  "receipt_tag bs = le_int32 (take 4 bs)"

definition receipt_value :: "byte list \<Rightarrow> int" where
  "receipt_value bs = le_int32 (drop 4 bs)"

definition write_receipt :: "int \<Rightarrow> int \<Rightarrow> int \<Rightarrow> world \<Rightarrow> (unit process \<times> world) option" where
  "write_receipt report tag v w = do {
     (x, w) \<leftarrow> write_loop progress_or_eintr report (receipt tag v) w;
     Some (if x = None then Here () else Gone 127, w)
   }"

section \<open>The new process\<close>

definition and_then :: "'a process \<Rightarrow> ('a \<Rightarrow> world \<Rightarrow> ('b process \<times> world) option) \<Rightarrow>
    world \<Rightarrow> ('b process \<times> world) option" where
  "and_then x f w = (case x of Here a \<Rightarrow> f a w | Gone s \<Rightarrow> Some (Gone s, w) | Became p \<Rightarrow> Some (Became p, w))"

definition fail_child :: "int \<Rightarrow> int \<Rightarrow> world \<Rightarrow> ('a process \<times> world) option" where
  "fail_child report code w = do {
     (_, w) \<leftarrow> sys (Io (Write report (int_bytes code))) w;
     Some (Gone 127, w)
   }"

definition fail_launch :: "int \<Rightarrow> int \<Rightarrow> bool \<Rightarrow> world \<Rightarrow> ('a process \<times> world) option" where
  "fail_launch report code exact w =
     (if exact then do {
        (_, w) \<leftarrow> write_receipt report receipt_error code w;
        Some (Gone 127, w)
      }
      else fail_child report code w)"

definition confirm_generation :: "int \<Rightarrow> int \<Rightarrow> world \<Rightarrow> (unit process \<times> world) option" where
  "confirm_generation report acknowledge w = do {
     (p, w) \<leftarrow> sys (Proc Getpid) w;
     (x, w) \<leftarrow> write_receipt report receipt_pid (r_ret p) w;
     if x \<noteq> Here () then Some (x, w)
     else do {
       (r, w) \<leftarrow> retry_eintr (\<lambda>n. n < 0) (Io (Read acknowledge 1)) w;
       (_, w) \<leftarrow> sys (Fd (Close acknowledge)) w;
       if r_ret r \<noteq> 1 \<or> r_data r \<noteq> [1] then Some (Gone 127, w)
       else do {
         (p, w) \<leftarrow> sys (Proc Getpid) w;
         write_receipt report receipt_confirm (r_ret p) w
       }
     }
   }"

text \<open>A call after which a negative result ends the process through \<open>fail_launch\<close>.\<close>

definition or_fail :: "call \<Rightarrow> int \<Rightarrow> bool \<Rightarrow> (world \<Rightarrow> (unit process \<times> world) option) \<Rightarrow>
    world \<Rightarrow> (unit process \<times> world) option" where
  "or_fail c report exact k w = do {
     (r, w) \<leftarrow> sys c w;
     if r_ret r < 0 then fail_launch report (r_errno r) exact w else k w
   }"

text \<open>The end of the new process: \<open>chdir\<close>, the confirmation, \<open>execve\<close>.\<close>

definition enter_target :: "int \<Rightarrow> bool \<Rightarrow> string \<Rightarrow> world \<Rightarrow> (unit process \<times> world) option" where
  "enter_target report exact executable =
     or_fail (Proc (Chdir ''/'')) report exact (\<lambda>w. do {
       (x, w) \<leftarrow> (if exact then confirm_generation report launch_ack_fd w else Some (Here (), w));
       and_then x (\<lambda>_ w. do {
         (r, w) \<leftarrow> sys (Proc (Execve executable)) w;
         if r_ret r < 0 then fail_launch report (r_errno r) exact w else Some (Became executable, w)
       }) w
     })"

text \<open>Its descriptors: null for 0, 1 and 2, the report on 3, the acknowledgement on 4.\<close>

definition arrange_report :: "int \<Rightarrow> bool \<Rightarrow> (int \<Rightarrow> world \<Rightarrow> (unit process \<times> world) option) \<Rightarrow>
    world \<Rightarrow> (unit process \<times> world) option" where
  "arrange_report report exact k =
     (if report \<noteq> launch_report_fd then
        or_fail (Fd (Dup2 report launch_report_fd)) report exact (\<lambda>w. do {
          (_, w) \<leftarrow> sys (Fd (Close report)) w;
          k launch_report_fd w
        })
      else k report)"

definition arrange_descriptors :: "int \<Rightarrow> int \<Rightarrow> int \<Rightarrow> int \<Rightarrow> bool \<Rightarrow>
    (int \<Rightarrow> world \<Rightarrow> (unit process \<times> world) option) \<Rightarrow> world \<Rightarrow> (unit process \<times> world) option" where
  "arrange_descriptors null_fd report gate startup_write exact k =
     or_fail (Fd (Dup2 null_fd 0)) report exact (
     or_fail (Fd (Dup2 null_fd 1)) report exact (
     or_fail (Fd (Dup2 null_fd 2)) report exact (\<lambda>w. do {
       (r, w) \<leftarrow> (if startup_write \<ge> 0 then sys (Fd (Dup2 startup_write 2)) w else Some (ok 0, w));
       if r_ret r < 0 then fail_launch report (r_errno r) exact w
       else do {
         (_, w) \<leftarrow> (if null_fd > 2 \<and> null_fd \<noteq> report then sys (Fd (Close null_fd)) w
                    else Some (ok 0, w));
         arrange_report report exact (\<lambda>report.
           or_fail (Fd (Set_cloexec report)) report exact (\<lambda>w. do {
             (r, w) \<leftarrow> (if exact then sys (Fd (Dup2 gate launch_ack_fd)) w else Some (ok 0, w));
             if r_ret r < 0 then fail_launch report (r_errno r) exact w
             else do {
               (_, w) \<leftarrow> sys (Fd (Closefrom
                 (if exact then launch_first_unreserved_fd else launch_ack_fd))) w;
               k report w
             }
           })) w
       }
     })))"

definition launch_child :: "int \<Rightarrow> int \<Rightarrow> int \<Rightarrow> int \<Rightarrow> bool \<Rightarrow> string \<Rightarrow>
    world \<Rightarrow> (unit process \<times> world) option" where
  "launch_child channel_r report gate startup_write exact executable w = do {
     (_, w) \<leftarrow> sys (Fd (Close channel_r)) w;
     or_fail (Proc Setsid) report exact (\<lambda>w. do {
       (grandchild, w) \<leftarrow> sys (Proc Fork) w;
       if r_ret grandchild < 0 then fail_launch report (r_errno grandchild) exact w
       else if r_ret grandchild > 0 then Some (Gone 0, w)
       else do {
         (n, w) \<leftarrow> sys (Fd (Open ''/dev/null'')) w;
         if r_ret n < 0 then fail_launch report (r_errno n) exact w
         else arrange_descriptors (r_ret n) report gate startup_write exact
           (\<lambda>report. enter_target report exact executable) w
       }
     }) w
   }"

text \<open>The Darwin helper, which starts with its report on 3 and its acknowledgement on 4.\<close>

definition launch_helper :: "string \<Rightarrow> bool \<Rightarrow> world \<Rightarrow> (unit process \<times> world) option" where
  "launch_helper target exact =
     or_fail (Fd (Set_cloexec launch_report_fd)) launch_report_fd exact (\<lambda>w. do {
       (r, w) \<leftarrow> (if exact then sys (Fd (Set_cloexec launch_ack_fd)) w else Some (ok 0, w));
       if r_ret r < 0 then fail_launch launch_report_fd (r_errno r) exact w
       else or_fail (Proc Setsid) launch_report_fd exact (\<lambda>w. do {
         (child, w) \<leftarrow> sys (Proc Fork) w;
         if r_ret child < 0 then fail_launch launch_report_fd (r_errno child) exact w
         else if r_ret child > 0 then Some (Gone 0, w)
         else enter_target launch_report_fd exact target w
       }) w
     })"

text \<open>The constructor that runs before \<open>main\<close>: it takes over only for the two helper arguments.\<close>

definition early_launch_helper :: "string list \<Rightarrow> world \<Rightarrow> (unit process \<times> world) option" where
  "early_launch_helper args w =
     (if length args < 3 then Some (Here (), w)
      else
        let exact = (args ! 1 = ''--launch-exact-helper'')
        in if \<not> exact \<and> args ! 1 \<noteq> ''--launch-helper'' then Some (Here (), w)
           else launch_helper (args ! 2) exact w)"

section \<open>Writing with SIGPIPE suppressed\<close>

text \<open>
  \<open>rui_write_readiness\<close>.  The reply of the blocking call stores whether SIGPIPE was blocked
  before, that of \<open>sigpending\<close> whether it is pending.
\<close>

definition drain_sigpipe :: "bool \<Rightarrow> world \<Rightarrow> (unit \<times> world) option" where
  "drain_sigpipe needed w =
     (if needed then do {
        (p, w) \<leftarrow> sys (Env Sigpending) w;
        if r_ret p = 0 \<and> out 0 p \<noteq> 0 then do {
          (_, w) \<leftarrow> sys (Env Sigwait_pipe) w;
          Some ((), w)
        }
        else Some ((), w)
      }
      else Some ((), w))"

definition write_failure :: "reply option \<Rightarrow> int" where
  "write_failure x = (case x of None \<Rightarrow> 0 | Some r \<Rightarrow> if r_ret r = 0 then EIO else r_errno r)"

definition rui_write_readiness :: "int \<Rightarrow> byte list \<Rightarrow> world \<Rightarrow> (int \<times> world) option" where
  "rui_write_readiness fd bytes w = do {
     (b, w) \<leftarrow> sys (Env Sigmask_block_pipe) w;
     if r_ret b \<noteq> 0 then Some (r_ret b, w)
     else do {
       (x, w) \<leftarrow> write_loop progress_or_eintr fd bytes w;
       (_, w) \<leftarrow> drain_sigpipe (write_failure x = EPIPE \<and> out 0 b = 0) w;
       (r, w) \<leftarrow> sys (Env Sigmask_restore) w;
       Some (if write_failure x \<noteq> 0 then write_failure x else r_ret r, w)
     }
   }"

section \<open>The parent\<close>

text \<open>\<open>*launched_pid\<close> and \<open>*launched_started\<close>, and the parent's ends of the pipes.\<close>

record launched =
  la_pid :: int
  la_started :: u64

record channels =
  ch_read :: int
  ch_report :: int
  ch_ack :: int
  ch_gate :: int

text \<open>A call that closes a descriptor if it is one.\<close>

definition close_if :: "int \<Rightarrow> world \<Rightarrow> (unit \<times> world) option" where
  "close_if fd w =
     (if fd \<ge> 0 then do { (_, w) \<leftarrow> sys (Fd (Close fd)) w; Some ((), w) } else Some ((), w))"

definition open_acknowledge :: "world \<Rightarrow> ((int \<times> int \<times> int) \<times> world) option" where
  "open_acknowledge w = do {
     (a, w) \<leftarrow> sys (Fd Pipe) w;
     if r_ret a \<noteq> 0 then Some ((r_errno a, -1, -1), w)
     else do {
       (g, w) \<leftarrow> sys (Fd (Dupfd_cloexec (out 0 a) launch_first_unreserved_fd)) w;
       (c, w) \<leftarrow> (if r_ret g < 0 then Some (g, w) else sys (Fd (Set_cloexec (out 1 a))) w);
       (_, w) \<leftarrow> sys (Fd (Close (out 0 a))) w;
       Some ((if r_ret c < 0 then r_errno c else 0, r_ret g, out 1 a), w)
     }
   }"

definition open_channels :: "bool \<Rightarrow> world \<Rightarrow> ((int + channels) \<times> world) option" where
  "open_channels exact w = do {
     (p, w) \<leftarrow> sys (Fd Pipe) w;
     if r_ret p \<noteq> 0 then Some (Inl (r_errno p), w)
     else do {
       (d, w) \<leftarrow> sys (Fd (Dupfd_cloexec (out 1 p) launch_first_unreserved_fd)) w;
       if r_ret d < 0 then do {
         (_, w) \<leftarrow> sys (Fd (Close (out 0 p))) w;
         (_, w) \<leftarrow> sys (Fd (Close (out 1 p))) w;
         Some (Inl (r_errno d), w)
       }
       else do {
         (_, w) \<leftarrow> sys (Fd (Close (out 1 p))) w;
         ((error, gate, ack), w) \<leftarrow> (if exact then open_acknowledge w else Some ((0, -1, -1), w));
         if error \<noteq> 0 then do {
           (_, w) \<leftarrow> close_if gate w;
           (_, w) \<leftarrow> close_if ack w;
           (_, w) \<leftarrow> sys (Fd (Close (out 0 p))) w;
           (_, w) \<leftarrow> sys (Fd (Close (r_ret d))) w;
           Some (Inl error, w)
         }
         else Some (Inr \<lparr>ch_read = out 0 p, ch_report = r_ret d, ch_ack = ack, ch_gate = gate\<rparr>, w)
       }
     }
   }"

text \<open>Reading one receipt: the error and the bytes, fewer than eight at end of file.\<close>

definition read_receipt :: "int \<Rightarrow> world \<Rightarrow> ((int \<times> byte list) \<times> world) option" where
  "read_receipt fd w = read_loop fd 8 [] w"

text \<open>
  One round of the receipt loop.  \<open>Inl\<close> leaves the loop with the error; \<open>re_ack\<close> is -1 once
  the acknowledgement pipe is closed.
\<close>

record receipts =
  re_confirmed :: bool
  re_launched :: launched
  re_ack :: int

datatype platform = Linux | Darwin

definition rui_process_generation :: "platform \<Rightarrow> int \<Rightarrow> u64 \<Rightarrow> world \<Rightarrow> ((int \<times> u64) \<times> world) option" where
  "rui_process_generation p pid old w = (case p of
      Linux \<Rightarrow> rui_process_generation_linux pid True old w
    | Darwin \<Rightarrow> rui_process_generation_darwin pid True old w)"

definition release_child :: "platform \<Rightarrow> receipts \<Rightarrow> int \<Rightarrow> world \<Rightarrow> ((int option \<times> receipts) \<times> world) option" where
  "release_child p s pid w = do {
     let s = s\<lparr>re_launched := (re_launched s)\<lparr>la_pid := pid\<rparr>\<rparr>;
     ((error, started), w) \<leftarrow> rui_process_generation p pid (la_started (re_launched s)) w;
     let s = s\<lparr>re_launched := (re_launched s)\<lparr>la_started := started\<rparr>\<rparr>;
     if error \<noteq> 0 then Some ((Some error, s), w)
     else if started = 0 then Some ((Some EIO, s), w)
     else do {
       (error, w) \<leftarrow> rui_write_readiness (re_ack s) [1] w;
       (_, w) \<leftarrow> sys (Fd (Close (re_ack s))) w;
       Some ((if error \<noteq> 0 then Some error else None, s\<lparr>re_ack := -1\<rparr>), w)
     }
   }"

definition receipt_round :: "platform \<Rightarrow> int \<Rightarrow> receipts \<Rightarrow> world \<Rightarrow> ((int option \<times> receipts) \<times> world) option" where
  "receipt_round p fd s w = do {
     ((error, bytes), w) \<leftarrow> read_receipt fd w;
     let tag = receipt_tag bytes;
     let v = receipt_value bytes;
     let l = re_launched s;
     if error \<noteq> 0 then Some ((Some error, s), w)
     else if bytes = [] then Some ((Some (if re_confirmed s then 0 else EIO), s), w)
     else if length bytes \<noteq> 8 then Some ((Some EIO, s), w)
     else if tag = receipt_error \<and> v > 0 then Some ((Some v, s), w)
     else if tag = receipt_confirm \<and> v = la_pid l \<and> la_started l \<noteq> 0 \<and> \<not> re_confirmed s
       then Some ((None, s\<lparr>re_confirmed := True\<rparr>), w)
     else if tag \<noteq> receipt_pid \<or> v \<le> 0 \<or> la_pid l \<noteq> 0 then Some ((Some EIO, s), w)
     else release_child p s v w
   }"

lemma runs_read_receipt: "runs (read_receipt fd) (read_loop_spec fd 8 [])"
  unfolding read_receipt_def [abs_def] by (rule runs_read_loop)

lemma cleans_process_generation: "cleans (rui_process_generation p pid old)"
  unfolding rui_process_generation_def [abs_def]
  using cleans_process_generation_linux cleans_process_generation_darwin by (cases p) simp_all

text \<open>Signals and bytes only: no descriptor is opened or closed.\<close>

lemma cleans_write_loop: "cleans (write_loop progress_or_eintr fd bytes)"
  by (rule runs_weaken [OF wl.exact])
    (auto simp: write_spec_def clean_def fd_net_writes_only zero_frees_def writes_only_def)

lemma clean_env [simp]:
  "clean ((Env Sigmask_block_pipe, r) # es) = clean es" "clean ((Env Sigmask_restore, r) # es) = clean es"
  "clean ((Env Sigpending, r) # es) = clean es" "clean ((Env Sigwait_pipe, r) # es) = clean es"
  "clean ((Env Sigaction_default, r) # es) = clean es" "clean ((Env Sigaction_restore, r) # es) = clean es"
  by (simp_all add: clean_def)

lemma cleans_drain_sigpipe: "cleans (drain_sigpipe needed)"
  unfolding drain_sigpipe_def by (intro runs_rules) simp_all

lemma cleans_write_readiness: "cleans (rui_write_readiness fd bytes)"
  unfolding rui_write_readiness_def
  by (intro runs_bind [OF cleans_write_loop] runs_bind [OF cleans_drain_sigpipe] runs_rules)
    (simp_all add: clean_append)

text \<open>
  The round's effect on the ledger: it closes the acknowledgement pipe when it releases the
  child, and \<open>re_ack\<close> says whether that is still to do.
\<close>

definition ack_open :: "receipts \<Rightarrow> bool" where
  "ack_open s \<longleftrightarrow> la_pid (re_launched s) = 0 \<longrightarrow> 0 \<le> re_ack s"

definition ack_ledger :: "receipts \<Rightarrow> receipts \<Rightarrow> (call \<times> reply) list \<Rightarrow> bool" where
  "ack_ledger s s' es \<longleftrightarrow> (ack_open s \<longrightarrow> ack_open s' \<and>
     (re_ack s' = re_ack s \<and> (\<forall>fd. fd_net es fd = 0) \<or>
      0 \<le> re_ack s \<and> re_ack s' = -1 \<and> (\<forall>fd. fd_net es fd = - of_bool (fd = re_ack s))))"

lemma ack_ledger_trans: "ack_ledger s s1 es \<Longrightarrow> ack_ledger s1 s2 fs \<Longrightarrow> ack_ledger s s2 (es @ fs)"
  by (auto simp: ack_ledger_def)

lemma runs_release_child:
  "0 < pid \<Longrightarrow> la_pid (re_launched s) = 0 \<Longrightarrow>
     runs (release_child p s pid) (\<lambda>x es. ack_ledger s (snd x) es)"
  unfolding release_child_def
  by (intro runs_bind [OF cleans_process_generation] runs_bind [OF cleans_write_readiness] runs_rules)
    (auto simp: ack_ledger_def ack_open_def clean_def)

lemma runs_receipt_round:
  "runs (receipt_round p fd s) (\<lambda>x es. es \<noteq> [] \<and> ack_ledger s (snd x) es)"
  unfolding receipt_round_def
  by (intro runs_bind [OF runs_read_receipt] runs_weaken [OF runs_release_child] runs_rules)
    (auto simp: ack_ledger_def ack_open_def read_loop_spec_def fd_net_reads_only)

lemma receipt_round_consumes: "runs (receipt_round p fd s) (\<lambda>_ es. es \<noteq> [])"
  by (rule runs_weaken [OF runs_receipt_round]) simp

function receipts_loop :: "platform \<Rightarrow> int \<Rightarrow> receipts \<Rightarrow> world \<Rightarrow> ((int \<times> receipts) \<times> world) option" where
  "receipts_loop p fd s w =
     (case receipt_round p fd s w of
        None \<Rightarrow> None
      | Some ((Some error, s'), w') \<Rightarrow> Some ((error, s'), w')
      | Some ((None, s'), w') \<Rightarrow> receipts_loop p fd s' w')"
  by pat_completeness auto
termination
  by (relation "measure (\<lambda>(_, _, _, w). length (w_script w))")
    (auto dest: runs_shrinks [OF receipt_round_consumes])

declare receipts_loop.simps [simp del]

text \<open>Without exact mode the report is at most one error number.\<close>

definition read_error_code :: "int \<Rightarrow> world \<Rightarrow> (int \<times> world) option" where
  "read_error_code fd w = do {
     (r, w) \<leftarrow> retry_eintr (\<lambda>n. n < 0) (Io (Read fd 4)) w;
     Some (if r_ret r < 0 then r_errno r else if r_ret r = 0 then 0
           else if r_ret r = 4 then le_int32 (r_data r) else EIO, w)
   }"

text \<open>
  From the helper's start to the result: the receipts, the pipes, the helper's exit.  A
  caller without exact mode has no \<open>launched\<close> outputs; its record stays as it is.
\<close>

definition await_helper :: "int \<Rightarrow> int \<Rightarrow> world \<Rightarrow> (int \<times> world) option" where
  "await_helper child read_error w = do {
     (r, w) \<leftarrow> retry_eintr (\<lambda>n. n < 0) (Proc (Waitpid child False)) w;
     Some (if r_ret r < 0 then r_errno r
           else if (\<not> WIFEXITED (out 0 r) \<or> WEXITSTATUS (out 0 r) \<noteq> 0) \<and> read_error = 0 then EIO
           else read_error, w)
   }"

definition launch_finish ::
    "platform \<Rightarrow> channels \<Rightarrow> int \<Rightarrow> bool \<Rightarrow> launched \<Rightarrow> world \<Rightarrow> ((int \<times> launched) \<times> world) option" where
  "launch_finish p ch child exact l w = do {
     ((read_error, s), w) \<leftarrow>
       (if exact
        then receipts_loop p (ch_read ch) \<lparr>re_confirmed = False, re_launched = l, re_ack = ch_ack ch\<rparr> w
        else do {
          (e, w) \<leftarrow> read_error_code (ch_read ch) w;
          Some ((e, \<lparr>re_confirmed = False, re_launched = l, re_ack = ch_ack ch\<rparr>), w)
        });
     (_, w) \<leftarrow> sys (Fd (Close (ch_read ch))) w;
     (_, w) \<leftarrow> close_if (re_ack s) w;
     (error, w) \<leftarrow> await_helper child read_error w;
     Some ((error, re_launched s), w)
   }"

definition launch_detached_linux ::
    "string \<Rightarrow> int \<Rightarrow> bool \<Rightarrow> launched \<Rightarrow> world \<Rightarrow> ((int \<times> launched) process \<times> world) option" where
  "launch_detached_linux executable startup_write exact l w = do {
     (opened, w) \<leftarrow> open_channels exact w;
     case opened of
       Inl error \<Rightarrow> Some (Here (error, l), w)
     | Inr ch \<Rightarrow> do {
         (f, w) \<leftarrow> sys (Proc Fork) w;
         if r_ret f < 0 then do {
           (_, w) \<leftarrow> sys (Fd (Close (ch_read ch))) w;
           (_, w) \<leftarrow> sys (Fd (Close (ch_report ch))) w;
           (_, w) \<leftarrow> close_if (ch_gate ch) w;
           (_, w) \<leftarrow> close_if (ch_ack ch) w;
           Some (Here (r_errno f, l), w)
         }
         else if r_ret f = 0 then do {
           (x, w) \<leftarrow> launch_child (ch_read ch) (ch_report ch) (ch_gate ch) startup_write exact executable w;
           and_then x (\<lambda>_ w. Some (Gone 127, w)) w
         }
         else do {
           (_, w) \<leftarrow> sys (Fd (Close (ch_report ch))) w;
           (_, w) \<leftarrow> close_if (ch_gate ch) w;
           (x, w) \<leftarrow> launch_finish Linux ch (r_ret f) exact l w;
           Some (Here x, w)
         }
       }
   }"

text \<open>Darwin starts the helper with \<open>posix_spawn\<close>; nothing but the listed descriptors reaches it.\<close>

definition add_actions :: "fd_action list \<Rightarrow> int \<Rightarrow> world \<Rightarrow> (int \<times> world) option" where
  "add_actions as result = foldr (\<lambda>a k result w. do {
       (result, w) \<leftarrow> when_ok result (Spawn (Actions_add a)) w; k result w
     }) as (\<lambda>result w. Some (result, w)) result"

definition helper_actions :: "channels \<Rightarrow> int \<Rightarrow> bool \<Rightarrow> fd_action list" where
  "helper_actions ch startup_write exact =
     [Add_open 0 ''/dev/null'', Add_open 1 ''/dev/null'', Add_open 2 ''/dev/null''] @
     (if startup_write \<ge> 0 then [Add_dup2 startup_write 2] else []) @
     [Add_dup2 (ch_report ch) launch_report_fd] @
     (if exact then [Add_dup2 (ch_gate ch) launch_ack_fd] else [])"

definition spawn_helper :: "string \<Rightarrow> channels \<Rightarrow> int \<Rightarrow> bool \<Rightarrow> world \<Rightarrow> ((int \<times> int) \<times> world) option" where
  "spawn_helper helper ch startup_write exact w = do {
     (i, w) \<leftarrow> sys (Spawn Actions_init) w;
     if r_ret i \<noteq> 0 then Some ((r_ret i, -1), w)
     else do {
       (a, w) \<leftarrow> sys (Spawn Attr_init) w;
       ((err, child), w) \<leftarrow>
         (if r_ret a \<noteq> 0 then Some ((r_ret a, -1), w)
          else do {
            (err, w) \<leftarrow> when_ok 0 (Spawn (Attr_setflags [''CLOEXEC_DEFAULT''])) w;
            (err, w) \<leftarrow> add_actions (helper_actions ch startup_write exact) err w;
            ((err, child), w) \<leftarrow> posix_spawnp helper err (-1) w;
            (_, w) \<leftarrow> sys (Spawn Attr_destroy) w;
            Some ((err, child), w)
          });
       (_, w) \<leftarrow> sys (Spawn Actions_destroy) w;
       Some ((err, child), w)
     }
   }"

definition launch_detached_darwin ::
    "string \<Rightarrow> int \<Rightarrow> bool \<Rightarrow> launched \<Rightarrow> world \<Rightarrow> ((int \<times> launched) process \<times> world) option" where
  "launch_detached_darwin helper startup_write exact l w = do {
     (opened, w) \<leftarrow> open_channels exact w;
     case opened of
       Inl error \<Rightarrow> Some (Here (error, l), w)
     | Inr ch \<Rightarrow> do {
         ((err, child), w) \<leftarrow> spawn_helper helper ch startup_write exact w;
         (_, w) \<leftarrow> sys (Fd (Close (ch_report ch))) w;
         (_, w) \<leftarrow> close_if (ch_gate ch) w;
         if err \<noteq> 0 then do {
           (_, w) \<leftarrow> close_if (ch_ack ch) w;
           (_, w) \<leftarrow> sys (Fd (Close (ch_read ch))) w;
           Some (Here (err, l), w)
         }
         else do {
           (x, w) \<leftarrow> launch_finish Darwin ch child exact l w;
           Some (Here x, w)
         }
       }
   }"

section \<open>Entry points\<close>

definition launch_detached ::
    "platform \<Rightarrow> string \<Rightarrow> string \<Rightarrow> int \<Rightarrow> bool \<Rightarrow> launched \<Rightarrow> world \<Rightarrow>
     ((int \<times> launched) process \<times> world) option" where
  "launch_detached p helper executable startup_write exact l = (case p of
      Linux \<Rightarrow> launch_detached_linux executable startup_write exact l
    | Darwin \<Rightarrow> launch_detached_darwin helper startup_write exact l)"

definition launch_with_signals ::
    "platform \<Rightarrow> string \<Rightarrow> string \<Rightarrow> int \<Rightarrow> bool \<Rightarrow> launched \<Rightarrow> world \<Rightarrow>
     ((int \<times> launched) process \<times> world) option" where
  "launch_with_signals p helper executable startup_write exact l w = do {
     (a, w) \<leftarrow> sys (Env Sigaction_default) w;
     if r_ret a \<noteq> 0 then Some (Here (r_errno a, l), w)
     else do {
       (x, w) \<leftarrow> launch_detached p helper executable startup_write exact l w;
       and_then x (\<lambda>(result, l) w. do {
         (b, w) \<leftarrow> sys (Env Sigaction_restore) w;
         Some (Here (if result \<noteq> 0 then result else if r_ret b = 0 then 0 else r_errno b, l), w)
       }) w
     }
   }"

definition rui_launch_detached :: "platform \<Rightarrow> string \<Rightarrow> world \<Rightarrow> (int process \<times> world) option" where
  "rui_launch_detached p executable w = do {
     (x, w) \<leftarrow> launch_with_signals p executable executable (-1) False \<lparr>la_pid = 0, la_started = 0\<rparr> w;
     and_then x (\<lambda>(result, _) w. Some (Here result, w)) w
   }"

text \<open>The startup pipe; \<open>*startup_read\<close> keeps its \<open>old\<close> value on failure.\<close>

definition launch_observed ::
    "platform \<Rightarrow> string \<Rightarrow> string \<Rightarrow> bool \<Rightarrow> int \<Rightarrow> launched \<Rightarrow> world \<Rightarrow>
     ((int \<times> int \<times> launched) process \<times> world) option" where
  "launch_observed p helper executable exact old l w = do {
     (c, w) \<leftarrow> sys (Fd Pipe) w;
     if r_ret c \<noteq> 0 then Some (Here (r_errno c, old, l), w)
     else do {
       (d, w) \<leftarrow> sys (Fd (Dupfd_cloexec (out 1 c) (launch_report_fd + 1))) w;
       let result = (if r_ret d < 0 then r_errno d else 0);
       (_, w) \<leftarrow> sys (Fd (Close (out 1 c))) w;
       (e, w) \<leftarrow> (if result = 0 then sys (Fd (Set_cloexec (out 0 c))) w else Some (ok 0, w));
       (n, w) \<leftarrow> (if result = 0 \<and> \<not> r_ret e < 0 then sys (Fd (Set_nonblock (out 0 c))) w
                  else Some (e, w));
       let result = (if result = 0 \<and> r_ret n < 0 then r_errno n else result);
       (x, w) \<leftarrow> (if result = 0 then launch_with_signals p helper executable (r_ret d) exact l w
                  else Some (Here (result, l), w));
       and_then x (\<lambda>(result, l) w. do {
         (_, w) \<leftarrow> close_if (r_ret d) w;
         if result \<noteq> 0 then do {
           (_, w) \<leftarrow> sys (Fd (Close (out 0 c))) w;
           Some (Here (result, old, l), w)
         }
         else Some (Here (0, out 0 c, l), w)
       }) w
     }
   }"

definition rui_launch_detached_observed ::
    "platform \<Rightarrow> string \<Rightarrow> int \<Rightarrow> world \<Rightarrow> ((int \<times> int) process \<times> world) option" where
  "rui_launch_detached_observed p executable old w = do {
     (x, w) \<leftarrow> launch_observed p executable executable False old \<lparr>la_pid = 0, la_started = 0\<rparr> w;
     and_then x (\<lambda>(result, startup_read, _) w. Some (Here (result, startup_read), w)) w
   }"

text \<open>
  \<open>rui_launch_pinned\<close>.  A null pointer is \<open>None\<close>; \<open>argv\<close> is the caller's array with its
  terminator, so it has more than \<open>argc\<close> elements.
\<close>

definition pinned_arguments_valid ::
    "string option \<Rightarrow> string option \<Rightarrow> string option list option \<Rightarrow> nat \<Rightarrow> bool \<Rightarrow> bool" where
  "pinned_arguments_valid helper executable argv argc envp = (case (helper, executable, argv) of
      (Some h, Some e, Some a) \<Rightarrow>
        h \<noteq> [] \<and> hd h = CHR ''/'' \<and> e \<noteq> [] \<and> hd e = CHR ''/'' \<and> argc \<noteq> 0 \<and>
        a ! 0 = Some e \<and> a ! argc = None \<and> envp \<and> list_all (\<lambda>x. x \<noteq> None) (take argc a)
    | _ \<Rightarrow> False)"

record pinned =
  pi_result :: int
  pi_startup_read :: int
  pi_launched :: launched

definition rui_launch_pinned ::
    "platform \<Rightarrow> bool \<Rightarrow> string option \<Rightarrow> string option \<Rightarrow> string option list option \<Rightarrow> nat \<Rightarrow>
     bool \<Rightarrow> pinned \<Rightarrow> world \<Rightarrow> (pinned process \<times> world) option" where
  "rui_launch_pinned p outputs helper executable argv argc envp old w =
     (let none = \<lparr>pi_result = EINVAL, pi_startup_read = -1, pi_launched = \<lparr>la_pid = 0, la_started = 0\<rparr>\<rparr>
      in if \<not> outputs then Some (Here (old\<lparr>pi_result := EINVAL\<rparr>), w)
         else if \<not> pinned_arguments_valid helper executable argv argc envp then Some (Here none, w)
         else do {
           (x, w) \<leftarrow> launch_observed p (the helper) (the executable) True (-1) (pi_launched none) w;
           and_then x (\<lambda>(result, startup_read, l) w. Some (Here \<lparr>pi_result = result,
             pi_startup_read = startup_read,
             pi_launched = (if result \<noteq> 0 then l\<lparr>la_started := 0\<rparr> else l)\<rparr>, w)) w
         })"

end
