(* ===== verification/Host_Launch_Laws.thy ===== *)
theory Host_Launch_Laws
  imports Host_Launch
begin

text \<open>
  What \<open>Host_Launch\<close> guarantees: the encoding of receipts, the descriptor ledger of the
  parent on every path, the receipt protocol of exact mode, what the executed program
  inherits, and the restoration of signal state.
\<close>

section \<open>Integers in memory\<close>

lemma length_int_bytes [simp]: "length (int_bytes v) = 4"
  by (simp add: int_bytes_def)

lemma uint_byte: "uint (word_of_int x :: byte) = x mod 256"
  by (simp add: uint_word_of_int take_bit_eq_mod)

lemma mod_four_bytes:
  "v mod 256 + 256 * (v div 256 mod 256) + 65536 * (v div 65536 mod 256) +
     16777216 * (v div 16777216 mod 256) = v mod (4294967296 :: int)"
proof -
  have split: "a mod (256 * c) = 256 * (a div 256 mod c) + a mod 256" if "0 \<le> c" for a c :: int
    using that by (rule zmod_zmult2_eq)
  have 1: "v mod 4294967296 = 256 * (v div 256 mod 16777216) + v mod 256"
    using split [of 16777216 v] by simp
  have 2: "v div 256 mod 16777216 = 256 * (v div 256 div 256 mod 65536) + v div 256 mod 256"
    using split [of 65536 "v div 256"] by simp
  have 3: "v div 256 div 256 mod 65536 = 256 * (v div 256 div 256 div 256 mod 256) + v div 256 div 256 mod 256"
    using split [of 256 "v div 256 div 256"] by simp
  have 4: "v div 65536 = v div 256 div 256" "v div 16777216 = v div 256 div 256 div 256"
    using zdiv_zmult2_eq [of 256 v 256] zdiv_zmult2_eq [of 256 "v div 256" 256] zdiv_zmult2_eq [of 65536 v 256]
    by simp_all
  show ?thesis unfolding 1 2 3 4 by simp
qed

lemma sint_of_mod:
  assumes "- (2 ^ 31) \<le> v" and "v < 2 ^ 31"
  shows "sint (word_of_int (v mod 4294967296) :: u32) = v"
proof -
  have "(word_of_int (v mod 4294967296) :: u32) = word_of_int v"
    by (simp add: word_of_int_eq_iff take_bit_eq_mod)
  with assms show ?thesis by (simp add: signed_of_int signed_take_bit_int_eq_self)
qed

lemma le_int32_int_bytes:
  assumes "- (2 ^ 31) \<le> v" and "v < 2 ^ 31"
  shows "le_int32 (int_bytes v) = v"
proof -
  have "le_int32 (int_bytes v) = sint (word_of_int (v mod 4294967296) :: u32)"
    unfolding mod_four_bytes [symmetric] by (simp add: le_int32_def int_bytes_def uint_byte)
  with sint_of_mod [OF assms] show ?thesis by simp
qed

lemma receipt_fields:
  assumes "- (2 ^ 31) \<le> v" and "v < 2 ^ 31" and "tag \<in> {1, 2, 3}"
  shows "receipt_tag (receipt tag v) = tag" and "receipt_value (receipt tag v) = v"
  using assms by (auto simp: receipt_def receipt_tag_def receipt_value_def le_int32_int_bytes)

section \<open>The ledger of the parent\<close>

lemma runs_and_then:
  assumes "\<And>a. x = Here a \<Longrightarrow> runs (k a) \<Phi>" and "\<And>s. x = Gone s \<Longrightarrow> \<Phi> (Gone s) []"
    and "\<And>p. x = Became p \<Longrightarrow> \<Phi> (Became p) []"
  shows "runs (and_then x k) \<Phi>"
  using assms by (cases x) (auto simp: and_then_def [abs_def] intro: runs_ret)

text \<open>
  \<open>in_parent \<Phi>\<close> asks \<open>\<Phi>\<close> of the runs in which the code is still this process's; the other runs
  are those of the new process.
\<close>

definition in_parent :: "('a \<Rightarrow> (call \<times> reply) list \<Rightarrow> bool) \<Rightarrow> 'a process \<Rightarrow> (call \<times> reply) list \<Rightarrow> bool" where
  "in_parent \<Phi> x es \<longleftrightarrow> (case x of Here a \<Rightarrow> \<Phi> a es | _ \<Rightarrow> True)"

lemma in_parent_simps [simp]:
  "in_parent \<Phi> (Here a) es = \<Phi> a es" "in_parent \<Phi> (Gone s) es" "in_parent \<Phi> (Became p) es"
  by (simp_all add: in_parent_def)

definition parent_of :: "(world \<Rightarrow> ('a process \<times> world) option) \<Rightarrow> world \<Rightarrow> ('a \<times> world) option" where
  "parent_of f w = (case f w of Some (Here x, w') \<Rightarrow> Some (x, w') | _ \<Rightarrow> None)"

lemma parent_of_Some [simp]: "parent_of f w = Some (x, w') \<longleftrightarrow> f w = Some (Here x, w')"
  by (auto simp: parent_of_def split: option.splits process.splits)

lemma runs_parent_of: "runs f (in_parent \<Phi>) \<Longrightarrow> runs (parent_of f) \<Phi>"
  by (fastforce simp: runs_def)

text \<open>\<open>opens a\<close> is what holding the descriptor \<open>a\<close> adds to the ledger; -1 is none.\<close>

definition opens :: "int \<Rightarrow> int \<Rightarrow> int" where
  "opens a fd = of_bool (0 \<le> a \<and> a = fd)"

definition nets :: "(int \<Rightarrow> int) \<Rightarrow> (call \<times> reply) list \<Rightarrow> bool" where
  "nets f es \<longleftrightarrow> (\<forall>fd. fd_net es fd = f fd)"

lemma runs_close_if: "runs (close_if fd) (\<lambda>_ es. nets (\<lambda>x. - opens fd x) es)"
  unfolding close_if_def by (intro runs_rules) (auto simp: nets_def opens_def)

definition acknowledge_ledger :: "int \<times> int \<times> int \<Rightarrow> (call \<times> reply) list \<Rightarrow> bool" where
  "acknowledge_ledger x es \<longleftrightarrow> (case x of (error, gate, ack) \<Rightarrow>
     nets (\<lambda>fd. opens gate fd + opens ack fd) es \<and> (error = 0 \<longrightarrow> 0 \<le> gate \<and> 0 \<le> ack))"

lemma runs_open_acknowledge: "runs open_acknowledge acknowledge_ledger"
  unfolding open_acknowledge_def
  by (intro runs_rules) (auto simp: acknowledge_ledger_def nets_def opens_def fails_def)

definition channels_ledger :: "bool \<Rightarrow> int + channels \<Rightarrow> (call \<times> reply) list \<Rightarrow> bool" where
  "channels_ledger exact x es \<longleftrightarrow> (case x of
      Inl error \<Rightarrow> nets (\<lambda>_. 0) es \<and> error \<noteq> 0
    | Inr ch \<Rightarrow> nets (\<lambda>fd. opens (ch_read ch) fd + opens (ch_report ch) fd + opens (ch_ack ch) fd +
          opens (ch_gate ch) fd) es \<and> 0 \<le> ch_read ch \<and> 0 \<le> ch_report ch \<and>
          (if exact then 0 \<le> ch_gate ch \<and> 0 \<le> ch_ack ch else ch_gate ch = -1 \<and> ch_ack ch = -1))"

lemma runs_open_channels: "runs (open_channels exact) (channels_ledger exact)"
  unfolding open_channels_def
  by (intro runs_bind [OF runs_open_acknowledge] runs_bind [OF runs_close_if] runs_rules)
    (auto simp: channels_ledger_def acknowledge_ledger_def nets_def opens_def fails_def)

lemma runs_receipts_loop: "runs (receipts_loop p fd s) (\<lambda>x es. ack_ledger s (snd x) es)"
proof (rule runsI)
  fix w x w'
  assume "receipts_loop p fd s w = Some (x, w')"
  then show "\<exists>es. emits w w' es \<and> ack_ledger s (snd x) es"
  proof (induction p fd s w rule: receipts_loop.induct)
    case (1 p fd s w)
    from "1.prems" obtain stop s1 w1 where r: "receipt_round p fd s w = Some ((stop, s1), w1)"
      by (auto simp: receipts_loop.simps [of p fd s w] split: option.splits)
    from runsD [OF runs_receipt_round r] obtain es where
      es: "emits w w1 es" "ack_ledger s s1 es" by auto
    show ?case
    proof (cases stop)
      case None
      with "1.prems" r have "receipts_loop p fd s1 w1 = Some (x, w')"
        by (simp add: receipts_loop.simps [of p fd s w])
      with "1.IH" r None obtain fs where "emits w1 w' fs" "ack_ledger s1 (snd x) fs" by blast
      with es show ?thesis by (blast intro: emits_trans ack_ledger_trans)
    next
      case (Some e)
      with "1.prems" r have "x = (e, s1)" "w' = w1"
        by (simp_all add: receipts_loop.simps [of p fd s w])
      with es show ?thesis by auto
    qed
  qed
qed

lemma runs_read_error_code: "runs (read_error_code fd) (\<lambda>_ es. nets (\<lambda>_. 0) es)"
  unfolding read_error_code_def
  by (intro runs_bind [OF runs_retry] runs_rules) (auto simp: nets_def intro!: fd_net_retried)

lemma runs_await_helper: "runs (await_helper child e) (\<lambda>_ es. nets (\<lambda>_. 0) es)"
  unfolding await_helper_def
  by (intro runs_bind [OF runs_retry] runs_rules) (auto simp: nets_def intro!: fd_net_retried)

definition launchable :: "bool \<Rightarrow> launched \<Rightarrow> bool" where
  "launchable exact l \<longleftrightarrow> exact \<longrightarrow> la_pid l = 0"

lemma runs_launch_finish:
  assumes "launchable exact l" and "if exact then 0 \<le> ch_ack ch else ch_ack ch = -1"
    and "0 \<le> ch_read ch"
  shows "runs (launch_finish p ch child exact l)
    (\<lambda>_ es. nets (\<lambda>fd. - opens (ch_read ch) fd - opens (ch_ack ch) fd) es)"
proof (cases exact)
  case True
  with assms show ?thesis
    unfolding launch_finish_def if_P [OF True]
    by (intro runs_bind [OF runs_receipts_loop] runs_bind [OF runs_close_if] runs_bind [OF runs_await_helper] runs_rules)
      (auto simp: ack_ledger_def ack_open_def launchable_def nets_def opens_def)
next
  case False
  have r: "runs (\<lambda>w. Option.bind (read_error_code (ch_read ch) w) (\<lambda>(e, w).
      Some ((e, \<lparr>re_confirmed = False, re_launched = l, re_ack = ch_ack ch\<rparr>), w)))
      (\<lambda>x es. nets (\<lambda>_. 0) es \<and> re_ack (snd x) = ch_ack ch)"
    by (intro runs_bind [OF runs_read_error_code] runs_rules) simp
  from False assms show ?thesis
    unfolding launch_finish_def if_not_P [OF False]
    by (intro runs_bind [OF r] runs_bind [OF runs_close_if] runs_bind [OF runs_await_helper] runs_rules)
      (auto simp: nets_def opens_def)
qed

section \<open>The child's table of descriptors\<close>

text \<open>
  What each descriptor number refers to, and whether it is closed on exec.  \<open>fd_effect\<close> is
  the effect of one event; \<open>coherent\<close> says that the system gave only free numbers.
\<close>

datatype origin = Opened string | Inherited int

type_synonym table = "int \<Rightarrow> (origin \<times> bool) option"

fun fd_effect :: "call \<times> reply \<Rightarrow> table \<Rightarrow> table" where
  "fd_effect (Fd (Open p), r) T = (if 0 \<le> r_ret r then T(r_ret r \<mapsto> (Opened p, False)) else T)"
| "fd_effect (Fd (Close f), r) T = T(f := None)"
| "fd_effect (Fd (Dup2 a b), r) T =
     (if 0 \<le> r_ret r \<and> a \<noteq> b then T(b := map_option (\<lambda>(s, _). (s, False)) (T a)) else T)"
| "fd_effect (Fd (Closefrom n), r) T = (\<lambda>fd. if n \<le> fd then None else T fd)"
| "fd_effect (Fd (Set_cloexec f), r) T =
     (if 0 \<le> r_ret r then T(f := map_option (\<lambda>(s, _). (s, True)) (T f)) else T)"
| "fd_effect _ T = T"

fun plausible :: "call \<times> reply \<Rightarrow> table \<Rightarrow> bool" where
  "plausible (Fd (Open p), r) T = (0 \<le> r_ret r \<longrightarrow> T (r_ret r) = None)"
| "plausible _ T = True"

fun coherent :: "table \<Rightarrow> (call \<times> reply) list \<Rightarrow> bool" where
  "coherent T [] = True"
| "coherent T (e # es) = (plausible e T \<and> coherent (fd_effect e T) es)"

definition fd_table :: "table \<Rightarrow> (call \<times> reply) list \<Rightarrow> table" where
  "fd_table T es = fold fd_effect es T"

lemma fd_table_simps [simp]:
  "fd_table T [] = T" "fd_table T (e # es) = fd_table (fd_effect e T) es"
  "fd_table T (es @ fs) = fd_table (fd_table T es) fs"
  by (simp_all add: fd_table_def)

lemma coherent_append [simp]: "coherent T (es @ fs) \<longleftrightarrow> coherent T es \<and> coherent (fd_table T es) fs"
  by (induction T es rule: coherent.induct) simp_all

text \<open>The executed program gets null on 0 and 1, \<open>s\<close> on 2, and nothing else.\<close>

definition sealed :: "origin \<Rightarrow> table \<Rightarrow> bool" where
  "sealed s T \<longleftrightarrow> T 0 = Some (Opened ''/dev/null'', False) \<and> T 1 = Some (Opened ''/dev/null'', False) \<and>
     T 2 = Some (s, False) \<and> (\<forall>fd d. T fd = Some (d, False) \<longrightarrow> fd \<in> {0, 1, 2})"

text \<open>
  \<open>execs s P f\<close>: if the run of \<open>f\<close> from a table in \<open>P\<close> executes a program, its table is
  sealed.  The rules follow the text of the child.
\<close>

definition execs :: "origin \<Rightarrow> (table \<Rightarrow> bool) \<Rightarrow> (world \<Rightarrow> ('a process \<times> world) option) \<Rightarrow> bool" where
  "execs s P f \<longleftrightarrow> runs f (\<lambda>x es. \<forall>T. P T \<longrightarrow> coherent T es \<longrightarrow> (\<exists>exe. x = Became exe) \<longrightarrow> sealed s (fd_table T es))"

lemma execs_sys:
  assumes "\<And>r. documented (c, r) \<Longrightarrow> execs s (Q r) (h r)"
    and "\<And>r T. documented (c, r) \<Longrightarrow> plausible (c, r) T \<Longrightarrow> P T \<Longrightarrow> Q r (fd_effect (c, r) T)"
  shows "execs s P (\<lambda>w. Option.bind (sys c w) (case_prod h))"
  unfolding execs_def
  by (rule runs_bind_sys, rule runs_weaken [OF assms(1) [unfolded execs_def]]) (use assms(2) in auto)

lemma execs_ret: "execs s P (\<lambda>w. Some (Gone n, w))"
  unfolding execs_def by (intro runs_rules) auto

lemma runs_write_receipt:
  "runs (write_receipt report tag v) (\<lambda>x es. write_spec report (receipt tag v) (x = Here ()) es \<and>
     (x = Here () \<or> x = Gone 127))"
  unfolding write_receipt_def by (intro runs_bind [OF wl.exact] runs_rules) auto

lemma runs_fail_launch: "runs (fail_launch report code exact) (\<lambda>x es. x = Gone 127)"
  unfolding fail_launch_def fail_child_def
  by (intro runs_bind [OF runs_write_receipt] runs_rules) simp_all

lemma execs_fail: "execs s P (fail_launch report code exact)"
  unfolding execs_def by (rule runs_weaken [OF runs_fail_launch]) auto

lemma execs_or_fail:
  assumes "execs s Q k"
    and "\<And>r T. documented (c, r) \<Longrightarrow> 0 \<le> r_ret r \<Longrightarrow> plausible (c, r) T \<Longrightarrow> P T \<Longrightarrow> Q (fd_effect (c, r) T)"
  shows "execs s P (or_fail c report exact k)"
  unfolding or_fail_def
proof (rule execs_sys)
  fix r show "execs s (\<lambda>T. 0 \<le> r_ret r \<longrightarrow> Q T) (\<lambda>w. if r_ret r < 0 then fail_launch report (r_errno r) exact w else k w)"
    using assms(1) by (cases "r_ret r < 0") (simp_all add: execs_fail not_less)
qed (use assms(2) in auto)

lemma execs_weaken: "execs s Q f \<Longrightarrow> (\<And>T. P T \<Longrightarrow> Q T) \<Longrightarrow> execs s P f"
  unfolding execs_def by (erule runs_weaken) blast

lemma execs_if: "(b \<Longrightarrow> execs s P f) \<Longrightarrow> (\<not> b \<Longrightarrow> execs s P g) \<Longrightarrow> execs s P (\<lambda>w. if b then f w else g w)"
  by (cases b) simp_all

text \<open>An optional call: the model gives the reply \<open>ok 0\<close> where the code makes none.\<close>

lemma execs_optional:
  assumes "b \<Longrightarrow> execs s P (\<lambda>w. Option.bind (sys c w) (case_prod h))" and "\<not> b \<Longrightarrow> execs s P (h x)"
  shows "execs s P (\<lambda>w. Option.bind (if b then sys c w else Some (x, w)) (case_prod h))"
  using assms by (cases b) simp_all


text \<open>Runs that make no descriptor calls leave the table alone.\<close>

definition still :: "(call \<times> reply) list \<Rightarrow> bool" where
  "still es \<longleftrightarrow> (\<forall>e \<in> set es. (\<forall>c. fst e \<noteq> Fd c))"

lemma fd_table_still: "still es \<Longrightarrow> fd_table T es = T"
proof (induction es arbitrary: T)
  case Nil
  then show ?case by simp
next
  case (Cons e es)
  then have "fd_effect e T = T" by (cases "(e, T)" rule: fd_effect.cases) (auto simp: still_def)
  with Cons show ?case by (simp add: still_def)
qed

lemma still_append [simp]: "still (es @ fs) \<longleftrightarrow> still es \<and> still fs"
  by (auto simp: still_def)

lemma still_Cons [simp]: "still (e # es) \<longleftrightarrow> (\<forall>c. fst e \<noteq> Fd c) \<and> still es"
  by (auto simp: still_def)

lemma still_Nil [simp]: "still []"
  by (simp add: still_def)

lemma still_writes: "write_spec fd bytes b es \<Longrightarrow> still es"
  by (fastforce simp: write_spec_def writes_only_def still_def)

lemma still_writes_only: "writes_only fd es \<Longrightarrow> still es"
  by (fastforce simp: writes_only_def still_def)

lemma still_retried: "retried failed (Io c) r es \<Longrightarrow> still es"
  by (auto simp: retried_def still_def)

section \<open>The handshake of the child\<close>

text \<open>
  The calls of a successful \<open>confirm_generation\<close>: the receipt of the process's number is
  written whole, then the release byte is read, then the confirmation is written whole.
\<close>

definition handshake :: "int \<Rightarrow> int \<Rightarrow> (call \<times> reply) list \<Rightarrow> bool" where
  "handshake report ack es \<longleftrightarrow> (\<exists>p q es1 es2 r c es3.
     es = (Proc Getpid, p) # es1 @ es2 @ [(Fd (Close ack), c)] @ (Proc Getpid, q) # es3 \<and>
     writes_only report es1 \<and> written report es1 = receipt 1 (r_ret p) \<and>
     retried (\<lambda>n. n < 0) (Io (Read ack 1)) r es2 \<and> r_data r = [1] \<and>
     writes_only report es3 \<and> written report es3 = receipt 3 (r_ret q))"

lemma handshakeI:
  assumes "write_spec report (receipt 1 (r_ret p)) True es1"
    and "retried (\<lambda>n. n < 0) (Io (Read ack (Suc 0))) r es2" and "r_data r = [1]"
    and "write_spec report (receipt 3 (r_ret q)) True es3"
  shows "handshake report ack ((Proc Getpid, p) # es1 @ es2 @ (Fd (Close ack), c) # (Proc Getpid, q) # es3)"
  unfolding handshake_def using assms
  by (intro exI [of _ p] exI [of _ q] exI [of _ es1] exI [of _ es2] exI [of _ r] exI [of _ c] exI [of _ es3])
    (auto simp: write_spec_def)

lemma runs_confirm_generation:
  "runs (confirm_generation report ack) (\<lambda>x es. (x = Here () \<longrightarrow> handshake report ack es) \<and>
     (x = Here () \<or> x = Gone 127))"
  unfolding confirm_generation_def
  by (intro runs_bind [OF runs_write_receipt] runs_bind [OF runs_retry] runs_weaken [OF runs_write_receipt] runs_rules)
    (auto intro!: handshakeI)

lemma handshake_table:
  assumes "handshake report ack es"
  shows "fd_table T es = T(ack := None)"
proof -
  from assms obtain p q es1 es2 r c es3 where
    es: "es = (Proc Getpid, p) # es1 @ es2 @ [(Fd (Close ack), c)] @ (Proc Getpid, q) # es3"
    and "writes_only report es1" "retried (\<lambda>n. n < 0) (Io (Read ack 1)) r es2" "writes_only report es3"
    unfolding handshake_def by blast
  then have "still es1" "still es2" "still es3" by (auto intro: still_writes_only still_retried)
  then show ?thesis unfolding es by (simp add: fd_table_still)
qed

text \<open>The null device is on the first \<open>n\<close> descriptors.\<close>

definition null_up_to :: "int \<Rightarrow> table \<Rightarrow> bool" where
  "null_up_to n T \<longleftrightarrow> (\<forall>i. 0 \<le> i \<and> i < n \<longrightarrow> T i = Some (Opened ''/dev/null'', False))"

definition stderr_source :: "int \<Rightarrow> origin \<Rightarrow> table \<Rightarrow> bool" where
  "stderr_source startup_write s T \<longleftrightarrow>
     (if startup_write < 0 then s = Opened ''/dev/null''
      else 3 \<le> startup_write \<and> (\<exists>c. T startup_write = Some (s, c)))"

definition standard :: "origin \<Rightarrow> table \<Rightarrow> bool" where
  "standard s T \<longleftrightarrow> null_up_to 2 T \<and> T 2 = Some (s, False) \<and> (\<forall>fd < 0. T fd = None)"

definition enterable :: "origin \<Rightarrow> bool \<Rightarrow> table \<Rightarrow> bool" where
  "enterable s exact T \<longleftrightarrow> standard s T \<and> (\<forall>d c. T 3 = Some (d, c) \<longrightarrow> c) \<and>
     (\<forall>fd. (if exact then 5 else 4) \<le> fd \<longrightarrow> T fd = None)"

lemma sealed_enterable:
  assumes "enterable s exact T"
  shows "sealed s (if exact then T(4 := None) else T)"
proof -
  have "fd \<in> {0, 1, 2}" if f: "(if exact then T(4 := None) else T) fd = Some (d, False)" for fd d
  proof (rule ccontr)
    assume "fd \<notin> {0, 1, 2}"
    then consider "fd < 0" | "fd = 3" | "fd = 4" | "5 \<le> fd" by fastforce
    then show False using assms f
      by cases (auto simp: enterable_def standard_def split: if_splits)
  qed
  with assms show ?thesis
    by (auto simp: sealed_def enterable_def standard_def null_up_to_def)
qed

lemma execs_enter_target: "execs s (enterable s exact) (enter_target report exact exe)"
proof -
  have x: "execs s (sealed s) (\<lambda>w. Option.bind (sys (Proc (Execve exe)) w) (\<lambda>(r, w).
      if r_ret r < 0 then fail_launch report (r_errno r) exact w else Some (Became exe, w)))"
    unfolding execs_def
    by (intro runs_weaken [OF runs_fail_launch] runs_rules) auto
  have "execs s (enterable s exact) (\<lambda>w. Option.bind
      (if exact then confirm_generation report 4 w else Some (Here (), w))
      (\<lambda>(x, w). and_then x (\<lambda>_ w. Option.bind (sys (Proc (Execve exe)) w) (\<lambda>(r, w).
        if r_ret r < 0 then fail_launch report (r_errno r) exact w else Some (Became exe, w))) w))"
  proof (cases exact)
    case True
    then show ?thesis
      using sealed_enterable [of s exact] unfolding execs_def if_P [OF True]
      by (intro runs_bind [OF runs_confirm_generation] runs_and_then runs_weaken [OF x [unfolded execs_def]])
        (auto simp: handshake_table)
  next
    case False
    then show ?thesis
      using execs_weaken [OF x, of "enterable s exact"] sealed_enterable [of s exact]
      by (simp add: and_then_def)
  qed
  then show ?thesis
    unfolding enter_target_def by (rule execs_or_fail) simp
qed

lemma execs_arrange_report:
  assumes "execs s (standard s) (k 3)" and "3 \<le> report"
  shows "execs s (standard s) (arrange_report report exact k)"
proof (cases "report = 3")
  case True
  with assms show ?thesis by (simp add: arrange_report_def)
next
  case False
  with assms show ?thesis
    unfolding arrange_report_def if_P [OF False]
    by (intro execs_or_fail [where Q = "standard s"] execs_sys [where Q = "\<lambda>_. standard s"])
      (auto simp: standard_def null_up_to_def)
qed

text \<open>The steps after the report is on 3.\<close>

definition seal_report :: "int \<Rightarrow> bool \<Rightarrow> (world \<Rightarrow> (unit process \<times> world) option) \<Rightarrow>
    world \<Rightarrow> (unit process \<times> world) option" where
  "seal_report gate exact k =
     or_fail (Fd (Set_cloexec 3)) 3 exact (\<lambda>w. do {
       (r, w) \<leftarrow> (if exact then sys (Fd (Dup2 gate 4)) w else Some (ok 0, w));
       if r_ret r < 0 then fail_launch 3 (r_errno r) exact w
       else do {
         (_, w) \<leftarrow> sys (Fd (Closefrom (if exact then 5 else 4))) w;
         k w
       }
     })"

lemma execs_seal_report:
  assumes k: "execs s (enterable s exact) k"
  shows "execs s (standard s) (seal_report gate exact k)"
proof -
  let ?Q = "\<lambda>T. standard s T \<and> (\<forall>d c. T 3 = Some (d, c) \<longrightarrow> c)"
  have close: "execs s ?Q (\<lambda>w. Option.bind (sys (Fd (Closefrom (if exact then 5 else 4))) w) (\<lambda>(_, w). k w))"
    by (intro execs_sys [where Q = "\<lambda>_. enterable s exact"] k)
      (auto simp: enterable_def standard_def null_up_to_def)
  have rest: "execs s ?Q (\<lambda>w. if r_ret r < 0 then fail_launch 3 (r_errno r) exact w
      else Option.bind (sys (Fd (Closefrom (if exact then 5 else 4))) w) (\<lambda>(_, w). k w))" for r
    by (rule execs_if [OF execs_fail close])
  have dup: "execs s ?Q (\<lambda>w. Option.bind (sys (Fd (Dup2 gate 4)) w) (\<lambda>(r, w).
      if r_ret r < 0 then fail_launch 3 (r_errno r) exact w
      else Option.bind (sys (Fd (Closefrom (if exact then 5 else 4))) w) (\<lambda>(_, w). k w)))"
    by (rule execs_sys [where Q = "\<lambda>_. ?Q", OF rest]) (auto simp: standard_def null_up_to_def)
  show ?thesis
    unfolding seal_report_def
    by (rule execs_or_fail [where Q = ?Q], rule execs_optional [OF dup rest])
      (auto simp: standard_def null_up_to_def)
qed

definition nulled :: "int \<Rightarrow> int \<Rightarrow> origin \<Rightarrow> int \<Rightarrow> table \<Rightarrow> bool" where
  "nulled null_fd startup_write s n T \<longleftrightarrow> T null_fd = Some (Opened ''/dev/null'', False) \<and>
     null_up_to n T \<and> (\<forall>fd < 0. T fd = None) \<and> stderr_source startup_write s T \<and>
     null_fd \<noteq> startup_write"

lemma nulled_dup2:
  assumes "nulled null_fd sw s n T" and "0 \<le> n" and "n < 3" and "0 \<le> r_ret r"
  shows "nulled null_fd sw s (n + 1) (fd_effect (Fd (Dup2 null_fd n), r) T)"
  using assms by (auto simp: nulled_def null_up_to_def stderr_source_def order_le_less)

lemma execs_arrange_descriptors:
  assumes k: "execs s (enterable s exact) (k 3)" and report: "3 \<le> report"
  shows "execs s (nulled null_fd startup_write s 0)
    (arrange_descriptors null_fd report gate startup_write exact k)"
proof -
  let ?k = "\<lambda>report. or_fail (Fd (Set_cloexec report)) report exact (\<lambda>w. do {
             (r, w) \<leftarrow> (if exact then sys (Fd (Dup2 gate 4)) w else Some (ok 0, w));
             if r_ret r < 0 then fail_launch report (r_errno r) exact w
             else do {
               (_, w) \<leftarrow> sys (Fd (Closefrom (if exact then 5 else 4))) w;
               k report w
             }
           })"
  have arranged: "execs s (standard s) (arrange_report report exact ?k)"
    using execs_arrange_report [of s ?k report exact] execs_seal_report [OF k, of gate] report
    by (simp add: seal_report_def)
  let ?close = "\<lambda>w. do {
         (_, w) \<leftarrow> (if null_fd > 2 \<and> null_fd \<noteq> report then sys (Fd (Close null_fd)) w
                    else Some (ok 0, w));
         arrange_report report exact ?k w }"
  have closed: "execs s (standard s) ?close"
    by (rule execs_optional, rule execs_sys [where Q = "\<lambda>_. standard s", OF arranged])
      (auto simp: standard_def null_up_to_def arranged)
  have stderr: "execs s (nulled null_fd startup_write s 3) (\<lambda>w. do {
       (r, w) \<leftarrow> (if startup_write \<ge> 0 then sys (Fd (Dup2 startup_write 2)) w else Some (ok 0, w));
       if r_ret r < 0 then fail_launch report (r_errno r) exact w else ?close w })"
  proof (cases "0 \<le> startup_write")
    case True
    then show ?thesis
      unfolding if_P [OF True]
      by (intro execs_sys [where Q = "\<lambda>r T. 0 \<le> r_ret r \<longrightarrow> standard s T"] execs_if execs_fail
          execs_weaken [OF closed])
        (auto simp: nulled_def stderr_source_def standard_def null_up_to_def)
  next
    case False
    then show ?thesis
      unfolding if_not_P [OF False] bind.bind_lunit prod.case
      by (intro execs_if execs_fail execs_weaken [OF closed])
        (auto simp: nulled_def stderr_source_def standard_def null_up_to_def)
  qed
  show ?thesis
    unfolding arrange_descriptors_def
    by (rule execs_or_fail [where Q = "nulled null_fd startup_write s (0 + 1)"],
        rule execs_or_fail [where Q = "nulled null_fd startup_write s (1 + 1)"],
        rule execs_or_fail [where Q = "nulled null_fd startup_write s (2 + 1)"])
      (auto simp del: fd_effect.simps simp: stderr intro: nulled_dup2 [where n = 0, simplified]
        nulled_dup2 [where n = 1, simplified] nulled_dup2 [where n = 2, simplified])
qed


text \<open>The table the child starts with: its three pipe ends and the startup pipe are open.\<close>

definition inherits :: "int \<Rightarrow> int \<Rightarrow> origin \<Rightarrow> table \<Rightarrow> bool" where
  "inherits channel_r startup_write s T \<longleftrightarrow> (\<forall>fd < 0. T fd = None) \<and>
     stderr_source startup_write s T \<and> channel_r \<noteq> startup_write"

lemma execs_launch_child:
  assumes "3 \<le> report"
  shows "execs s (inherits channel_r startup_write s)
    (launch_child channel_r report gate startup_write exact exe)"
proof -
  have open_null: "execs s (\<lambda>T. (\<forall>fd < 0. T fd = None) \<and> stderr_source startup_write s T)
      (\<lambda>w. do {
         (n, w) \<leftarrow> sys (Fd (Open ''/dev/null'')) w;
         if r_ret n < 0 then fail_launch report (r_errno n) exact w
         else arrange_descriptors (r_ret n) report gate startup_write exact
           (\<lambda>report. enter_target report exact exe) w })"
    by (intro execs_sys [where Q = "\<lambda>r T. 0 \<le> r_ret r \<longrightarrow> nulled (r_ret r) startup_write s 0 T"] execs_if execs_fail
        execs_weaken [OF execs_arrange_descriptors [OF execs_enter_target assms]])
      (auto simp: nulled_def null_up_to_def stderr_source_def fails_def)
  show ?thesis
    unfolding launch_child_def
    by (intro execs_sys [where Q = "\<lambda>_ T. (\<forall>fd < 0. T fd = None) \<and> stderr_source startup_write s T"]
        execs_or_fail [where Q = "\<lambda>T. (\<forall>fd < 0. T fd = None) \<and> stderr_source startup_write s T"]
        execs_if execs_fail execs_ret open_null)
      (auto simp: inherits_def stderr_source_def)
qed

section \<open>How the child ends\<close>

text \<open>
  A statement about the end of the child's run that does not look at what came before it:
  any exit satisfies it, and a prefix of further calls does not matter.
\<close>

definition exit_post :: "('a process \<Rightarrow> (call \<times> reply) list \<Rightarrow> bool) \<Rightarrow> bool" where
  "exit_post \<Phi> \<longleftrightarrow> (\<forall>n es. \<Phi> (Gone n) es) \<and> (\<forall>x e es. \<Phi> x es \<longrightarrow> \<Phi> x (e # es))"

lemma exit_fail: "exit_post \<Phi> \<Longrightarrow> runs (fail_launch report code exact) \<Phi>"
  by (rule runs_weaken [OF runs_fail_launch]) (simp add: exit_post_def)

lemma exit_ret: "exit_post \<Phi> \<Longrightarrow> runs (\<lambda>w. Some (Gone n, w)) \<Phi>"
  by (rule runs_ret) (simp add: exit_post_def)

lemma exit_sys:
  "exit_post \<Phi> \<Longrightarrow> (\<And>r. documented (c, r) \<Longrightarrow> runs (h r) \<Phi>) \<Longrightarrow>
     runs (\<lambda>w. Option.bind (sys c w) (case_prod h)) \<Phi>"
  by (rule runs_bind_sys) (rule runs_weaken, assumption, simp add: exit_post_def)

lemma exit_or_fail: "exit_post \<Phi> \<Longrightarrow> runs k \<Phi> \<Longrightarrow> runs (or_fail c report exact k) \<Phi>"
  unfolding or_fail_def by (intro exit_sys runs_if exit_fail)

lemma runs_choice: "(b \<Longrightarrow> runs f \<Phi>) \<Longrightarrow> (\<not> b \<Longrightarrow> runs g \<Phi>) \<Longrightarrow> runs (if b then f else g) \<Phi>"
  by simp

lemmas exit_rules = exit_sys exit_or_fail exit_fail exit_ret runs_choice runs_if runs_bind_if runs_bind_ret

lemma exit_launch_child:
  "exit_post \<Phi> \<Longrightarrow> (\<And>report. runs (enter_target report exact exe) \<Phi>) \<Longrightarrow>
     runs (launch_child channel_r report gate startup_write exact exe) \<Phi>"
  unfolding launch_child_def arrange_descriptors_def arrange_report_def by (intro exit_rules)

lemma exit_launch_helper:
  "exit_post \<Phi> \<Longrightarrow> (\<And>report. runs (enter_target report exact exe) \<Phi>) \<Longrightarrow> runs (launch_helper exe exact) \<Phi>"
  unfolding launch_helper_def by (intro exit_rules)

lemma runs_execve:
  "runs (\<lambda>w. Option.bind (sys (Proc (Execve exe)) w) (\<lambda>(r, w).
      if r_ret r < 0 then fail_launch report (r_errno r) exact w else Some (Became exe, w)))
    (\<lambda>x es. x = Gone 127 \<or> x = Became exe \<and> (\<exists>r. es = [(Proc (Execve exe), r)]))"
  by (intro runs_weaken [OF runs_fail_launch] runs_rules) auto

text \<open>It never goes on in the parent's code, and in exact mode it executes after the handshake.\<close>

definition confirmed :: "bool \<Rightarrow> string \<Rightarrow> 'a process \<Rightarrow> (call \<times> reply) list \<Rightarrow> bool" where
  "confirmed exact exe x es \<longleftrightarrow> (\<exists>n. x = Gone n) \<or> x = Became exe \<and> (exact \<longrightarrow>
     (\<exists>before hs r report. es = before @ hs @ [(Proc (Execve exe), r)] \<and> handshake report 4 hs))"

lemma exit_confirmed: "exit_post (confirmed exact exe)"
  unfolding exit_post_def confirmed_def by (metis append_Cons)

lemma confirmed_enter_target: "runs (enter_target report exact exe) (confirmed exact exe)"
proof (cases exact)
  case True
  have "confirmed True exe (Became exe) (hs @ [(Proc (Execve exe), r)])" if "handshake report 4 hs" for hs r
    using that unfolding confirmed_def by (metis append_Nil)
  then show ?thesis
    unfolding enter_target_def if_P [OF True] using True
    by (intro exit_or_fail exit_confirmed runs_bind [OF runs_confirm_generation] runs_and_then
        runs_weaken [OF runs_execve])
      (auto simp: confirmed_def)
next
  case False
  then show ?thesis
    unfolding enter_target_def if_not_P [OF False] bind.bind_lunit prod.case
    by (intro exit_or_fail exit_confirmed runs_and_then runs_weaken [OF runs_execve])
      (auto simp: confirmed_def)
qed

lemmas confirmed_launch_child = exit_launch_child [OF exit_confirmed confirmed_enter_target]
lemmas confirmed_launch_helper = exit_launch_helper [OF exit_confirmed confirmed_enter_target]

section \<open>The parent keeps nothing\<close>

lemma nets_append: "nets f es \<Longrightarrow> nets g fs \<Longrightarrow> nets (\<lambda>x. f x + g x) (es @ fs)"
  by (simp add: nets_def)

lemma nets_fd [simp]: "nets f es \<Longrightarrow> fd_net es fd = f fd"
  by (simp add: nets_def)

lemma runs_launch_detached_linux:
  assumes "launchable exact l"
  shows "runs (launch_detached_linux exe startup_write exact l) (in_parent no_fds)"
proof -
  have child: "runs (\<lambda>w. Option.bind (launch_child cr rep gate startup_write exact exe w)
      (\<lambda>(x, w). and_then x (\<lambda>_ w. Some (Gone 127, w)) w)) (\<lambda>x es. \<forall>a. x \<noteq> Here a)" for cr rep gate
    by (intro runs_bind [OF confirmed_launch_child] runs_and_then runs_rules) (auto simp: confirmed_def)
  show ?thesis
    unfolding launch_detached_linux_def
    by (intro runs_bind [OF runs_open_channels] runs_case_sum runs_bind_sys runs_if
        runs_bind [OF runs_close_if] runs_weaken [OF child] runs_bind [OF runs_launch_finish [OF assms]]
        runs_ret)
      (auto simp: channels_ledger_def acquires_def in_parent_def opens_def fails_def split: if_splits process.split)
qed

lemma add_actions_Cons:
  "add_actions (a # as) result = (\<lambda>w. do {
     (result, w) \<leftarrow> when_ok result (Spawn (Actions_add a)) w; add_actions as result w })"
  by (rule ext) (simp add: add_actions_def)

lemma add_actions_fds: "runs (add_actions as result) no_fds"
proof (induction as arbitrary: result)
  case Nil
  then show ?case by (auto simp: add_actions_def acquires_def intro: runs_ret)
next
  case (Cons a as)
  show ?case
    unfolding add_actions_Cons
    by (intro bind_when_ok runs_weaken [OF Cons.IH]) (auto simp: acquires_def)
qed

lemma spawn_helper_fds: "runs (spawn_helper helper ch startup_write exact) no_fds"
proof -
  have inner: "runs (\<lambda>w. do {
            (err, w) \<leftarrow> when_ok 0 (Spawn (Attr_setflags [''CLOEXEC_DEFAULT''])) w;
            (err, w) \<leftarrow> add_actions (helper_actions ch startup_write exact) err w;
            ((err, child), w) \<leftarrow> posix_spawnp helper err (-1) w;
            (_, w) \<leftarrow> sys (Spawn Attr_destroy) w;
            Some ((err, child), w) }) no_fds"
    by (intro bind_when_ok runs_bind [OF add_actions_fds] runs_bind [OF posix_spawnp_fds] runs_rules)
      (auto simp: acquires_def)
  show ?thesis
    unfolding spawn_helper_def
    by (intro runs_bind [OF inner] runs_rules) (auto simp: acquires_def)
qed

lemma runs_launch_detached_darwin:
  assumes "launchable exact l"
  shows "runs (launch_detached_darwin helper startup_write exact l) (in_parent no_fds)"
  unfolding launch_detached_darwin_def
  by (intro runs_bind [OF runs_open_channels] runs_bind [OF spawn_helper_fds] runs_case_sum runs_bind_sys
      runs_if runs_pair runs_bind [OF runs_close_if] runs_bind [OF runs_launch_finish [OF assms]] runs_ret)
    (auto simp: channels_ledger_def acquires_def in_parent_def opens_def fails_def split: if_splits process.split)

lemma runs_launch_detached:
  "launchable exact l \<Longrightarrow> runs (launch_detached p helper exe startup_write exact l) (in_parent no_fds)"
  unfolding launch_detached_def
  using runs_launch_detached_linux runs_launch_detached_darwin by (cases p) auto

lemma runs_launch_with_signals:
  "launchable exact l \<Longrightarrow> runs (launch_with_signals p helper exe startup_write exact l) (in_parent no_fds)"
  unfolding launch_with_signals_def
  by (intro runs_bind [OF runs_launch_detached] runs_and_then runs_rules) (auto simp: acquires_def)

definition owned_startup :: "int \<times> int \<times> launched \<Rightarrow> int list" where
  "owned_startup x = (case x of (result, startup_read, _) \<Rightarrow> if result = 0 then [startup_read] else [])"

lemma runs_launch_observed:
  assumes "launchable exact l"
  shows "runs (launch_observed p helper exe exact old l) (in_parent (acquires owned_startup))"
  unfolding launch_observed_def
  by (intro runs_bind [OF runs_launch_with_signals [OF assms]] runs_bind [OF runs_close_if] runs_and_then runs_rules)
    (auto simp: acquires_def owned_startup_def opens_def fails_def)

definition owned_pinned :: "pinned \<Rightarrow> int list" where
  "owned_pinned x = (if pi_result x = 0 then [pi_startup_read x] else [])"

lemma runs_launch_pinned:
  "runs (rui_launch_pinned p outputs helper exe argv argc envp old) (in_parent (acquires owned_pinned))"
  unfolding rui_launch_pinned_def
  by (intro runs_bind [OF runs_launch_observed] runs_and_then runs_rules)
    (auto simp: launchable_def acquires_def owned_pinned_def owned_startup_def)

lemma runs_launch_detached_entry: "runs (rui_launch_detached p exe) (in_parent no_fds)"
  unfolding rui_launch_detached_def
  by (intro runs_bind [OF runs_launch_with_signals] runs_and_then runs_rules)
    (auto simp: launchable_def acquires_def)

interpretation lp: descriptor_discipline "parent_of (rui_launch_pinned p outputs helper exe argv argc envp old)" owned_pinned
  for p outputs helper exe argv argc envp old
  by unfold_locales (rule runs_parent_of [OF runs_launch_pinned])

interpretation ld: descriptor_discipline "parent_of (rui_launch_detached p exe)" "\<lambda>_. []" for p exe
  by unfold_locales (rule runs_parent_of [OF runs_launch_detached_entry])

section \<open>The receipt loop\<close>

lemma receipt_round_error:
  "receipt_round p fd s w = Some ((Some 0, s'), w') \<Longrightarrow>
     re_confirmed s \<and> s' = s \<and> read_receipt fd w = Some ((0, []), w')"
  by (auto simp: receipt_round_def release_child_def Let_def split: if_splits)

lemma receipt_round_unconfirmed:
  assumes "receipt_round p fd s w = Some ((None, s'), w')" and "\<not> re_confirmed s" and "la_pid (re_launched s) = 0"
    and "la_started (re_launched s) = 0"
  shows "\<exists>bytes w1. read_receipt fd w = Some ((0, bytes), w1) \<and> length bytes = 8 \<and> receipt_tag bytes = 1 \<and>
    0 < receipt_value bytes \<and> release_child p s (receipt_value bytes) w1 = Some ((None, s'), w')"
  using assms by (auto simp: receipt_round_def Let_def split: if_splits)

lemma receipt_round_confirms:
  assumes "receipt_round p fd s w = Some ((None, s'), w')" and "la_pid (re_launched s) \<noteq> 0"
  shows "\<exists>bytes. read_receipt fd w = Some ((0, bytes), w') \<and> length bytes = 8 \<and> receipt_tag bytes = 3 \<and>
    receipt_value bytes = la_pid (re_launched s) \<and> \<not> re_confirmed s \<and> s' = s\<lparr>re_confirmed := True\<rparr>"
  using assms by (auto simp: receipt_round_def Let_def split: if_splits)

lemma release_child_released:
  assumes "release_child p s pid w = Some ((None, s'), w')" and "0 < pid"
  shows "\<exists>t w1 w2 c. rui_process_generation p pid (la_started (re_launched s)) w = Some ((0, t), w1) \<and> t \<noteq> 0 \<and>
    rui_write_readiness (re_ack s) [1] w1 = Some (0, w2) \<and>
    sys (Fd (Close (re_ack s))) w2 = Some (c, w') \<and>
    s' = s\<lparr>re_launched := \<lparr>la_pid = pid, la_started = t\<rparr>, re_ack := -1\<rparr>"
  using assms by (auto simp: release_child_def Let_def split: if_splits)

lemma receipts_loop_step:
  assumes "receipts_loop p fd s w = Some ((0, t), w')"
  shows "receipt_round p fd s w = Some ((Some 0, t), w') \<or>
    (\<exists>s1 w1. receipt_round p fd s w = Some ((None, s1), w1) \<and> receipts_loop p fd s1 w1 = Some ((0, t), w'))"
  using assms by (subst (asm) receipts_loop.simps) (auto split: option.splits)

text \<open>
  The whole transcript of a successful loop: the process's number, its start time, the
  release byte, the confirmation by the same number, end of file.
\<close>

definition transcript :: "platform \<Rightarrow> int \<Rightarrow> int \<Rightarrow> int \<Rightarrow> u64 \<Rightarrow> world \<Rightarrow> world \<Rightarrow> bool" where
  "transcript p fd ack pid t w w' \<longleftrightarrow> 0 < pid \<and> t \<noteq> 0 \<and> (\<exists>first second c w1 w2 w3 w4 w5.
     read_receipt fd w = Some ((0, first), w1) \<and> length first = 8 \<and>
     receipt_tag first = 1 \<and> receipt_value first = pid \<and>
     rui_process_generation p pid 0 w1 = Some ((0, t), w2) \<and>
     rui_write_readiness ack [1] w2 = Some (0, w3) \<and> sys (Fd (Close ack)) w3 = Some (c, w4) \<and>
     read_receipt fd w4 = Some ((0, second), w5) \<and> length second = 8 \<and>
     receipt_tag second = 3 \<and> receipt_value second = pid \<and>
     read_receipt fd w5 = Some ((0, []), w'))"

lemma receipts_loop_transcript:
  assumes "receipts_loop p fd \<lparr>re_confirmed = False, re_launched = \<lparr>la_pid = 0, la_started = 0\<rparr>, re_ack = ack\<rparr> w
    = Some ((0, s), w')"
  shows "re_ack s = -1 \<and> transcript p fd ack (la_pid (re_launched s)) (la_started (re_launched s)) w w'"
proof -
  let ?s = "\<lparr>re_confirmed = False, re_launched = \<lparr>la_pid = 0, la_started = 0\<rparr>, re_ack = ack\<rparr>"
  from receipts_loop_step [OF assms] obtain s1 w4 where
    r1: "receipt_round p fd ?s w = Some ((None, s1), w4)" and l1: "receipts_loop p fd s1 w4 = Some ((0, s), w')"
    by (auto dest: receipt_round_error)
  from receipt_round_unconfirmed [OF r1] obtain first w1 where
    first: "read_receipt fd w = Some ((0, first), w1)" "length first = 8" "receipt_tag first = 1" "0 < receipt_value first"
    and rel: "release_child p ?s (receipt_value first) w1 = Some ((None, s1), w4)" by auto
  from release_child_released [OF rel first(4)] obtain t w2 w3 c where
    t: "rui_process_generation p (receipt_value first) 0 w1 = Some ((0, t), w2)" "t \<noteq> 0"
      "rui_write_readiness ack [1] w2 = Some (0, w3)" "sys (Fd (Close ack)) w3 = Some (c, w4)"
    and s1: "s1 = \<lparr>re_confirmed = False, re_launched = \<lparr>la_pid = receipt_value first, la_started = t\<rparr>, re_ack = -1\<rparr>"
    by auto
  from receipts_loop_step [OF l1] obtain s2 w5 where
    r2: "receipt_round p fd s1 w4 = Some ((None, s2), w5)" and l2: "receipts_loop p fd s2 w5 = Some ((0, s), w')"
    by (auto dest: receipt_round_error simp: s1)
  from receipt_round_confirms [OF r2] first(4) obtain second where
    second: "read_receipt fd w4 = Some ((0, second), w5)" "length second = 8" "receipt_tag second = 3"
      "receipt_value second = receipt_value first"
    and s2: "s2 = s1\<lparr>re_confirmed := True\<rparr>" by (auto simp: s1)
  have "\<not> receipt_round p fd s2 w5 = Some ((None, s3), w6)" for s3 w6
    using receipt_round_confirms [of p fd s2 w5 s3 w6] first(4) by (auto simp: s1 s2)
  with receipts_loop_step [OF l2] have "receipt_round p fd s2 w5 = Some ((Some 0, s), w')" by blast
  from receipt_round_error [OF this] have fin: "s = s2" "read_receipt fd w5 = Some ((0, []), w')" by auto
  show ?thesis
    unfolding transcript_def using first t second fin
    by (simp add: s1 s2)
qed

section \<open>Signals and limits\<close>

text \<open>
  What \<open>rui_write_readiness\<close> leaves after it blocked SIGPIPE: it wrote, it took a pending
  SIGPIPE at most when its own write raised it, and it restored the mask last.
\<close>

definition masked_write :: "int \<Rightarrow> byte list \<Rightarrow> int \<Rightarrow> (call \<times> reply) list \<Rightarrow> bool" where
  "masked_write fd bytes error es \<longleftrightarrow> (\<exists>b ws ds r.
     es = (Env Sigmask_block_pipe, b) # ws @ ds @ [(Env Sigmask_restore, r)] \<and> r_ret b = 0 \<and>
     write_spec fd bytes (error = 0 \<or> written fd ws = bytes) ws \<and>
     (ds \<noteq> [] \<longrightarrow> error = EPIPE \<and> out 0 b = 0) \<and>
     (\<forall>d. (Env Sigwait_pipe, d) \<in> set ds \<longrightarrow> (\<exists>q. (Env Sigpending, q) \<in> set ds \<and> r_ret q = 0 \<and> out 0 q \<noteq> 0)))"

lemma runs_drain_sigpipe:
  "runs (drain_sigpipe needed) (\<lambda>_ es. (es \<noteq> [] \<longrightarrow> needed) \<and>
     (\<forall>d. (Env Sigwait_pipe, d) \<in> set es \<longrightarrow> (\<exists>q. (Env Sigpending, q) \<in> set es \<and> r_ret q = 0 \<and> out 0 q \<noteq> 0)))"
  unfolding drain_sigpipe_def by (intro runs_rules) auto

lemma write_failure_zero: "stopped progress_or_eintr x \<Longrightarrow> write_failure x = 0 \<longleftrightarrow> x = None"
  by (auto simp: stopped_def write_failure_def go_defs fails_def split: option.splits)

lemma masked_writeI:
  assumes "r_ret b = 0" and "write_spec fd bytes (x = None) ws" and "stopped progress_or_eintr x"
    and "error = (if write_failure x \<noteq> 0 then write_failure x else r_ret r)"
    and "ds \<noteq> [] \<longrightarrow> write_failure x = EPIPE \<and> out 0 b = 0"
    and "\<forall>d. (Env Sigwait_pipe, d) \<in> set ds \<longrightarrow> (\<exists>q. (Env Sigpending, q) \<in> set ds \<and> r_ret q = 0 \<and> out 0 q \<noteq> 0)"
  shows "masked_write fd bytes error ((Env Sigmask_block_pipe, b) # ws @ ds @ [(Env Sigmask_restore, r)])"
proof -
  have "x = None \<longleftrightarrow> error = 0 \<or> written fd ws = bytes"
    using assms(2-4) write_failure_zero [OF assms(3)] by (auto simp: write_spec_def)
  then have "write_spec fd bytes (error = 0 \<or> written fd ws = bytes) ws"
    using assms(2) by simp
  moreover have "ds \<noteq> [] \<longrightarrow> error = EPIPE \<and> out 0 b = 0" using assms(4,5) by auto
  ultimately show ?thesis
    unfolding masked_write_def using assms(1,6) by blast
qed

lemma runs_write_readiness:
  "runs (rui_write_readiness fd bytes) (\<lambda>error es.
     (\<exists>b. es = [(Env Sigmask_block_pipe, b)] \<and> r_ret b = error \<and> error \<noteq> 0) \<or> masked_write fd bytes error es)"
  unfolding rui_write_readiness_def
  apply (intro runs_bind [OF runs_write_loop [OF goes_on_progress_cases(2)]] runs_bind [OF runs_drain_sigpipe] runs_rules)
  subgoal by auto
  subgoal for b x es u ds r
    by (rule disjI2, rule masked_writeI) auto
  done

definition raises_within :: "u64 \<Rightarrow> u64 \<Rightarrow> (call \<times> reply) list \<Rightarrow> bool" where
  "raises_within infinity required es \<longleftrightarrow> (\<forall>target s. (Env (Setrlimit target), s) \<in> set es \<longrightarrow>
     (\<exists>g. (Env Getrlimit, g) \<in> set es \<and> word_of_int (out 0 g) < target \<and> target \<le> required \<and>
        (word_of_int (out 1 g) = infinity \<or> target \<le> word_of_int (out 1 g))))"

lemma runs_raise_linux: "runs (rui_raise_descriptor_limit_linux infinity required) (\<lambda>_ es. raises_within infinity required es)"
  unfolding rui_raise_descriptor_limit_linux_def set_limit_def
  by (intro runs_rules) (auto simp: raises_within_def raise_target_def not_le not_less)

lemma runs_raise_darwin: "runs (rui_raise_descriptor_limit_darwin infinity required) (\<lambda>_ es. raises_within infinity required es)"
  unfolding rui_raise_descriptor_limit_darwin_def set_limit_def
  by (intro runs_rules) (auto simp: raises_within_def raise_target_def not_le not_less min_le_iff_disj)

section \<open>Properties\<close>

text \<open>
  C1. A successful exact launch had exactly this transcript: the child reported a positive
  number, its start time was observed and is not zero, the release byte was written, the
  child confirmed the same number, the report pipe ended, and the helper exited with 0.
\<close>

theorem exact_launch_accepts_only_handshake:
  assumes "launch_finish p ch child True \<lparr>la_pid = 0, la_started = 0\<rparr> w = Some ((0, l), w')"
  shows "(\<exists>w1. transcript p (ch_read ch) (ch_ack ch) (la_pid l) (la_started l) w w1) \<and>
    (\<exists>w2 r. retry_eintr (\<lambda>n. n < 0) (Proc (Waitpid child False)) w2 = Some (r, w') \<and>
      WIFEXITED (out 0 r) \<and> WEXITSTATUS (out 0 r) = 0)"
proof -
  from assms obtain e s w1 w2 where
    loop: "receipts_loop p (ch_read ch) \<lparr>re_confirmed = False, re_launched = \<lparr>la_pid = 0, la_started = 0\<rparr>,
      re_ack = ch_ack ch\<rparr> w = Some ((e, s), w1)" and l: "l = re_launched s"
    and fin: "await_helper child e w2 = Some (0, w')"
    by (auto simp: launch_finish_def)
  from fin obtain r where r: "retry_eintr (\<lambda>n. n < 0) (Proc (Waitpid child False)) w2 = Some (r, w')"
    and z: "(if r_ret r < 0 then r_errno r else if (\<not> WIFEXITED (out 0 r) \<or> WEXITSTATUS (out 0 r) \<noteq> 0) \<and> e = 0
      then EIO else e) = 0"
    by (auto simp: await_helper_def)
  from r have "r_ret r < 0 \<longrightarrow> r_errno r \<noteq> 0"
    by (auto elim!: runsD [OF runs_retry] simp: retried_def fails_def)
  with z have "e = 0" "WIFEXITED (out 0 r)" "WEXITSTATUS (out 0 r) = 0" by (auto split: if_splits)
  with loop l r receipts_loop_transcript show ?thesis by blast
qed

definition sample_launch :: "reply list" where
  "sample_launch = [ok_data (receipt 1 77), ok_out 136 [77, 1000, 5, 0], ok 1000, ok_out 0 [0], ok 1, ok 0, ok 0,
     err EINTR, ok_data (receipt 3 77), ok 0, ok 0, ok_out 9 [0]]"

lemma exact_launch_accepts_only_handshake_witness:
  "\<exists>w' w1. launch_finish Darwin \<lparr>ch_read = 5, ch_report = 6, ch_ack = 7, ch_gate = 8\<rparr> 9 True
      \<lparr>la_pid = 0, la_started = 0\<rparr> (boot sample_launch) = Some ((0, \<lparr>la_pid = 77, la_started = 5000000\<rparr>), w') \<and>
    transcript Darwin 5 7 77 5000000 (boot sample_launch) w1"
proof -
  have b: "receipt 1 77 = [1, 0, 0, 0, 77, 0, 0, 0]" "receipt 3 77 = [3, 0, 0, 0, 77, 0, 0, 0]"
    by (simp_all add: receipt_def int_bytes_def)
  have v: "le_int32 [1, 0, 0, 0] = 1" "le_int32 [3, 0, 0, 0] = 3" "le_int32 [77, 0, 0, 0] = 77"
    by (simp_all add: le_int32_def)
  have run: "\<exists>w'. launch_finish Darwin \<lparr>ch_read = 5, ch_report = 6, ch_ack = 7, ch_gate = 8\<rparr> 9 True
      \<lparr>la_pid = 0, la_started = 0\<rparr> (boot sample_launch) = Some ((0, \<lparr>la_pid = 77, la_started = 5000000\<rparr>), w')"
    by (simp add: launch_finish_def boot_def sample_launch_def b receipts_loop.simps receipt_round_def
        read_receipt_def read_loop.simps receipt_tag_def receipt_value_def v release_child_def
        rui_process_generation_def rui_process_generation_darwin_def generation_of_def
        observe_generation_darwin_def darwin_started_def close_directory_def rui_write_readiness_def
        write_loop.simps progress_or_eintr_def write_failure_def drain_sigpipe_def close_if_def await_helper_def
        retry_eintr.simps interrupted_def out_def fails_def WIFEXITED_def WEXITSTATUS_def)
  then obtain w' where "launch_finish Darwin \<lparr>ch_read = 5, ch_report = 6, ch_ack = 7, ch_gate = 8\<rparr> 9 True
      \<lparr>la_pid = 0, la_started = 0\<rparr> (boot sample_launch) = Some ((0, \<lparr>la_pid = 77, la_started = 5000000\<rparr>), w')" ..
  from this exact_launch_accepts_only_handshake [OF this] show ?thesis by auto
qed

text \<open>
  C2. Whatever descriptors the caller had open, the program that a Linux child executes gets
  the null device on 0 and 1, the null device or the startup pipe on 2, and no other.
\<close>

theorem child_executes_sealed:
  assumes "launch_child channel_r report gate startup_write exact exe w = Some (Became e, w')"
    and "3 \<le> report"
  shows "\<exists>es. emits w w' es \<and> (\<forall>T s. inherits channel_r startup_write s T \<longrightarrow> coherent T es \<longrightarrow>
    sealed s (fd_table T es))"
proof -
  from assms(1) obtain es where e: "emits w w' es"
    by (auto elim: runsD [OF confirmed_launch_child])
  have "sealed s (fd_table T es)" if T: "inherits channel_r startup_write s T" "coherent T es" for T s
  proof -
    obtain fs where
      "emits w w' fs" "inherits channel_r startup_write s T \<longrightarrow> coherent T fs \<longrightarrow> sealed s (fd_table T fs)"
      by (rule runsD [OF execs_launch_child [OF assms(2), unfolded execs_def] assms(1)]) blast
    moreover have "fs = es" using e calculation(1) by (simp add: emits_def)
    ultimately show ?thesis using T by blast
  qed
  with e show ?thesis by blast
qed

lemma child_executes_sealed_witness:
  "\<exists>w' es. launch_child 4 6 (-1) 8 False ''/bin/x'' (boot [ok 0, ok 1, ok 0, ok 9, ok 0, ok 1, ok 2, ok 2, ok 0,
      ok 3, ok 0, ok 0, ok 0, ok 0, ok 0]) = Some (Became ''/bin/x'', w') \<and>
    (\<forall>T. inherits 4 8 (Inherited 8) T \<longrightarrow> coherent T es \<longrightarrow> sealed (Inherited 8) (fd_table T es))"
proof -
  obtain w' where "launch_child 4 6 (-1) 8 False ''/bin/x'' (boot [ok 0, ok 1, ok 0, ok 9, ok 0, ok 1, ok 2, ok 2,
      ok 0, ok 3, ok 0, ok 0, ok 0, ok 0, ok 0]) = Some (Became ''/bin/x'', w')"
    by (simp add: launch_child_def or_fail_def arrange_descriptors_def arrange_report_def enter_target_def
        and_then_def boot_def fails_def)
  from this child_executes_sealed [OF this] show ?thesis by auto
qed

text \<open>
  C3. In exact mode a child executes its target only after the handshake: it wrote the whole
  receipt of its number, read the release byte, and wrote the whole confirmation.
\<close>

theorem child_confirms_before_exec:
  assumes "launch_child channel_r report gate startup_write True exe w = Some (Became e, w')"
  shows "\<exists>before hs r report'. emits w w' (before @ hs @ [(Proc (Execve exe), r)]) \<and> handshake report' 4 hs"
  using assms by (elim runsD [OF confirmed_launch_child]) (auto simp: confirmed_def)

lemma child_confirms_before_exec_witness:
  "\<exists>w' before hs r report'. launch_child 4 6 7 (-1) True ''/bin/x'' (boot [ok 0, ok 1, ok 0, ok 9, ok 0, ok 1, ok 2,
      ok 0, ok 3, ok 0, ok 0, ok 4, ok 0, ok 0, ok 77, ok 8, ok_data [1], ok 0, ok 77, ok 8, ok 0])
      = Some (Became ''/bin/x'', w') \<and> handshake report' 4 hs \<and>
    w_trace w' = before @ hs @ [(Proc (Execve ''/bin/x''), r)]"
proof -
  have b: "receipt 1 77 = [1, 0, 0, 0, 77, 0, 0, 0]" "receipt 3 77 = [3, 0, 0, 0, 77, 0, 0, 0]"
    by (simp_all add: receipt_def int_bytes_def)
  obtain w' where "launch_child 4 6 7 (-1) True ''/bin/x'' (boot [ok 0, ok 1, ok 0, ok 9, ok 0, ok 1, ok 2,
      ok 0, ok 3, ok 0, ok 0, ok 4, ok 0, ok 0, ok 77, ok 8, ok_data [1], ok 0, ok 77, ok 8, ok 0])
      = Some (Became ''/bin/x'', w')"
    by (simp add: launch_child_def or_fail_def arrange_descriptors_def arrange_report_def enter_target_def
        and_then_def boot_def fails_def confirm_generation_def write_receipt_def write_loop.simps progress_or_eintr_def b
        retry_eintr.simps interrupted_def)
  from this child_confirms_before_exec [OF this] show ?thesis
    by (fastforce simp: emits_def boot_def)
qed

text \<open>
  C4. On every path of the parent, whatever the system replies, a pinned launch gives the
  caller one descriptor, the startup pipe's read end, when it succeeds and none when it
  fails; every other descriptor it opened is closed, once.
\<close>

theorem pinned_launch_owns_startup_only:
  assumes "rui_launch_pinned p outputs helper exe argv argc envp old w = Some (Here x, w')"
  shows "\<exists>es. emits w w' es \<and> (\<forall>fd. fd_net es fd = of_bool (pi_result x = 0 \<and> fd = pi_startup_read x))"
proof -
  have "fd \<in> set (owned_pinned x) \<longleftrightarrow> pi_result x = 0 \<and> fd = pi_startup_read x" for fd
    by (auto simp: owned_pinned_def)
  moreover have "distinct (owned_pinned x)" by (simp add: owned_pinned_def)
  moreover have "parent_of (rui_launch_pinned p outputs helper exe argv argc envp old) w = Some (x, w')"
    using assms by simp
  ultimately show ?thesis using lp.owns_once by fastforce
qed

lemma pinned_launch_owns_startup_only_witness:
  "\<exists>x w' es. rui_launch_pinned Linux True (Some ''/h'') (Some ''/x'') (Some [Some ''/x'', None]) 1 True
      \<lparr>pi_result = 0, pi_startup_read = 9, pi_launched = \<lparr>la_pid = 4, la_started = 4\<rparr>\<rparr>
      (boot [ok_out 0 [4, 5], ok 6, ok 0, ok 0, ok 0, ok 0, err EBADF, ok 0, ok 0, ok 0]) = Some (Here x, w') \<and>
    pi_result x = EBADF \<and> emits (boot [ok_out 0 [4, 5], ok 6, ok 0, ok 0, ok 0, ok 0, err EBADF, ok 0, ok 0, ok 0]) w' es \<and>
    (\<forall>fd. fd_net es fd = 0)"
proof -
  let ?w = "boot [ok_out 0 [4, 5], ok 6, ok 0, ok 0, ok 0, ok 0, err EBADF, ok 0, ok 0, ok 0]"
  obtain x w' where run: "rui_launch_pinned Linux True (Some ''/h'') (Some ''/x'') (Some [Some ''/x'', None]) 1 True
      \<lparr>pi_result = 0, pi_startup_read = 9, pi_launched = \<lparr>la_pid = 4, la_started = 4\<rparr>\<rparr> ?w = Some (Here x, w')"
    and "pi_result x = EBADF"
    by (simp add: rui_launch_pinned_def pinned_arguments_valid_def launch_observed_def launch_with_signals_def
        launch_detached_def launch_detached_linux_def open_channels_def and_then_def boot_def out_def fails_def
        close_if_def)
  then show ?thesis using pinned_launch_owns_startup_only [OF run] by auto
qed

text \<open>
  \<open>rui_write_readiness\<close> restores the signal mask as its last call on every path that
  changed it, writes the bytes whole when it returns 0, and takes a pending SIGPIPE only
  when its own write failed with EPIPE and SIGPIPE was not blocked before.
\<close>

lemma write_readiness_restores_mask:
  assumes "rui_write_readiness fd bytes w = Some (error, w')"
  shows "(\<exists>b. emits w w' [(Env Sigmask_block_pipe, b)] \<and> error \<noteq> 0) \<or>
    (\<exists>es. emits w w' es \<and> masked_write fd bytes error es)"
  using assms by (elim runsD [OF runs_write_readiness]) blast

lemma write_readiness_restores_mask_witness:
  "\<exists>w' es. rui_write_readiness 5 [1, 2] (boot [ok_out 0 [0], ok 1, err EPIPE, ok_out 0 [1], ok 0, ok 0]) = Some (EPIPE, w')
    \<and> masked_write 5 [1, 2] EPIPE es"
proof -
  obtain w' where run: "rui_write_readiness 5 [1, 2] (boot [ok_out 0 [0], ok 1, err EPIPE, ok_out 0 [1], ok 0, ok 0])
      = Some (EPIPE, w')" and t: "length (w_trace w') = 6"
    by (simp add: rui_write_readiness_def write_loop.simps progress_or_eintr_def drain_sigpipe_def write_failure_def boot_def out_def fails_def)
  with write_readiness_restores_mask [OF run] show ?thesis by (auto simp: emits_def boot_def)
qed

text \<open>
  C30. Raising the descriptor limit never lowers it, never asks for more than required, and
  never for more than the hard limit.
\<close>

theorem descriptor_limit_only_raised:
  assumes "rui_raise_descriptor_limit_linux infinity required w = Some (error, w')"
  shows "\<exists>es. emits w w' es \<and> raises_within infinity required es"
  using assms by (elim runsD [OF runs_raise_linux]) blast

lemma descriptor_limit_only_raised_witness:
  "\<exists>w' es. rui_raise_descriptor_limit_linux (-1) 4096 (boot [ok_out 0 [256, 1024], ok 0]) = Some (0, w') \<and>
    emits (boot [ok_out 0 [256, 1024], ok 0]) w' es \<and> raises_within (-1) 4096 es"
proof -
  obtain w' where run: "rui_raise_descriptor_limit_linux (-1) 4096 (boot [ok_out 0 [256, 1024], ok 0]) = Some (0, w')"
    by (simp add: rui_raise_descriptor_limit_linux_def raise_target_def set_limit_def boot_def out_def word_less_nat_alt word_le_nat_alt)
  with descriptor_limit_only_raised [OF run] show ?thesis by blast
qed

end
