(* ===== verification/Custody_Cells.thy ===== *)
theory Custody_Cells
  imports Exact_Io
begin

text \<open>
  \<open>research/host-runtime/integrated-capacity-proof/integrated_capacity.c\<close>, its cells and
  the operations of one cell: charging and discarding scratch space, the transport's write
  callback, the pipes of a shell, its deadlines, sealing and releasing.

  A cell and the runtime are explicit state; an atomic counter is a field whose operation is
  one step, and the interleaving of the lanes is the subject of \<open>Custody_Flow\<close>.  Counters
  and times are 64-bit words.  Descriptors are integers, -1 for none, and the transport
  handle is an integer, 0 for null.
\<close>

section \<open>Cells and the runtime\<close>

datatype custody_kind = Model | Bash | Patch

datatype custody_state = Vacant | Reserved | Dispatchable | Active | Sealed

abbreviation (input) FLAG_CANCELLED :: byte where "FLAG_CANCELLED \<equiv> 1"
abbreviation (input) FLAG_PREPARATION_FAILED :: byte where "FLAG_PREPARATION_FAILED \<equiv> 2"
abbreviation (input) FLAG_TERM_SENT :: byte where "FLAG_TERM_SENT \<equiv> 4"
abbreviation (input) FLAG_KILL_SENT :: byte where "FLAG_KILL_SENT \<equiv> 8"
abbreviation (input) FLAG_PIPE_GRACE_EXPIRED :: byte where "FLAG_PIPE_GRACE_EXPIRED \<equiv> 16"
abbreviation (input) FLAG_TRANSPORT_FAILURE :: byte where "FLAG_TRANSPORT_FAILURE \<equiv> 32"
abbreviation (input) FLAG_STORAGE_FAILURE :: byte where "FLAG_STORAGE_FAILURE \<equiv> 64"
abbreviation (input) FLAG_OUTPUT_LIMIT :: byte where "FLAG_OUTPUT_LIMIT \<equiv> 128"

record cell =
  c_state :: custody_state
  c_kind :: custody_kind
  c_terminal_seen :: bool
  c_root_reaped :: bool
  c_flags :: byte
  c_attempt_id :: u64
  c_operation_id :: u64
  c_started_ns :: u64
  c_completed_ns :: u64
  c_bytes_a :: u64
  c_bytes_b :: u64
  c_callbacks :: u64
  c_deadline_ns :: u64
  c_grace_deadline_ns :: u64
  c_easy :: int
  c_spool_a :: int
  c_spool_b :: int
  c_pipe_a :: int
  c_pipe_b :: int
  c_root_pid :: int
  c_process_group :: int
  c_wait_status :: int

record runtime =
  rt_bash_cancel_after_ns :: u64
  rt_bash_term_grace_ns :: u64
  rt_bash_pipe_grace_ns :: u64
  rt_effect_output_limit :: u64
  rt_host_scratch_quota :: u64
  rt_scratch_current :: u64
  rt_scratch_highwater :: u64
  rt_max_write_ns :: u64
  rt_max_term_lateness_ns :: u64
  rt_max_kill_lateness_ns :: u64
  rt_max_signal_to_reap_ns :: u64
  rt_max_pipe_grace_lateness_ns :: u64
  rt_max_model_callback_gap_ns :: u64
  rt_first_model_sealed_ns :: u64
  rt_last_model_sealed_ns :: u64
  rt_validator_active :: u32
  rt_validator_max :: u32
  rt_bash_term_sent :: u32
  rt_bash_kill_sent :: u32
  rt_bash_reaped :: u32
  rt_bash_pipe_grace_expired :: u32
  rt_max_live_spool_allocated :: u64
  rt_max_storage_allocated :: u64

type_synonym custody = "runtime \<times> cell"

section \<open>Time and counters\<close>

text \<open>The clock's reply stores the seconds and the nanoseconds.\<close>

definition now_ns :: "world \<Rightarrow> (u64 \<times> world) option" where
  "now_ns w = do {
     (r, w) \<leftarrow> sys (Env Now) w;
     Some (word_of_int (out 0 r) * 1000000000 + word_of_int (out 1 r), w)
   }"

text \<open>The compare-and-exchange loop ends with the larger of the target and the value.\<close>

definition max_u64 :: "u64 \<Rightarrow> u64 \<Rightarrow> u64" where
  "max_u64 target v = (if v > target then v else target)"

lemma max_u64_eq [simp]: "max_u64 target v = max target v"
  by (auto simp: max_u64_def max_def)

section \<open>Writing a spool\<close>

text \<open>\<open>write_all\<close>: a write of nothing is repeated, an interrupted one too; the result is 0 or -1.\<close>

definition write_all :: "int \<Rightarrow> byte list \<Rightarrow> world \<Rightarrow> (int \<times> world) option" where
  "write_all = reporting no_error_or_eintr (\<lambda>x. if x = None then 0 else -1)"

interpretation wa: exact_writer write_all "\<lambda>x. x = 0"
  unfolding write_all_def by (rule exact_reporting) simp_all

text \<open>\<open>open_unlinked_spool\<close>; \<open>nocache\<close> is the environment switch.\<close>

definition open_unlinked_spool :: "bool \<Rightarrow> world \<Rightarrow> (int \<times> world) option" where
  "open_unlinked_spool nocache w = do {
     (f, w) \<leftarrow> sys (Fd (Mkstemp ''rui-integrated.XXXXXX'')) w;
     if r_ret f < 0 then Some (-1, w)
     else do {
       (c, w) \<leftarrow> sys (Fd (Set_cloexec (r_ret f))) w;
       if r_ret c \<noteq> 0 then do { (_, w) \<leftarrow> sys (Fd (Close (r_ret f))) w; Some (-1, w) }
       else do {
         (n, w) \<leftarrow> (if nocache then sys (Env (Query ''F_NOCACHE'')) w else Some (ok 0, w));
         if r_ret n \<noteq> 0 then do { (_, w) \<leftarrow> sys (Fd (Close (r_ret f))) w; Some (-1, w) }
         else do {
           (u, w) \<leftarrow> sys (Io (Unlink ''rui-integrated.XXXXXX'')) w;
           if r_ret u \<noteq> 0 then do { (_, w) \<leftarrow> sys (Fd (Close (r_ret f))) w; Some (-1, w) }
           else Some (r_ret f, w)
         }
       }
     }
   }"

section \<open>Scratch space\<close>

definition set_flag :: "byte \<Rightarrow> cell \<Rightarrow> cell" where
  "set_flag f c = c\<lparr>c_flags := c_flags c OR f\<rparr>"

definition cell_bytes :: "cell \<Rightarrow> u64" where
  "cell_bytes c = c_bytes_a c + c_bytes_b c"

definition charge_scratch :: "custody \<Rightarrow> u64 \<Rightarrow> bool \<times> custody" where
  "charge_scratch s len = (case s of (rt, c) \<Rightarrow>
     if len > rt_effect_output_limit rt - cell_bytes c
     then (False, rt, set_flag FLAG_OUTPUT_LIMIT c)
     else if len > rt_host_scratch_quota rt - rt_scratch_current rt
     then (False, rt, set_flag FLAG_STORAGE_FAILURE c)
     else
       let nxt = rt_scratch_current rt + len
       in (True, rt\<lparr>rt_scratch_current := nxt,
             rt_scratch_highwater := max_u64 (rt_scratch_highwater rt) nxt\<rparr>, c))"

definition truncate_if :: "int \<Rightarrow> world \<Rightarrow> (unit \<times> world) option" where
  "truncate_if fd w =
     (if fd \<ge> 0 then do { (_, w) \<leftarrow> sys (Io (Ftruncate fd)) w; Some ((), w) } else Some ((), w))"

definition discard_cell_output :: "custody \<Rightarrow> world \<Rightarrow> (custody \<times> world) option" where
  "discard_cell_output s w = (case s of (rt, c) \<Rightarrow> do {
     let rt = (if cell_bytes c \<noteq> 0 then rt\<lparr>rt_scratch_current := rt_scratch_current rt - cell_bytes c\<rparr> else rt);
     (_, w) \<leftarrow> truncate_if (c_spool_a c) w;
     (_, w) \<leftarrow> truncate_if (c_spool_b c) w;
     Some ((rt, c\<lparr>c_bytes_a := 0, c_bytes_b := 0\<rparr>), w)
   })"

text \<open>The common failure path: give the charge back, mark the cell, discard its output.\<close>

definition fail_storage :: "custody \<Rightarrow> u64 \<Rightarrow> world \<Rightarrow> (custody \<times> world) option" where
  "fail_storage s len w = (case s of (rt, c) \<Rightarrow>
     discard_cell_output (rt\<lparr>rt_scratch_current := rt_scratch_current rt - len\<rparr>,
       set_flag FLAG_STORAGE_FAILURE c) w)"

section \<open>The transport's callbacks\<close>

text \<open>\<open>model_write\<close> returns how many bytes it took: all or, to abort the transfer, none.\<close>

definition model_write :: "byte list \<Rightarrow> custody \<Rightarrow> world \<Rightarrow> ((nat \<times> custody) \<times> world) option" where
  "model_write bytes s w =
     (let len = word_of_nat (length bytes); (charged, rt, c) = charge_scratch s len
      in if \<not> charged then do {
           (s, w) \<leftarrow> discard_cell_output (rt, c) w;
           Some ((0, s), w)
         }
         else do {
           (started, w) \<leftarrow> now_ns w;
           (failed, w) \<leftarrow> write_all (c_spool_a c) bytes w;
           if failed \<noteq> 0 then do {
             (s, w) \<leftarrow> fail_storage (rt, c) len w;
             Some ((0, s), w)
           }
           else do {
             (finished, w) \<leftarrow> now_ns w;
             (at, w) \<leftarrow> now_ns w;
             let gap = at - c_deadline_ns c;
             Some ((length bytes,
               rt\<lparr>rt_max_write_ns := max_u64 (rt_max_write_ns rt) (finished - started)\<rparr>,
               c\<lparr>c_bytes_a := c_bytes_a c + len, c_callbacks := c_callbacks c + 1,
                 c_grace_deadline_ns := (if c_deadline_ns c \<noteq> 0 \<and> gap > c_grace_deadline_ns c
                   then gap else c_grace_deadline_ns c),
                 c_deadline_ns := at\<rparr>), w)
           }
         })"

definition model_read :: "nat \<Rightarrow> nat \<Rightarrow> byte list" where
  "model_read width items = replicate (min (width * items) 4096) 120"

section \<open>The pipes of a shell\<close>

text \<open>Ask the process group to end, once, and start its grace period.\<close>

definition request_end :: "custody \<Rightarrow> world \<Rightarrow> (custody \<times> world) option" where
  "request_end s w = (case s of (rt, c) \<Rightarrow>
     if has_flag (c_flags c) FLAG_TERM_SENT then Some ((rt, c), w)
     else do {
       (_, w) \<leftarrow> sys (Proc (Kill (- c_process_group c) 15)) w;
       (at, w) \<leftarrow> now_ns w;
       Some ((rt, (set_flag FLAG_TERM_SENT c)\<lparr>c_deadline_ns := at,
         c_grace_deadline_ns := at + rt_bash_term_grace_ns rt\<rparr>), w)
     })"

definition pipe_of :: "bool \<Rightarrow> cell \<Rightarrow> int" where
  "pipe_of first c = (if first then c_pipe_a c else c_pipe_b c)"

definition spool_of :: "bool \<Rightarrow> cell \<Rightarrow> int" where
  "spool_of first c = (if first then c_spool_a c else c_spool_b c)"

definition add_bytes :: "bool \<Rightarrow> u64 \<Rightarrow> cell \<Rightarrow> cell" where
  "add_bytes first n c = (if first then c\<lparr>c_bytes_a := c_bytes_a c + n\<rparr> else c\<lparr>c_bytes_b := c_bytes_b c + n\<rparr>)"

definition drop_pipe :: "bool \<Rightarrow> cell \<Rightarrow> cell" where
  "drop_pipe first c = (if first then c\<lparr>c_pipe_a := -1\<rparr> else c\<lparr>c_pipe_b := -1\<rparr>)"

text \<open>What \<open>drain_pipe\<close> does with the bytes of one read.\<close>

definition take_window :: "bool \<Rightarrow> byte list \<Rightarrow> custody \<Rightarrow> world \<Rightarrow> (custody \<times> world) option" where
  "take_window first bytes s w =
     (if has_flag (c_flags (snd s)) (FLAG_STORAGE_FAILURE OR FLAG_OUTPUT_LIMIT) then Some (s, w)
      else
        let len = word_of_nat (length bytes); (charged, rt, c) = charge_scratch s len
        in if \<not> charged then do {
             (s, w) \<leftarrow> discard_cell_output (rt, c) w;
             request_end s w
           }
           else do {
             (started, w) \<leftarrow> now_ns w;
             (failed, w) \<leftarrow> write_all (spool_of first c) bytes w;
             if failed \<noteq> 0 then do {
               (s, w) \<leftarrow> fail_storage (rt, c) len w;
               request_end s w
             }
             else do {
               (finished, w) \<leftarrow> now_ns w;
               Some ((rt\<lparr>rt_max_write_ns := max_u64 (rt_max_write_ns rt) (finished - started)\<rparr>,
                 add_bytes first len c), w)
             }
           })"

definition drain_step :: "bool \<Rightarrow> custody \<Rightarrow> world \<Rightarrow> ((bool \<times> custody) \<times> world) option" where
  "drain_step first s w = do {
     (r, w) \<leftarrow> sys (Io (Read (pipe_of first (snd s)) 4096)) w;
     if r_ret r > 0 then do {
       (s, w) \<leftarrow> take_window first (r_data r) s w;
       Some ((True, s), w)
     }
     else if r_ret r = 0 then do {
       (_, w) \<leftarrow> sys (Fd (Close (pipe_of first (snd s)))) w;
       Some ((False, fst s, drop_pipe first (snd s)), w)
     }
     else Some ((False, s), w)
   }"

section \<open>Sealing and the deadlines of a shell\<close>

definition seal_cell :: "custody \<Rightarrow> world \<Rightarrow> (custody \<times> world) option" where
  "seal_cell s w = (case s of (rt, c) \<Rightarrow> do {
     (at, w) \<leftarrow> now_ns w;
     let rt = (if c_kind c = Model
       then rt\<lparr>rt_first_model_sealed_ns := (if rt_first_model_sealed_ns rt = 0 then at
             else rt_first_model_sealed_ns rt),
           rt_last_model_sealed_ns := max_u64 (rt_last_model_sealed_ns rt) at\<rparr>
       else rt);
     Some ((rt, c\<lparr>c_completed_ns := at, c_state := Sealed\<rparr>), w)
   })"

text \<open>The four parts of \<open>bash_terminal\<close>, at the time \<open>at\<close> it read once.\<close>

definition term_due :: "u64 \<Rightarrow> custody \<Rightarrow> world \<Rightarrow> (custody \<times> world) option" where
  "term_due at s w = (case s of (rt, c) \<Rightarrow>
     if c_deadline_ns c \<noteq> 0 \<and> at \<ge> c_deadline_ns c \<and> \<not> has_flag (c_flags c) FLAG_TERM_SENT then do {
       (_, w) \<leftarrow> sys (Proc (Kill (- c_process_group c) 15)) w;
       Some ((rt\<lparr>rt_max_term_lateness_ns := max_u64 (rt_max_term_lateness_ns rt) (at - c_deadline_ns c)\<rparr>,
         (set_flag (FLAG_CANCELLED OR FLAG_TERM_SENT) c)\<lparr>c_deadline_ns := at,
           c_grace_deadline_ns := at + rt_bash_term_grace_ns rt\<rparr>), w)
     }
     else Some ((rt, c), w))"

definition kill_due :: "u64 \<Rightarrow> custody \<Rightarrow> world \<Rightarrow> (custody \<times> world) option" where
  "kill_due at s w = (case s of (rt, c) \<Rightarrow>
     if has_flag (c_flags c) FLAG_TERM_SENT \<and> \<not> has_flag (c_flags c) FLAG_KILL_SENT \<and>
       \<not> c_root_reaped c \<and> at \<ge> c_grace_deadline_ns c then do {
       (_, w) \<leftarrow> sys (Proc (Kill (- c_process_group c) 9)) w;
       Some ((rt\<lparr>rt_max_kill_lateness_ns := max_u64 (rt_max_kill_lateness_ns rt) (at - c_grace_deadline_ns c)\<rparr>,
         (set_flag FLAG_KILL_SENT c)\<lparr>c_deadline_ns := at\<rparr>), w)
     }
     else Some ((rt, c), w))"

definition has_pipe :: "cell \<Rightarrow> bool" where
  "has_pipe c \<longleftrightarrow> c_pipe_a c \<ge> 0 \<or> c_pipe_b c \<ge> 0"

definition reap_root :: "u64 \<Rightarrow> custody \<Rightarrow> world \<Rightarrow> (custody \<times> world) option" where
  "reap_root at s w = (case s of (rt, c) \<Rightarrow>
     if c_root_reaped c then Some ((rt, c), w)
     else do {
       (r, w) \<leftarrow> sys (Proc (Waitpid (c_root_pid c) True)) w;
       if r_ret r = c_root_pid c then
         Some ((if has_flag (c_flags c) FLAG_TERM_SENT
             then rt\<lparr>rt_max_signal_to_reap_ns := max_u64 (rt_max_signal_to_reap_ns rt) (at - c_deadline_ns c)\<rparr>
             else rt,
           c\<lparr>c_root_reaped := True, c_wait_status := out 0 r,
             c_grace_deadline_ns := (if has_pipe c then at + rt_bash_pipe_grace_ns rt
               else c_grace_deadline_ns c)\<rparr>), w)
       else Some ((rt, c), w)
     })"

definition close_pipe :: "bool \<Rightarrow> cell \<Rightarrow> world \<Rightarrow> (cell \<times> world) option" where
  "close_pipe first c w =
     (if pipe_of first c \<ge> 0 then do {
        (_, w) \<leftarrow> sys (Fd (Close (pipe_of first c))) w;
        Some (drop_pipe first c, w)
      }
      else Some (c, w))"

definition expire_pipes :: "u64 \<Rightarrow> custody \<Rightarrow> world \<Rightarrow> (custody \<times> world) option" where
  "expire_pipes at s w = (case s of (rt, c) \<Rightarrow>
     if c_root_reaped c \<and> has_pipe c \<and> c_grace_deadline_ns c \<noteq> 0 \<and> at \<ge> c_grace_deadline_ns c then do {
       let rt = rt\<lparr>rt_max_pipe_grace_lateness_ns :=
         max_u64 (rt_max_pipe_grace_lateness_ns rt) (at - c_grace_deadline_ns c)\<rparr>;
       (c, w) \<leftarrow> close_pipe True c w;
       (c, w) \<leftarrow> close_pipe False c w;
       Some ((rt, set_flag FLAG_PIPE_GRACE_EXPIRED c), w)
     }
     else Some ((rt, c), w))"

definition bash_terminal :: "custody \<Rightarrow> world \<Rightarrow> ((bool \<times> custody) \<times> world) option" where
  "bash_terminal s w = do {
     (at, w) \<leftarrow> now_ns w;
     (s, w) \<leftarrow> term_due at s w;
     (s, w) \<leftarrow> kill_due at s w;
     (s, w) \<leftarrow> reap_root at s w;
     (s, w) \<leftarrow> expire_pipes at s w;
     Some ((c_root_reaped (snd s) \<and> c_pipe_a (snd s) < 0 \<and> c_pipe_b (snd s) < 0, s), w)
   }"

section \<open>Releasing\<close>

definition vacate :: "cell \<Rightarrow> cell" where
  "vacate c = c\<lparr>c_easy := 0, c_spool_a := -1, c_spool_b := -1, c_pipe_a := -1, c_pipe_b := -1,
     c_terminal_seen := False, c_root_reaped := False, c_flags := 0, c_attempt_id := 0,
     c_operation_id := 0, c_started_ns := 0, c_completed_ns := 0, c_bytes_a := 0, c_bytes_b := 0,
     c_callbacks := 0, c_deadline_ns := 0, c_grace_deadline_ns := 0, c_root_pid := 0,
     c_process_group := 0, c_wait_status := 0, c_state := Vacant\<rparr>"

definition close_fd_if :: "int \<Rightarrow> world \<Rightarrow> (unit \<times> world) option" where
  "close_fd_if fd w =
     (if fd \<ge> 0 then do { (_, w) \<leftarrow> sys (Fd (Close fd)) w; Some ((), w) } else Some ((), w))"

definition release_cell :: "custody \<Rightarrow> world \<Rightarrow> (custody \<times> world) option" where
  "release_cell s w = (case s of (rt, c) \<Rightarrow> do {
     let rt = (if cell_bytes c \<noteq> 0 then rt\<lparr>rt_scratch_current := rt_scratch_current rt - cell_bytes c\<rparr> else rt);
     (_, w) \<leftarrow> (if c_easy c \<noteq> 0 then sys (Env (Curl ''easy_cleanup'')) w else Some (ok 0, w));
     (_, w) \<leftarrow> close_fd_if (c_spool_a c) w;
     (_, w) \<leftarrow> close_fd_if (c_spool_b c) w;
     (_, w) \<leftarrow> close_fd_if (c_pipe_a c) w;
     (_, w) \<leftarrow> close_fd_if (c_pipe_b c) w;
     Some ((rt, vacate c), w)
   })"

text \<open>After a fatal error the reactor gives up what it still drives.\<close>

definition abandon_cell :: "custody \<Rightarrow> world \<Rightarrow> (custody \<times> world) option" where
  "abandon_cell s w = (case s of (rt, c) \<Rightarrow>
     if c_kind c = Model \<and> c_easy c \<noteq> 0 then do {
       (_, w) \<leftarrow> sys (Env (Curl ''multi_remove_handle'')) w;
       (_, w) \<leftarrow> sys (Env (Curl ''easy_cleanup'')) w;
       release_cell (rt, c\<lparr>c_easy := 0\<rparr>) w
     }
     else if c_kind c = Bash \<and> c_root_pid c > 0 then do {
       (_, w) \<leftarrow> sys (Proc (Kill (- c_process_group c) 9)) w;
       (r, w) \<leftarrow> sys (Proc (Waitpid (c_root_pid c) False)) w;
       release_cell (rt, c\<lparr>c_wait_status := out 0 r, c_root_pid := 0\<rparr>) w
     }
     else Some ((rt, c), w))"

text \<open>At the end of a run with a fatal error the owner releases whatever is left.\<close>

definition release_if_held :: "custody \<Rightarrow> world \<Rightarrow> (custody \<times> world) option" where
  "release_if_held s w = (if c_state (snd s) \<noteq> Vacant then release_cell s w else Some (s, w))"

section \<open>The accounts\<close>

text \<open>
  The scratch counter is the sum of what the cells hold: \<open>others\<close> for all the other cells,
  and the charge of this one.  The charge stays within the effect limit and the counter
  within the host quota, so no subtraction wraps around.
\<close>

definition charge :: "cell \<Rightarrow> nat" where
  "charge c = unat (c_bytes_a c) + unat (c_bytes_b c)"

definition accounts :: "nat \<Rightarrow> custody \<Rightarrow> bool" where
  "accounts others s \<longleftrightarrow> (case s of (rt, c) \<Rightarrow>
     unat (rt_scratch_current rt) = others + charge c \<and>
     charge c \<le> unat (rt_effect_output_limit rt) \<and>
     rt_scratch_current rt \<le> rt_host_scratch_quota rt)"

definition same_limits :: "custody \<Rightarrow> custody \<Rightarrow> bool" where
  "same_limits s t \<longleftrightarrow> rt_effect_output_limit (fst t) = rt_effect_output_limit (fst s) \<and>
     rt_host_scratch_quota (fst t) = rt_host_scratch_quota (fst s)"

definition keeps_accounts :: "custody \<Rightarrow> custody \<Rightarrow> bool" where
  "keeps_accounts s t \<longleftrightarrow> same_limits s t \<and> (\<forall>others. accounts others s \<longrightarrow> accounts others t)"

lemma keeps_accounts_refl [simp]: "keeps_accounts s s"
  by (simp add: keeps_accounts_def same_limits_def)

lemma keeps_accounts_trans: "keeps_accounts s t \<Longrightarrow> keeps_accounts t u \<Longrightarrow> keeps_accounts s u"
  by (auto simp: keeps_accounts_def same_limits_def)

text \<open>Changes that touch neither the counter nor the charge.\<close>

lemma keeps_accounts_same:
  "rt_scratch_current rt' = rt_scratch_current rt \<Longrightarrow> rt_effect_output_limit rt' = rt_effect_output_limit rt \<Longrightarrow>
   rt_host_scratch_quota rt' = rt_host_scratch_quota rt \<Longrightarrow> c_bytes_a c' = c_bytes_a c \<Longrightarrow>
   c_bytes_b c' = c_bytes_b c \<Longrightarrow> keeps_accounts (rt, c) (rt', c')"
  by (simp add: keeps_accounts_def same_limits_def accounts_def charge_def)

lemma set_flag_bytes [simp]:
  "c_bytes_a (set_flag f c) = c_bytes_a c" "c_bytes_b (set_flag f c) = c_bytes_b c"
  by (simp_all add: set_flag_def)

lemma unat_cell_bytes:
  assumes "accounts others (rt, c)"
  shows "unat (cell_bytes c) = charge c"
proof -
  have "charge c < 2 ^ 64"
    using assms unat_u64 [of "rt_effect_output_limit rt"] by (simp add: accounts_def)
  then show ?thesis by (simp add: cell_bytes_def charge_def unat_word_ariths)
qed

text \<open>
  After a charge the counter holds the bytes to come: the accounts hold with them added to
  \<open>others\<close>, there is room for them in the cell, and giving them back restores the accounts.
\<close>

lemma charge_scratch_granted:
  assumes "charge_scratch (rt, c) len = (True, rt', c')" and "accounts others (rt, c)"
  shows "accounts (others + unat len) (rt', c')" and "c' = c"
    and "charge c + unat len \<le> unat (rt_effect_output_limit rt)"
proof -
  from assms(1) have n: "\<not> len > rt_effect_output_limit rt - cell_bytes c"
    "\<not> len > rt_host_scratch_quota rt - rt_scratch_current rt" and c: "c' = c"
    and r: "rt' = rt\<lparr>rt_scratch_current := rt_scratch_current rt + len,
      rt_scratch_highwater := max_u64 (rt_scratch_highwater rt) (rt_scratch_current rt + len)\<rparr>"
    by (auto simp: charge_scratch_def Let_def split: if_splits)
  note ch = unat_cell_bytes [OF assms(2)]
  have "cell_bytes c \<le> rt_effect_output_limit rt"
    using assms(2) by (simp add: word_le_nat_alt ch accounts_def)
  then have "unat (rt_effect_output_limit rt - cell_bytes c) = unat (rt_effect_output_limit rt) - charge c"
    by (simp add: unat_sub ch)
  with n(1) assms(2) show lim: "charge c + unat len \<le> unat (rt_effect_output_limit rt)"
    by (auto simp: word_less_nat_alt accounts_def)
  have q: "rt_scratch_current rt \<le> rt_host_scratch_quota rt" using assms(2) by (simp add: accounts_def)
  then have "unat (rt_host_scratch_quota rt - rt_scratch_current rt) =
      unat (rt_host_scratch_quota rt) - unat (rt_scratch_current rt)" by (rule unat_sub)
  with n(2) q have q': "unat (rt_scratch_current rt) + unat len \<le> unat (rt_host_scratch_quota rt)"
    by (simp add: word_less_nat_alt word_le_nat_alt)
  then have "unat (rt_scratch_current rt + len) = unat (rt_scratch_current rt) + unat len"
    using unat_u64 [of "rt_host_scratch_quota rt"] by (simp add: unat_word_ariths)
  with assms(2) q' lim show "accounts (others + unat len) (rt', c')"
    by (simp add: r c accounts_def word_le_nat_alt)
  show "c' = c" by (rule c)
qed

lemma charge_scratch_refused:
  "charge_scratch s len = (False, t) \<Longrightarrow> keeps_accounts s t"
  by (cases s) (auto simp: charge_scratch_def Let_def split: if_splits intro!: keeps_accounts_same)

lemma charge_scratch_limits: "charge_scratch s len = (b, t) \<Longrightarrow> same_limits s t"
  by (cases s) (auto simp: charge_scratch_def same_limits_def Let_def split: if_splits)

lemma accounts_give_back:
  assumes "accounts (others + unat len) (rt, c)"
  shows "accounts others (rt\<lparr>rt_scratch_current := rt_scratch_current rt - len\<rparr>, c)"
proof -
  from assms have "len \<le> rt_scratch_current rt" by (simp add: accounts_def word_le_nat_alt)
  then have "unat (rt_scratch_current rt - len) = unat (rt_scratch_current rt) - unat len" by (rule unat_sub)
  with assms show ?thesis by (auto simp: accounts_def word_le_nat_alt)
qed

lemma accounts_forget:
  assumes "accounts others (rt, c)"
  shows "accounts others (rt\<lparr>rt_scratch_current := rt_scratch_current rt - cell_bytes c\<rparr>,
    c\<lparr>c_bytes_a := 0, c_bytes_b := 0\<rparr>)"
proof -
  note ch = unat_cell_bytes [OF assms]
  from assms have "cell_bytes c \<le> rt_scratch_current rt" by (simp add: accounts_def word_le_nat_alt ch)
  then have "unat (rt_scratch_current rt - cell_bytes c) = unat (rt_scratch_current rt) - charge c"
    by (simp add: unat_sub ch)
  with assms show ?thesis by (auto simp: accounts_def charge_def word_le_nat_alt)
qed

text \<open>An operation of a cell that keeps the accounts on every run.\<close>

abbreviation keeping :: "custody \<Rightarrow> (world \<Rightarrow> (custody \<times> world) option) \<Rightarrow> bool" where
  "keeping s f \<equiv> runs f (\<lambda>t es. keeps_accounts s t)"

lemma runs_truncate_if: "runs (truncate_if fd) (\<lambda>_ es. True)"
  unfolding truncate_if_def by (intro runs_rules) simp_all

lemma runs_now_ns: "runs now_ns (\<lambda>_ es. True)"
  unfolding now_ns_def by (intro runs_rules) simp_all

definition discarded :: "custody \<Rightarrow> custody \<Rightarrow> bool" where
  "discarded s t \<longleftrightarrow> (case s of (rt, c) \<Rightarrow>
     t = ((if cell_bytes c \<noteq> 0 then rt\<lparr>rt_scratch_current := rt_scratch_current rt - cell_bytes c\<rparr> else rt),
       c\<lparr>c_bytes_a := 0, c_bytes_b := 0\<rparr>))"

lemma discarded_accounts:
  assumes "discarded s t" and "accounts others s"
  shows "accounts others t"
proof -
  obtain rt c where s: "s = (rt, c)" by (cases s)
  from assms have a: "accounts others (rt, c)" by (simp add: s)
  show ?thesis
  proof (cases "cell_bytes c = 0")
    case True
    then have "charge c = 0" using unat_cell_bytes [OF a] by simp
    with a show ?thesis using assms(1) True
      by (auto simp: s discarded_def accounts_def charge_def)
  next
    case False
    with assms(1) accounts_forget [OF a] show ?thesis by (simp add: s discarded_def)
  qed
qed

lemma discarded_limits: "discarded s t \<Longrightarrow> same_limits s t"
  by (cases s) (auto simp: discarded_def same_limits_def)

lemma runs_discard: "runs (discard_cell_output s) (\<lambda>t es. discarded s t)"
  unfolding discard_cell_output_def
  by (cases s) (simp only: prod.case, intro runs_let runs_bind [OF runs_truncate_if] runs_rules,
      simp add: discarded_def)

lemma keeping_discard: "keeping s (discard_cell_output s)"
  by (rule runs_weaken [OF runs_discard]) (auto simp: keeps_accounts_def discarded_limits intro: discarded_accounts)

lemma same_limits_trans: "same_limits s t \<Longrightarrow> same_limits t u \<Longrightarrow> same_limits s u"
  by (simp add: same_limits_def)

lemma runs_fail_storage:
  "runs (fail_storage s len) (\<lambda>t es. same_limits s t \<and> (\<forall>others. accounts (others + unat len) s \<longrightarrow> accounts others t))"
proof -
  obtain rt c where s: "s = (rt, c)" by (cases s)
  let ?s = "(rt\<lparr>rt_scratch_current := rt_scratch_current rt - len\<rparr>, set_flag 64 c)"
  have 1: "accounts others ?s" if "accounts (others + unat len) (rt, c)" for others
    using accounts_give_back [OF that] by (simp add: accounts_def charge_def)
  have 2: "same_limits (rt, c) ?s" by (simp add: same_limits_def)
  show ?thesis
    unfolding fail_storage_def s prod.case
    by (rule runs_weaken [OF runs_discard])
      (use 1 2 in \<open>auto intro: discarded_accounts same_limits_trans discarded_limits\<close>)
qed

lemma accounts_add_bytes:
  assumes "accounts (others + unat len) (rt, c)" and "charge c + unat len \<le> unat (rt_effect_output_limit rt)"
  shows "accounts others (rt, add_bytes first len c)"
proof -
  have lt: "charge c + unat len < 2 ^ 64"
    using assms(2) unat_u64 [of "rt_effect_output_limit rt"] by linarith
  then have "unat (c_bytes_a c + len) = unat (c_bytes_a c) + unat len"
    "unat (c_bytes_b c + len) = unat (c_bytes_b c) + unat len"
    by (simp_all add: charge_def unat_word_ariths)
  with assms show ?thesis by (simp add: accounts_def charge_def add_bytes_def)
qed

text \<open>A granted charge followed by the write and the addition, or by the failure path.\<close>

lemma keeps_granted_add:
  assumes "charge_scratch s len = (True, rt, c)" and "rt_scratch_current rt' = rt_scratch_current rt"
    and "rt_effect_output_limit rt' = rt_effect_output_limit rt"
    and "rt_host_scratch_quota rt' = rt_host_scratch_quota rt"
    and "c_bytes_a c' = c_bytes_a (add_bytes first len c)" and "c_bytes_b c' = c_bytes_b (add_bytes first len c)"
  shows "keeps_accounts s (rt', c')"
proof -
  obtain rt0 c0 where s: "s = (rt0, c0)" by (cases s)
  note g = charge_scratch_granted [OF assms(1) [unfolded s]]
  have lim: "same_limits (rt0, c0) (rt, c)" using charge_scratch_limits [OF assms(1)] by (simp add: s)
  have "accounts others (rt', c')" if "accounts others (rt0, c0)" for others
  proof -
    have "accounts others (rt, add_bytes first len c)"
      using g(1,2,3) [OF that] lim by (intro accounts_add_bytes) (auto simp: same_limits_def)
    with assms(2-) show ?thesis by (simp add: accounts_def charge_def)
  qed
  with lim assms(2-4) show ?thesis by (simp add: keeps_accounts_def same_limits_def s)
qed

lemma keeps_granted_failed:
  assumes "charge_scratch s len = (True, rt, c)" and "same_limits (rt, c) t"
    and "\<forall>others. accounts (others + unat len) (rt, c) \<longrightarrow> accounts others t"
  shows "keeps_accounts s t"
proof -
  obtain rt0 c0 where s: "s = (rt0, c0)" by (cases s)
  have "same_limits s (rt, c)" using charge_scratch_limits [OF assms(1)] .
  with assms charge_scratch_granted(1) [OF assms(1) [unfolded s]] show ?thesis
    by (auto simp: keeps_accounts_def s intro: same_limits_trans)
qed

lemma runs_write_all: "runs (write_all fd bytes) (\<lambda>x es. write_spec fd bytes (x = 0) es)"
  by (rule wa.exact)

lemma keeping_model_write: "runs (model_write bytes s) (\<lambda>x es. keeps_accounts s (snd x))"
proof -
  obtain charged rt c where ch: "charge_scratch s (word_of_nat (length bytes)) = (charged, rt, c)"
    by (metis prod_cases3)
  show ?thesis
  proof (cases charged)
    case True
    have granted: "charge_scratch s (word_of_nat (length bytes)) = (True, rt, c)" using ch True by simp
    note add = keeps_granted_add [OF granted, where first = True]
    note failed = keeps_granted_failed [OF granted]
    show ?thesis
      unfolding model_write_def Let_def ch prod.case using True
      by (intro runs_if runs_bind [OF runs_now_ns] runs_bind [OF runs_write_all]
          runs_bind [OF runs_fail_storage] runs_rules)
        (auto intro: add failed simp: add_bytes_def)
  next
    case False
    have "keeps_accounts s (rt, c)" using ch False by (intro charge_scratch_refused) simp
    note refused = keeps_accounts_trans [OF this]
    show ?thesis
      unfolding model_write_def Let_def ch prod.case using False
      by (intro runs_if runs_bind [OF keeping_discard] runs_rules)
        (auto intro: refused)
  qed
qed

lemma keeping_request_end: "keeping s (request_end s)"
  unfolding request_end_def
  by (cases s) (simp only: prod.case, intro runs_bind [OF runs_now_ns] runs_rules,
      auto intro!: keeps_accounts_same)

lemma keeping_then: "keeping t f \<Longrightarrow> keeps_accounts s t \<Longrightarrow> keeping s f"
  by (erule runs_weaken) (rule keeps_accounts_trans)

lemma keeping_take_window: "keeping s (take_window first bytes s)"
proof -
  obtain charged rt c where ch: "charge_scratch s (word_of_nat (length bytes)) = (charged, rt, c)"
    by (metis prod_cases3)
  show ?thesis
  proof (cases charged)
    case True
    have granted: "charge_scratch s (word_of_nat (length bytes)) = (True, rt, c)" using ch True by simp
    note add = keeps_granted_add [OF granted, where first = first]
    note failed = keeps_granted_failed [OF granted]
    show ?thesis
      unfolding take_window_def Let_def ch prod.case using True
      by (intro runs_if runs_bind [OF runs_now_ns] runs_bind [OF runs_write_all]
          runs_bind [OF runs_fail_storage] keeping_then [OF keeping_request_end] runs_rules)
        (auto intro: add failed)
  next
    case False
    have "keeps_accounts s (rt, c)" using ch False by (intro charge_scratch_refused) simp
    note refused = keeps_accounts_trans [OF this]
    show ?thesis
      unfolding take_window_def Let_def ch prod.case using False
      by (intro runs_if runs_bind [OF keeping_discard] keeping_then [OF keeping_request_end] runs_rules)
        (auto intro: refused)
  qed
qed

lemma keeps_drop_pipe: "keeps_accounts s (fst s, drop_pipe first (snd s))"
  by (cases s) (auto simp: drop_pipe_def intro!: keeps_accounts_same)

lemma runs_drain_step:
  "runs (drain_step first s) (\<lambda>x es. es \<noteq> [] \<and> keeps_accounts s (snd x))"
  unfolding drain_step_def
  by (intro runs_bind [OF keeping_take_window] runs_rules)
    (simp_all add: keeps_drop_pipe)

lemma drain_step_consumes: "runs (drain_step first s) (\<lambda>_ es. es \<noteq> [])"
  by (rule runs_weaken [OF runs_drain_step]) simp

text \<open>\<open>drain_pipe\<close>: read windows until the pipe is empty, at its end, or fails.\<close>

function drain_pipe :: "bool \<Rightarrow> custody \<Rightarrow> world \<Rightarrow> (custody \<times> world) option" where
  "drain_pipe first s w =
     (case drain_step first s w of
        None \<Rightarrow> None
      | Some ((True, s'), w') \<Rightarrow> drain_pipe first s' w'
      | Some ((False, s'), w') \<Rightarrow> Some (s', w'))"
  by pat_completeness auto
termination
  by (relation "measure (\<lambda>(_, _, w). length (w_script w))")
    (auto dest: runs_shrinks [OF drain_step_consumes])

declare drain_pipe.simps [simp del]

lemma keeping_drain_pipe: "keeping s (drain_pipe first s)"
proof (rule runsI)
  fix w t w'
  assume "drain_pipe first s w = Some (t, w')"
  then show "\<exists>es. emits w w' es \<and> keeps_accounts s t"
  proof (induction first s w rule: drain_pipe.induct)
    case (1 first s w)
    from "1.prems" obtain more s1 w1 where d: "drain_step first s w = Some ((more, s1), w1)"
      by (auto simp: drain_pipe.simps [of first s w] split: option.splits)
    from runsD [OF runs_drain_step d] obtain es where es: "emits w w1 es" "keeps_accounts s s1" by auto
    show ?case
    proof (cases more)
      case True
      with "1.prems" d have "drain_pipe first s1 w1 = Some (t, w')"
        by (simp add: drain_pipe.simps [of first s w])
      with "1.IH" d True obtain fs where "emits w1 w' fs" "keeps_accounts s1 t" by blast
      with es show ?thesis by (blast intro: emits_trans keeps_accounts_trans)
    next
      case False
      with "1.prems" d have "t = s1" "w' = w1" by (simp_all add: drain_pipe.simps [of first s w])
      with es show ?thesis by blast
    qed
  qed
qed

lemma keeping_seal_cell: "keeping s (seal_cell s)"
  unfolding seal_cell_def
  by (cases s) (simp only: prod.case, intro runs_bind [OF runs_now_ns] runs_rules,
      auto intro!: keeps_accounts_same)

lemma keeping_term_due: "keeping s (term_due at s)"
  unfolding term_due_def
  by (cases s) (simp only: prod.case, intro runs_rules, auto intro!: keeps_accounts_same)

lemma keeping_kill_due: "keeping s (kill_due at s)"
  unfolding kill_due_def
  by (cases s) (simp only: prod.case, intro runs_rules, auto intro!: keeps_accounts_same)

lemma keeping_reap_root: "keeping s (reap_root at s)"
  unfolding reap_root_def
  by (cases s) (simp only: prod.case, intro runs_rules, auto intro!: keeps_accounts_same)

lemma runs_close_pipe:
  "runs (close_pipe first c) (\<lambda>d es. c_bytes_a d = c_bytes_a c \<and> c_bytes_b d = c_bytes_b c)"
  unfolding close_pipe_def by (intro runs_rules) (auto simp: drop_pipe_def)

lemma keeping_expire_pipes: "keeping s (expire_pipes at s)"
  unfolding expire_pipes_def
  by (cases s) (simp only: prod.case, intro runs_bind [OF runs_close_pipe] runs_rules,
      auto intro!: keeps_accounts_same)

lemma keeping_bash_terminal: "runs (bash_terminal s) (\<lambda>x es. keeps_accounts s (snd x))"
  unfolding bash_terminal_def
  by (intro runs_bind [OF runs_now_ns] runs_bind [OF keeping_term_due] runs_bind [OF keeping_kill_due]
      runs_bind [OF keeping_reap_root] runs_bind [OF keeping_expire_pipes] runs_rules)
    (auto intro: keeps_accounts_trans)

lemma runs_close_fd_if: "runs (close_fd_if fd) (\<lambda>_ es. True)"
  unfolding close_fd_if_def by (intro runs_rules) simp_all

definition released :: "custody \<Rightarrow> custody \<Rightarrow> bool" where
  "released s t \<longleftrightarrow> (case s of (rt, c) \<Rightarrow>
     t = ((if cell_bytes c \<noteq> 0 then rt\<lparr>rt_scratch_current := rt_scratch_current rt - cell_bytes c\<rparr> else rt),
       vacate c))"

lemma runs_release_cell: "runs (release_cell s) (\<lambda>t es. released s t)"
proof -
  obtain rt c where s: "s = (rt, c)" by (cases s)
  show ?thesis
    unfolding release_cell_def s prod.case released_def
    by (intro runs_bind [OF runs_close_fd_if] runs_rules) (rule refl)+
qed

lemma released_keeps:
  assumes "released s t"
  shows "keeps_accounts s t"
proof -
  obtain rt c where s: "s = (rt, c)" by (cases s)
  let ?d = "(fst t, c\<lparr>c_bytes_a := 0, c_bytes_b := 0\<rparr>)"
  have "discarded s ?d" using assms by (simp add: released_def discarded_def s)
  then have "keeps_accounts s ?d"
    by (auto simp: keeps_accounts_def discarded_limits intro: discarded_accounts)
  moreover have "keeps_accounts ?d t"
    using assms by (cases t) (auto simp: released_def s vacate_def intro!: keeps_accounts_same)
  ultimately show ?thesis by (rule keeps_accounts_trans)
qed

lemma keeping_release_cell: "keeping s (release_cell s)"
  by (rule runs_weaken [OF runs_release_cell]) (rule released_keeps)

section \<open>The contract of an operation, and the whole table\<close>

text \<open>
  \<open>table_ok\<close> is the invariant of the runtime's table: the counter is the sum of all charges
  and is within the quota, every charge is within the effect limit.  Every operation of one
  cell that keeps the accounts keeps the table, whatever the other cells hold.
\<close>

type_synonym table = "runtime \<times> cell list"

definition table_ok :: "table \<Rightarrow> bool" where
  "table_ok t \<longleftrightarrow> (case t of (rt, cells) \<Rightarrow>
     unat (rt_scratch_current rt) = sum_list (map charge cells) \<and>
     (\<forall>c \<in> set cells. charge c \<le> unat (rt_effect_output_limit rt)) \<and>
     rt_scratch_current rt \<le> rt_host_scratch_quota rt)"

definition at_cell :: "nat \<Rightarrow> (custody \<Rightarrow> world \<Rightarrow> (custody \<times> world) option) \<Rightarrow> table \<Rightarrow> world \<Rightarrow> (table \<times> world) option" where
  "at_cell i f t w = (case t of (rt, cells) \<Rightarrow> do {
     ((rt, c), w) \<leftarrow> f (rt, cells ! i) w;
     Some ((rt, cells[i := c]), w)
   })"

lemma table_accounts:
  assumes "table_ok (rt, cells)" and "i < length cells"
  shows "accounts (sum_list (map charge (take i cells @ drop (Suc i) cells))) (rt, cells ! i)"
proof -
  have "map charge cells = map charge (take i cells @ cells ! i # drop (Suc i) cells)"
    using assms(2) by (simp add: id_take_nth_drop [symmetric])
  then have "sum_list (map charge cells) =
      sum_list (map charge (take i cells @ drop (Suc i) cells)) + charge (cells ! i)"
    by simp
  with assms show ?thesis by (simp add: accounts_def table_ok_def)
qed

lemma accounts_table:
  assumes "table_ok (rt, cells)" and "i < length cells" and "same_limits (rt, cells ! i) (rt', c)"
    and "accounts (sum_list (map charge (take i cells @ drop (Suc i) cells))) (rt', c)"
  shows "table_ok (rt', cells[i := c])"
proof -
  have "sum_list (map charge (cells[i := c])) =
      sum_list (map charge (take i cells @ drop (Suc i) cells)) + charge c"
    using assms(2) by (simp add: upd_conv_take_nth_drop)
  moreover have "charge d \<le> unat (rt_effect_output_limit rt')" if "d \<in> set (cells[i := c])" for d
    using that assms set_update_subset_insert [of cells i c]
    by (auto simp: table_ok_def accounts_def same_limits_def)
  ultimately show ?thesis using assms(4) by (simp add: table_ok_def accounts_def)
qed

locale custody_operation =
  fixes op :: "custody \<Rightarrow> world \<Rightarrow> (custody \<times> world) option"
  assumes keeping: "runs (op s) (\<lambda>t es. keeps_accounts s t)"
begin

lemma table_kept:
  assumes "at_cell i op t w = Some (t', w')" and "table_ok t" and "i < length (snd t)"
  shows "table_ok t' \<and> length (snd t') = length (snd t)"
proof -
  obtain rt cells where t: "t = (rt, cells)" by (cases t)
  from assms(1) obtain rt' c where o: "op (rt, cells ! i) w = Some ((rt', c), w')" and t': "t' = (rt', cells[i := c])"
    by (auto simp: at_cell_def t)
  from runsD [OF keeping o] have "keeps_accounts (rt, cells ! i) (rt', c)" by auto
  with assms(2,3) table_accounts [of rt cells i] show ?thesis
    by (auto simp: t t' keeps_accounts_def intro: accounts_table)
qed

lemma within_quota:
  assumes "at_cell i op t w = Some (t', w')" and "table_ok t" and "i < length (snd t)"
  shows "rt_scratch_current (fst t') \<le> rt_host_scratch_quota (fst t')"
  using table_kept [OF assms] by (cases t') (simp add: table_ok_def)

end

end
