(* ===== verification/Custody_Signals.thy ===== *)
theory Custody_Signals
  imports Custody_Cells
begin

text \<open>
  What a cell's operations do outside the cell, over its whole occupancy: the signals sent
  to the process group, the descriptors closed by the release, and the scratch counter over
  any sequence of operations on any cells.
\<close>

section \<open>Operations as data\<close>

datatype cell_op =
    Deliver "byte list"
  | Drain bool
  | Tick
  | Seal
  | Release
  | Abandon

definition perform :: "cell_op \<Rightarrow> custody \<Rightarrow> world \<Rightarrow> (custody \<times> world) option" where
  "perform a s w = (case a of
      Deliver bytes \<Rightarrow> do { ((_, s), w) \<leftarrow> model_write bytes s w; Some (s, w) }
    | Drain first \<Rightarrow> drain_pipe first s w
    | Tick \<Rightarrow> do { ((_, s), w) \<leftarrow> bash_terminal s w; Some (s, w) }
    | Seal \<Rightarrow> seal_cell s w
    | Release \<Rightarrow> release_cell s w
    | Abandon \<Rightarrow> abandon_cell s w)"

lemma keeping_abandon_cell: "keeping s (abandon_cell s)"
proof -
  obtain rt c where s: "s = (rt, c)" by (cases s)
  have easy: "keeps_accounts (rt, c) t" if "keeps_accounts (rt, c\<lparr>c_easy := h\<rparr>) t" for h t
    by (rule keeps_accounts_trans [OF keeps_accounts_same that]) simp_all
  have root: "keeps_accounts (rt, c) t" if "keeps_accounts (rt, c\<lparr>c_wait_status := a, c_root_pid := b\<rparr>) t" for a b t
    by (rule keeps_accounts_trans [OF keeps_accounts_same that]) simp_all
  show ?thesis
    unfolding abandon_cell_def s prod.case
    by (intro runs_weaken [OF keeping_release_cell] runs_rules) (auto intro: easy root)
qed

lemma perform_plain:
  "perform (Drain first) s = drain_pipe first s" "perform Seal s = seal_cell s"
  "perform Release s = release_cell s" "perform Abandon s = abandon_cell s"
  by (simp_all add: perform_def fun_eq_iff)

lemma keeping_perform: "keeping s (perform a s)"
proof (cases a)
  case (Deliver bytes)
  then show ?thesis
    unfolding perform_def by (simp, intro runs_bind [OF keeping_model_write] runs_rules) auto
next
  case Tick
  then show ?thesis
    unfolding perform_def by (simp, intro runs_bind [OF keeping_bash_terminal] runs_rules) auto
qed (simp_all add: perform_plain keeping_drain_pipe keeping_seal_cell keeping_release_cell keeping_abandon_cell)

interpretation po: custody_operation "perform a" for a
  by unfold_locales (rule keeping_perform)

text \<open>A schedule: which operation on which cell, in order.\<close>

fun run_schedule :: "(nat \<times> cell_op) list \<Rightarrow> table \<Rightarrow> world \<Rightarrow> (table \<times> world) option" where
  "run_schedule [] t w = Some (t, w)"
| "run_schedule ((i, a) # as) t w =
     (if i < length (snd t) then do { (t, w) \<leftarrow> at_cell i (perform a) t w; run_schedule as t w }
      else None)"

lemma run_schedule_table:
  "run_schedule as t w = Some (t', w') \<Longrightarrow> table_ok t \<Longrightarrow> table_ok t'"
proof (induction as t w rule: run_schedule.induct)
  case (2 i a as t w)
  then obtain t1 w1 where "i < length (snd t)" "at_cell i (perform a) t w = Some (t1, w1)"
    "run_schedule as t1 w1 = Some (t', w')"
    by (auto split: if_splits)
  with 2 po.table_kept [of i a t w t1 w1] show ?case by auto
qed simp

section \<open>Signals\<close>

fun signal_delta :: "int \<Rightarrow> call \<times> reply \<Rightarrow> nat" where
  "signal_delta sig (Proc (Kill p n), r) = of_bool (n = sig)"
| "signal_delta sig e = 0"

definition sent :: "int \<Rightarrow> (call \<times> reply) list \<Rightarrow> nat" where
  "sent sig es = sum_list (map (signal_delta sig) es)"

lemma sent_simps [simp]:
  "sent sig [] = 0" "sent sig (e # es) = signal_delta sig e + sent sig es"
  "sent sig (es @ fs) = sent sig es + sent sig fs"
  by (simp_all add: sent_def)

text \<open>A signal is sent exactly when its flag is set, and SIGKILL only after SIGTERM.\<close>

definition term_sent :: "custody \<Rightarrow> bool" where
  "term_sent s \<longleftrightarrow> has_flag (c_flags (snd s)) FLAG_TERM_SENT"

definition kill_sent :: "custody \<Rightarrow> bool" where
  "kill_sent s \<longleftrightarrow> has_flag (c_flags (snd s)) FLAG_KILL_SENT"

definition signals :: "custody \<Rightarrow> custody \<Rightarrow> (call \<times> reply) list \<Rightarrow> bool" where
  "signals s t es \<longleftrightarrow>
     sent 15 es + of_bool (term_sent s) = of_bool (term_sent t) \<and>
     sent 9 es + of_bool (kill_sent s) = of_bool (kill_sent t) \<and>
     (kill_sent t \<longrightarrow> kill_sent s \<or> term_sent t)"

lemma signals_trans: "signals s t es \<Longrightarrow> signals t u fs \<Longrightarrow> signals s u (es @ fs)"
  by (auto simp: signals_def split: if_splits)

text \<open>Steps that send nothing and leave both flags.\<close>

definition quiet :: "(call \<times> reply) list \<Rightarrow> bool" where
  "quiet es \<longleftrightarrow> sent 15 es = 0 \<and> sent 9 es = 0"

lemma quiet_simps [simp]: "quiet []" "quiet (es @ fs) \<longleftrightarrow> quiet es \<and> quiet fs"
  "quiet ((Io c, r) # es) \<longleftrightarrow> quiet es" "quiet ((Fd d, r) # es) \<longleftrightarrow> quiet es" "quiet ((Env e, r) # es) \<longleftrightarrow> quiet es"
  "quiet ((Proc (Waitpid p b), r) # es) \<longleftrightarrow> quiet es"
  by (auto simp: quiet_def)

definition same_signals :: "custody \<Rightarrow> custody \<Rightarrow> bool" where
  "same_signals s t \<longleftrightarrow> term_sent t = term_sent s \<and> kill_sent t = kill_sent s"

lemma signals_quiet: "quiet es \<Longrightarrow> same_signals s t \<Longrightarrow> signals s t es"
  by (simp add: signals_def quiet_def same_signals_def)

lemma same_signals_refl [simp]: "same_signals s s"
  by (simp add: same_signals_def)

lemma same_signals_trans: "same_signals s t \<Longrightarrow> same_signals t u \<Longrightarrow> same_signals s u"
  by (simp add: same_signals_def)

lemma same_signals_flags: "c_flags d = c_flags c \<Longrightarrow> same_signals (rt, c) (rt', d)"
  by (simp add: same_signals_def term_sent_def kill_sent_def)

lemma flag_values [simp]:
  "\<not> has_flag 1 4" "\<not> has_flag 1 8" "\<not> has_flag 16 4" "\<not> has_flag 16 8" "\<not> has_flag 64 4" "\<not> has_flag 64 8"
  "\<not> has_flag 128 4" "\<not> has_flag 128 8" "has_flag 4 4" "\<not> has_flag 4 8" "has_flag 8 8" "\<not> has_flag 8 4"
  "has_flag 5 4" "\<not> has_flag 5 8" "has_flag 64 64" "has_flag 128 128" "has_flag 16 16"
  by (simp_all add: has_flag_def)

lemma set_flag_fields [simp]:
  "c_root_reaped (set_flag f c) = c_root_reaped c" "c_pipe_a (set_flag f c) = c_pipe_a c"
  "c_pipe_b (set_flag f c) = c_pipe_b c"
  by (simp_all add: set_flag_def)

lemma has_flag_set [simp]: "has_flag (c_flags (set_flag f c)) x \<longleftrightarrow> has_flag (c_flags c) x \<or> has_flag f x"
  by (simp add: set_flag_def has_flag_or)

lemma quiet_writes: "write_spec fd bytes b es \<Longrightarrow> quiet es"
proof -
  assume "write_spec fd bytes b es"
  then have "writes_only fd es" by (simp add: write_spec_def)
  then show ?thesis by (induction es) (auto simp: quiet_def)
qed

lemma quiet_write_all: "runs (write_all fd bytes) (\<lambda>_ es. quiet es)"
  by (rule runs_weaken [OF wa.exact]) (rule quiet_writes)

lemma quiet_now_ns: "runs now_ns (\<lambda>_ es. quiet es)"
  unfolding now_ns_def by (intro runs_rules) simp_all

lemma quiet_truncate_if: "runs (truncate_if fd) (\<lambda>_ es. quiet es)"
  unfolding truncate_if_def by (intro runs_rules) simp_all

lemma charge_scratch_signals: "charge_scratch s len = (b, t) \<Longrightarrow> same_signals s t"
  by (cases s) (auto simp: charge_scratch_def Let_def same_signals_def term_sent_def kill_sent_def split: if_splits)

lemma signals_discard: "runs (discard_cell_output s) (\<lambda>t es. quiet es \<and> same_signals s t)"
proof -
  obtain rt c where s: "s = (rt, c)" by (cases s)
  show ?thesis
    unfolding discard_cell_output_def s prod.case
    by (intro runs_bind [OF quiet_truncate_if] runs_rules) (simp add: same_signals_def term_sent_def kill_sent_def)
qed

lemma signals_fail_storage: "runs (fail_storage s len) (\<lambda>t es. quiet es \<and> same_signals s t)"
proof -
  obtain rt c where s: "s = (rt, c)" by (cases s)
  show ?thesis
    unfolding fail_storage_def s prod.case
    by (rule runs_weaken [OF signals_discard]) (auto simp: same_signals_def term_sent_def kill_sent_def)
qed

lemma signals_silent [simp]:
  "signals s t ((Io c, r) # es) = signals s t es" "signals s t ((Fd d, r) # es) = signals s t es"
  by (simp_all add: signals_def)

lemma signals_before: "quiet es \<Longrightarrow> signals s t fs \<Longrightarrow> signals s t (es @ fs)"
  by (simp add: signals_def quiet_def)

lemma signals_from: "signals t u fs \<Longrightarrow> same_signals s t \<Longrightarrow> signals s u fs"
  by (simp add: signals_def same_signals_def)

lemma signals_model_write: "runs (model_write bytes s) (\<lambda>x es. signals s (snd x) es)"
proof -
  obtain charged rt c where ch: "charge_scratch s (word_of_nat (length bytes)) = (charged, rt, c)"
    by (metis prod_cases3)
  have same: "same_signals s (rt', d)" if "c_flags d = c_flags c" for rt' d
    using charge_scratch_signals [OF ch] that by (simp add: same_signals_def term_sent_def kill_sent_def)
  have silent: "signals s (rt', d) es" if "quiet es" "c_flags d = c_flags c" for rt' d es
    by (rule signals_quiet [OF that(1) same [OF that(2)]])
  show ?thesis
    unfolding model_write_def Let_def ch prod.case
    by (intro runs_if runs_bind [OF quiet_now_ns] runs_bind [OF quiet_write_all] runs_bind [OF signals_discard]
        runs_bind [OF signals_fail_storage] runs_rules)
      (auto intro: silent signals_quiet same same_signals_trans [OF same [OF refl]])
qed

lemma signals_request_end: "runs (request_end s) (signals s)"
proof -
  obtain rt c where s: "s = (rt, c)" by (cases s)
  show ?thesis
    unfolding request_end_def s prod.case
    by (intro runs_bind [OF quiet_now_ns] runs_rules)
      (auto simp: signals_def quiet_def term_sent_def kill_sent_def)
qed

lemma signals_take_window: "runs (take_window first bytes s) (signals s)"
proof -
  obtain charged rt c where ch: "charge_scratch s (word_of_nat (length bytes)) = (charged, rt, c)"
    by (metis prod_cases3)
  have same: "same_signals s (rt', d)" if "c_flags d = c_flags c" for rt' d
    using charge_scratch_signals [OF ch] that by (simp add: same_signals_def term_sent_def kill_sent_def)
  have silent: "signals s (rt', d) es" if "quiet es" "c_flags d = c_flags c" for rt' d es
    by (rule signals_quiet [OF that(1) same [OF that(2)]])
  show ?thesis
    unfolding take_window_def Let_def ch prod.case
    by (intro runs_if runs_bind [OF quiet_now_ns] runs_bind [OF quiet_write_all] runs_bind [OF signals_discard]
        runs_bind [OF signals_fail_storage] runs_weaken [OF signals_request_end] runs_rules)
      (auto intro: silent signals_quiet same signals_before signals_from
        same_signals_trans [OF same [OF refl]] simp: add_bytes_def)
qed

lemma signals_drain_step: "runs (drain_step first s) (\<lambda>x es. signals s (snd x) es)"
proof -
  have d: "same_signals s (fst s, drop_pipe first (snd s))"
    by (cases s) (simp add: same_signals_def term_sent_def kill_sent_def drop_pipe_def)
  show ?thesis
    unfolding drain_step_def
    by (intro runs_bind [OF signals_take_window] runs_rules) (auto simp: d intro: signals_quiet)
qed

lemma signals_drain_pipe: "runs (drain_pipe first s) (signals s)"
proof (rule runsI)
  fix w t w'
  assume "drain_pipe first s w = Some (t, w')"
  then show "\<exists>es. emits w w' es \<and> signals s t es"
  proof (induction first s w rule: drain_pipe.induct)
    case (1 first s w)
    from "1.prems" obtain more s1 w1 where d: "drain_step first s w = Some ((more, s1), w1)"
      by (auto simp: drain_pipe.simps [of first s w] split: option.splits)
    from runsD [OF signals_drain_step d] obtain es where es: "emits w w1 es" "signals s s1 es" by auto
    show ?case
    proof (cases more)
      case True
      with "1.prems" d have "drain_pipe first s1 w1 = Some (t, w')"
        by (simp add: drain_pipe.simps [of first s w])
      with "1.IH" d True obtain fs where "emits w1 w' fs" "signals s1 t fs" by blast
      with es show ?thesis by (blast intro: emits_trans signals_trans)
    next
      case False
      with "1.prems" d have "t = s1" "w' = w1" by (simp_all add: drain_pipe.simps [of first s w])
      with es show ?thesis by blast
    qed
  qed
qed

lemma signals_seal_cell: "runs (seal_cell s) (signals s)"
proof -
  obtain rt c where s: "s = (rt, c)" by (cases s)
  show ?thesis
    unfolding seal_cell_def s prod.case
    by (intro runs_bind [OF quiet_now_ns] runs_rules) (auto intro!: signals_quiet same_signals_flags)
qed

lemma signals_term_due: "runs (term_due at s) (signals s)"
proof -
  obtain rt c where s: "s = (rt, c)" by (cases s)
  show ?thesis
    unfolding term_due_def s prod.case
    by (intro runs_rules) (auto simp: signals_def quiet_def term_sent_def kill_sent_def has_flag_of_or has_flag_or)
qed

lemma signals_kill_due: "runs (kill_due at s) (signals s)"
proof -
  obtain rt c where s: "s = (rt, c)" by (cases s)
  show ?thesis
    unfolding kill_due_def s prod.case
    by (intro runs_rules) (auto simp: signals_def quiet_def term_sent_def kill_sent_def)
qed

lemma signals_reap_root: "runs (reap_root at s) (signals s)"
proof -
  obtain rt c where s: "s = (rt, c)" by (cases s)
  show ?thesis
    unfolding reap_root_def s prod.case
    by (intro runs_rules) (auto intro!: signals_quiet same_signals_flags)
qed

lemma quiet_close_pipe: "runs (close_pipe first c) (\<lambda>d es. quiet es \<and> c_flags d = c_flags c)"
  unfolding close_pipe_def by (intro runs_rules) (auto simp: drop_pipe_def)

lemma signals_expire_pipes: "runs (expire_pipes at s) (signals s)"
proof -
  obtain rt c where s: "s = (rt, c)" by (cases s)
  show ?thesis
    unfolding expire_pipes_def s prod.case
    by (intro runs_bind [OF quiet_close_pipe] runs_rules)
      (auto intro!: signals_quiet simp: same_signals_def term_sent_def kill_sent_def)
qed

lemma signals_bash_terminal: "runs (bash_terminal s) (\<lambda>x es. signals s (snd x) es)"
  unfolding bash_terminal_def
  by (intro runs_bind [OF quiet_now_ns] runs_bind [OF signals_term_due] runs_bind [OF signals_kill_due]
      runs_bind [OF signals_reap_root] runs_bind [OF signals_expire_pipes] runs_rules)
    (auto intro: signals_before signals_trans)

text \<open>The two ends of an occupancy.\<close>

abbreviation ends :: "cell_op \<Rightarrow> bool" where
  "ends a \<equiv> a = Release \<or> a = Abandon"

lemma quiet_release_cell: "runs (release_cell s) (\<lambda>_ es. quiet es)"
proof -
  have close: "runs (close_fd_if fd) (\<lambda>_ es. quiet es)" for fd
    unfolding close_fd_if_def by (intro runs_rules) simp_all
  obtain rt c where s: "s = (rt, c)" by (cases s)
  show ?thesis
    unfolding release_cell_def s prod.case by (intro runs_bind [OF close] runs_rules) simp_all
qed

definition drives :: "cell \<Rightarrow> bool" where
  "drives c \<longleftrightarrow> c_kind c = Bash \<and> c_root_pid c > 0"

lemma kill_abandon_cell:
  "runs (abandon_cell s) (\<lambda>_ es. sent 15 es = 0 \<and> sent 9 es = of_bool (drives (snd s)))"
proof -
  obtain rt c where s: "s = (rt, c)" by (cases s)
  show ?thesis
    unfolding abandon_cell_def s prod.case
    by (intro runs_weaken [OF quiet_release_cell] runs_rules) (auto simp: quiet_def drives_def)
qed

lemma signals_perform: "\<not> ends a \<Longrightarrow> runs (perform a s) (signals s)"
proof (cases a)
  case (Deliver bytes)
  then show ?thesis
    unfolding perform_def by (simp, intro runs_bind [OF signals_model_write] runs_rules) auto
next
  case Tick
  then show ?thesis
    unfolding perform_def by (simp, intro runs_bind [OF signals_bash_terminal] runs_rules) auto
qed (simp_all add: perform_plain signals_drain_pipe signals_seal_cell)

section \<open>Descriptors closed by the release\<close>

definition held :: "cell \<Rightarrow> int list" where
  "held c = filter (\<lambda>fd. fd \<ge> 0) [c_spool_a c, c_spool_b c, c_pipe_a c, c_pipe_b c]"

lemma closes_close_fd_if:
  "runs (close_fd_if fd) (\<lambda>_ es. \<forall>x. fd_net es x = - of_bool (fd \<ge> 0 \<and> x = fd))"
  unfolding close_fd_if_def by (intro runs_rules) auto

lemma held_count: "int (count_list (held c) x) =
    of_bool (c_spool_a c \<ge> 0 \<and> x = c_spool_a c) + of_bool (c_spool_b c \<ge> 0 \<and> x = c_spool_b c) +
    of_bool (c_pipe_a c \<ge> 0 \<and> x = c_pipe_a c) + of_bool (c_pipe_b c \<ge> 0 \<and> x = c_pipe_b c)"
  by (auto simp: held_def)

lemma runs_release_closes:
  "runs (release_cell s) (\<lambda>t es. released s t \<and> (\<forall>x. fd_net es x = - int (count_list (held (snd s)) x)))"
proof -
  obtain rt c where s: "s = (rt, c)" by (cases s)
  show ?thesis
    unfolding release_cell_def s prod.case released_def snd_conv held_count
    by (intro runs_bind [OF closes_close_fd_if] runs_rules conjI) auto
qed

lemma released_returns:
  assumes "released (rt, c) (rt', d)" and "accounts others (rt, c)"
  shows "unat (rt_scratch_current rt') = unat (rt_scratch_current rt) - charge c"
  using released_keeps [OF assms(1)] assms
  by (auto simp: keeps_accounts_def accounts_def released_def vacate_def charge_def)

section \<open>One transfer\<close>

definition transferred :: "byte list \<Rightarrow> custody \<Rightarrow> nat \<Rightarrow> custody \<Rightarrow> (call \<times> reply) list \<Rightarrow> bool" where
  "transferred bytes s n t es \<longleftrightarrow>
     n = length bytes \<and> written (c_spool_a (snd s)) es = bytes \<and> c_flags (snd t) = c_flags (snd s) \<and>
       c_bytes_a (snd t) = c_bytes_a (snd s) + word_of_nat (length bytes) \<and> c_bytes_b (snd t) = c_bytes_b (snd s) \<or>
     n = 0 \<and> c_bytes_a (snd t) = 0 \<and> c_bytes_b (snd t) = 0 \<and>
       (has_flag (c_flags (snd t)) FLAG_OUTPUT_LIMIT \<or> has_flag (c_flags (snd t)) FLAG_STORAGE_FAILURE)"

lemma written_now_ns: "runs now_ns (\<lambda>_ es. \<forall>fd. written fd es = [])"
  unfolding now_ns_def by (intro runs_rules) simp_all

lemma written_write_all: "runs (write_all fd bytes) (\<lambda>x es. x = 0 \<longrightarrow> written fd es = bytes)"
  by (rule runs_weaken [OF wa.exact]) (auto simp: write_spec_def)

lemma discard_flags:
  "runs (discard_cell_output s) (\<lambda>t es. c_flags (snd t) = c_flags (snd s) \<and> c_bytes_a (snd t) = 0 \<and> c_bytes_b (snd t) = 0)"
  by (rule runs_weaken [OF runs_discard]) (auto simp: discarded_def split: prod.splits)

lemma fail_storage_flags:
  "runs (fail_storage s len) (\<lambda>t es. has_flag (c_flags (snd t)) 64 \<and> c_bytes_a (snd t) = 0 \<and> c_bytes_b (snd t) = 0)"
proof -
  obtain rt c where s: "s = (rt, c)" by (cases s)
  show ?thesis
    unfolding fail_storage_def s prod.case
    by (rule runs_weaken [OF discard_flags]) simp
qed

lemma charge_scratch_outcome:
  assumes "charge_scratch s len = (b, rt, c)"
  shows "if b then c = snd s else has_flag (c_flags c) 128 \<or> has_flag (c_flags c) 64"
  using assms by (cases s) (auto simp: charge_scratch_def Let_def split: if_splits)

lemma runs_model_write_transferred:
  "runs (model_write bytes s) (\<lambda>(n, t) es. transferred bytes s n t es)"
proof -
  obtain charged rt c where ch: "charge_scratch s (word_of_nat (length bytes)) = (charged, rt, c)"
    by (metis prod_cases3)
  show ?thesis
    unfolding model_write_def Let_def ch prod.case
    using charge_scratch_outcome [OF ch]
    by (intro runs_if runs_bind [OF written_now_ns] runs_bind [OF written_write_all] runs_bind [OF discard_flags]
        runs_bind [OF fail_storage_flags] runs_rules)
      (auto simp: transferred_def)
qed

section \<open>Properties\<close>

definition sample_cell :: cell where
  "sample_cell = \<lparr>c_state = Active, c_kind = Bash, c_terminal_seen = False, c_root_reaped = False, c_flags = 0,
     c_attempt_id = 1, c_operation_id = 1, c_started_ns = 1, c_completed_ns = 0, c_bytes_a = 2, c_bytes_b = 1,
     c_callbacks = 0, c_deadline_ns = 5, c_grace_deadline_ns = 0, c_easy = 0, c_spool_a = 7, c_spool_b = 8,
     c_pipe_a = 9, c_pipe_b = -1, c_root_pid = 50, c_process_group = 50, c_wait_status = 0\<rparr>"

definition sample_runtime :: runtime where
  "sample_runtime = \<lparr>rt_bash_cancel_after_ns = 0, rt_bash_term_grace_ns = 10, rt_bash_pipe_grace_ns = 20,
     rt_effect_output_limit = 4, rt_host_scratch_quota = 10, rt_scratch_current = 3, rt_scratch_highwater = 3,
     rt_max_write_ns = 0, rt_max_term_lateness_ns = 0, rt_max_kill_lateness_ns = 0, rt_max_signal_to_reap_ns = 0,
     rt_max_pipe_grace_lateness_ns = 0, rt_max_model_callback_gap_ns = 0, rt_first_model_sealed_ns = 0,
     rt_last_model_sealed_ns = 0, rt_validator_active = 0, rt_validator_max = 0, rt_bash_term_sent = 0,
     rt_bash_kill_sent = 0, rt_bash_reaped = 0, rt_bash_pipe_grace_expired = 0, rt_max_live_spool_allocated = 0,
     rt_max_storage_allocated = 0\<rparr>"

text \<open>
  C19. Whatever sequence of operations runs on whichever cells, transfers, pipe drains, deadline
  checks, seals and releases, and whatever the system replies, the scratch counter stays the sum
  of what the cells hold, no cell exceeds the effect limit, and the counter never exceeds the
  Host quota: no charge is lost, returned twice or wrapped around.
\<close>

theorem schedule_keeps_accounts:
  assumes "run_schedule as t w = Some (t', w')" and "table_ok t"
  shows "table_ok t' \<and> rt_scratch_current (fst t') \<le> rt_host_scratch_quota (fst t')"
  using run_schedule_table [OF assms] by (cases t') (simp add: table_ok_def)

lemma schedule_keeps_accounts_witness:
  "\<exists>t' w'. run_schedule [(0, Drain True), (0, Release)] (sample_runtime, [sample_cell])
      (boot [ok_data [65, 66], ok 0, ok 0, ok 0, ok_out 0 [0, 6], ok 0, ok 0, ok 0, ok 0]) = Some (t', w') \<and>
    rt_scratch_current (fst t') = 0 \<and> table_ok t'"
proof -
  have ok: "table_ok (sample_runtime, [sample_cell])"
    by (simp add: table_ok_def sample_runtime_def sample_cell_def charge_def word_le_nat_alt)
  obtain t' w' where run: "run_schedule [(0, Drain True), (0, Release)] (sample_runtime, [sample_cell])
      (boot [ok_data [65, 66], ok 0, ok 0, ok 0, ok_out 0 [0, 6], ok 0, ok 0, ok 0, ok 0]) = Some (t', w')"
    and z: "rt_scratch_current (fst t') = 0"
    by (simp add: at_cell_def perform_def drain_pipe.simps drain_step_def take_window_def charge_scratch_def
        discard_cell_output_def truncate_if_def request_end_def now_ns_def release_cell_def close_fd_if_def
        pipe_of_def drop_pipe_def cell_bytes_def set_flag_def has_flag_def boot_def sample_runtime_def sample_cell_def)
  from schedule_keeps_accounts [OF run ok] run z show ?thesis by blast
qed

fun run_cell :: "cell_op list \<Rightarrow> custody \<Rightarrow> world \<Rightarrow> (custody \<times> world) option" where
  "run_cell [] s w = Some (s, w)"
| "run_cell (a # as) s w = do { (s, w) \<leftarrow> perform a s w; run_cell as s w }"

lemma signals_run_cell: "list_all (\<lambda>a. \<not> ends a) as \<Longrightarrow> runs (run_cell as s) (signals s)"
proof (induction as arbitrary: s)
  case Nil
  have "runs (\<lambda>w. Some (s, w)) (signals s)" by (intro runs_rules) (auto intro: signals_quiet)
  then show ?case by simp
next
  case (Cons a as)
  have "runs (\<lambda>w. Option.bind (perform a s w) (\<lambda>(s, w). run_cell as s w)) (signals s)"
    by (rule runs_bind [OF signals_perform], use Cons.prems in simp, rule runs_weaken [OF Cons.IH])
      (use Cons.prems in \<open>auto intro: signals_trans\<close>)
  then show ?case by simp
qed

lemma run_cell_append: "run_cell (as @ bs) s w = Option.bind (run_cell as s w) (\<lambda>(t, w). run_cell bs t w)"
  by (induction as arbitrary: s w) (auto split: Option.bind_splits)

text \<open>
  C20. From a cleared cell, any sequence of operations before the end of its occupancy sends the
  process group at most one SIGTERM and at most one SIGKILL, and SIGKILL only if it sent SIGTERM;
  the flags that the settlement counts say exactly which were sent.  The end sends no SIGTERM: a
  release sends nothing, and the abandonment after a fatal error sends one SIGKILL, flagged
  nowhere, exactly to a shell whose root it still has.
\<close>

theorem signals_sent_once:
  assumes "run_cell (as @ [a]) s w = Some (u, w')" and "list_all (\<lambda>b. b \<noteq> Release \<and> b \<noteq> Abandon) as"
    and "a = Release \<or> a = Abandon" and "c_flags (snd s) = 0"
  shows "\<exists>t w1 es fs. run_cell as s w = Some (t, w1) \<and> emits w w1 es \<and> emits w1 w' fs \<and>
    sent 15 es = of_bool (has_flag (c_flags (snd t)) FLAG_TERM_SENT) \<and>
    sent 9 es = of_bool (has_flag (c_flags (snd t)) FLAG_KILL_SENT) \<and> sent 9 es \<le> sent 15 es \<and> sent 15 es \<le> 1 \<and>
    sent 15 fs = 0 \<and> sent 9 fs = of_bool (a = Abandon \<and> c_kind (snd t) = Bash \<and> c_root_pid (snd t) > 0)"
proof -
  from assms(1) obtain t w1 where first: "run_cell as s w = Some (t, w1)" and last: "perform a t w1 = Some (u, w')"
    by (auto simp: run_cell_append split: Option.bind_splits)
  have none: "\<not> term_sent s" "\<not> kill_sent s" using assms(4) by (simp_all add: term_sent_def kill_sent_def has_flag_def)
  have "list_all (\<lambda>a. \<not> ends a) as" using assms(2) by (auto simp: list_all_iff)
  from runsD [OF signals_run_cell [OF this] first] obtain es where es: "emits w w1 es" "signals s t es" by blast
  obtain fs where "emits w1 w' fs" "sent 15 fs = 0" "sent 9 fs = of_bool (a = Abandon \<and> drives (snd t))"
  proof (cases "a = Abandon")
    case True
    with last have "abandon_cell t w1 = Some (u, w')" by (simp add: perform_plain)
    from runsD [OF kill_abandon_cell this] True show ?thesis using that by auto
  next
    case False
    with assms(3) last have "release_cell t w1 = Some (u, w')" by (simp add: perform_plain)
    from runsD [OF quiet_release_cell this] False show ?thesis using that by (auto simp: quiet_def)
  qed
  with first es none show ?thesis
    by (intro exI [of _ t] exI [of _ w1] exI [of _ es] exI [of _ fs]) (simp add: signals_def term_sent_def kill_sent_def drives_def)
qed

text \<open>A shell that is told to end, killed, and abandoned before it is reaped: SIGKILL is sent twice.\<close>

lemma signals_sent_once_witness:
  "\<exists>u w' es w1 fs. run_cell [Tick, Tick, Abandon] (sample_runtime, sample_cell)
      (boot [ok_out 0 [0, 6], ok 0, ok 0, ok_out 0 [0, 16], ok 0, ok 0, ok 0, ok 0, ok 0, ok 0, ok 0]) = Some (u, w') \<and>
    emits (boot [ok_out 0 [0, 6], ok 0, ok 0, ok_out 0 [0, 16], ok 0, ok 0, ok 0, ok 0, ok 0, ok 0, ok 0]) w1 es \<and>
    emits w1 w' fs \<and> sent 15 es = 1 \<and> sent 9 es = 1 \<and> sent 9 fs = 1"
proof -
  let ?w = "boot [ok_out 0 [0, 6], ok 0, ok 0, ok_out 0 [0, 16], ok 0, ok 0, ok 0, ok 0, ok 0, ok 0, ok 0]"
  note evaluate = perform_def bash_terminal_def now_ns_def term_due_def kill_due_def reap_root_def expire_pipes_def
    abandon_cell_def release_cell_def close_fd_if_def cell_bytes_def
    set_flag_def has_flag_def boot_def out_def sample_runtime_def sample_cell_def word_le_nat_alt
  obtain t w1 where part: "run_cell [Tick, Tick] (sample_runtime, sample_cell) ?w = Some (t, w1)"
    and f: "c_flags (snd t) = 13" "c_kind (snd t) = Bash" "c_root_pid (snd t) = 50"
    by (simp cong: bind_option_cong_code add: evaluate)
  have "\<exists>u w'. run_cell [Tick, Tick, Abandon] (sample_runtime, sample_cell) ?w = Some (u, w')"
    by (simp cong: bind_option_cong_code add: evaluate)
  then obtain u w' where run: "run_cell ([Tick, Tick] @ [Abandon]) (sample_runtime, sample_cell) ?w = Some (u, w')" by auto
  have "c_flags (snd (sample_runtime, sample_cell)) = 0" by (simp add: sample_cell_def)
  from signals_sent_once [OF run _ _ this] obtain t' v es fs where
    same: "run_cell [Tick, Tick] (sample_runtime, sample_cell) ?w = Some (t', v)"
    and e: "emits ?w v es" "emits v w' fs" "sent 15 es = of_bool (has_flag (c_flags (snd t')) FLAG_TERM_SENT)"
      "sent 9 es = of_bool (has_flag (c_flags (snd t')) FLAG_KILL_SENT)"
      "sent 9 fs = of_bool (Abandon = Abandon \<and> c_kind (snd t') = Bash \<and> c_root_pid (snd t') > 0)"
    by fastforce
  from trans [OF same [symmetric] part] have "t' = t" by (simp only: option.inject prod.inject)
  then have "sent 15 es = 1" "sent 9 es = 1" "sent 9 fs = 1" using e(3-5) by (simp_all add: f has_flag_def)
  with run e(1,2) show ?thesis unfolding append.simps by blast
qed

text \<open>
  C21. A release returns exactly the cell's charge to the counter and closes each descriptor the cell
  held once and no other.  It leaves a vacant cell in which every field is reset and which keeps
  only its kind: no descriptor, handle, process or status, no flag, no identifier, time or count.
\<close>

theorem release_returns_everything:
  assumes "release_cell (rt, c) w = Some ((rt', d), w')" and "accounts others (rt, c)"
  shows "\<exists>es. emits w w' es \<and> (\<forall>fd. fd_net es fd = - int (count_list (held c) fd)) \<and>
    unat (rt_scratch_current rt') = unat (rt_scratch_current rt) - charge c \<and>
    c_state d = Vacant \<and> c_kind d = c_kind c \<and> c_flags d = 0 \<and> \<not> c_root_reaped d \<and> \<not> c_terminal_seen d \<and>
    c_spool_a d = -1 \<and> c_spool_b d = -1 \<and> c_pipe_a d = -1 \<and> c_pipe_b d = -1 \<and> c_easy d = 0 \<and>
    c_root_pid d = 0 \<and> c_process_group d = 0 \<and> c_wait_status d = 0 \<and> c_attempt_id d = 0 \<and> c_operation_id d = 0 \<and>
    c_started_ns d = 0 \<and> c_completed_ns d = 0 \<and> c_deadline_ns d = 0 \<and> c_grace_deadline_ns d = 0 \<and>
    c_bytes_a d = 0 \<and> c_bytes_b d = 0 \<and> c_callbacks d = 0"
proof -
  from runsD [OF runs_release_closes assms(1)] obtain es where
    es: "emits w w' es" "released (rt, c) (rt', d)" "\<forall>fd. fd_net es fd = - int (count_list (held c) fd)" by auto
  then have "d = vacate c" by (simp add: released_def)
  then show ?thesis
    using es released_returns [OF es(2) assms(2)] by (intro exI [of _ es]) (simp add: vacate_def)
qed

lemma release_returns_everything_witness:
  "\<exists>rt' d w'. release_cell (sample_runtime, sample_cell) (boot [ok 0, ok 0, ok 0]) = Some ((rt', d), w') \<and>
    unat (rt_scratch_current rt') = 0 \<and> c_state d = Vacant \<and> c_flags d = 0 \<and> c_spool_a d = -1"
proof -
  have a: "accounts 0 (sample_runtime, sample_cell)"
    by (simp add: accounts_def sample_runtime_def sample_cell_def charge_def word_le_nat_alt)
  obtain rt' d w' where run: "release_cell (sample_runtime, sample_cell) (boot [ok 0, ok 0, ok 0]) = Some ((rt', d), w')"
    by (simp add: release_cell_def close_fd_if_def cell_bytes_def boot_def sample_runtime_def sample_cell_def)
  from release_returns_everything [OF run a] run show ?thesis
    by (fastforce simp: sample_runtime_def sample_cell_def charge_def)
qed

text \<open>
  C24. The transport's write callback takes all of a transfer or none of it.  When it takes it, the
  bytes written to the spool are exactly the transfer and the cell is charged for them; when it
  refuses, the cell is marked with the reason and its whole charge is given up.
\<close>

theorem model_write_all_or_nothing:
  assumes "model_write bytes s w = Some ((n, t), w')"
  shows "\<exists>es. emits w w' es \<and> transferred bytes s n t es"
  using assms by (elim runsD [OF runs_model_write_transferred]) auto

lemma model_write_all_or_nothing_witness:
  "\<exists>t w' es. model_write [65] (sample_runtime, sample_cell) (boot [ok_out 0 [0, 6], ok 1, ok_out 0 [0, 7], ok_out 0 [0, 8]])
      = Some ((1, t), w') \<and> transferred [65] (sample_runtime, sample_cell) 1 t es \<and> c_bytes_a (snd t) = 3"
proof -
  obtain t w' where run: "model_write [65] (sample_runtime, sample_cell)
      (boot [ok_out 0 [0, 6], ok 1, ok_out 0 [0, 7], ok_out 0 [0, 8]]) = Some ((1, t), w')" and b: "c_bytes_a (snd t) = 3"
    by (simp add: model_write_def charge_scratch_def write_all_def reporting_def write_loop.simps now_ns_def
        no_error_or_eintr_def cell_bytes_def boot_def out_def sample_runtime_def sample_cell_def word_less_nat_alt)
  from model_write_all_or_nothing [OF run] run b show ?thesis by blast
qed

text \<open>
  C26. Once the root of a shell is reaped and the grace period for its pipes is over, and no
  cancellation is still to come, because SIGTERM was sent or the shell has no deadline, the next
  check ends the shell, whatever descendants still hold the pipes: it is terminal, both pipes are
  closed, and the expiry is flagged if a pipe was still open.  Without the last condition this is
  false: \<open>late_deadline_replaces_pipe_grace\<close>.
\<close>

theorem pipe_grace_ends_shell:
  assumes "bash_terminal (rt, c) w = Some ((terminal, rt', d), w')" and "c_root_reaped c"
    and "c_grace_deadline_ns c \<noteq> 0" and "has_flag (c_flags c) FLAG_TERM_SENT \<or> c_deadline_ns c = 0"
    and "now_ns w = Some (at, w1)" and "c_grace_deadline_ns c \<le> at"
  shows "terminal \<and> c_pipe_a d < 0 \<and> c_pipe_b d < 0 \<and>
    has_flag (c_flags d) FLAG_PIPE_GRACE_EXPIRED = (has_flag (c_flags c) FLAG_PIPE_GRACE_EXPIRED \<or> has_pipe c)"
proof -
  have 1: "term_due at (rt, c) w1 = Some ((rt, c), w1)" using assms(4) by (auto simp: term_due_def)
  have 2: "kill_due at (rt, c) w1 = Some ((rt, c), w1)" using assms(2) by (simp add: kill_due_def)
  have 3: "reap_root at (rt, c) w1 = Some ((rt, c), w1)" using assms(2) by (simp add: reap_root_def)
  from assms(1) have e: "expire_pipes at (rt, c) w1 = Some ((rt', d), w')"
    and t: "terminal \<longleftrightarrow> c_root_reaped d \<and> c_pipe_a d < 0 \<and> c_pipe_b d < 0"
    by (auto simp: bash_terminal_def assms(5) 1 2 3)
  show ?thesis
  proof (cases "has_pipe c")
    case True
    with e assms(2,3,6) obtain x y w2 where p: "close_pipe True c w1 = Some (x, w2)" "close_pipe False x w2 = Some (y, w')"
      and d: "d = set_flag 16 y" by (auto simp: expire_pipes_def)
    from p have "c_root_reaped y" "c_pipe_a y < 0" "c_pipe_b y < 0" "c_flags y = c_flags c"
      using assms(2) by (auto simp: close_pipe_def pipe_of_def drop_pipe_def split: if_splits)
    with t show ?thesis by (simp add: d True)
  next
    case False
    with e have "d = c" by (simp add: expire_pipes_def)
    with t False assms(2) show ?thesis by (simp add: has_pipe_def)
  qed
qed

lemma pipe_grace_ends_shell_witness:
  "\<exists>rt' d w'. bash_terminal (sample_runtime, sample_cell\<lparr>c_root_reaped := True, c_grace_deadline_ns := 4, c_deadline_ns := 0\<rparr>)
      (boot [ok_out 0 [0, 6], ok 0]) = Some ((True, rt', d), w') \<and> c_pipe_a d < 0"
proof -
  let ?c = "sample_cell\<lparr>c_root_reaped := True, c_grace_deadline_ns := 4, c_deadline_ns := 0\<rparr>"
  let ?w = "boot [ok_out 0 [0, 6], ok 0]"
  obtain rt' d w' where run: "bash_terminal (sample_runtime, ?c) ?w = Some ((True, rt', d), w')"
    by (simp cong: bind_option_cong_code add: bash_terminal_def now_ns_def term_due_def kill_due_def reap_root_def expire_pipes_def close_pipe_def
        pipe_of_def drop_pipe_def has_pipe_def set_flag_def has_flag_def boot_def out_def sample_runtime_def
        sample_cell_def word_le_nat_alt)
  obtain w1 where now: "now_ns ?w = Some (6, w1)" by (simp add: now_ns_def boot_def out_def)
  have "terminal \<and> c_pipe_a d < 0" if "terminal" for terminal
    using pipe_grace_ends_shell [OF run _ _ _ now] that by (simp add: sample_cell_def word_le_nat_alt)
  with run show ?thesis by blast
qed

text \<open>
  A cancellation deadline that passes after the root was reaped is still acted on: the group of
  the dead root is signalled, the cell is marked cancelled, and the grace period for its pipes is
  replaced by the one for the signal, so the shell that was due to end does not.
\<close>

lemma late_deadline_replaces_pipe_grace:
  "\<exists>rt' d w'. bash_terminal (sample_runtime, sample_cell\<lparr>c_root_reaped := True, c_grace_deadline_ns := 4\<rparr>)
      (boot [ok_out 0 [0, 6], ok 0]) = Some ((False, rt', d), w') \<and>
    has_flag (c_flags d) FLAG_CANCELLED \<and> c_grace_deadline_ns d = 16 \<and> c_pipe_a d = 9 \<and>
    map fst (w_trace w') = [Env Now, Proc (Kill (-50) 15)]"
  by (simp cong: bind_option_cong_code add: bash_terminal_def now_ns_def term_due_def kill_due_def reap_root_def expire_pipes_def close_pipe_def
      pipe_of_def drop_pipe_def has_pipe_def set_flag_def has_flag_def boot_def out_def sample_runtime_def
      sample_cell_def word_le_nat_alt)

end
