(* ===== verification/Custody_Store.thy ===== *)
theory Custody_Store
  imports Custody_Cells
begin

text \<open>
  The durable side of \<open>integrated_capacity.c\<close>: admitting an attempt, looking for the
  terminal event in a model's spool, importing a spool into the database, classifying and
  settling a sealed attempt.  A statement is one call \<open>Sql\<close> whose reply is 0 for success;
  a prepared statement's preparation and its step, with the values bound to it, are calls of
  their own.
\<close>

section \<open>Statements and admission\<close>

abbreviation (input) SQLITE_ROW :: int where "SQLITE_ROW \<equiv> 100"
abbreviation (input) SQLITE_DONE :: int where "SQLITE_DONE \<equiv> 101"

definition sql_exec :: "string \<Rightarrow> world \<Rightarrow> (int \<times> world) option" where
  "sql_exec statement w = do {
     (r, w) \<leftarrow> sys (Env (Sql statement)) w;
     Some (if r_ret r \<noteq> 0 then -1 else 0, w)
   }"

text \<open>The text \<open>admit\<close> prints; numbers of 32 bits leave it far below the 256 bytes of its buffer.\<close>

definition kind_number :: "custody_kind \<Rightarrow> int" where
  "kind_number k = (case k of Model \<Rightarrow> 1 | Bash \<Rightarrow> 2 | Patch \<Rightarrow> 3)"

definition admission :: "int \<Rightarrow> custody_kind \<Rightarrow> string" where
  "admission ident k = ''INSERT INTO operation(id,kind) VALUES('' @ print_int ident @ '','' @ print_int (kind_number k) @
     '');INSERT INTO attempt(id,operation_id) VALUES('' @ print_int ident @ '','' @ print_int ident @ '');''"

lemma admission_fits: "\<bar>ident\<bar> < 2 ^ 32 \<Longrightarrow> length (admission ident k) < 256"
proof -
  assume "\<bar>ident\<bar> < 2 ^ 32"
  from length_print_int [OF this] length_print_int [of "kind_number k"] show ?thesis
    by (cases k) (simp_all add: admission_def kind_number_def)
qed

lemma admission_not_commit [simp]: "admission ident k \<noteq> ''COMMIT''"
  by (simp add: admission_def)

definition admit :: "int \<Rightarrow> cell \<Rightarrow> world \<Rightarrow> ((int \<times> cell) \<times> world) option" where
  "admit ident c w =
     (if c_state c \<noteq> Vacant then Some ((-1, c), w)
      else do {
        let c = c\<lparr>c_state := Reserved\<rparr>;
        (b, w) \<leftarrow> sql_exec ''BEGIN IMMEDIATE'' w;
        if b \<noteq> 0 then Some ((-1, c\<lparr>c_state := Vacant\<rparr>), w)
        else do {
          (i, w) \<leftarrow> sql_exec (admission ident (c_kind c)) w;
          if i \<noteq> 0 then do {
            (_, w) \<leftarrow> sql_exec ''ROLLBACK'' w;
            Some ((-1, c\<lparr>c_state := Vacant\<rparr>), w)
          }
          else do {
            (m, w) \<leftarrow> sql_exec ''COMMIT'' w;
            if m \<noteq> 0 then Some ((-1, c\<lparr>c_state := Vacant\<rparr>), w)
            else Some ((0, c\<lparr>c_attempt_id := word_of_int ident, c_operation_id := word_of_int ident,
              c_state := Dispatchable\<rparr>), w)
          }
        }
      })"

section \<open>The terminal event\<close>

text \<open>
  One round of the search: \<open>window\<close> is the carried suffix followed by what was read.  The
  next carry is the longest suffix that may begin the needle.
\<close>

fun occurs :: "byte list \<Rightarrow> byte list \<Rightarrow> bool" where
  "occurs needle [] \<longleftrightarrow> needle = []"
| "occurs needle (b # bs) \<longleftrightarrow> take (length needle) (b # bs) = needle \<or> occurs needle bs"

definition window_carry :: "byte list \<Rightarrow> byte list \<Rightarrow> byte list" where
  "window_carry needle window =
     (let carry = (if length window < length needle - 1 then length window else length needle - 1)
      in drop (length window - carry) window)"

definition window_hit :: "byte list \<Rightarrow> byte list \<Rightarrow> bool" where
  "window_hit needle window \<longleftrightarrow> length needle \<le> length window \<and> occurs needle window"

text \<open>The loop over reads; \<open>cap\<close> is the window's size.\<close>

function search_loop :: "byte list \<Rightarrow> nat \<Rightarrow> int \<Rightarrow> byte list \<Rightarrow> world \<Rightarrow> (bool \<times> world) option" where
  "search_loop needle cap fd carry w =
     (case sys (Io (Read fd (cap - length carry))) w of
        None \<Rightarrow> None
      | Some (r, w') \<Rightarrow>
          if r_ret r < 0 then
            (if r_errno r = EINTR then search_loop needle cap fd carry w' else Some (False, w'))
          else if window_hit needle (carry @ r_data r) then Some (True, w')
          else if r_ret r = 0 then Some (False, w')
          else search_loop needle cap fd (window_carry needle (carry @ r_data r)) w')"
  by pat_completeness auto
termination
  by (relation "measure (\<lambda>(_, _, _, _, w). length (w_script w))") (auto dest: sys_shrinks)

declare search_loop.simps [simp del]

definition terminal_needle :: "byte list" where
  "terminal_needle = bytes_of ''data: {\"type\":\"response.completed\",\"response\":{\"status\":\"completed\"}}'' @ [10, 10]"

definition contains_synthetic_terminal :: "int \<Rightarrow> world \<Rightarrow> (bool \<times> world) option" where
  "contains_synthetic_terminal fd w = do {
     (r, w) \<leftarrow> sys (Io (Lseek_start fd)) w;
     if r_ret r < 0 then Some (False, w) else search_loop terminal_needle 4096 fd [] w
   }"

section \<open>Importing a spool\<close>

text \<open>The offset of a \<open>blob_write\<close> is cast to \<open>int\<close>.\<close>

function import_loop :: "int \<Rightarrow> u64 \<Rightarrow> u64 \<Rightarrow> world \<Rightarrow> (int \<times> world) option" where
  "import_loop fd len offset w =
     (if offset < len then
        (case sys (Io (Read fd (if len - offset < 4096 then unat (len - offset) else 4096))) w of
           None \<Rightarrow> None
         | Some (r, w1) \<Rightarrow>
             if r_ret r \<le> 0 then Some (-1, w1)
             else (case sys (Env (Blob_write (r_data r) (sint (ucast offset :: u32)))) w1 of
                 None \<Rightarrow> None
               | Some (b, w2) \<Rightarrow>
                   if r_ret b \<noteq> 0 then Some (-1, w2)
                   else import_loop fd len (offset + word_of_int (r_ret r)) w2))
      else Some (0, w))"
  by pat_completeness auto
termination
  by (relation "measure (\<lambda>(_, _, _, w). length (w_script w))")
    (auto dest!: sys_shrinks)

declare import_loop.simps [simp del]

definition import_part :: "u64 \<Rightarrow> int \<Rightarrow> int \<Rightarrow> u64 \<Rightarrow> world \<Rightarrow> (int \<times> world) option" where
  "import_part attempt part fd len w = do {
     (p, w) \<leftarrow> sys (Env (Sql ''prepare INSERT INTO artifact(attempt_id,part,bytes) VALUES(?1,?2,zeroblob(?3))'')) w;
     if r_ret p \<noteq> 0 then Some (-1, w)
     else do {
       (s, w) \<leftarrow> sys (Env (Sql_step [Sql_int (sint attempt), Sql_int part, Sql_int (sint len)])) w;
       (_, w) \<leftarrow> sys (Env (Sql ''finalize'')) w;
       if r_ret s \<noteq> SQLITE_DONE then Some (-1, w)
       else do {
         (row, w) \<leftarrow> sys (Env (Query ''last_insert_rowid'')) w;
         (o', w) \<leftarrow> sys (Env (Blob_open (r_ret row))) w;
         if r_ret o' \<noteq> 0 then Some (-1, w)
         else do {
           (l, w) \<leftarrow> sys (Io (Lseek_start fd)) w;
           if r_ret l < 0 then do { (_, w) \<leftarrow> sys (Env (Sql ''blob_close'')) w; Some (-1, w) }
           else do {
             (e, w) \<leftarrow> import_loop fd len 0 w;
             (c, w) \<leftarrow> sys (Env (Sql ''blob_close'')) w;
             Some (if e \<noteq> 0 then -1 else if r_ret c = 0 then 0 else -1, w)
           }
         }
       }
     }
   }"

section \<open>Classification and settlement\<close>

definition failure_flags :: byte where
  "failure_flags = FLAG_PREPARATION_FAILED OR FLAG_STORAGE_FAILURE OR FLAG_OUTPUT_LIMIT OR FLAG_TRANSPORT_FAILURE"

datatype completion_class =
    Preparation_failure
  | Local_resource_failure
  | Output_limit
  | Transport_failure
  | Bash_cancelled
  | Patch_conflict
  | Patch_indeterminate
  | Success
  | Protocol_error

definition classify :: "bool \<Rightarrow> cell \<Rightarrow> completion_class" where
  "classify valid c =
     (if has_flag (c_flags c) FLAG_PREPARATION_FAILED then Preparation_failure
      else if has_flag (c_flags c) FLAG_STORAGE_FAILURE then Local_resource_failure
      else if has_flag (c_flags c) FLAG_OUTPUT_LIMIT then Output_limit
      else if has_flag (c_flags c) FLAG_TRANSPORT_FAILURE then Transport_failure
      else if has_flag (c_flags c) FLAG_CANCELLED then Bash_cancelled
      else if c_kind c = Patch \<and> c_wait_status c = 2 then Patch_conflict
      else if c_kind c = Patch \<and> c_wait_status c \<noteq> 1 then Patch_indeterminate
      else if valid then Success else Protocol_error)"

definition class_name :: "completion_class \<Rightarrow> string" where
  "class_name k = (case k of
      Preparation_failure \<Rightarrow> ''preparation_failure''
    | Local_resource_failure \<Rightarrow> ''local_resource_failure''
    | Output_limit \<Rightarrow> ''output_limit''
    | Transport_failure \<Rightarrow> ''transport_failure''
    | Bash_cancelled \<Rightarrow> ''bash_cancelled''
    | Patch_conflict \<Rightarrow> ''patch_conflict''
    | Patch_indeterminate \<Rightarrow> ''patch_indeterminate''
    | Success \<Rightarrow> ''success''
    | Protocol_error \<Rightarrow> ''protocol_error'')"

text \<open>The two rows of a settlement: the statements, and the values bound to them.\<close>

definition completion_statement :: string where
  "completion_statement = ''INSERT INTO completion(attempt_id,class,evidence_digest) VALUES(?1,?2,?3);''"

definition completion_row :: "completion_class \<Rightarrow> cell \<Rightarrow> sql_value list" where
  "completion_row k c = [Sql_int (sint (c_attempt_id c)), Sql_text (class_name k), Sql_text ''integrated-artifact'']"

definition resolution_statement :: string where
  "resolution_statement = ''INSERT INTO resolution(operation_id,completion_attempt_id) VALUES(?1,?2)''"

definition resolution_row :: "cell \<Rightarrow> sql_value list" where
  "resolution_row c = [Sql_int (sint (c_operation_id c)), Sql_int (sint (c_attempt_id c))]"

definition imports_content :: "bool \<Rightarrow> cell \<Rightarrow> bool" where
  "imports_content valid c \<longleftrightarrow> valid \<or> c_kind c = Bash \<and> has_flag (c_flags c) FLAG_CANCELLED \<and>
     \<not> has_flag (c_flags c) (FLAG_STORAGE_FAILURE OR FLAG_OUTPUT_LIMIT)"

text \<open>\<open>valid\<close>: no failure flag and, for a model, the terminal event in its spool.\<close>

definition validate :: "custody \<Rightarrow> world \<Rightarrow> ((bool \<times> custody) \<times> world) option" where
  "validate s w = (case s of (rt, c) \<Rightarrow> do {
     let active = rt_validator_active rt + 1;
     let rt = rt\<lparr>rt_validator_active := active, rt_validator_max := max (rt_validator_max rt) active\<rparr>;
     (valid, w) \<leftarrow>
       (if has_flag (c_flags c) failure_flags then Some (False, w)
        else if c_kind c \<noteq> Model then Some (True, w)
        else contains_synthetic_terminal (c_spool_a c) w);
     Some ((valid, rt\<lparr>rt_validator_active := rt_validator_active rt - 1\<rparr>, c\<lparr>c_terminal_seen := valid\<rparr>), w)
   })"

definition rollback :: "world \<Rightarrow> (int \<times> world) option" where
  "rollback w = do {
     (a, w) \<leftarrow> sys (Env (Query ''autocommit'')) w;
     (_, w) \<leftarrow> (if r_ret a = 0 then sql_exec ''ROLLBACK'' w else Some (0, w));
     Some (-1, w)
   }"

definition import_if :: "bool \<Rightarrow> u64 \<Rightarrow> int \<Rightarrow> int \<Rightarrow> u64 \<Rightarrow> world \<Rightarrow> (int \<times> world) option" where
  "import_if wanted attempt part fd len w =
     (if wanted \<and> fd \<ge> 0 then import_part attempt part fd len w else Some (0, w))"

text \<open>A prepared insertion: preparation, then the step and the finalisation.\<close>

definition insert_row :: "string \<Rightarrow> sql_value list \<Rightarrow> world \<Rightarrow> (int \<times> world) option" where
  "insert_row statement vs w = do {
     (p, w) \<leftarrow> sys (Env (Sql (''prepare '' @ statement))) w;
     if r_ret p \<noteq> 0 then Some (-1, w)
     else do {
       (s, w) \<leftarrow> sys (Env (Sql_step vs)) w;
       (_, w) \<leftarrow> sys (Env (Sql ''finalize'')) w;
       Some (if r_ret s \<noteq> SQLITE_DONE then -1 else 0, w)
     }
   }"

definition count_bash :: "custody \<Rightarrow> runtime" where
  "count_bash s = (case s of (rt, c) \<Rightarrow>
     if c_kind c = Bash then
       rt\<lparr>rt_bash_term_sent := rt_bash_term_sent rt + of_bool (has_flag (c_flags c) FLAG_TERM_SENT),
         rt_bash_kill_sent := rt_bash_kill_sent rt + of_bool (has_flag (c_flags c) FLAG_KILL_SENT),
         rt_bash_reaped := rt_bash_reaped rt + of_bool (c_root_reaped c),
         rt_bash_pipe_grace_expired := rt_bash_pipe_grace_expired rt +
           of_bool (has_flag (c_flags c) FLAG_PIPE_GRACE_EXPIRED)\<rparr>
     else if c_kind c = Model then
       rt\<lparr>rt_max_model_callback_gap_ns := max_u64 (rt_max_model_callback_gap_ns rt) (c_grace_deadline_ns c)\<rparr>
     else rt)"

section \<open>Measured storage\<close>

text \<open>The reply of a \<open>stat\<close> stores the number of 512-byte blocks first.\<close>

definition allocated_fd_bytes :: "int \<Rightarrow> world \<Rightarrow> (u64 \<times> world) option" where
  "allocated_fd_bytes fd w =
     (if fd \<ge> 0 then do {
        (r, w) \<leftarrow> sys (Io (Fstat fd)) w;
        Some (if r_ret r = 0 then word_of_int (out 0 r) * 512 else 0, w)
      }
      else Some (0, w))"

fun live_spool_allocated :: "cell list \<Rightarrow> world \<Rightarrow> (u64 \<times> world) option" where
  "live_spool_allocated [] w = Some (0, w)"
| "live_spool_allocated (c # cells) w = do {
     (a, w) \<leftarrow> allocated_fd_bytes (c_spool_a c) w;
     (b, w) \<leftarrow> allocated_fd_bytes (c_spool_b c) w;
     (rest, w) \<leftarrow> live_spool_allocated cells w;
     Some (a + b + rest, w)
   }"

definition allocated_path_bytes :: "byte list \<Rightarrow> world \<Rightarrow> (u64 \<times> world) option" where
  "allocated_path_bytes path w = do {
     (r, w) \<leftarrow> sys (Io (Stat path)) w;
     Some (if r_ret r = 0 then word_of_int (out 0 r) * 512 else 0, w)
   }"

definition companion_allocated :: "byte list \<Rightarrow> byte list \<Rightarrow> world \<Rightarrow> (u64 \<times> world) option" where
  "companion_allocated path suffix w =
     (if length (path @ suffix) < 1024 then allocated_path_bytes (path @ suffix) w else Some (0, w))"

definition sqlite_storage_allocated :: "byte list \<Rightarrow> world \<Rightarrow> (u64 \<times> world) option" where
  "sqlite_storage_allocated path w = do {
     (a, w) \<leftarrow> allocated_path_bytes path w;
     (b, w) \<leftarrow> companion_allocated path (bytes_of ''-wal'') w;
     (c, w) \<leftarrow> companion_allocated path (bytes_of ''-shm'') w;
     Some (a + b + c, w)
   }"

text \<open>\<open>*max_overlap\<close> and \<open>*max_settle_ns\<close>, kept by the owner across settlements.\<close>

record peaks =
  pk_overlap :: u64
  pk_settle_ns :: u64

definition measure_storage :: "cell list \<Rightarrow> byte list \<Rightarrow> peaks \<Rightarrow> custody \<Rightarrow> world \<Rightarrow> ((peaks \<times> runtime) \<times> world) option" where
  "measure_storage cells path pk s w = (case s of (rt, c) \<Rightarrow> do {
     (a, w) \<leftarrow> allocated_fd_bytes (c_spool_a c) w;
     (b, w) \<leftarrow> allocated_fd_bytes (c_spool_b c) w;
     (live, w) \<leftarrow> live_spool_allocated cells w;
     (storage, w) \<leftarrow> sqlite_storage_allocated path w;
     Some ((pk\<lparr>pk_overlap := (if a + b > pk_overlap pk then a + b else pk_overlap pk)\<rparr>,
       rt\<lparr>rt_max_live_spool_allocated := max_u64 (rt_max_live_spool_allocated rt) live,
         rt_max_storage_allocated := max_u64 (rt_max_storage_allocated rt) (live + storage)\<rparr>), w)
   })"

section \<open>Settlement\<close>

text \<open>
  The part of \<open>settle\<close> inside the transaction, up to the label \<open>rollback\<close>: 0 after COMMIT,
  nonzero for every \<open>goto rollback\<close>.
\<close>

definition settle_transaction ::
    "cell list \<Rightarrow> byte list \<Rightarrow> bool \<Rightarrow> peaks \<Rightarrow> custody \<Rightarrow> world \<Rightarrow> ((int \<times> peaks \<times> runtime) \<times> world) option" where
  "settle_transaction cells path valid pk s w = (case s of (rt, c) \<Rightarrow> do {
     (a, w) \<leftarrow> import_if (imports_content valid c) (c_attempt_id c) 0 (c_spool_a c) (c_bytes_a c) w;
     if a \<noteq> 0 then Some ((-1, pk, rt), w)
     else do {
       (b, w) \<leftarrow> import_if (imports_content valid c) (c_attempt_id c) 1 (c_spool_b c) (c_bytes_b c) w;
       if b \<noteq> 0 then Some ((-1, pk, rt), w)
       else do {
         ((pk, rt), w) \<leftarrow> measure_storage cells path pk (rt, c) w;
         (k, w) \<leftarrow> insert_row completion_statement (completion_row (classify valid c) c) w;
         if k \<noteq> 0 then Some ((-1, pk, rt), w)
         else do {
           (k, w) \<leftarrow> insert_row resolution_statement (resolution_row c) w;
           if k \<noteq> 0 then Some ((-1, pk, rt), w)
           else do {
             (m, w) \<leftarrow> sql_exec ''COMMIT'' w;
             Some ((m, pk, rt), w)
           }
         }
       }
     }
   })"

definition settle ::
    "cell list \<Rightarrow> byte list \<Rightarrow> peaks \<Rightarrow> custody \<Rightarrow> world \<Rightarrow> ((int \<times> peaks \<times> custody) \<times> world) option" where
  "settle cells path pk s w = do {
     ((valid, rt, c), w) \<leftarrow> validate s w;
     (started, w) \<leftarrow> now_ns w;
     (b, w) \<leftarrow> sql_exec ''BEGIN IMMEDIATE'' w;
     if b \<noteq> 0 then Some ((-1, pk, rt, c), w)
     else do {
       ((e, pk, rt), w) \<leftarrow> settle_transaction cells path valid pk (rt, c) w;
       if e \<noteq> 0 then do { (e, w) \<leftarrow> rollback w; Some ((e, pk, rt, c), w) }
       else do {
         (finished, w) \<leftarrow> now_ns w;
         Some ((0, pk\<lparr>pk_settle_ns := (if finished - started > pk_settle_ns pk then finished - started
             else pk_settle_ns pk)\<rparr>, count_bash (rt, c), c), w)
       }
     }
   }"

end
