(* ===== verification/Custody_Store_Laws.thy ===== *)
theory Custody_Store_Laws
  imports Custody_Signals Custody_Store "HOL-Library.Sublist"
begin

text \<open>
  What the durable side guarantees: the windowed search finds the terminal event exactly when
  the spool holds it, however the reads cut it; an admission and a settlement commit exactly
  when they report success; a completion is classified as a success only without any failure.
\<close>

section \<open>The search finds exactly the occurrences\<close>

lemma occurs_sublist: "needle \<noteq> [] \<Longrightarrow> occurs needle bs \<longleftrightarrow> sublist needle bs"
proof (induction bs)
  case Nil
  then show ?case by simp
next
  case (Cons b bs)
  have "take (length needle) (b # bs) = needle \<longleftrightarrow> prefix needle (b # bs)"
    by (metis append_eq_conv_conj prefix_def take_is_prefix)
  with Cons show ?case by (simp add: sublist_Cons_right)
qed

lemma window_hit_sublist: "needle \<noteq> [] \<Longrightarrow> window_hit needle bs \<longleftrightarrow> sublist needle bs"
  by (auto simp: window_hit_def occurs_sublist dest: sublist_length_le)

definition carried :: "byte list \<Rightarrow> byte list \<Rightarrow> byte list \<Rightarrow> bool" where
  "carried needle seen carry \<longleftrightarrow> suffix carry seen \<and> \<not> sublist needle seen \<and>
     length carry = min (length seen) (length needle - 1)"

lemma sublist_carried:
  assumes "carried needle seen carry" and "needle \<noteq> []"
  shows "sublist needle (seen @ bs) \<longleftrightarrow> sublist needle (carry @ bs)"
proof
  assume "sublist needle (carry @ bs)"
  moreover have "sublist (carry @ bs) (seen @ bs)"
    using assms(1) by (auto simp: carried_def suffix_def)
  ultimately show "sublist needle (seen @ bs)" by (rule sublist_order.order.trans)
next
  assume "sublist needle (seen @ bs)"
  then consider "sublist needle bs" | xs ys where "needle = xs @ ys" "suffix xs seen" "prefix ys bs"
    using assms(1) by (auto simp: sublist_append carried_def)
  then show "sublist needle (carry @ bs)"
  proof cases
    case 1
    then show ?thesis by (simp add: sublist_append)
  next
    case 2
    have "ys \<noteq> []" using 2 assms(1) by (auto simp: carried_def)
    then have "length xs \<le> length needle - 1" using 2(1) by (cases ys) auto
    moreover have "length xs \<le> length seen" using 2(2) by (rule suffix_length_le)
    ultimately have "length xs \<le> length carry" using assms(1) by (simp add: carried_def)
    moreover have "suffix carry seen" using assms(1) by (simp add: carried_def)
    ultimately have "suffix xs carry" using 2(2) by (metis suffix_length_suffix)
    with 2 show ?thesis by (auto simp: sublist_append)
  qed
qed

lemma carried_step:
  assumes "carried needle seen carry" and "needle \<noteq> []" and "\<not> window_hit needle (carry @ bs)"
  shows "carried needle (seen @ bs) (window_carry needle (carry @ bs))"
proof -
  let ?c = "window_carry needle (carry @ bs)"
  have "suffix ?c (carry @ bs)" unfolding window_carry_def Let_def by (rule suffix_drop)
  moreover have "suffix (carry @ bs) (seen @ bs)" using assms(1) by (auto simp: carried_def suffix_def)
  ultimately have "suffix ?c (seen @ bs)" by (rule suffix_order.trans)
  moreover have "\<not> sublist needle (seen @ bs)"
    using assms sublist_carried [OF assms(1,2)] by (simp add: window_hit_sublist)
  moreover have "length ?c = min (length (seen @ bs)) (length needle - 1)"
    using assms(1) by (auto simp: carried_def window_carry_def Let_def)
  ultimately show ?thesis by (simp add: carried_def)
qed

definition searched :: "byte list \<Rightarrow> int \<Rightarrow> byte list \<Rightarrow> bool \<Rightarrow> (call \<times> reply) list \<Rightarrow> bool" where
  "searched needle fd seen found es \<longleftrightarrow> reads_only fd es \<and>
     (found \<longrightarrow> sublist needle (seen @ file_bytes fd es)) \<and>
     (\<not> found \<longrightarrow> \<not> sublist needle (seen @ file_bytes fd es) \<and>
       (at_eof fd es \<or> (\<exists>xs n r. es = xs @ [(Io (Read fd n), r)] \<and> r_ret r < 0)))"

lemma searched_Cons:
  assumes "searched needle fd (seen @ file_bytes fd [(Io (Read fd n), r)]) found es"
  shows "searched needle fd seen found ((Io (Read fd n), r) # es)"
  using assms unfolding searched_def reads_only_def
  by (auto intro: at_eof_Cons)

lemma runs_search_loop:
  assumes "needle \<noteq> []" and "length needle \<le> cap" and "carried needle seen carry"
  shows "runs (search_loop needle cap fd carry) (searched needle fd seen)"
proof (rule runsI)
  fix w x w'
  assume "search_loop needle cap fd carry w = Some (x, w')"
  with assms show "\<exists>es. emits w w' es \<and> searched needle fd seen x es"
  proof (induction needle cap fd carry w arbitrary: seen rule: search_loop.induct)
    case (1 needle cap fd carry w)
    note run = "1.prems"(4) and car = "1.prems"(3)
    let ?n = "cap - length carry"
    from run obtain r w1 where s: "sys (Io (Read fd ?n)) w = Some (r, w1)"
      by (auto simp: search_loop.simps [of needle cap fd carry w] split: option.splits)
    let ?e = "(Io (Read fd ?n), r)"
    from s have d: "documented ?e" and e: "emits w w1 [?e]" by (simp_all add: sys_emits)
    have "length carry < cap" using "1.prems"(1,2) car by (cases needle) (auto simp: carried_def)
    then have pos: "0 < ?n" by simp
    have step: "\<exists>es. emits w w' es \<and> searched needle fd seen x es"
      if "emits w1 w' es" "searched needle fd (seen @ file_bytes fd [?e]) x es" for es
      using emits_trans [OF e that(1)] searched_Cons [OF that(2)] by auto
    consider (again) "r_ret r < 0" "r_errno r = EINTR" | (error) "r_ret r < 0" "r_errno r \<noteq> EINTR"
      | (hit) "0 \<le> r_ret r" "window_hit needle (carry @ r_data r)"
      | (eof) "r_ret r = 0" "\<not> window_hit needle (carry @ r_data r)"
      | (more) "0 < r_ret r" "\<not> window_hit needle (carry @ r_data r)" by linarith
    then show ?case
    proof cases
      case again
      with run s have "search_loop needle cap fd carry w1 = Some (x, w')"
        by (simp add: search_loop.simps [of needle cap fd carry w])
      from "1.IH"(1) [OF s refl again "1.prems"(1,2) car this] step again show ?thesis by auto
    next
      case error
      with run s have "x = False" "w' = w1" by (simp_all add: search_loop.simps [of needle cap fd carry w])
      with error e car show ?thesis
        by (intro exI [of _ "[?e]"]) (auto simp: searched_def reads_only_def carried_def)
    next
      case hit
      with run s have x: "x = True" "w' = w1" by (simp_all add: search_loop.simps [of needle cap fd carry w])
      have b: "file_bytes fd [?e] = r_data r" using hit(1) d by (auto simp: fails_def)
      have "sublist needle (seen @ r_data r)"
        using hit(2) sublist_carried [OF car "1.prems"(1), of "r_data r"]
        window_hit_sublist [OF "1.prems"(1), of "carry @ r_data r"] by blast
      with e x show ?thesis
        by (intro exI [of _ "[?e]"]) (simp add: searched_def reads_only_def b del: file_bytes.simps)
    next
      case eof
      with run s have "x = False" "w' = w1" by (simp_all add: search_loop.simps [of needle cap fd carry w])
      with eof e car pos show ?thesis
        by (intro exI [of _ "[?e]"]) (auto simp: searched_def reads_only_def carried_def at_eof_def)
    next
      case more
      let ?c = "window_carry needle (carry @ r_data r)"
      from more run s have "search_loop needle cap fd ?c w1 = Some (x, w')"
        by (simp add: search_loop.simps [of needle cap fd carry w])
      moreover have "carried needle (seen @ r_data r) ?c"
        using carried_step [OF car "1.prems"(1) more(2)] .
      moreover have "\<not> r_ret r < 0" "r_ret r \<noteq> 0" using more(1) by simp_all
      ultimately have "\<exists>es. emits w1 w' es \<and> searched needle fd (seen @ r_data r) x es"
        using "1.IH"(2) [OF s refl _ more(2) _ "1.prems"(1,2)] by blast
      then obtain es where es: "emits w1 w' es" "searched needle fd (seen @ r_data r) x es" by blast
      have "file_bytes fd [?e] = r_data r" using more(1) by simp
      with step [OF es(1)] es(2) show ?thesis by simp
    qed
  qed
qed

lemma runs_contains_terminal:
  "runs (contains_synthetic_terminal fd) (\<lambda>found es. \<exists>l rs. es = (Io (Lseek_start fd), l) # rs \<and>
     (r_ret l < 0 \<and> \<not> found \<and> rs = [] \<or> 0 \<le> r_ret l \<and> searched terminal_needle fd [] found rs))"
proof -
  have n: "terminal_needle \<noteq> []" "length terminal_needle \<le> 4096"
    by (simp_all add: terminal_needle_def bytes_of_def)
  have c: "carried terminal_needle [] []" using n(1) by (simp add: carried_def)
  show ?thesis
    unfolding contains_synthetic_terminal_def
    by (intro runs_weaken [OF runs_search_loop [OF n c]] runs_rules) auto
qed

section \<open>Transactions\<close>

definition commits :: "(call \<times> reply) list \<Rightarrow> nat" where
  "commits es = length (filter (\<lambda>e. fst e = Env (Sql ''COMMIT'') \<and> r_ret (snd e) = 0) es)"

lemma commits_simps [simp]:
  "commits [] = 0" "commits (es @ fs) = commits es + commits fs"
  "commits (e # es) = of_bool (fst e = Env (Sql ''COMMIT'') \<and> r_ret (snd e) = 0) + commits es"
  by (simp_all add: commits_def)

text \<open>A part of a transaction commits nothing, and opens and closes no descriptor.\<close>

fun inert_event :: "call \<times> reply \<Rightarrow> bool" where
  "inert_event (Fd _, r) = False"
| "inert_event (Env (Sql s), r) = (s = ''COMMIT'' \<longrightarrow> r_ret r \<noteq> 0)"
| "inert_event _ = True"

definition inert :: "(call \<times> reply) list \<Rightarrow> bool" where
  "inert es \<longleftrightarrow> list_all inert_event es"

lemma inert_simps [simp]:
  "inert []" "inert (e # es) \<longleftrightarrow> inert_event e \<and> inert es" "inert (es @ fs) \<longleftrightarrow> inert es \<and> inert fs"
  by (simp_all add: inert_def)

lemma inert_commits: "inert es \<Longrightarrow> commits es = 0"
proof (induction es)
  case (Cons e es)
  then show ?case by (cases e rule: inert_event.cases) auto
qed simp

lemma inert_fds: "inert es \<Longrightarrow> fd_net es x = 0"
proof (induction es)
  case (Cons e es)
  then show ?case by (cases e rule: inert_event.cases) auto
qed simp

abbreviation uncommitted :: "'a \<Rightarrow> (call \<times> reply) list \<Rightarrow> bool" where
  "uncommitted \<equiv> (\<lambda>_ es. inert es)"

lemma inert_reads: "reads_only fd es \<Longrightarrow> inert es"
  by (induction es) (auto simp: reads_only_def)

lemma uncommitted_search: "runs (contains_synthetic_terminal fd) uncommitted"
  by (rule runs_weaken [OF runs_contains_terminal]) (auto simp: searched_def dest: inert_reads)

lemma uncommitted_import_loop: "runs (import_loop fd len offset) uncommitted"
proof (rule runsI)
  fix w x w'
  assume "import_loop fd len offset w = Some (x, w')"
  then show "\<exists>es. emits w w' es \<and> inert es"
  proof (induction fd len offset w rule: import_loop.induct)
    case (1 fd len offset w)
    note simps = import_loop.simps [of fd len offset w]
    show ?case
    proof (cases "offset < len")
      case False
      with "1.prems" show ?thesis by (simp add: simps) (metis inert_simps(1) emits_refl)
    next
      case less: True
      let ?c = "Io (Read fd (if len - offset < 4096 then unat (len - offset) else 4096))"
      let ?b = "\<lambda>r. Env (Blob_write (r_data r) (sint (ucast offset :: u32)))"
      from "1.prems" less obtain r w1 where r: "sys ?c w = Some (r, w1)"
        by (auto simp: simps split: option.splits)
      then have e: "emits w w1 [(?c, r)]" by (simp add: sys_emits)
      show ?thesis
      proof (cases "r_ret r \<le> 0")
        case True
        with "1.prems" less r e show ?thesis by (intro exI [of _ "[(?c, r)]"]) (simp add: simps)
      next
        case got: False
        with "1.prems" less r obtain b w2 where b: "sys (?b r) w1 = Some (b, w2)"
          by (auto simp: simps split: option.splits)
        then have "emits w1 w2 [(?b r, b)]" by (simp add: sys_emits)
        from emits_trans [OF e this] have f: "emits w w2 [(?c, r), (?b r, b)]" by simp
        show ?thesis
        proof (cases "r_ret b \<noteq> 0")
          case True
          with "1.prems" less r got b f show ?thesis by (intro exI) (auto simp: simps)
        next
          case False
          with "1.prems" less r got b have "import_loop fd len (offset + word_of_int (r_ret r)) w2 = Some (x, w')"
            by (simp add: simps)
          with "1.IH" less r got b False obtain es where "emits w2 w' es" "inert es" by blast
          with emits_trans [OF f] show ?thesis by fastforce
        qed
      qed
    qed
  qed
qed

lemma uncommitted_import_part: "runs (import_part attempt part fd len) uncommitted"
  unfolding import_part_def
  by (intro runs_bind [OF uncommitted_import_loop] runs_rules) simp_all

lemma uncommitted_import_if: "runs (import_if wanted attempt part fd len) uncommitted"
  unfolding import_if_def by (intro runs_weaken [OF uncommitted_import_part] runs_rules) simp_all

lemma uncommitted_now_ns: "runs now_ns uncommitted"
  unfolding now_ns_def by (intro runs_rules) simp

lemma uncommitted_fd_bytes: "runs (allocated_fd_bytes fd) uncommitted"
  unfolding allocated_fd_bytes_def by (intro runs_rules) simp_all

lemma uncommitted_live: "runs (live_spool_allocated cells) uncommitted"
proof (induction cells)
  case Nil
  have "runs (\<lambda>w. Some (0 :: u64, w)) uncommitted" by (intro runs_rules) simp
  then show ?case by simp
next
  case (Cons c cells)
  have "runs (\<lambda>w. live_spool_allocated (c # cells) w) uncommitted"
    unfolding live_spool_allocated.simps
    by (intro runs_bind [OF uncommitted_fd_bytes] runs_bind [OF Cons] runs_rules) simp
  then show ?case .
qed

lemma uncommitted_path: "runs (allocated_path_bytes path) uncommitted"
  unfolding allocated_path_bytes_def by (intro runs_rules) simp

lemma uncommitted_companion: "runs (companion_allocated path ending) uncommitted"
  unfolding companion_allocated_def by (intro runs_weaken [OF uncommitted_path] runs_rules) simp_all

lemma uncommitted_storage: "runs (sqlite_storage_allocated path) uncommitted"
  unfolding sqlite_storage_allocated_def
  by (intro runs_bind [OF uncommitted_path] runs_bind [OF uncommitted_companion] runs_rules) simp

lemma uncommitted_measure: "runs (measure_storage cells path pk s) uncommitted"
proof -
  obtain rt c where s: "s = (rt, c)" by (cases s)
  show ?thesis
    unfolding measure_storage_def s prod.case
    by (intro runs_bind [OF uncommitted_fd_bytes] runs_bind [OF uncommitted_live]
        runs_bind [OF uncommitted_storage] runs_rules) simp
qed

lemmas uncommitted_parts = uncommitted_import_if uncommitted_measure

text \<open>A row inserted: prepared and stepped with its values, without an error.\<close>

definition row_inserted :: "string \<Rightarrow> sql_value list \<Rightarrow> (call \<times> reply) list \<Rightarrow> bool" where
  "row_inserted statement vs es \<longleftrightarrow> (\<exists>p s f. es = [(Env (Sql (''prepare '' @ statement)), p), (Env (Sql_step vs), s),
     (Env (Sql ''finalize''), f)] \<and> r_ret p = 0 \<and> r_ret s = SQLITE_DONE)"

lemma runs_insert_row:
  "runs (insert_row statement vs) (\<lambda>x es. inert es \<and> (x = 0 \<longrightarrow> row_inserted statement vs es))"
  unfolding insert_row_def by (intro runs_rules) (auto simp: row_inserted_def)

text \<open>The two rows of a settlement, of the attempt and the operation of the cell.\<close>

definition rows_inserted :: "completion_class \<Rightarrow> cell \<Rightarrow> (call \<times> reply) list \<Rightarrow> (call \<times> reply) list \<Rightarrow> bool" where
  "rows_inserted k c cs rs \<longleftrightarrow> row_inserted completion_statement (completion_row k c) cs \<and>
     row_inserted resolution_statement (resolution_row c) rs"

lemma runs_sql_exec:
  "runs (sql_exec statement) (\<lambda>x es. \<exists>r. es = [(Env (Sql statement), r)] \<and> x = (if r_ret r \<noteq> 0 then -1 else 0))"
  unfolding sql_exec_def by (intro runs_rules) simp

lemma inert_rows: "rows_inserted k c cs rs \<Longrightarrow> inert cs \<and> inert rs"
  by (auto simp: rows_inserted_def row_inserted_def)

text \<open>What a transaction that reached its COMMIT did, and one that did not.\<close>

definition transacted :: "completion_class \<Rightarrow> cell \<Rightarrow> int \<Rightarrow> (call \<times> reply) list \<Rightarrow> bool" where
  "transacted k c e es \<longleftrightarrow> (if e = 0 then \<exists>xs cs rs m. es = xs @ cs @ rs @ [(Env (Sql ''COMMIT''), m)] \<and>
       inert xs \<and> rows_inserted k c cs rs \<and> r_ret m = 0
     else inert es)"

lemma transacted_commit:
  assumes "inert xs" and "rows_inserted k c cs rs"
  shows "transacted k c (if r_ret m \<noteq> 0 then -1 else 0) (xs @ cs @ rs @ [(Env (Sql ''COMMIT''), m)])"
  using assms inert_rows [OF assms(2)] by (auto simp: transacted_def)

lemma transacted_abort: "inert es \<Longrightarrow> e \<noteq> 0 \<Longrightarrow> transacted k c e es"
  by (simp add: transacted_def)

lemma runs_settle_transaction:
  "runs (settle_transaction cells path valid pk s) (\<lambda>x es. transacted (classify valid (snd s)) (snd s) (fst x) es)"
proof -
  obtain rt c where s: "s = (rt, c)" by (cases s)
  have commit: "transacted k c (if r_ret m \<noteq> 0 then -1 else 0) (a @ b @ d @ cs @ rs @ [(Env (Sql ''COMMIT''), m)])"
    if "inert a" "inert b" "inert d" "row_inserted completion_statement (completion_row k c) cs"
      "row_inserted resolution_statement (resolution_row c) rs" for a b d k cs rs m
    using transacted_commit [of "a @ b @ d" k c cs rs m] that by (simp add: rows_inserted_def)
  show ?thesis
    unfolding settle_transaction_def s prod.case snd_conv
    by (intro runs_bind [OF uncommitted_import_if] runs_bind [OF uncommitted_measure] runs_bind [OF runs_insert_row]
        runs_bind [OF runs_sql_exec] runs_rules)
      (auto intro: transacted_abort commit)
qed

definition abandoned :: "(call \<times> reply) list \<Rightarrow> bool" where
  "abandoned es \<longleftrightarrow>
     (\<exists>xs b. es = xs @ [(Env (Sql ''BEGIN IMMEDIATE''), b)] \<and> r_ret b \<noteq> 0) \<or>
     (\<exists>xs q ys. es = xs @ (Env (Query ''autocommit''), q) # ys \<and>
        (if r_ret q = 0 then \<exists>r. ys = [(Env (Sql ''ROLLBACK''), r)] else ys = []))"

lemma runs_rollback:
  "runs rollback (\<lambda>x es. x = -1 \<and> inert es \<and> (\<exists>q ys. es = (Env (Query ''autocommit''), q) # ys \<and>
     (if r_ret q = 0 then \<exists>r. ys = [(Env (Sql ''ROLLBACK''), r)] else ys = [])))"
  unfolding rollback_def by (intro runs_bind [OF runs_sql_exec] runs_rules) auto

text \<open>The evidence for the terminal event: the bytes read from the start of the spool hold it.\<close>

definition evidence :: "int \<Rightarrow> (call \<times> reply) list \<Rightarrow> bool" where
  "evidence fd es \<longleftrightarrow> (\<exists>l rs. es = (Io (Lseek_start fd), l) # rs \<and> reads_only fd rs \<and>
     sublist terminal_needle (file_bytes fd rs))"

definition validated :: "cell \<Rightarrow> bool \<Rightarrow> cell \<Rightarrow> (call \<times> reply) list \<Rightarrow> bool" where
  "validated c valid d es \<longleftrightarrow> d = c\<lparr>c_terminal_seen := valid\<rparr> \<and> inert es \<and>
     (valid \<longrightarrow> \<not> has_flag (c_flags c) failure_flags \<and> (c_kind c = Model \<longrightarrow> evidence (c_spool_a c) es))"

lemma runs_validate: "runs (validate s) (\<lambda>x es. validated (snd s) (fst x) (snd (snd x)) es)"
proof -
  obtain rt c where s: "s = (rt, c)" by (cases s)
  have search: "runs (contains_synthetic_terminal fd) (\<lambda>found es. inert es \<and> (found \<longrightarrow> evidence fd es))" for fd
    by (rule runs_weaken [OF runs_contains_terminal])
      (auto simp: searched_def evidence_def dest: inert_reads)
  show ?thesis
    unfolding validate_def s prod.case
    by (intro runs_bind [OF search] runs_rules) (auto simp: validated_def)
qed

definition settled :: "completion_class \<Rightarrow> cell \<Rightarrow> int \<Rightarrow> (call \<times> reply) list \<Rightarrow> bool" where
  "settled k c e es \<longleftrightarrow> commits es = of_bool (e = 0) \<and> (\<forall>x. fd_net es x = 0) \<and>
     (e = 0 \<longrightarrow> (\<exists>pre b xs cs rs m t. es = pre @ (Env (Sql ''BEGIN IMMEDIATE''), b) # xs @ cs @ rs @
        [(Env (Sql ''COMMIT''), m), (Env Now, t)] \<and> r_ret b = 0 \<and> rows_inserted k c cs rs)) \<and>
     (e \<noteq> 0 \<longrightarrow> abandoned es)"

lemma now_ns_call: "runs now_ns (\<lambda>_ es. \<exists>t. es = [(Env Now, t)])"
  unfolding now_ns_def by (intro runs_rules) simp

lemma settled_success:
  assumes "inert pre" and "r_ret b = 0" and "transacted k c 0 es"
  shows "settled k c 0 (pre @ (Env Now, n) # (Env (Sql ''BEGIN IMMEDIATE''), b) # es @ [(Env Now, t)])"
proof -
  from assms(3) obtain xs cs rs m where es: "es = xs @ cs @ rs @ [(Env (Sql ''COMMIT''), m)]"
    "inert xs" "rows_inserted k c cs rs" "r_ret m = 0"
    by (auto simp: transacted_def)
  then have "\<exists>pre' b' xs cs rs m t'. pre @ (Env Now, n) # (Env (Sql ''BEGIN IMMEDIATE''), b) # es @ [(Env Now, t)] =
      pre' @ (Env (Sql ''BEGIN IMMEDIATE''), b') # xs @ cs @ rs @ [(Env (Sql ''COMMIT''), m), (Env Now, t')] \<and>
      r_ret b' = 0 \<and> rows_inserted k c cs rs"
    using assms(2)
    by (intro exI [of _ "pre @ [(Env Now, n)]"] exI [of _ b] exI [of _ xs] exI [of _ cs] exI [of _ rs] exI [of _ m]
        exI [of _ t]) simp
  with assms(1) es inert_rows [OF es(3)] show ?thesis by (simp add: settled_def inert_commits inert_fds)
qed

lemma settled_begin_failed:
  "inert pre \<Longrightarrow> r_ret b \<noteq> 0 \<Longrightarrow> settled k c (-1) (pre @ [(Env Now, n), (Env (Sql ''BEGIN IMMEDIATE''), b)])"
  by (auto simp: settled_def abandoned_def inert_commits inert_fds)

lemma settled_abandoned:
  assumes "inert pre" and "transacted k c e es" and "e \<noteq> 0" and "inert ys"
    and "\<exists>q zs. ys = (Env (Query ''autocommit''), q) # zs \<and>
      (if r_ret q = 0 then \<exists>r. zs = [(Env (Sql ''ROLLBACK''), r)] else zs = [])"
  shows "settled k c (-1) (pre @ (Env Now, n) # (Env (Sql ''BEGIN IMMEDIATE''), b) # es @ ys)"
proof -
  from assms(5) obtain q zs where ys: "ys = (Env (Query ''autocommit''), q) # zs"
    and zs: "if r_ret q = 0 then \<exists>r. zs = [(Env (Sql ''ROLLBACK''), r)] else zs = []" by blast
  have "abandoned (pre @ (Env Now, n) # (Env (Sql ''BEGIN IMMEDIATE''), b) # es @ ys)"
    unfolding abandoned_def
    by (rule disjI2, rule exI [of _ "pre @ (Env Now, n) # (Env (Sql ''BEGIN IMMEDIATE''), b) # es"],
        rule exI [of _ q], rule exI [of _ zs]) (use zs in \<open>simp add: ys\<close>)
  with assms(1-4) show ?thesis by (simp add: settled_def transacted_def inert_commits inert_fds)
qed

lemma transacted_terminal_seen [simp]: "transacted k (c\<lparr>c_terminal_seen := x\<rparr>) e es = transacted k c e es"
  by (simp add: transacted_def rows_inserted_def completion_row_def resolution_row_def)

lemma settled_terminal_seen [simp]: "settled k (c\<lparr>c_terminal_seen := x\<rparr>) e es = settled k c e es"
  by (simp add: settled_def rows_inserted_def completion_row_def resolution_row_def)

lemma classify_terminal_seen [simp]: "classify v (c\<lparr>c_terminal_seen := x\<rparr>) = classify v c"
  by (simp add: classify_def)

definition settlement :: "cell \<Rightarrow> int \<Rightarrow> cell \<Rightarrow> (call \<times> reply) list \<Rightarrow> bool" where
  "settlement c e d es \<longleftrightarrow> settled (classify (c_terminal_seen d) c) c e es \<and>
     (\<exists>vs fs. es = vs @ fs \<and> validated c (c_terminal_seen d) d vs)"

lemma settlement_prefix:
  "validated c v d vs \<Longrightarrow> settled (classify v c) c e (vs @ fs) \<Longrightarrow> settlement c e d (vs @ fs)"
  unfolding settlement_def validated_def by auto

lemma runs_settle:
  "runs (settle cells path pk s) (\<lambda>x es. settlement (snd s) (fst x) (snd (snd (snd x))) es)"
proof -
  have step: "inert vs \<and> classify v d = classify v (snd s) \<and> (\<forall>k e es. transacted k d e es = transacted k (snd s) e es)" if "validated (snd s) v d vs" for v d vs
    using that by (auto simp: validated_def)
  have rest: "settled k c (-1) (vs @ es @ [(Env (Sql ''BEGIN IMMEDIATE''), b)])"
    if "inert vs" "\<exists>t. es = [(Env Now, t)]" "r_ret b \<noteq> 0" for k vs es b
    using that settled_begin_failed by auto
  show ?thesis
    unfolding settle_def
    by (intro runs_bind [OF runs_validate] runs_bind [OF now_ns_call] runs_bind [OF runs_sql_exec]
        runs_bind [OF runs_settle_transaction] runs_bind [OF runs_rollback] runs_rules)
      (auto intro!: settlement_prefix settled_begin_failed settled_success settled_abandoned
        dest: step split: if_splits)
qed

section \<open>Properties\<close>

lemma has_failure_flags: "has_flag x failure_flags \<longleftrightarrow>
    has_flag x 2 \<or> has_flag x 64 \<or> has_flag x 128 \<or> has_flag x 32"
  by (simp only: failure_flags_def has_flag_of_or)

text \<open>
  C22. A settlement commits exactly when it reports success, and then the transaction it commits
  holds the completion of the cell's attempt with the class its evidence gives, and the resolution
  of the cell's operation by that attempt, both inserted with these values.  A
  settlement that fails at any point commits nothing, and ends by asking whether the transaction
  is still open and rolling it back if so.  A model's attempt is marked terminal only if the
  bytes read from the start of its spool hold the terminal event.
\<close>

theorem settle_commits_iff_success:
  assumes "settle cells path pk (rt, c) w = Some ((e, pk', rt', d), w')"
  shows "\<exists>es. emits w w' es \<and> settled (classify (c_terminal_seen d) c) c e es \<and>
    (c_terminal_seen d \<longrightarrow> \<not> has_flag (c_flags c) failure_flags) \<and>
    (c_terminal_seen d \<and> c_kind c = Model \<longrightarrow> (\<exists>vs fs. es = vs @ fs \<and> evidence (c_spool_a c) vs))"
  using runs_settle assms
  by (rule runsD) (auto simp: settlement_def validated_def)

lemma settle_commits_iff_success_witness:
  "\<exists>pk rt d w' es. settle [] [47] \<lparr>pk_overlap = 0, pk_settle_ns = 0\<rparr>
      (sample_runtime, sample_cell\<lparr>c_spool_a := -1, c_spool_b := -1\<rparr>)
      (boot [ok_out 0 [0, 1], ok 0, err 2, err 2, err 2, ok 0, ok 101, ok 0, ok 0, ok 101, ok 0, ok 0, ok_out 0 [0, 4]])
      = Some ((0, pk, rt, d), w') \<and> settled Success (sample_cell\<lparr>c_spool_a := -1, c_spool_b := -1\<rparr>) 0 es \<and> pk_settle_ns pk = 3 \<and> emits
      (boot [ok_out 0 [0, 1], ok 0, err 2, err 2, err 2, ok 0, ok 101, ok 0, ok 0, ok 101, ok 0, ok 0, ok_out 0 [0, 4]]) w' es"
proof -
  let ?c = "sample_cell\<lparr>c_spool_a := -1, c_spool_b := -1\<rparr>"
  let ?w = "boot [ok_out 0 [0, 1], ok 0, err 2, err 2, err 2, ok 0, ok 101, ok 0, ok 0, ok 101, ok 0, ok 0, ok_out 0 [0, 4]]"
  obtain pk rt d w' where run: "settle [] [47] \<lparr>pk_overlap = 0, pk_settle_ns = 0\<rparr> (sample_runtime, ?c) ?w
      = Some ((0, pk, rt, d), w')" and "pk_settle_ns pk = 3" "c_terminal_seen d"
    by (simp cong: bind_option_cong_code add: settle_def validate_def now_ns_def sql_exec_def settle_transaction_def
        import_if_def measure_storage_def allocated_fd_bytes_def sqlite_storage_allocated_def
        allocated_path_bytes_def companion_allocated_def insert_row_def has_flag_def sample_cell_def boot_def
        sample_runtime_def count_bash_def out_def fails_def bytes_of_def)
  moreover have "classify True ?c = Success"
    by (simp add: classify_def sample_cell_def has_flag_def)
  ultimately show ?thesis using settle_commits_iff_success [OF run] by auto
qed

text \<open>
  A completion has the class success exactly when the attempt was validated and nothing went
  wrong: no preparation, storage, output-limit or transport failure, no cancellation, and for a
  patch the status 1.  Every failure takes precedence over success.
\<close>

lemma classify_success_iff:
  "classify valid c = Success \<longleftrightarrow> valid \<and> \<not> has_flag (c_flags c) failure_flags \<and>
     \<not> has_flag (c_flags c) FLAG_CANCELLED \<and> \<not> (c_kind c = Patch \<and> c_wait_status c \<noteq> 1)"
  by (auto simp: classify_def has_failure_flags)

definition admitted :: "int \<Rightarrow> cell \<Rightarrow> int \<Rightarrow> cell \<Rightarrow> (call \<times> reply) list \<Rightarrow> bool" where
  "admitted ident c e d es \<longleftrightarrow> commits es = of_bool (e = 0) \<and>
     (if e = 0 then c_state c = Vacant \<and> d = c\<lparr>c_attempt_id := word_of_int ident, c_operation_id := word_of_int ident,
        c_state := Dispatchable\<rparr> else d = c)"

lemma cell_state_self [simp]: "c_state c = k \<Longrightarrow> c\<lparr>c_state := k\<rparr> = c"
  by (cases c) simp

lemma runs_admit: "runs (admit ident c) (\<lambda>x es. admitted ident c (fst x) (snd x) es)"
  unfolding admit_def
  by (intro runs_bind [OF runs_sql_exec] runs_rules) (auto simp: admitted_def split: if_splits)

text \<open>
  C25. An admission commits exactly when it reports success and only then makes the cell
  dispatchable, with the attempt's number.  When it fails the cell is what it was.
\<close>

theorem admit_commits_iff_dispatchable:
  assumes "admit ident c w = Some ((e, d), w')"
  shows "\<exists>es. emits w w' es \<and> admitted ident c e d es"
  using runs_admit assms by (rule runsD) auto

lemma admit_commits_iff_dispatchable_witness:
  "\<exists>d w' es. admit 7 (sample_cell\<lparr>c_state := Vacant\<rparr>) (boot [ok 0, ok 0, ok 0]) = Some ((0, d), w') \<and>
    c_state d = Dispatchable \<and> commits es = 1 \<and> emits (boot [ok 0, ok 0, ok 0]) w' es"
proof -
  obtain d w' where run: "admit 7 (sample_cell\<lparr>c_state := Vacant\<rparr>) (boot [ok 0, ok 0, ok 0]) = Some ((0, d), w')"
    by (simp add: admit_def sql_exec_def boot_def)
  from admit_commits_iff_dispatchable [OF run] run show ?thesis by (auto simp: admitted_def)
qed

text \<open>
  An admission whose COMMIT fails gives its cell back without a ROLLBACK, so a transaction the
  database keeps open after the failure, as it does when it is busy, stays open.
\<close>

lemma admit_failed_commit_not_rolled_back:
  "\<exists>w'. admit 7 (sample_cell\<lparr>c_state := Vacant\<rparr>) (boot [ok 0, ok 0, ok 5])
      = Some ((-1, sample_cell\<lparr>c_state := Vacant\<rparr>), w') \<and>
    map fst (w_trace w') = [Env (Sql ''BEGIN IMMEDIATE''), Env (Sql (admission 7 (c_kind sample_cell))),
      Env (Sql ''COMMIT'')]"
  by (simp add: admit_def sql_exec_def boot_def)

text \<open>
  C23. The search through the fixed window finds the terminal event exactly when it occurs in the
  bytes of the spool, wherever the reads cut it: a search that says yes has read it, and one that
  says no has read to the end of the file without it, or could not read on.
\<close>

theorem terminal_search_exact:
  assumes "contains_synthetic_terminal fd w = Some (found, w')"
  shows "\<exists>l rs. emits w w' ((Io (Lseek_start fd), l) # rs) \<and>
    (r_ret l < 0 \<and> \<not> found \<and> rs = [] \<or> 0 \<le> r_ret l \<and> searched terminal_needle fd [] found rs)"
  using runs_contains_terminal assms by (rule runsD) blast

lemma terminal_search_exact_witness:
  "\<exists>w' rs. contains_synthetic_terminal 7 (boot [ok 0, ok_data (120 # take 5 terminal_needle),
      ok_data (drop 5 terminal_needle)]) = Some (True, w') \<and>
    sublist terminal_needle (file_bytes 7 rs) \<and> length rs = 2"
proof -
  let ?w = "boot [ok 0, ok_data (120 # take 5 terminal_needle), ok_data (drop 5 terminal_needle)]"
  obtain w' where run: "contains_synthetic_terminal 7 ?w = Some (True, w')" and t: "length (w_trace w') = 3"
    by (simp cong: bind_option_cong_code add: contains_synthetic_terminal_def search_loop.simps window_hit_def
        window_carry_def terminal_needle_def bytes_of_def boot_def)
  from terminal_search_exact [OF run] t run show ?thesis
    by (fastforce simp: searched_def emits_def boot_def)
qed

end
