(* ===== verification/Custody_Patch.thy ===== *)
theory Custody_Patch
  imports Custody_Store_Laws
begin

text \<open>
  The patch lane of \<open>integrated_capacity.c\<close>: the target file and its markers, one quantum of
  a patch, the shell fixture that interferes with it, and the patch thread.

  A quantum checks four windows of the target, replaces them, forces them to the disk and
  reads them back; the status it leaves says how sure it is: 1 verified, 2 a conflict seen
  before anything was written, 3 indeterminate.
\<close>

section \<open>Markers\<close>

text \<open>A path that does not fit 1024 bytes is not formed.\<close>

definition marker_path :: "string \<Rightarrow> string \<Rightarrow> string option" where
  "marker_path target ending =
     (let p = target @ ''.'' @ ending in if 0 < length p \<and> length p < 1024 then Some p else None)"

fun remove_markers :: "string \<Rightarrow> string list \<Rightarrow> world \<Rightarrow> (unit \<times> world) option" where
  "remove_markers target [] w = Some ((), w)"
| "remove_markers target (e # es) w = do {
     (_, w) \<leftarrow> (case marker_path target e of
         Some p \<Rightarrow> do { (_, w) \<leftarrow> sys (Io (Unlink p)) w; Some ((), w) }
       | None \<Rightarrow> Some ((), w));
     remove_markers target es w
   }"

definition remove_patch_markers :: "string \<Rightarrow> world \<Rightarrow> (unit \<times> world) option" where
  "remove_patch_markers target = remove_markers target [''prechecked'', ''interfered'', ''patched'']"

definition touch_marker :: "string \<Rightarrow> string \<Rightarrow> world \<Rightarrow> (int \<times> world) option" where
  "touch_marker target ending w =
     (case marker_path target ending of
        None \<Rightarrow> Some (-1, w)
      | Some p \<Rightarrow> do {
          (f, w) \<leftarrow> sys (Fd (Open p)) w;
          if r_ret f < 0 then Some (-1, w)
          else do { (c, w) \<leftarrow> sys (Fd (Close (r_ret f))) w; Some (r_ret c, w) }
        })"

text \<open>The loop looks \<open>n\<close> more times, 2000 in all.\<close>

fun wait_rounds :: "nat \<Rightarrow> string \<Rightarrow> world \<Rightarrow> (int \<times> world) option" where
  "wait_rounds 0 p w = Some (-1, w)"
| "wait_rounds (Suc n) p w = do {
     (a, w) \<leftarrow> sys (Io (Access p)) w;
     if r_ret a = 0 then Some (0, w)
     else do {
       (_, w) \<leftarrow> sys (Env (Usleep 1000)) w;
       wait_rounds n p w
     }
   }"

definition wait_marker :: "string \<Rightarrow> string \<Rightarrow> world \<Rightarrow> (int \<times> world) option" where
  "wait_marker target ending w =
     (case marker_path target ending of None \<Rightarrow> Some (-1, w) | Some p \<Rightarrow> wait_rounds 2000 p w)"

section \<open>The target\<close>

abbreviation (input) b_a :: byte where "b_a \<equiv> 97"
abbreviation (input) b_b :: byte where "b_b \<equiv> 98"
abbreviation (input) b_p :: byte where "b_p \<equiv> 112"

definition window_of :: "byte \<Rightarrow> byte list" where
  "window_of b = replicate 4096 b"

text \<open>\<open>n\<close> more windows to write.\<close>

fun fill_windows :: "nat \<Rightarrow> int \<Rightarrow> world \<Rightarrow> (int \<times> world) option" where
  "fill_windows 0 fd w = Some (0, w)"
| "fill_windows (Suc n) fd w = do {
     (e, w) \<leftarrow> write_all fd (window_of b_a) w;
     if e \<noteq> 0 then Some (-1, w) else fill_windows n fd w
   }"

definition close_with :: "int \<Rightarrow> 'r \<Rightarrow> world \<Rightarrow> ('r \<times> world) option" where
  "close_with fd x w = do { (_, w) \<leftarrow> sys (Fd (Close fd)) w; Some (x, w) }"

text \<open>The name of the target, chosen once; \<open>None\<close> if it does not fit.\<close>

definition choose_target :: "string \<Rightarrow> string \<Rightarrow> world \<Rightarrow> (string option \<times> world) option" where
  "choose_target scratch target w =
     (if target \<noteq> [] then Some (Some target, w)
      else do {
        (p, w) \<leftarrow> sys (Proc Getpid) w;
        let t = scratch @ ''/rui-patch-target-'' @ decimal_digits (nat (r_ret p));
        Some (if length t < 1024 then Some t else None, w)
      })"

definition prepare_patch_target :: "string \<Rightarrow> string \<Rightarrow> world \<Rightarrow> ((int \<times> string) \<times> world) option" where
  "prepare_patch_target scratch target w = do {
     (t, w) \<leftarrow> choose_target scratch target w;
     case t of
       None \<Rightarrow> Some ((-1, target), w)
     | Some target \<Rightarrow> do {
         (_, w) \<leftarrow> sys (Io (Unlink target)) w;
         (_, w) \<leftarrow> remove_patch_markers target w;
         (f, w) \<leftarrow> sys (Fd (Open target)) w;
         if r_ret f < 0 then Some ((-1, target), w)
         else do {
           (e, w) \<leftarrow> fill_windows 256 (r_ret f) w;
           if e \<noteq> 0 then close_with (r_ret f) (-1, target) w
           else do {
             (s, w) \<leftarrow> sys (Io (Fsync (r_ret f))) w;
             if r_ret s \<noteq> 0 then close_with (r_ret f) (-1, target) w
             else do {
               (c, w) \<leftarrow> sys (Fd (Close (r_ret f))) w;
               Some ((r_ret c, target), w)
             }
           }
         }
       }
   }"

section \<open>One quantum\<close>

text \<open>
  Reading windows \<open>is\<close> and comparing every byte: \<open>short\<close> is the status for a short read,
  \<open>differs\<close> the one for another byte, 0 stands for all equal.
\<close>

fun check_windows :: "int \<Rightarrow> byte \<Rightarrow> int \<Rightarrow> int \<Rightarrow> nat list \<Rightarrow> world \<Rightarrow> (int \<times> world) option" where
  "check_windows fd b short differs [] w = Some (0, w)"
| "check_windows fd b short differs (i # is) w = do {
     (r, w) \<leftarrow> sys (Io (Pread fd 4096 (i * 4096))) w;
     if r_ret r \<noteq> 4096 then Some (short, w)
     else if \<not> list_all (\<lambda>x. x = b) (r_data r) then Some (differs, w)
     else check_windows fd b short differs is w
   }"

fun write_windows :: "int \<Rightarrow> byte \<Rightarrow> nat list \<Rightarrow> world \<Rightarrow> (bool \<times> world) option" where
  "write_windows fd b [] w = Some (True, w)"
| "write_windows fd b (i # is) w = do {
     (r, w) \<leftarrow> sys (Io (Pwrite fd (window_of b) (i * 4096))) w;
     if r_ret r \<noteq> 4096 then Some (False, w) else write_windows fd b is w
   }"

definition interferes :: "string \<Rightarrow> bool" where
  "interferes fixture \<longleftrightarrow> take 10 fixture = ''interfere-''"

text \<open>The last part: force, read back, report.\<close>

definition verify_patch :: "string \<Rightarrow> string \<Rightarrow> int \<Rightarrow> cell \<Rightarrow> world \<Rightarrow> ((int \<times> cell) \<times> world) option" where
  "verify_patch fixture target fd c w = do {
     (s, w) \<leftarrow> sys (Io (Fsync fd)) w;
     if r_ret s \<noteq> 0 then close_with fd (0, c\<lparr>c_wait_status := 3\<rparr>) w
     else do {
       (v, w) \<leftarrow> check_windows fd b_p 3 3 [0, 1, 2, 3] w;
       if v \<noteq> 0 then close_with fd (0, c\<lparr>c_wait_status := v\<rparr>) w
       else do {
         let c = c\<lparr>c_wait_status := 1\<rparr>;
         (t, w) \<leftarrow> (if interferes fixture then touch_marker target ''patched'' w else Some (0, w));
         if t \<noteq> 0 then close_with fd (-1, c) w
         else do { (e, w) \<leftarrow> sys (Fd (Close fd)) w; Some ((r_ret e, c), w) }
       }
     }
   }"

definition precheck_hook :: "string \<Rightarrow> string \<Rightarrow> world \<Rightarrow> (int \<times> world) option" where
  "precheck_hook fixture target w =
     (if interferes fixture then do {
        (t, w) \<leftarrow> touch_marker target ''prechecked'' w;
        if t \<noteq> 0 then Some (-1, w)
        else if fixture = ''interfere-during'' then wait_marker target ''interfered'' w
        else Some (0, w)
      }
      else Some (0, w))"

definition run_patch_quantum :: "string \<Rightarrow> string \<Rightarrow> cell \<Rightarrow> world \<Rightarrow> ((int \<times> cell) \<times> world) option" where
  "run_patch_quantum fixture target c w = do {
     (at, w) \<leftarrow> now_ns w;
     let c = c\<lparr>c_started_ns := at\<rparr>;
     (f, w) \<leftarrow> sys (Fd (Open target)) w;
     if r_ret f < 0 then Some ((-1, c), w)
     else do {
       let fd = r_ret f;
       (m, w) \<leftarrow> (if fixture = ''interfere-before'' then wait_marker target ''interfered'' w else Some (0, w));
       if m \<noteq> 0 then close_with fd (-1, c) w
       else do {
         (v, w) \<leftarrow> check_windows fd b_a 3 2 [0, 1, 2, 3] w;
         if v \<noteq> 0 then close_with fd (0, c\<lparr>c_wait_status := v\<rparr>) w
         else do {
           (h, w) \<leftarrow> precheck_hook fixture target w;
           if h \<noteq> 0 then close_with fd (-1, c) w
           else do {
             (p, w) \<leftarrow> write_windows fd b_p [0, 1, 2, 3] w;
             if \<not> p then close_with fd (0, c\<lparr>c_wait_status := 3\<rparr>) w
             else verify_patch fixture target fd c w
           }
         }
       }
     }
   }"

text \<open>One turn of the patch thread: the exchange, the quantum and the seal; else nothing.\<close>

definition patch_turn :: "string \<Rightarrow> string \<Rightarrow> custody \<Rightarrow> world \<Rightarrow> (custody \<times> world) option" where
  "patch_turn fixture target s w = (case s of (rt, c) \<Rightarrow>
     if c_state c = Dispatchable then do {
       ((e, c), w) \<leftarrow> run_patch_quantum fixture target (c\<lparr>c_state := Active\<rparr>) w;
       seal_cell (rt, if e \<noteq> 0 then set_flag FLAG_PREPARATION_FAILED c else c) w
     }
     else Some ((rt, c), w))"

section \<open>The shell fixture\<close>

text \<open>How the fixture ends: it returns a status, or it pauses until a signal ends it.\<close>

datatype fixture_end = Returns int | Pauses

definition interfere :: "string \<Rightarrow> string \<Rightarrow> world \<Rightarrow> (int \<times> world) option" where
  "interfere fixture target w = do {
     (a, w) \<leftarrow> (if fixture = ''interfere-during'' then wait_marker target ''prechecked'' w else Some (0, w));
     if a \<noteq> 0 then Some (9, w)
     else do {
       (b, w) \<leftarrow> (if fixture = ''interfere-after'' then wait_marker target ''patched'' w else Some (0, w));
       if b \<noteq> 0 then Some (9, w)
       else do {
         (f, w) \<leftarrow> sys (Fd (Open target)) w;
         if r_ret f < 0 then Some (6, w)
         else do {
           (p, w) \<leftarrow> write_windows (r_ret f) b_b [0, 1, 2, 3] w;
           if \<not> p then close_with (r_ret f) 7 w
           else do {
             (s, w) \<leftarrow> sys (Io (Fsync (r_ret f))) w;
             if r_ret s \<noteq> 0 then close_with (r_ret f) 8 w
             else do {
               (_, w) \<leftarrow> sys (Fd (Close (r_ret f))) w;
               (t, w) \<leftarrow> touch_marker target ''interfered'' w;
               Some (if t \<noteq> 0 then 9 else 0, w)
             }
           }
         }
       }
     }
   }"

fun emit_windows :: "nat \<Rightarrow> world \<Rightarrow> (int \<times> world) option" where
  "emit_windows 0 w = Some (0, w)"
| "emit_windows (Suc n) w = do {
     (a, w) \<leftarrow> write_all 1 (window_of b_b) w;
     if a \<noteq> 0 then Some (3, w)
     else do {
       (b, w) \<leftarrow> write_all 2 (window_of b_b) w;
       if b \<noteq> 0 then Some (3, w)
       else do {
         (_, w) \<leftarrow> sys (Env (Usleep 2000)) w;
         emit_windows n w
       }
     }
   }"

text \<open>A descendant that keeps the pipes open for a while, in its own session if \<open>escaped\<close>.\<close>

definition leave_descendant :: "bool \<Rightarrow> world \<Rightarrow> (fixture_end \<times> world) option" where
  "leave_descendant escaped w = do {
     (d, w) \<leftarrow> sys (Proc Fork) w;
     if r_ret d < 0 then Some (Returns 4, w)
     else if r_ret d = 0 then do {
       (_, w) \<leftarrow> (if escaped then sys (Proc Setsid) w else Some (ok 0, w));
       (_, w) \<leftarrow> sys (Env (Usleep (if escaped then 2000000 else 200000))) w;
       Some (Returns 0, w)
     }
     else Some (Returns 0, w)
   }"

definition run_bash_child :: "string \<Rightarrow> string \<Rightarrow> world \<Rightarrow> (fixture_end \<times> world) option" where
  "run_bash_child fixture target w = do {
     (_, w) \<leftarrow> (if fixture = ''kill'' then sys (Env (Query ''ignore SIGTERM'')) w else Some (ok 0, w));
     (i, w) \<leftarrow> (if interferes fixture then interfere fixture target w else Some (0, w));
     if i \<noteq> 0 then Some (Returns i, w)
     else do {
       (e, w) \<leftarrow> emit_windows 64 w;
       if e \<noteq> 0 then Some (Returns e, w)
       else if fixture = ''normal'' then Some (Returns 0, w)
       else if fixture = ''term'' \<or> fixture = ''kill'' then Some (Pauses, w)
       else if fixture = ''inherited'' \<or> fixture = ''escaped'' then leave_descendant (fixture = ''escaped'') w
       else Some (Returns 5, w)
     }
   }"

section \<open>What a quantum proves\<close>

definition read_ok :: "int \<Rightarrow> byte \<Rightarrow> nat \<Rightarrow> call \<times> reply \<Rightarrow> bool" where
  "read_ok fd b i e \<longleftrightarrow> fst e = Io (Pread fd 4096 (i * 4096)) \<and> r_ret (snd e) = 4096 \<and>
     list_all (\<lambda>x. x = b) (r_data (snd e))"

definition wrote_ok :: "int \<Rightarrow> byte \<Rightarrow> nat \<Rightarrow> call \<times> reply \<Rightarrow> bool" where
  "wrote_ok fd b i e \<longleftrightarrow> fst e = Io (Pwrite fd (window_of b) (i * 4096)) \<and> r_ret (snd e) = 4096"

lemma window_event [simp]:
  "read_ok fd b i (c, r) \<longleftrightarrow> c = Io (Pread fd 4096 (i * 4096)) \<and> r_ret r = 4096 \<and> list_all (\<lambda>x. x = b) (r_data r)"
  "wrote_ok fd b i (c, r) \<longleftrightarrow> c = Io (Pwrite fd (window_of b) (i * 4096)) \<and> r_ret r = 4096"
  by (simp_all add: read_ok_def wrote_ok_def)

fun is_pwrite :: "call \<times> reply \<Rightarrow> bool" where
  "is_pwrite (Io (Pwrite _ _ _), _) = True"
| "is_pwrite _ = False"

text \<open>Steps that write no window and leave no descriptor.\<close>

definition untouching :: "(call \<times> reply) list \<Rightarrow> bool" where
  "untouching es \<longleftrightarrow> list_all (\<lambda>e. \<not> is_pwrite e) es \<and> (\<forall>fd. fd_net es fd = 0) \<and> commits es = 0"

lemma untouching_simps [simp]:
  "untouching []" "untouching ((Env Now, r) # es) \<longleftrightarrow> untouching es" "untouching ((Env (Usleep n), r) # es) \<longleftrightarrow> untouching es" "untouching ((Io (Access p), r) # es) \<longleftrightarrow> untouching es"
  "untouching ((Io (Pread fd n k), r) # es) \<longleftrightarrow> untouching es" "untouching ((Io (Fsync fd), r) # es) \<longleftrightarrow> untouching es"
  "untouching ((Io (Unlink p), r) # es) \<longleftrightarrow> untouching es"
  by (simp_all add: untouching_def)

lemma untouching_append: "untouching es \<Longrightarrow> untouching fs \<Longrightarrow> untouching (es @ fs)"
  by (simp add: untouching_def)

lemma untouching_open_close:
  "0 \<le> r_ret f \<Longrightarrow> untouching [(Fd (Open p), f), (Fd (Close (r_ret f)), c)]"
  "r_ret f < 0 \<Longrightarrow> untouching [(Fd (Open p), f)]"
  by (auto simp: untouching_def)

lemma untouching_touch: "runs (touch_marker target ending) (\<lambda>_ es. untouching es)"
  unfolding touch_marker_def by (intro runs_rules) (auto intro: untouching_open_close)

lemma untouching_wait_rounds: "runs (wait_rounds n p) (\<lambda>_ es. untouching es)"
proof (induction n)
  case 0
  have "runs (\<lambda>w. Some (-1 :: int, w)) (\<lambda>_ es. untouching es)" by (intro runs_rules) simp
  then show ?case by simp
next
  case (Suc n)
  have "runs (\<lambda>w. wait_rounds (Suc n) p w) (\<lambda>_ es. untouching es)"
    unfolding wait_rounds.simps by (intro runs_rules runs_weaken [OF Suc]) simp_all
  then show ?case .
qed

lemma untouching_wait: "runs (wait_marker target ending) (\<lambda>_ es. untouching es)"
  unfolding wait_marker_def by (intro runs_rules untouching_wait_rounds) simp

lemma untouching_now: "runs now_ns (\<lambda>_ es. untouching es)"
  unfolding now_ns_def by (intro runs_rules) simp

lemma untouching_hook: "runs (precheck_hook fixture target) (\<lambda>_ es. untouching es)"
  unfolding precheck_hook_def
  by (intro runs_rules runs_bind [OF untouching_touch] runs_weaken [OF untouching_wait]) (auto intro: untouching_append)

lemma runs_check_windows:
  assumes "short \<noteq> 0" and "differs \<noteq> 0"
  shows "runs (check_windows fd b short differs js) (\<lambda>v es. untouching es \<and> v \<in> {0, short, differs} \<and>
    (v = 0 \<longrightarrow> list_all2 (read_ok fd b) js es))"
proof (induction js)
  case Nil
  have "runs (\<lambda>w. Some (0 :: int, w)) (\<lambda>v es. untouching es \<and> v \<in> {0, short, differs} \<and>
    (v = 0 \<longrightarrow> list_all2 (read_ok fd b) [] es))" by (intro runs_rules) simp
  then show ?case by simp
next
  case (Cons i js)
  have "runs (\<lambda>w. check_windows fd b short differs (i # js) w) (\<lambda>v es. untouching es \<and> v \<in> {0, short, differs} \<and>
    (v = 0 \<longrightarrow> list_all2 (read_ok fd b) (i # js) es))"
    unfolding check_windows.simps
    by (intro runs_rules runs_weaken [OF Cons]) (use assms in auto)
  then show ?case .
qed

lemma runs_write_windows:
  "runs (write_windows fd b js) (\<lambda>v es. (\<forall>x. fd_net es x = 0) \<and> commits es = 0 \<and> (v \<longrightarrow> list_all2 (wrote_ok fd b) js es))"
proof (induction js)
  case Nil
  have "runs (\<lambda>w. Some (True, w)) (\<lambda>v es. (\<forall>x. fd_net es x = 0) \<and> commits es = 0 \<and> (v \<longrightarrow> list_all2 (wrote_ok fd b) [] es))"
    by (intro runs_rules) simp
  then show ?case by simp
next
  case (Cons i js)
  have "runs (\<lambda>w. write_windows fd b (i # js) w)
    (\<lambda>v es. (\<forall>x. fd_net es x = 0) \<and> commits es = 0 \<and> (v \<longrightarrow> list_all2 (wrote_ok fd b) (i # js) es))"
    unfolding write_windows.simps
    by (intro runs_rules runs_weaken [OF Cons]) auto
  then show ?case .
qed

text \<open>The evidence behind the status 1.\<close>

definition verified :: "int \<Rightarrow> (call \<times> reply) list \<Rightarrow> bool" where
  "verified fd es \<longleftrightarrow> (\<exists>s bs zs. es = (Io (Fsync fd), s) # bs @ zs \<and> r_ret s = 0 \<and>
     list_all2 (read_ok fd b_p) [0, 1, 2, 3] bs)"

definition closes_once :: "int \<Rightarrow> (call \<times> reply) list \<Rightarrow> bool" where
  "closes_once fd es \<longleftrightarrow> (\<forall>x. fd_net es x = - of_bool (x = fd)) \<and> commits es = 0"

lemma runs_close_with: "runs (close_with fd y) (\<lambda>x es. x = y \<and> closes_once fd es \<and> list_all (\<lambda>e. \<not> is_pwrite e) es)"
  unfolding close_with_def by (intro runs_rules) (auto simp: closes_once_def)

lemma closes_once_untouching: "untouching es \<Longrightarrow> closes_once fd fs \<Longrightarrow> closes_once fd (es @ fs)"
  by (simp add: closes_once_def untouching_def)

lemma closes_once_untouching2: "untouching ds \<Longrightarrow> untouching es \<Longrightarrow> closes_once fd fs \<Longrightarrow> closes_once fd (ds @ es @ fs)"
  by (simp add: closes_once_def untouching_def)

lemma runs_verify_patch:
  "runs (verify_patch fixture target fd c) (\<lambda>(e, d) es. closes_once fd es \<and> c_wait_status d \<in> {1, 3} \<and>
     (c_wait_status d = 1 \<longrightarrow> verified fd es))"
proof -
  have check: "runs (check_windows fd b_p 3 3 [0, 1, 2, 3]) (\<lambda>v es. untouching es \<and> v \<in> {0, 3} \<and>
      (v = 0 \<longrightarrow> list_all2 (read_ok fd b_p) [0, 1, 2, 3] es))"
    by (rule runs_weaken [OF runs_check_windows]) auto
  have once: "closes_once fd ((Io (Fsync fd), s) # es) = closes_once fd es"
    "closes_once fd [(Fd (Close fd), r)]" for s r es
    by (auto simp: closes_once_def)
  show ?thesis
    unfolding verify_patch_def
    by (intro runs_bind [OF check] runs_bind [OF untouching_touch] runs_weaken [OF runs_close_with] runs_rules)
      (auto simp: once verified_def intro: closes_once_untouching closes_once_untouching2)
qed

definition patched :: "(call \<times> reply) list \<Rightarrow> bool" where
  "patched es \<longleftrightarrow> (\<exists>fd xs as ys ws vs. es = xs @ as @ ys @ ws @ vs \<and>
     list_all2 (read_ok fd b_a) [0, 1, 2, 3] as \<and> list_all2 (wrote_ok fd b_p) [0, 1, 2, 3] ws \<and> verified fd vs)"

definition quantum_evidence :: "cell \<Rightarrow> (call \<times> reply) list \<Rightarrow> bool" where
  "quantum_evidence d es \<longleftrightarrow> (\<forall>fd. fd_net es fd = 0) \<and> commits es = 0 \<and> c_wait_status d \<in> {0, 1, 2, 3} \<and>
     (c_wait_status d = 1 \<longrightarrow> patched es) \<and> (c_wait_status d = 2 \<longrightarrow> list_all (\<lambda>e. \<not> is_pwrite e) es)"

lemma evidence_closed:
  assumes "untouching es" and "0 \<le> r_ret f" and "closes_once (r_ret f) fs"
  shows "\<forall>x. fd_net (es @ (Fd (Open p), f) # fs) x = 0"
  using assms by (auto simp: untouching_def closes_once_def)

lemma patchedI:
  assumes "list_all2 (read_ok fd b_a) [0, 1, 2, 3] as" and "list_all2 (wrote_ok fd b_p) [0, 1, 2, 3] ws"
    and "verified fd vs"
  shows "patched (ns @ (Fd (Open p), f) # ms @ as @ ys @ ws @ vs)"
  unfolding patched_def using assms
  by (intro exI [of _ fd] exI [of _ "ns @ (Fd (Open p), f) # ms"] exI [of _ as] exI [of _ ys] exI [of _ ws] exI [of _ vs]) simp

lemma runs_quantum:
  assumes "c_wait_status c = 0"
  shows "runs (run_patch_quantum fixture target c) (\<lambda>(e, d) es. quantum_evidence d es)"
proof -
  have check: "runs (check_windows fd b_a 3 2 [0, 1, 2, 3]) (\<lambda>v es. untouching es \<and> v \<in> {0, 3, 2} \<and>
      (v = 0 \<longrightarrow> list_all2 (read_ok fd b_a) [0, 1, 2, 3] es))" for fd
    by (rule runs_weaken [OF runs_check_windows]) auto
  have net: "fd_net es x = 0" "commits es = 0" "list_all (\<lambda>e. \<not> is_pwrite e) es" if "untouching es" for es x
    using that by (simp_all add: untouching_def)
  show ?thesis
    unfolding run_patch_quantum_def
    by (intro runs_bind [OF untouching_now] runs_bind [OF untouching_wait] runs_bind [OF check] runs_bind [OF untouching_hook]
        runs_bind [OF runs_write_windows] runs_weaken [OF runs_close_with] runs_weaken [OF runs_verify_patch] runs_rules)
      (use assms in \<open>auto simp: quantum_evidence_def closes_once_def net
        intro: patchedI patchedI [where ms = "[]", unfolded append_Nil]\<close>)
qed

text \<open>The quantum changes nothing of the cell but its start time and its status.\<close>

definition same_but_status :: "cell \<Rightarrow> cell \<Rightarrow> bool" where
  "same_but_status c d \<longleftrightarrow> c_state d = c_state c \<and> c_kind d = c_kind c \<and> c_flags d = c_flags c \<and>
     c_bytes_a d = c_bytes_a c \<and> c_bytes_b d = c_bytes_b c \<and> c_spool_a d = c_spool_a c \<and> c_spool_b d = c_spool_b c \<and>
     c_pipe_a d = c_pipe_a c \<and> c_pipe_b d = c_pipe_b c \<and> c_attempt_id d = c_attempt_id c"

lemma status_close_with: "runs (close_with fd y) (\<lambda>x es. x = y)"
  unfolding close_with_def by (intro runs_rules) simp

lemma status_verify_patch:
  "runs (verify_patch fixture target fd c) (\<lambda>x es. same_but_status c (snd x))"
proof -
  have check: "runs (check_windows fd b_p 3 3 js) (\<lambda>_ _. True)" for js
    by (rule runs_weaken [OF runs_check_windows]) auto
  show ?thesis
    unfolding verify_patch_def
    by (intro runs_bind [OF check] runs_bind [OF untouching_touch] runs_weaken [OF status_close_with] runs_rules)
      (auto simp: same_but_status_def)
qed

lemma status_quantum: "runs (run_patch_quantum fixture target c) (\<lambda>x es. same_but_status c (snd x))"
proof -
  have check: "runs (check_windows fd b_a 3 2 js) (\<lambda>_ _. True)" for fd js
    by (rule runs_weaken [OF runs_check_windows]) auto
  show ?thesis
    unfolding run_patch_quantum_def
    by (intro runs_bind [OF untouching_now] runs_bind [OF untouching_wait] runs_bind [OF check] runs_bind [OF untouching_hook]
        runs_bind [OF runs_write_windows] runs_weaken [OF status_close_with] runs_weaken [OF status_verify_patch] runs_rules)
      (auto simp: same_but_status_def)
qed

section \<open>Properties\<close>

text \<open>
  C27. The status a patch quantum leaves is evidence.  Status 1 (verified) means that in this order
  the four windows were read whole with every byte the expected old one, all four were replaced
  whole, the file was forced to the disk, and all four were read back whole with every byte the
  new one.  Status 2 (conflict) means nothing was written.  On every path the file it opened is
  closed, and the markers leave no descriptor.
\<close>

theorem patch_status_is_evidence:
  assumes "run_patch_quantum fixture target c w = Some ((e, d), w')" and "c_wait_status c = 0"
  shows "\<exists>es. emits w w' es \<and> (\<forall>fd. fd_net es fd = 0) \<and> c_wait_status d \<in> {0, 1, 2, 3} \<and>
    (c_wait_status d = 1 \<longrightarrow> patched es) \<and> (c_wait_status d = 2 \<longrightarrow> list_all (\<lambda>x. \<not> is_pwrite x) es)"
  using runs_quantum [OF assms(2)] assms(1) by (rule runsD) (auto simp: quantum_evidence_def)

definition sample_quantum :: "reply list" where
  "sample_quantum = (let a = ok_data (window_of b_a); p = ok_data (window_of b_p)
     in [ok_out 0 [0, 6], ok 5, a, a, a, a, ok 4096, ok 4096, ok 4096, ok 4096, ok 0, p, p, p, p, ok 0])"

lemma patch_status_is_evidence_witness:
  "\<exists>d w' es. run_patch_quantum ''normal'' ''/t'' sample_cell (boot sample_quantum) = Some ((0, d), w') \<and>
    c_wait_status d = 1 \<and> emits (boot sample_quantum) w' es \<and> patched es"
proof -
  have [simp]: "length (window_of b) = 4096" "list_all (\<lambda>x. x = b) (window_of b)" for b
    by (simp_all add: window_of_def list_all_iff)
  obtain d w' where run: "run_patch_quantum ''normal'' ''/t'' sample_cell (boot sample_quantum) = Some ((0, d), w')"
    and d: "c_wait_status d = 1"
    by (simp cong: bind_option_cong_code add: run_patch_quantum_def now_ns_def precheck_hook_def interferes_def
        verify_patch_def boot_def sample_quantum_def close_with_def out_def Let_def)
  have "c_wait_status sample_cell = 0" by (simp add: sample_cell_def)
  from patch_status_is_evidence [OF run this] run d show ?thesis by auto
qed

end
