(* ===== verification/Custody_Ledger.thy ===== *)
theory Custody_Ledger
  imports Custody_Patch
begin

text \<open>
  The descriptors of a cell over its operations: every operation opens and closes exactly the
  descriptors by which what the cell holds changes.  \<open>ledger c d es\<close> says so of one run, from
  the cell \<open>c\<close> to the cell \<open>d\<close> with the calls \<open>es\<close>.
\<close>

definition fds :: "cell \<Rightarrow> int \<times> int \<times> int \<times> int" where
  "fds c = (c_spool_a c, c_spool_b c, c_pipe_a c, c_pipe_b c)"

lemma fds_update [simp]:
  "fds (c\<lparr>c_state := a\<rparr>) = fds c" "fds (c\<lparr>c_flags := b\<rparr>) = fds c" "fds (c\<lparr>c_bytes_a := x\<rparr>) = fds c"
  "fds (c\<lparr>c_bytes_b := x\<rparr>) = fds c" "fds (c\<lparr>c_deadline_ns := x\<rparr>) = fds c" "fds (c\<lparr>c_grace_deadline_ns := x\<rparr>) = fds c"
  "fds (c\<lparr>c_callbacks := x\<rparr>) = fds c" "fds (c\<lparr>c_completed_ns := x\<rparr>) = fds c" "fds (c\<lparr>c_started_ns := x\<rparr>) = fds c"
  "fds (c\<lparr>c_root_reaped := d\<rparr>) = fds c" "fds (c\<lparr>c_wait_status := i\<rparr>) = fds c" "fds (c\<lparr>c_easy := i\<rparr>) = fds c"
  "fds (c\<lparr>c_terminal_seen := d\<rparr>) = fds c" "fds (c\<lparr>c_root_pid := i\<rparr>) = fds c" "fds (c\<lparr>c_process_group := i\<rparr>) = fds c"
  "fds (c\<lparr>c_attempt_id := x\<rparr>) = fds c" "fds (c\<lparr>c_operation_id := x\<rparr>) = fds c" "fds (set_flag f c) = fds c"
  "fds (add_bytes first x c) = fds c"
  by (simp_all add: fds_def set_flag_def add_bytes_def)

lemma held_fds: "fds d = fds c \<Longrightarrow> held d = held c"
  by (simp add: fds_def held_def)

definition fd_ledger :: "cell \<Rightarrow> cell \<Rightarrow> (call \<times> reply) list \<Rightarrow> bool" where
  "fd_ledger c d es \<longleftrightarrow> (\<forall>x \<ge> 0. fd_net es x = int (count_list (held d) x) - int (count_list (held c) x))"

definition ledger :: "cell \<Rightarrow> cell \<Rightarrow> (call \<times> reply) list \<Rightarrow> bool" where
  "ledger c d es \<longleftrightarrow> fd_ledger c d es \<and> commits es = 0"

lemmas ledger_defs = ledger_def fd_ledger_def

lemma ledger_refl [simp]: "ledger c c []"
  by (simp add: ledger_defs)

lemma ledger_trans: "ledger c d es \<Longrightarrow> ledger d e fs \<Longrightarrow> ledger c e (es @ fs)"
  by (auto simp: ledger_defs)

lemma ledger_inert: "inert es \<Longrightarrow> fds d = fds c \<Longrightarrow> ledger c d es"
  by (simp add: ledger_defs held_fds [of d c] inert_fds inert_commits)

lemma ledger_inert_before: "inert es \<Longrightarrow> ledger c d fs \<Longrightarrow> ledger c d (es @ fs)"
  by (auto simp: ledger_defs inert_fds inert_commits)

lemma ledger_to: "fds d' = fds d \<Longrightarrow> ledger c d' es = ledger c d es"
  by (simp add: ledger_defs held_fds [of d' d])

lemma ledger_set_flag [simp]: "ledger c (set_flag f d) es = ledger c d es"
  by (rule ledger_to) simp

lemma ledger_event [simp]:
  "ledger c d ((Env (Curl v), r) # es) = ledger c d es" "ledger c d ((Env (Query v), r) # es) = ledger c d es"
  "ledger c d ((Io q, r) # es) = ledger c d es" "ledger c d ((Proc p, r) # es) = ledger c d es"
  by (simp_all add: ledger_defs)

section \<open>The operations of one cell\<close>

lemma inert_now_ns: "runs now_ns uncommitted"
  by (rule uncommitted_now_ns)

lemma inert_writes_only: "writes_only fd es \<Longrightarrow> inert es"
  by (induction es) auto

lemma inert_write_all: "runs (write_all fd bytes) uncommitted"
  by (rule runs_weaken [OF wa.exact]) (auto simp: write_spec_def intro: inert_writes_only)

lemma inert_truncate_if: "runs (truncate_if fd) uncommitted"
  unfolding truncate_if_def by (intro runs_rules) simp_all

lemma inert_discard: "runs (discard_cell_output s) (\<lambda>t es. inert es \<and> fds (snd t) = fds (snd s))"
proof -
  obtain rt c where s: "s = (rt, c)" by (cases s)
  show ?thesis
    unfolding discard_cell_output_def s prod.case by (intro runs_bind [OF inert_truncate_if] runs_rules) simp
qed

lemma inert_fail_storage: "runs (fail_storage s len) (\<lambda>t es. inert es \<and> fds (snd t) = fds (snd s))"
proof -
  obtain rt c where s: "s = (rt, c)" by (cases s)
  show ?thesis
    unfolding fail_storage_def s prod.case by (rule runs_weaken [OF inert_discard]) simp
qed

lemma fds_charge_scratch: "charge_scratch s len = (b, rt, c) \<Longrightarrow> fds c = fds (snd s)"
  by (cases s) (auto simp: charge_scratch_def Let_def split: if_splits)

lemma inert_model_write: "runs (model_write bytes s) (\<lambda>x es. inert es \<and> fds (snd (snd x)) = fds (snd s))"
proof -
  obtain charged rt c where ch: "charge_scratch s (word_of_nat (length bytes)) = (charged, rt, c)"
    by (metis prod_cases3)
  show ?thesis
    unfolding model_write_def Let_def ch prod.case
    by (intro runs_if runs_bind [OF inert_now_ns] runs_bind [OF inert_write_all] runs_bind [OF inert_discard]
        runs_bind [OF inert_fail_storage] runs_rules) (simp_all add: fds_charge_scratch [OF ch])
qed

lemma inert_request_end: "runs (request_end s) (\<lambda>t es. inert es \<and> fds (snd t) = fds (snd s))"
proof -
  obtain rt c where s: "s = (rt, c)" by (cases s)
  show ?thesis
    unfolding request_end_def s prod.case by (intro runs_bind [OF inert_now_ns] runs_rules) simp_all
qed

lemma inert_take_window: "runs (take_window first bytes s) (\<lambda>t es. inert es \<and> fds (snd t) = fds (snd s))"
proof -
  obtain charged rt c where ch: "charge_scratch s (word_of_nat (length bytes)) = (charged, rt, c)"
    by (metis prod_cases3)
  show ?thesis
    unfolding take_window_def Let_def ch prod.case
    by (intro runs_if runs_bind [OF inert_now_ns] runs_bind [OF inert_write_all] runs_bind [OF inert_discard]
        runs_bind [OF inert_fail_storage] runs_weaken [OF inert_request_end] runs_rules)
      (simp_all add: fds_charge_scratch [OF ch])
qed

lemma ledger_drop_pipe: "pipe_of first c = p \<Longrightarrow> ledger c (drop_pipe first c) [(Fd (Close p), r)]"
  by (cases first) (auto simp: ledger_defs held_def pipe_of_def drop_pipe_def)

lemma ledger_drain_step: "runs (drain_step first s) (\<lambda>x es. ledger (snd s) (snd (snd x)) es)"
proof -
  have drop: "ledger (snd s) (drop_pipe first (snd s)) [(Fd (Close (pipe_of first (snd s))), r)]" for r
    by (rule ledger_drop_pipe) simp
  show ?thesis
    unfolding drain_step_def
    by (intro runs_bind [OF inert_take_window] runs_rules) (simp_all add: ledger_inert drop)
qed

lemma ledger_drain_pipe: "runs (drain_pipe first s) (\<lambda>t es. ledger (snd s) (snd t) es)"
proof (rule runsI)
  fix w t w'
  assume "drain_pipe first s w = Some (t, w')"
  then show "\<exists>es. emits w w' es \<and> ledger (snd s) (snd t) es"
  proof (induction first s w rule: drain_pipe.induct)
    case (1 first s w)
    from "1.prems" obtain more s1 w1 where d: "drain_step first s w = Some ((more, s1), w1)"
      by (auto simp: drain_pipe.simps [of first s w] split: option.splits)
    from runsD [OF ledger_drain_step d] obtain es where es: "emits w w1 es" "ledger (snd s) (snd s1) es" by auto
    show ?case
    proof (cases more)
      case True
      with "1.prems" d have "drain_pipe first s1 w1 = Some (t, w')"
        by (simp add: drain_pipe.simps [of first s w])
      with "1.IH" d True obtain fs where "emits w1 w' fs" "ledger (snd s1) (snd t) fs" by blast
      with es show ?thesis by (blast intro: emits_trans ledger_trans)
    next
      case False
      with "1.prems" d have "t = s1" "w' = w1" by (simp_all add: drain_pipe.simps [of first s w])
      with es show ?thesis by blast
    qed
  qed
qed

lemma inert_seal_cell: "runs (seal_cell s) (\<lambda>t es. inert es \<and> fds (snd t) = fds (snd s) \<and> c_state (snd t) = Sealed)"
proof -
  obtain rt c where s: "s = (rt, c)" by (cases s)
  show ?thesis
    unfolding seal_cell_def s prod.case by (intro runs_bind [OF inert_now_ns] runs_rules) simp_all
qed

lemma inert_term_due: "runs (term_due at s) (\<lambda>t es. inert es \<and> fds (snd t) = fds (snd s))"
proof -
  obtain rt c where s: "s = (rt, c)" by (cases s)
  show ?thesis unfolding term_due_def s prod.case by (intro runs_rules) simp_all
qed

lemma inert_kill_due: "runs (kill_due at s) (\<lambda>t es. inert es \<and> fds (snd t) = fds (snd s))"
proof -
  obtain rt c where s: "s = (rt, c)" by (cases s)
  show ?thesis unfolding kill_due_def s prod.case by (intro runs_rules) simp_all
qed

lemma inert_reap_root: "runs (reap_root at s) (\<lambda>t es. inert es \<and> fds (snd t) = fds (snd s))"
proof -
  obtain rt c where s: "s = (rt, c)" by (cases s)
  show ?thesis unfolding reap_root_def s prod.case by (intro runs_rules) simp_all
qed

lemma ledger_close_pipe: "runs (close_pipe first c) (\<lambda>d es. ledger c d es)"
  unfolding close_pipe_def by (intro runs_rules) (simp_all add: ledger_drop_pipe)

lemma ledger_expire_pipes: "runs (expire_pipes at s) (\<lambda>t es. ledger (snd s) (snd t) es)"
proof -
  obtain rt c where s: "s = (rt, c)" by (cases s)
  show ?thesis
    unfolding expire_pipes_def s prod.case
    by (intro runs_bind [OF ledger_close_pipe] runs_rules)
      (auto intro: ledger_trans)
qed

lemma ledger_bash_terminal: "runs (bash_terminal s) (\<lambda>x es. ledger (snd s) (snd (snd x)) es)"
proof -
  have inert: "runs f (\<lambda>t es. ledger (snd s) (snd t) es)" if "runs f (\<lambda>t es. inert es \<and> fds (snd t) = fds (snd s))" for f s
    by (rule runs_weaken [OF that]) (simp add: ledger_inert)
  show ?thesis
    unfolding bash_terminal_def
    by (intro runs_bind [OF inert_now_ns] runs_bind [OF inert [OF inert_term_due]] runs_bind [OF inert [OF inert_kill_due]]
        runs_bind [OF inert [OF inert_reap_root]] runs_bind [OF ledger_expire_pipes] runs_rules)
      (auto intro: ledger_inert_before ledger_trans)
qed

lemma inert_close_fd_if: "runs (close_fd_if fd) (\<lambda>_ es. commits es = 0)"
  unfolding close_fd_if_def by (intro runs_rules) simp_all

lemma commits_release: "runs (release_cell s) (\<lambda>_ es. commits es = 0)"
proof -
  obtain rt c where s: "s = (rt, c)" by (cases s)
  show ?thesis
    unfolding release_cell_def s prod.case by (intro runs_bind [OF inert_close_fd_if] runs_rules) simp_all
qed

lemma ledger_release_cell: "runs (release_cell s) (\<lambda>t es. snd t = vacate (snd s) \<and> ledger (snd s) (snd t) es)"
proof -
  have "held (vacate c) = []" for c by (simp add: held_def vacate_def)
  then show ?thesis
    by (intro runs_weaken [OF runs_both [OF runs_release_closes commits_release]])
      (auto simp: released_def ledger_defs split: prod.splits)
qed

section \<open>The durable side and the patch lane\<close>

lemma ledger_settlement:
  assumes "settlement c e d es"
  shows "fd_ledger c d es"
proof -
  from assms obtain v where "d = c\<lparr>c_terminal_seen := v\<rparr>" by (auto simp: settlement_def validated_def)
  then have "fds d = fds c" by simp
  moreover have "fd_net es x = 0" for x using assms by (simp add: settlement_def settled_def)
  ultimately show ?thesis by (simp add: fd_ledger_def held_fds [of d c])
qed

lemma ledger_settle: "runs (settle cells path pk s) (\<lambda>x es. fd_ledger (snd s) (snd (snd (snd x))) es)"
  by (rule runs_weaken [OF runs_settle]) (rule ledger_settlement)

lemma inert_sql: "statement \<noteq> ''COMMIT'' \<Longrightarrow> runs (sql_exec statement) uncommitted"
  unfolding sql_exec_def by (intro runs_rules) simp_all

lemma fds_admitted: "admitted ident c e d es \<Longrightarrow> fds d = fds c"
  by (auto simp: admitted_def split: if_splits)

lemma netless_sql_exec: "runs (sql_exec statement) (\<lambda>_ es. \<forall>x. fd_net es x = 0)"
  unfolding sql_exec_def by (intro runs_rules) simp

lemma ledger_admit: "runs (admit ident c) (\<lambda>x es. fd_ledger c (snd x) es)"
  unfolding admit_def
  by (intro runs_bind [OF netless_sql_exec] runs_rules) (simp_all add: fd_ledger_def held_def)

lemma ledger_same_but_status:
  assumes "same_but_status c d" and "\<forall>x. fd_net es x = 0" and "commits es = 0"
  shows "ledger c d es"
proof -
  have "fds d = fds c" using assms(1) by (simp add: same_but_status_def fds_def)
  with assms(2,3) show ?thesis by (simp add: ledger_defs held_fds [of d c])
qed

lemma ledger_quantum:
  assumes "c_wait_status c = 0"
  shows "runs (run_patch_quantum fixture target c) (\<lambda>x es. ledger c (snd x) es \<and> same_but_status c (snd x))"
  by (rule runs_weaken [OF runs_both [OF runs_quantum [OF assms] status_quantum]])
    (auto simp: quantum_evidence_def intro: ledger_same_but_status)

end
