(* ===== verification/Custody_Lanes.thy ===== *)
theory Custody_Lanes
  imports Custody_Ledger Host_Launch
begin

text \<open>
  The lanes of \<open>integrated_capacity.c\<close> that work on the table of cells: starting a shell or a
  transport for an admitted attempt, the reactor's passes and loop, the readiness wait, and the
  owner's sweep.  The state codes transfer a cell between the lanes: \<open>lane_step\<close> is what one
  lane does to one cell in the state that makes the cell its own, and a run of the program, seen
  from the table, is some interleaving of such steps.
\<close>

section \<open>Starting a shell\<close>

text \<open>The result and the two ends; \<open>F_GETFL\<close> is a call of its own.\<close>

definition close_pair :: "int \<Rightarrow> int \<Rightarrow> 'r \<Rightarrow> world \<Rightarrow> ('r \<times> world) option" where
  "close_pair a b x w = do {
     (_, w) \<leftarrow> sys (Fd (Close a)) w;
     (_, w) \<leftarrow> sys (Fd (Close b)) w;
     Some (x, w)
   }"

definition nonblocking_pipe :: "world \<Rightarrow> ((int \<times> int \<times> int) \<times> world) option" where
  "nonblocking_pipe w = do {
     (p, w) \<leftarrow> sys (Fd Pipe) w;
     if r_ret p \<noteq> 0 then Some ((-1, -1, -1), w)
     else do {
       (_, w) \<leftarrow> sys (Env (Query ''F_GETFL'')) w;
       (n, w) \<leftarrow> sys (Fd (Set_nonblock (out 0 p))) w;
       if r_ret n \<noteq> 0 then close_pair (out 0 p) (out 1 p) (-1, out 0 p, out 1 p) w
       else do {
         (a, w) \<leftarrow> sys (Fd (Set_cloexec (out 0 p))) w;
         if r_ret a \<noteq> 0 then close_pair (out 0 p) (out 1 p) (-1, out 0 p, out 1 p) w
         else do {
           (b, w) \<leftarrow> sys (Fd (Set_cloexec (out 1 p))) w;
           if r_ret b \<noteq> 0 then close_pair (out 0 p) (out 1 p) (-1, out 0 p, out 1 p) w
           else Some ((0, out 0 p, out 1 p), w)
         }
       }
     }
   }"

text \<open>The child between \<open>fork\<close> and the execution of the fixture.\<close>

definition bash_child :: "string \<Rightarrow> int \<Rightarrow> int \<Rightarrow> int \<Rightarrow> int \<Rightarrow> world \<Rightarrow> ('a process \<times> world) option" where
  "bash_child self out_r out_w err_r err_w w = do {
     (_, w) \<leftarrow> sys (Proc (Setpgid 0 0)) w;
     (_, w) \<leftarrow> sys (Fd (Dup2 out_w 1)) w;
     (_, w) \<leftarrow> sys (Fd (Dup2 err_w 2)) w;
     (_, w) \<leftarrow> close_pair out_r out_w () w;
     (_, w) \<leftarrow> close_pair err_r err_w () w;
     (x, w) \<leftarrow> sys (Proc (Execve self)) w;
     Some (if r_ret x < 0 then Gone 127 else Became self, w)
   }"

text \<open>The parent once the child runs.\<close>

definition adopt_child :: "int \<Rightarrow> int \<Rightarrow> int \<Rightarrow> int \<Rightarrow> int \<Rightarrow> custody \<Rightarrow> world \<Rightarrow> (cell \<times> world) option" where
  "adopt_child pid out_r out_w err_r err_w s w = (case s of (rt, c) \<Rightarrow> do {
     (_, w) \<leftarrow> sys (Proc (Setpgid pid pid)) w;
     (_, w) \<leftarrow> close_pair out_w err_w () w;
     let c = c\<lparr>c_pipe_a := out_r, c_pipe_b := err_r, c_root_pid := pid, c_process_group := pid\<rparr>;
     if rt_bash_cancel_after_ns rt \<noteq> 0 then do {
       (at, w) \<leftarrow> now_ns w;
       Some (c\<lparr>c_deadline_ns := at + rt_bash_cancel_after_ns rt\<rparr>, w)
     }
     else Some (c, w)
   })"

definition spawn_bash :: "bool \<Rightarrow> string \<Rightarrow> custody \<Rightarrow> world \<Rightarrow> ((int \<times> cell) process \<times> world) option" where
  "spawn_bash nocache self s w = (case s of (rt, c) \<Rightarrow> do {
     ((p, out_r, out_w), w) \<leftarrow> nonblocking_pipe w;
     if p \<noteq> 0 then Some (Here (-1, c), w)
     else do {
       ((q, err_r, err_w), w) \<leftarrow> nonblocking_pipe w;
       if q \<noteq> 0 then close_pair out_r out_w (Here (-1, c)) w
       else do {
         (a, w) \<leftarrow> open_unlinked_spool nocache w;
         (b, w) \<leftarrow> open_unlinked_spool nocache w;
         let c = c\<lparr>c_spool_a := a, c_spool_b := b\<rparr>;
         if a < 0 \<or> b < 0 then do {
           (_, w) \<leftarrow> close_pair out_r out_w () w;
           close_pair err_r err_w (Here (-1, c)) w
         }
         else do {
           (f, w) \<leftarrow> sys (Proc Fork) w;
           if r_ret f < 0 then do {
             (_, w) \<leftarrow> close_pair out_r out_w () w;
             close_pair err_r err_w (Here (-1, c)) w
           }
           else if r_ret f = 0 then bash_child self out_r out_w err_r err_w w
           else do {
             (c, w) \<leftarrow> adopt_child (r_ret f) out_r out_w err_r err_w (rt, c) w;
             Some (Here (0, c), w)
           }
         }
       }
     }
   })"

section \<open>Starting a transport\<close>

definition model_options :: "string list" where
  "model_options = [''URL'', ''CAINFO'', ''HTTP_VERSION'', ''WRITEFUNCTION'', ''WRITEDATA'', ''READFUNCTION'', ''READDATA'',
     ''POST'', ''POSTFIELDSIZE_LARGE'', ''NOSIGNAL'', ''NOPROXY'', ''FRESH_CONNECT'', ''FORBID_REUSE'', ''TIMEOUT'']"

fun set_options :: "string list \<Rightarrow> world \<Rightarrow> (int \<times> world) option" where
  "set_options [] w = Some (0, w)"
| "set_options (x # xs) w = do {
     (r, w) \<leftarrow> sys (Env (Curl x)) w;
     if r_ret r \<noteq> 0 then Some (-1, w) else set_options xs w
   }"

definition configure_model :: "bool \<Rightarrow> custody \<Rightarrow> world \<Rightarrow> ((int \<times> cell) \<times> world) option" where
  "configure_model nocache s w = (case s of (rt, c) \<Rightarrow> do {
     (a, w) \<leftarrow> open_unlinked_spool nocache w;
     let c = c\<lparr>c_spool_a := a\<rparr>;
     if a < 0 then Some ((-1, c), w)
     else do {
       (e, w) \<leftarrow> sys (Env (Curl ''easy_init'')) w;
       let c = c\<lparr>c_easy := r_ret e\<rparr>;
       if r_ret e = 0 then Some ((-1, c), w)
       else do {
         (x, w) \<leftarrow> set_options model_options w;
         Some ((x, c), w)
       }
     }
   })"

section \<open>The reactor's dispatch\<close>

text \<open>The fixed configuration the lanes read.\<close>

record config =
  cf_nocache :: bool
  cf_self :: string
  cf_fixture :: string
  cf_target :: string
  cf_database :: "byte list"
  cf_inject_fatal_after :: u64

definition seal_failed :: "custody \<Rightarrow> world \<Rightarrow> (custody \<times> world) option" where
  "seal_failed s w = (case s of (rt, c) \<Rightarrow> seal_cell (rt, set_flag FLAG_PREPARATION_FAILED c) w)"

text \<open>The child's run ends in \<open>spawn_bash\<close>; the reactor's runs are the parent's.\<close>

definition start_cell :: "config \<Rightarrow> custody \<Rightarrow> world \<Rightarrow> ((int \<times> cell) \<times> world) option" where
  "start_cell cf s w = (if c_kind (snd s) = Model then configure_model (cf_nocache cf) s w
     else do {
       (p, w) \<leftarrow> spawn_bash (cf_nocache cf) (cf_self cf) s w;
       case p of Here x \<Rightarrow> Some (x, w) | Gone _ \<Rightarrow> None | Became _ \<Rightarrow> None
     })"

definition dispatch_cell :: "config \<Rightarrow> custody \<Rightarrow> world \<Rightarrow> (custody \<times> world) option" where
  "dispatch_cell cf s w = (case s of (rt, c) \<Rightarrow>
     if c_kind c \<noteq> Patch \<and> c_state c = Dispatchable then do {
       (at, w) \<leftarrow> now_ns w;
       ((e, c), w) \<leftarrow> start_cell cf (rt, c\<lparr>c_state := Active, c_started_ns := at\<rparr>) w;
       if e \<noteq> 0 then seal_failed (rt, c) w
       else if c_kind c = Model then do {
         (a, w) \<leftarrow> sys (Env (Curl ''multi_add_handle'')) w;
         if r_ret a \<noteq> 0 then seal_failed (rt, c) w else Some ((rt, c), w)
       }
       else Some ((rt, c), w)
     }
     else Some ((rt, c), w))"

text \<open>A finished transfer: mark a failure, drop the handle, seal.\<close>

definition complete_model :: "int \<Rightarrow> custody \<Rightarrow> world \<Rightarrow> (custody \<times> world) option" where
  "complete_model result s w = (case s of (rt, c) \<Rightarrow> do {
     let c = (if result \<noteq> 0 then set_flag FLAG_TRANSPORT_FAILURE c else c);
     (_, w) \<leftarrow> sys (Env (Curl ''multi_remove_handle'')) w;
     (_, w) \<leftarrow> sys (Env (Curl ''easy_cleanup'')) w;
     seal_cell (rt, c\<lparr>c_easy := 0\<rparr>) w
   })"

definition check_bash :: "custody \<Rightarrow> world \<Rightarrow> (custody \<times> world) option" where
  "check_bash s w =
     (if c_kind (snd s) = Bash \<and> c_state (snd s) = Active then do {
        ((terminal, s), w) \<leftarrow> bash_terminal s w;
        if terminal then seal_cell s w else Some (s, w)
      }
      else Some (s, w))"

section \<open>What a step on one cell keeps\<close>

text \<open>It keeps the accounts, opens and closes what it changes in the cell, and commits nothing.\<close>

definition sound :: "custody \<Rightarrow> custody \<Rightarrow> (call \<times> reply) list \<Rightarrow> bool" where
  "sound s t es \<longleftrightarrow> keeps_accounts s t \<and> ledger (snd s) (snd t) es"

lemma sound_refl [simp]: "sound s s []"
  by (simp add: sound_def)

lemma sound_trans: "sound s t es \<Longrightarrow> sound t u fs \<Longrightarrow> sound s u (es @ fs)"
  by (auto simp: sound_def ledger_defs intro: keeps_accounts_trans)

lemma sound_calls [simp]:
  "sound s t ((Env (Curl v), r) # es) = sound s t es" "sound s t ((Env (Query v), r) # es) = sound s t es"
  "sound s t ((Proc p, r) # es) = sound s t es"
  by (simp_all add: sound_def)

lemma sound_seal_cell: "runs (seal_cell s) (\<lambda>t es. sound s t es \<and> c_state (snd t) = Sealed)"
  by (rule runs_weaken [OF runs_both [OF keeping_seal_cell inert_seal_cell]]) (simp add: sound_def ledger_inert)

lemma sound_model_write: "runs (model_write bytes s) (\<lambda>x es. sound s (snd x) es)"
  by (rule runs_weaken [OF runs_both [OF keeping_model_write inert_model_write]]) (simp add: sound_def ledger_inert)

lemma sound_drain_pipe: "runs (drain_pipe first s) (sound s)"
  by (rule runs_weaken [OF runs_both [OF keeping_drain_pipe ledger_drain_pipe]]) (simp add: sound_def)

lemma sound_bash_terminal: "runs (bash_terminal s) (\<lambda>x es. sound s (snd x) es)"
  by (rule runs_weaken [OF runs_both [OF keeping_bash_terminal ledger_bash_terminal]]) (simp add: sound_def)

lemma sound_release_cell: "runs (release_cell s) (\<lambda>t es. sound s t es \<and> snd t = vacate (snd s))"
  by (rule runs_weaken [OF runs_both [OF keeping_release_cell ledger_release_cell]]) (auto simp: sound_def)

section \<open>What a start leaves\<close>

text \<open>From a cell that holds no descriptor: it holds exactly what was opened, and only its
  descriptors, its handle, its process and its deadline changed.\<close>

definition begun :: "cell \<Rightarrow> cell \<Rightarrow> (call \<times> reply) list \<Rightarrow> bool" where
  "begun c d es \<longleftrightarrow> (\<forall>x \<ge> 0. fd_net es x = int (count_list (held d) x)) \<and> commits es = 0 \<and>
     c_bytes_a d = c_bytes_a c \<and> c_bytes_b d = c_bytes_b c \<and> c_kind d = c_kind c \<and> c_state d = c_state c"

lemma begun_sound: "begun c d es \<Longrightarrow> held c = [] \<Longrightarrow> sound (rt, c) (rt, d) es"
  by (auto simp: begun_def sound_def ledger_defs intro!: keeps_accounts_same)

text \<open>Calls that commit nothing, with what they open and close.\<close>

abbreviation nets :: "(int \<Rightarrow> int) \<Rightarrow> (call \<times> reply) list \<Rightarrow> bool" where
  "nets f es \<equiv> (\<forall>x. fd_net es x = f x) \<and> commits es = 0"

lemma runs_close_pair: "runs (close_pair a b y) (\<lambda>z es. z = y \<and> nets (\<lambda>x. - of_bool (a = x) - of_bool (b = x)) es)"
  unfolding close_pair_def by (intro runs_rules) simp

lemma runs_nonblocking_pipe:
  "runs nonblocking_pipe (\<lambda>(p, a, b) es. nets (\<lambda>x. of_bool (p = 0 \<and> a = x) + of_bool (p = 0 \<and> b = x)) es \<and>
     (p = 0 \<longrightarrow> 0 \<le> a \<and> 0 \<le> b))"
  unfolding nonblocking_pipe_def
  by (intro runs_weaken [OF runs_close_pair] runs_rules) (auto simp: fails_def)

lemma runs_open_spool:
  "runs (open_unlinked_spool nocache) (\<lambda>f es. nets (\<lambda>x. of_bool (0 \<le> f \<and> f = x)) es \<and> -1 \<le> f)"
  unfolding open_unlinked_spool_def by (intro runs_rules) (auto simp: fails_def)

lemma runs_adopt_child:
  "runs (adopt_child pid a b p q (rt, c)) (\<lambda>d es. nets (\<lambda>x. - of_bool (b = x) - of_bool (q = x)) es \<and>
     fds d = (c_spool_a c, c_spool_b c, a, p) \<and> c_bytes_a d = c_bytes_a c \<and> c_bytes_b d = c_bytes_b c \<and> c_kind d = c_kind c \<and>
     c_state d = c_state c)"
  unfolding adopt_child_def prod.case
  by (intro runs_bind [OF runs_close_pair] runs_bind [OF uncommitted_now_ns] runs_rules)
    (auto simp: fds_def inert_fds inert_commits)

lemma held_empty: "held c = [] \<longleftrightarrow> c_spool_a c < 0 \<and> c_spool_b c < 0 \<and> c_pipe_a c < 0 \<and> c_pipe_b c < 0"
  by (auto simp: held_def)

lemma begun_spawn_bash:
  assumes "held c = []"
  shows "runs (spawn_bash nocache self (rt, c)) (\<lambda>p es. \<forall>e d. p = Here (e, d) \<longrightarrow> begun c d es)"
proof -
  have child: "runs (bash_child self a b p q) (\<lambda>z es. \<forall>e d. z \<noteq> Here (e :: int, d :: cell))" for a b p q
    unfolding bash_child_def by (intro runs_bind [OF runs_close_pair] runs_rules) auto
  show ?thesis
    unfolding spawn_bash_def prod.case
    by (intro runs_bind [OF runs_nonblocking_pipe] runs_bind [OF runs_close_pair] runs_bind [OF runs_open_spool]
        runs_bind [OF runs_adopt_child] runs_weaken [OF runs_close_pair] runs_weaken [OF child] runs_rules)
      (use assms in \<open>auto simp: begun_def held_count held_empty fds_def split: if_splits\<close>)
qed

lemma inert_set_options: "runs (set_options xs) uncommitted"
proof (induction xs)
  case Nil
  have "runs (\<lambda>w. Some (0 :: int, w)) uncommitted" by (intro runs_rules) simp
  then show ?case by simp
next
  case (Cons x xs)
  have "runs (\<lambda>w. set_options (x # xs) w) uncommitted"
    unfolding set_options.simps by (intro runs_weaken [OF Cons] runs_rules) simp_all
  then show ?case .
qed

lemma begun_configure_model:
  assumes "held c = []"
  shows "runs (configure_model nocache (rt, c)) (\<lambda>x es. begun c (snd x) es)"
  unfolding configure_model_def prod.case
  by (intro runs_bind [OF runs_open_spool] runs_bind [OF inert_set_options] runs_rules)
    (use assms in \<open>auto simp: begun_def held_count held_empty inert_fds inert_commits\<close>)

lemma begun_start_cell:
  assumes "held c = []"
  shows "runs (start_cell cf (rt, c)) (\<lambda>x es. begun c (snd x) es)"
proof -
  have "runs (\<lambda>w. case p of Here x \<Rightarrow> Some (x, w) | Gone a \<Rightarrow> None | Became b \<Rightarrow> None)
      (\<lambda>y fs. begun c (snd y) (es @ fs))" if "\<forall>e d. p = Here (e, d) \<longrightarrow> begun c d es"
    for p :: "(int \<times> cell) process" and es
    using that by (cases p) (auto intro!: runs_ret runs_none)
  then show ?thesis
    unfolding start_cell_def
    by (intro runs_weaken [OF begun_configure_model [OF assms]] runs_bind [OF begun_spawn_bash [OF assms]] runs_rules)
      simp_all
qed

lemma sound_seal_failed: "runs (seal_failed s) (\<lambda>t es. sound s t es \<and> c_state (snd t) = Sealed)"
proof -
  obtain rt c where s: "s = (rt, c)" by (cases s)
  have "sound (rt, c) (rt, set_flag 2 c) []"
    by (auto simp: sound_def ledger_defs held_fds [of "set_flag 2 c" c] intro!: keeps_accounts_same)
  from sound_trans [OF this] show ?thesis
    unfolding seal_failed_def s prod.case by (intro runs_weaken [OF sound_seal_cell]) auto
qed

text \<open>A cell of a lane that works on it: active or, when the lane is done, sealed.\<close>

definition working :: "cell \<Rightarrow> bool" where
  "working c \<longleftrightarrow> c_state c = Active \<or> c_state c = Sealed"

definition works :: "custody \<Rightarrow> custody \<Rightarrow> (call \<times> reply) list \<Rightarrow> bool" where
  "works s t es \<longleftrightarrow> sound s t es \<and> working (snd t)"

lemma works_then:
  "works s t es \<Longrightarrow> sound t u fs \<and> c_state (snd u) = Sealed \<Longrightarrow> works s u (es @ fs)"
  by (auto simp: works_def working_def intro: sound_trans)

lemma runs_dispatch_cell:
  assumes "c_kind c \<noteq> Patch" and "c_state c = Dispatchable" and "held c = []"
  shows "runs (dispatch_cell cf (rt, c)) (works (rt, c))"
proof -
  let ?c = "\<lambda>at. c\<lparr>c_state := Active, c_started_ns := at\<rparr>"
  have empty: "held (?c at) = []" for at using assms(3) by (simp add: held_def)
  have start: "works (rt, c) (rt, d) (es @ fs)" if "inert es" "begun (?c at) d fs" for es fs at d
    using that assms(3)
    by (auto simp: works_def working_def sound_def ledger_defs begun_def inert_fds inert_commits intro!: keeps_accounts_same)
  have failed: "works (rt, c) t (es @ fs @ gs)"
    if "inert es" "begun (?c at) d fs" "sound (rt, d) t gs \<and> c_state (snd t) = Sealed" for es fs gs at d t
    using works_then [OF start [OF that(1,2)] that(3)] by simp
  have refused: "works (rt, c) t (es @ fs @ (Env (Curl v), r) # gs)"
    if "inert es" "begun (?c at) d fs" "sound (rt, d) t gs \<and> c_state (snd t) = Sealed" for es fs gs at d t v r
    using works_then [OF start [OF that(1,2)], of t "(Env (Curl v), r) # gs"] that(3) by simp
  have added: "works (rt, c) (rt, d) (es @ fs @ [(Env (Curl v), r)])"
    if "inert es" "begun (?c at) d fs" for es fs at d v r
    using start [OF that] by (simp add: works_def sound_def ledger_defs)
  show ?thesis
    unfolding dispatch_cell_def prod.case
    by (intro runs_bind [OF uncommitted_now_ns] runs_bind [OF begun_start_cell [OF empty]]
        runs_weaken [OF sound_seal_failed] runs_rules)
      (use assms(1,2) in \<open>auto intro: failed refused added start\<close>)
qed

lemma sound_flags: "sound (rt, c) (rt, set_flag f c) []"
  by (auto simp: sound_def ledger_defs held_fds [of "set_flag f c" c] intro!: keeps_accounts_same)

lemma sound_easy: "sound (rt, c) (rt, c\<lparr>c_easy := h\<rparr>) []"
  by (auto simp: sound_def ledger_defs held_fds [of "c\<lparr>c_easy := h\<rparr>" c] intro!: keeps_accounts_same)

lemma runs_complete_model: "runs (complete_model result (rt, c)) (works (rt, c))"
proof -
  let ?c = "if result \<noteq> 0 then set_flag 32 c else c"
  have "sound (rt, c) (rt, ?c) []" by (simp add: sound_flags)
  from sound_trans [OF this sound_easy] have pre: "sound (rt, c) (rt, ?c\<lparr>c_easy := 0\<rparr>) []" by simp
  have finish: "works (rt, c) t es" if "sound (rt, ?c\<lparr>c_easy := 0\<rparr>) t es \<and> c_state (snd t) = Sealed" for t es
    using sound_trans [OF pre, of t es] that by (simp add: works_def working_def)
  show ?thesis
    unfolding complete_model_def prod.case Let_def
    by (intro runs_weaken [OF sound_seal_cell] runs_rules) (use finish in \<open>auto simp: works_def working_def\<close>)
qed

lemma state_bash_terminal: "runs (bash_terminal s) (\<lambda>x es. c_state (snd (snd x)) = c_state (snd s))"
proof -
  have t: "runs (term_due at s) (\<lambda>t es. c_state (snd t) = c_state (snd s))" for at s
    unfolding term_due_def by (cases s) (simp only: prod.case, intro runs_rules, simp_all add: set_flag_def)
  have k: "runs (kill_due at s) (\<lambda>t es. c_state (snd t) = c_state (snd s))" for at s
    unfolding kill_due_def by (cases s) (simp only: prod.case, intro runs_rules, simp_all add: set_flag_def)
  have r: "runs (reap_root at s) (\<lambda>t es. c_state (snd t) = c_state (snd s))" for at s
    unfolding reap_root_def by (cases s) (simp only: prod.case, intro runs_rules, simp_all)
  have p: "runs (close_pipe first c) (\<lambda>d es. c_state d = c_state c)" for first c
    unfolding close_pipe_def by (intro runs_rules) (simp_all add: drop_pipe_def)
  have e: "runs (expire_pipes at s) (\<lambda>t es. c_state (snd t) = c_state (snd s))" for at s
    unfolding expire_pipes_def
    by (cases s) (simp only: prod.case, intro runs_bind [OF p] runs_rules, simp_all add: set_flag_def)
  show ?thesis
    unfolding bash_terminal_def
    by (intro runs_bind [OF uncommitted_now_ns] runs_bind [OF t] runs_bind [OF k] runs_bind [OF r] runs_bind [OF e]
        runs_rules) simp
qed

lemma runs_check_bash:
  assumes "c_state (snd s) = Active"
  shows "runs (check_bash s) (works s)"
proof -
  have more: "works s t (es @ fs)" if "sound s u es" "sound u t fs" "working (snd t)" for u t es fs
    using sound_trans [OF that(1,2)] that(3) by (simp add: works_def)
  show ?thesis
    unfolding check_bash_def
    by (intro runs_bind [OF runs_both [OF sound_bash_terminal state_bash_terminal]] runs_weaken [OF sound_seal_cell]
        runs_rules)
      (use assms in \<open>auto simp: works_def working_def intro: sound_trans\<close>)
qed

lemma runs_patch_turn:
  assumes "c_state c = Dispatchable" and "c_wait_status c = 0"
  shows "runs (patch_turn fixture target (rt, c)) (works (rt, c))"
proof -
  let ?c = "c\<lparr>c_state := Active\<rparr>"
  have q: "runs (run_patch_quantum fixture target ?c) (\<lambda>x es. sound (rt, c) (rt, snd x) es)"
  proof (rule runs_weaken [OF ledger_quantum])
    show "c_wait_status ?c = 0" using assms(2) by simp
    show "sound (rt, c) (rt, snd x) es" if "ledger ?c (snd x) es \<and> same_but_status ?c (snd x)" for x es
      using that held_fds [of ?c c]
      by (auto simp: sound_def ledger_defs same_but_status_def intro!: keeps_accounts_same)
  qed
  have fin: "works (rt, c) t (es @ fs)"
    if "sound (rt, c) (rt, d) es" "sound (rt, if e \<noteq> 0 then set_flag 2 d else d) t fs" "c_state (snd t) = Sealed"
    for d and e :: int and t es fs
  proof -
    have "sound (rt, d) (rt, if e \<noteq> 0 then set_flag 2 d else d) []" by (simp add: sound_flags)
    from sound_trans [OF this, of t fs] that sound_trans [OF that(1), of t fs] show ?thesis
      by (simp add: works_def working_def)
  qed
  show ?thesis
    unfolding patch_turn_def prod.case
    by (intro runs_bind [OF q] runs_weaken [OF sound_seal_cell] runs_rules)
      (use assms in \<open>auto intro: fin\<close>)
qed

end
