(* ===== verification/Custody_Flow.thy ===== *)
theory Custody_Flow
  imports Custody_Lanes
begin

text \<open>
  The life of an attempt across the lanes of \<open>integrated_capacity.c\<close>.  A step is what one lane
  does to one cell in the state that makes the cell its own: the owner admits into a vacant cell
  and settles a sealed one, the reactor or the patch thread takes a dispatchable one, and the
  lane that took it works on it until it seals it.  Any interleaving of steps of any lanes on
  any cells is a list of steps, each guarded by the state it needs; the owner stops at the first
  admission or settlement that fails.  After a fatal error the reactor gives up the cells it still
  drives and the owner releases what is left: steps that vacate a cell without settling it.
\<close>

section \<open>Steps\<close>

datatype lane_op =
    Lane_admit int
  | Lane_dispatch
  | Lane_patch
  | Lane_deliver "byte list"
  | Lane_drain bool
  | Lane_check
  | Lane_complete int
  | Lane_settle
  | Lane_abandon
  | Lane_reclaim

datatype lane_end = Moved | Admitted | Resolved | Abandoned | Refused

text \<open>What the fatal path does needs only a cell that is in use: a vacant one has neither
  transport nor shell.\<close>

definition enabled :: "lane_op \<Rightarrow> cell \<Rightarrow> bool" where
  "enabled a c \<longleftrightarrow> (case a of
      Lane_admit _ \<Rightarrow> c_state c = Vacant
    | Lane_dispatch \<Rightarrow> c_state c = Dispatchable \<and> c_kind c \<noteq> Patch
    | Lane_patch \<Rightarrow> c_state c = Dispatchable \<and> c_kind c = Patch
    | Lane_deliver _ \<Rightarrow> c_state c = Active \<and> c_kind c = Model
    | Lane_drain first \<Rightarrow> c_state c = Active \<and> c_kind c = Bash \<and> pipe_of first c \<ge> 0
    | Lane_check \<Rightarrow> c_state c = Active \<and> c_kind c = Bash
    | Lane_complete _ \<Rightarrow> c_state c = Active \<and> c_kind c = Model
    | Lane_settle \<Rightarrow> c_state c = Sealed
    | Lane_abandon \<Rightarrow> c_state c \<noteq> Vacant
    | Lane_reclaim \<Rightarrow> c_state c \<noteq> Vacant)"

text \<open>The owner's sweep on one cell: settle, then release; a failed settlement ends the run.\<close>

definition settle_and_release ::
    "config \<Rightarrow> cell list \<Rightarrow> peaks \<Rightarrow> custody \<Rightarrow> world \<Rightarrow> ((lane_end \<times> peaks \<times> custody) \<times> world) option" where
  "settle_and_release cf cells pk s w = do {
     ((e, pk, s), w) \<leftarrow> settle cells (cf_database cf) pk s w;
     if e \<noteq> 0 then Some ((Refused, pk, s), w)
     else do { (s, w) \<leftarrow> release_cell s w; Some ((Resolved, pk, s), w) }
   }"

definition moved :: "peaks \<Rightarrow> (world \<Rightarrow> (custody \<times> world) option) \<Rightarrow> world \<Rightarrow> ((lane_end \<times> peaks \<times> custody) \<times> world) option" where
  "moved pk f w = do { (s, w) \<leftarrow> f w; Some ((Moved, pk, s), w) }"

text \<open>A step of the fatal path; a cell it vacates is abandoned.\<close>

definition given_up :: "peaks \<Rightarrow> (world \<Rightarrow> (custody \<times> world) option) \<Rightarrow> world \<Rightarrow> ((lane_end \<times> peaks \<times> custody) \<times> world) option" where
  "given_up pk f w = do { (s, w) \<leftarrow> f w; Some ((if c_state (snd s) = Vacant then Abandoned else Moved, pk, s), w) }"

definition lane_step ::
    "config \<Rightarrow> cell list \<Rightarrow> peaks \<Rightarrow> lane_op \<Rightarrow> custody \<Rightarrow> world \<Rightarrow> ((lane_end \<times> peaks \<times> custody) \<times> world) option" where
  "lane_step cf cells pk a s w =
     (if \<not> enabled a (snd s) then None
      else case a of
        Lane_admit ident \<Rightarrow> do {
          ((e, c), w) \<leftarrow> admit ident (snd s) w;
          Some ((if e = 0 then Admitted else Refused, pk, fst s, c), w)
        }
      | Lane_dispatch \<Rightarrow> moved pk (dispatch_cell cf s) w
      | Lane_patch \<Rightarrow> moved pk (patch_turn (cf_fixture cf) (cf_target cf) s) w
      | Lane_deliver bytes \<Rightarrow> moved pk (\<lambda>w. do { ((_, s), w) \<leftarrow> model_write bytes s w; Some (s, w) }) w
      | Lane_drain first \<Rightarrow> moved pk (drain_pipe first s) w
      | Lane_check \<Rightarrow> moved pk (check_bash s) w
      | Lane_complete result \<Rightarrow> moved pk (complete_model result s) w
      | Lane_settle \<Rightarrow> settle_and_release cf cells pk s w
      | Lane_abandon \<Rightarrow> given_up pk (abandon_cell s) w
      | Lane_reclaim \<Rightarrow> given_up pk (release_if_held s) w)"

section \<open>What a step keeps\<close>

definition occupied :: "cell \<Rightarrow> nat" where
  "occupied c = of_bool (c_state c \<noteq> Vacant)"

text \<open>A cell no lane works on holds nothing.\<close>

definition dormant :: "cell \<Rightarrow> bool" where
  "dormant c \<longleftrightarrow> (case c_state c of
      Vacant \<Rightarrow> held c = [] \<and> c_wait_status c = 0 \<and> charge c = 0
    | Dispatchable \<Rightarrow> held c = [] \<and> c_wait_status c = 0 \<and> charge c = 0
    | Reserved \<Rightarrow> False
    | _ \<Rightarrow> True)"

definition stepped :: "custody \<Rightarrow> lane_end \<Rightarrow> custody \<Rightarrow> (call \<times> reply) list \<Rightarrow> bool" where
  "stepped s e t es \<longleftrightarrow> keeps_accounts s t \<and> fd_ledger (snd s) (snd t) es \<and> dormant (snd t) \<and>
     commits es = of_bool (e = Admitted) + of_bool (e = Resolved) \<and>
     occupied (snd t) + of_bool (e = Resolved) + of_bool (e = Abandoned) = occupied (snd s) + of_bool (e = Admitted)"

lemma stepped_works:
  "works s t es \<Longrightarrow> c_state (snd s) \<noteq> Vacant \<Longrightarrow> stepped s Moved t es"
  by (auto simp: works_def sound_def stepped_def ledger_def working_def dormant_def occupied_def)

lemma stepped_sound:
  "sound s t es \<Longrightarrow> c_state (snd s) = Active \<Longrightarrow> c_state (snd t) = Active \<Longrightarrow> stepped s Moved t es"
  by (rule stepped_works) (auto simp: works_def working_def)

lemma runs_moved:
  "runs f (\<lambda>t es. stepped s Moved t es) \<Longrightarrow> runs (moved pk f) (\<lambda>(e, _, t) es. stepped s e t es)"
  unfolding moved_def by (erule runs_bind) (intro runs_rules, simp)

lemma state_charge: "charge_scratch s len = (b, rt, c) \<Longrightarrow> c_state c = c_state (snd s)"
  by (cases s) (auto simp: charge_scratch_def set_flag_def Let_def split: if_splits)

lemma state_discard: "runs (discard_cell_output s) (\<lambda>t es. c_state (snd t) = c_state (snd s))"
  by (rule runs_weaken [OF runs_discard]) (auto simp: discarded_def split: prod.splits)

lemma state_fail_storage: "runs (fail_storage s len) (\<lambda>t es. c_state (snd t) = c_state (snd s))"
proof -
  obtain rt c where s: "s = (rt, c)" by (cases s)
  show ?thesis
    unfolding fail_storage_def s prod.case by (rule runs_weaken [OF state_discard]) (simp add: set_flag_def)
qed

lemma state_model_write: "runs (model_write bytes s) (\<lambda>x es. c_state (snd (snd x)) = c_state (snd s))"
proof -
  obtain charged rt c where ch: "charge_scratch s (word_of_nat (length bytes)) = (charged, rt, c)"
    by (metis prod_cases3)
  show ?thesis
    unfolding model_write_def Let_def ch prod.case
    by (intro runs_if runs_bind [OF uncommitted_now_ns] runs_bind [OF inert_write_all] runs_bind [OF state_discard]
        runs_bind [OF state_fail_storage] runs_rules) (simp_all add: state_charge [OF ch])
qed

lemma state_request_end: "runs (request_end s) (\<lambda>t es. c_state (snd t) = c_state (snd s))"
proof -
  obtain rt c where s: "s = (rt, c)" by (cases s)
  show ?thesis
    unfolding request_end_def s prod.case
    by (intro runs_bind [OF uncommitted_now_ns] runs_rules) (simp_all add: set_flag_def)
qed

lemma state_take_window: "runs (take_window first bytes s) (\<lambda>t es. c_state (snd t) = c_state (snd s))"
proof -
  obtain charged rt c where ch: "charge_scratch s (word_of_nat (length bytes)) = (charged, rt, c)"
    by (metis prod_cases3)
  show ?thesis
    unfolding take_window_def Let_def ch prod.case
    by (intro runs_if runs_bind [OF uncommitted_now_ns] runs_bind [OF inert_write_all] runs_bind [OF state_discard]
        runs_bind [OF state_fail_storage] runs_weaken [OF state_request_end] runs_rules)
      (simp_all add: state_charge [OF ch] add_bytes_def)
qed

lemma state_drain_step: "runs (drain_step first s) (\<lambda>x es. c_state (snd (snd x)) = c_state (snd s))"
  unfolding drain_step_def
  by (intro runs_bind [OF state_take_window] runs_rules) (simp_all add: drop_pipe_def)

lemma state_drain_pipe: "runs (drain_pipe first s) (\<lambda>t es. c_state (snd t) = c_state (snd s))"
proof (rule runsI)
  fix w t w'
  assume "drain_pipe first s w = Some (t, w')"
  moreover from runsD [OF keeping_drain_pipe this] obtain es where "emits w w' es" by blast
  moreover have "drain_pipe first s w = Some (t, w') \<Longrightarrow> c_state (snd t) = c_state (snd s)"
  proof (induction first s w rule: drain_pipe.induct)
    case (1 first s w)
    from "1.prems" obtain more s1 w1 where d: "drain_step first s w = Some ((more, s1), w1)"
      by (auto simp: drain_pipe.simps [of first s w] split: option.splits)
    from runsD [OF state_drain_step d] have s1: "c_state (snd s1) = c_state (snd s)" by auto
    show ?case
    proof (cases more)
      case True
      with "1.prems" d have "drain_pipe first s1 w1 = Some (t, w')"
        by (simp add: drain_pipe.simps [of first s w])
      with "1.IH" d True s1 show ?thesis by auto
    next
      case False
      with "1.prems" d s1 show ?thesis by (simp add: drain_pipe.simps [of first s w])
    qed
  qed
  ultimately show "\<exists>es. emits w w' es \<and> c_state (snd t) = c_state (snd s)" by blast
qed

lemma stepped_admitted:
  assumes "admitted ident c e d es" and "fd_ledger c d es" and "c_state c = Vacant" and "dormant c"
  shows "stepped (rt, c) (if e = 0 then Admitted else Refused) (rt, d) es"
  using assms
  by (auto simp: admitted_def stepped_def dormant_def occupied_def held_def charge_def intro!: keeps_accounts_same split: if_splits)

text \<open>The settlement touches no account.\<close>

definition books :: "runtime \<Rightarrow> u64 \<times> u64 \<times> u64" where
  "books rt = (rt_scratch_current rt, rt_effect_output_limit rt, rt_host_scratch_quota rt)"

lemma books_validate: "runs (validate s) (\<lambda>x es. books (fst (snd x)) = books (fst s))"
proof -
  obtain rt c where s: "s = (rt, c)" by (cases s)
  show ?thesis
    unfolding validate_def s prod.case
    by (intro runs_bind [OF uncommitted_search] runs_rules) (simp_all add: books_def Let_def)
qed

lemma books_measure: "runs (measure_storage cells path pk s) (\<lambda>x es. books (snd x) = books (fst s))"
proof -
  obtain rt c where s: "s = (rt, c)" by (cases s)
  show ?thesis
    unfolding measure_storage_def s prod.case
    by (intro runs_bind [OF uncommitted_fd_bytes] runs_bind [OF uncommitted_live]
        runs_bind [OF uncommitted_storage] runs_rules) (simp add: books_def)
qed

lemma books_transaction: "runs (settle_transaction cells path valid pk s) (\<lambda>x es. books (snd (snd x)) = books (fst s))"
proof -
  obtain rt c where s: "s = (rt, c)" by (cases s)
  show ?thesis
    unfolding settle_transaction_def s prod.case
    by (intro runs_bind [OF uncommitted_import_if] runs_bind [OF books_measure] runs_bind [OF runs_insert_row]
        runs_bind [OF runs_sql_exec] runs_rules) simp_all
qed

lemma books_count_bash: "books (count_bash (rt, c)) = books rt"
  by (simp add: count_bash_def books_def)

lemma books_settle: "runs (settle cells path pk s) (\<lambda>x es. books (fst (snd (snd x))) = books (fst s))"
  unfolding settle_def
  by (intro runs_bind [OF books_validate] runs_bind [OF uncommitted_now_ns] runs_bind [OF runs_sql_exec]
      runs_bind [OF books_transaction] runs_bind [OF runs_rollback] runs_rules)
    (auto simp: books_count_bash)

lemma keeps_settlement:
  assumes "books rt' = books rt" and "settlement c e d es"
  shows "keeps_accounts (rt, c) (rt', d)"
proof -
  from assms(2) obtain v where "d = c\<lparr>c_terminal_seen := v\<rparr>" by (auto simp: settlement_def validated_def)
  with assms(1) show ?thesis by (intro keeps_accounts_same) (simp_all add: books_def)
qed

lemma runs_settle_and_release:
  assumes "c_state (snd s) = Sealed"
  shows "runs (settle_and_release cf cells pk s) (\<lambda>(e, _, t) es. stepped s e t es)"
proof -
  obtain rt c where s: "s = (rt, c)" by (cases s)
  have refused: "stepped s Refused (rt', d) es" if "books rt' = books rt" "settlement c e d es" "e \<noteq> 0" for rt' d e es
  proof -
    from that(2,3) have "commits es = 0" by (simp add: settlement_def settled_def)
    moreover from that(2) obtain v where "d = c\<lparr>c_terminal_seen := v\<rparr>"
      by (auto simp: settlement_def validated_def)
    then have "c_state d = c_state c" by simp
    ultimately show ?thesis
      using keeps_settlement [OF that(1,2)] ledger_settlement [OF that(2)] assms
      by (simp add: s stepped_def dormant_def occupied_def)
  qed
  have resolved: "stepped s Resolved t (es @ fs)"
    if "books rt' = books rt" "settlement c 0 d es" "sound (rt', d) t fs" "snd t = vacate d" for rt' d t es fs
  proof -
    have "commits es = 1" using that(2) by (simp add: settlement_def settled_def)
    moreover have "dormant (vacate d)" "c_state (vacate d) = Vacant"
      by (simp_all add: dormant_def vacate_def held_def charge_def)
    moreover have "fd_ledger c (snd t) (es @ fs)"
      using ledger_settlement [OF that(2)] that(3) by (auto simp: sound_def ledger_defs)
    moreover have "commits fs = 0" "keeps_accounts (rt', d) t" using that(3) by (simp_all add: sound_def ledger_def)
    ultimately show ?thesis
      using keeps_settlement [OF that(1,2)] that(4) assms
      by (auto simp: s stepped_def occupied_def intro: keeps_accounts_trans)
  qed
  have settle: "runs (settle cells path pk s) (\<lambda>x es. books (fst (snd (snd x))) = books rt \<and>
      settlement c (fst x) (snd (snd (snd x))) es)" for path
    by (rule runs_weaken [OF runs_both [OF books_settle runs_settle]]) (simp add: s)
  show ?thesis
    unfolding settle_and_release_def
    by (intro runs_bind [OF settle] runs_bind [OF sound_release_cell] runs_rules)
      (auto intro: refused resolved)
qed

text \<open>The fatal path either leaves the cell alone or vacates it.\<close>

definition gives_up :: "custody \<Rightarrow> custody \<Rightarrow> (call \<times> reply) list \<Rightarrow> bool" where
  "gives_up s t es \<longleftrightarrow> sound s t es \<and> (t = s \<or> (\<exists>d. snd t = vacate d))"

lemma gives_up_refl [simp]: "gives_up s s []"
  by (simp add: gives_up_def)

lemma gives_up_release: "sound s t es \<and> snd t = vacate (snd s) \<Longrightarrow> gives_up s t es"
  by (auto simp: gives_up_def)

lemma runs_abandon_cell: "runs (abandon_cell s) (gives_up s)"
proof -
  obtain rt c where s: "s = (rt, c)" by (cases s)
  have easy: "gives_up (rt, c) t es" if "sound (rt, c\<lparr>c_easy := h\<rparr>) t es \<and> snd t = vacate d" for h t es d
  proof -
    have "sound (rt, c) (rt, c\<lparr>c_easy := h\<rparr>) []"
      by (auto simp: sound_def ledger_defs held_def intro!: keeps_accounts_same)
    from sound_trans [OF this, of t es] that show ?thesis by (auto simp: gives_up_def)
  qed
  have root: "gives_up (rt, c) t es" if "sound (rt, c\<lparr>c_wait_status := a, c_root_pid := b\<rparr>) t es \<and> snd t = vacate d" for a b t es d
  proof -
    have "sound (rt, c) (rt, c\<lparr>c_wait_status := a, c_root_pid := b\<rparr>) []"
      by (auto simp: sound_def ledger_defs held_def intro!: keeps_accounts_same)
    from sound_trans [OF this, of t es] that show ?thesis by (auto simp: gives_up_def)
  qed
  have calls: "gives_up (rt, c) t ((Env (Curl u), a) # (Env (Curl v), b) # es) = gives_up (rt, c) t es"
    "gives_up (rt, c) t ((Proc p, a) # (Proc q, b) # es) = gives_up (rt, c) t es" for t u v p q a b es
    by (simp_all add: gives_up_def)
  show ?thesis
    unfolding abandon_cell_def s prod.case
    by (intro runs_weaken [OF sound_release_cell] runs_rules) (auto simp: calls intro: easy root)
qed

lemma runs_release_if_held: "runs (release_if_held s) (gives_up s)"
  unfolding release_if_held_def
  by (intro runs_if runs_weaken [OF sound_release_cell] runs_ret) (simp_all add: gives_up_release)

lemma stepped_given_up:
  assumes "gives_up s t es" and "dormant (snd s)" and "c_state (snd s) \<noteq> Vacant"
  shows "stepped s (if c_state (snd t) = Vacant then Abandoned else Moved) t es"
proof -
  have s: "sound s t es" and t: "t = s \<or> (\<exists>d. snd t = vacate d)" using assms(1) by (simp_all add: gives_up_def)
  have "dormant (vacate d)" "c_state (vacate d) = Vacant" for d
    by (simp_all add: dormant_def vacate_def held_def charge_def)
  with s t assms(2,3) show ?thesis
    by (auto simp: stepped_def sound_def ledger_def occupied_def)
qed

lemma runs_given_up:
  assumes "runs f (gives_up s)" and "dormant (snd s)" and "c_state (snd s) \<noteq> Vacant"
  shows "runs (given_up pk f) (\<lambda>(e, _, t) es. stepped s e t es)"
  unfolding given_up_def
  by (intro runs_bind [OF assms(1)] runs_rules) (use stepped_given_up [OF _ assms(2,3)] in simp)

lemma lane_step_cases:
  assumes "enabled a (snd s)"
  shows "a = Lane_admit ident \<Longrightarrow> lane_step cf cells pk a s = (\<lambda>w. Option.bind (admit ident (snd s) w)
      (\<lambda>((e, c), w). Some ((if e = 0 then Admitted else Refused, pk, fst s, c), w)))"
    and "a = Lane_dispatch \<Longrightarrow> lane_step cf cells pk a s = moved pk (dispatch_cell cf s)"
    and "a = Lane_patch \<Longrightarrow> lane_step cf cells pk a s = moved pk (patch_turn (cf_fixture cf) (cf_target cf) s)"
    and "a = Lane_deliver bytes \<Longrightarrow> lane_step cf cells pk a s =
      moved pk (\<lambda>w. Option.bind (model_write bytes s w) (\<lambda>((_, s), w). Some (s, w)))"
    and "a = Lane_drain first \<Longrightarrow> lane_step cf cells pk a s = moved pk (drain_pipe first s)"
    and "a = Lane_check \<Longrightarrow> lane_step cf cells pk a s = moved pk (check_bash s)"
    and "a = Lane_complete result \<Longrightarrow> lane_step cf cells pk a s = moved pk (complete_model result s)"
    and "a = Lane_settle \<Longrightarrow> lane_step cf cells pk a s = settle_and_release cf cells pk s"
    and "a = Lane_abandon \<Longrightarrow> lane_step cf cells pk a s = given_up pk (abandon_cell s)"
    and "a = Lane_reclaim \<Longrightarrow> lane_step cf cells pk a s = given_up pk (release_if_held s)"
  using assms by (simp_all add: lane_step_def fun_eq_iff)

lemma runs_lane_step:
  assumes "dormant (snd s)"
  shows "runs (lane_step cf cells pk a s) (\<lambda>(e, _, t) es. stepped s e t es)"
proof (cases "enabled a (snd s)")
  case False
  then have "lane_step cf cells pk a s = (\<lambda>w. None)" by (simp add: lane_step_def fun_eq_iff)
  then show ?thesis by (simp add: runs_none)
next
  case True
  note step = lane_step_cases [OF True]
  obtain rt c where s: "s = (rt, c)" by (cases s)
  have act: "runs (moved pk f) (\<lambda>(e, _, t) es. stepped s e t es)" if "runs f (works s)" "c_state c \<noteq> Vacant" for f
    by (rule runs_moved, rule runs_weaken [OF that(1)]) (use that(2) in \<open>auto simp: s intro: stepped_works\<close>)
  show ?thesis
  proof (cases a)
    case (Lane_admit ident)
    have "stepped s (if e = 0 then Admitted else Refused) (rt, d) es"
      if "admitted ident c e d es" "fd_ledger c d es" for e d es
      using that assms True by (simp add: s Lane_admit enabled_def stepped_admitted)
    then show ?thesis
      unfolding step(1) [OF Lane_admit] unfolding s fst_conv snd_conv
      by (intro runs_bind [OF runs_both [OF runs_admit ledger_admit]] runs_rules) (simp add: s)
  next
    case Lane_dispatch
    then have "c_kind c \<noteq> Patch" "c_state c = Dispatchable" "held c = []"
      using True assms by (auto simp: enabled_def dormant_def s)
    with runs_dispatch_cell [OF this, of cf rt] show ?thesis
      unfolding step(2) [OF Lane_dispatch] by (intro act) (simp_all add: s)
  next
    case Lane_patch
    then have "c_state c = Dispatchable" "c_wait_status c = 0"
      using True assms by (auto simp: enabled_def dormant_def s)
    with runs_patch_turn [OF this, of "cf_fixture cf" "cf_target cf" rt] show ?thesis
      unfolding step(3) [OF Lane_patch] by (intro act) (simp_all add: s)
  next
    case (Lane_deliver bytes)
    with True have "c_state c = Active" by (simp add: enabled_def s)
    then show ?thesis
      unfolding step(4) [OF Lane_deliver]
      by (intro act runs_bind [OF runs_both [OF sound_model_write state_model_write]] runs_rules)
        (simp_all add: s works_def working_def)
  next
    case (Lane_drain first)
    with True have "c_state c = Active" by (simp add: enabled_def s)
    then show ?thesis
      unfolding step(5) [OF Lane_drain]
      by (intro act runs_weaken [OF runs_both [OF sound_drain_pipe state_drain_pipe]])
        (simp_all add: s works_def working_def)
  next
    case Lane_check
    with True have "c_state c = Active" by (simp add: enabled_def s)
    with runs_check_bash [of s] show ?thesis
      unfolding step(6) [OF Lane_check] by (intro act) (simp_all add: s)
  next
    case (Lane_complete result)
    with True have "c_state c = Active" by (simp add: enabled_def s)
    with runs_complete_model [of result rt c] show ?thesis
      unfolding step(7) [OF Lane_complete] by (intro act) (simp_all add: s)
  next
    case Lane_settle
    with True have "c_state (snd s) = Sealed" by (simp add: enabled_def)
    from runs_settle_and_release [OF this] show ?thesis
      unfolding step(8) [OF Lane_settle] .
  next
    case Lane_abandon
    with True have "c_state (snd s) \<noteq> Vacant" by (simp add: enabled_def)
    from runs_given_up [OF runs_abandon_cell assms this] show ?thesis
      unfolding step(9) [OF Lane_abandon] .
  next
    case Lane_reclaim
    with True have "c_state (snd s) \<noteq> Vacant" by (simp add: enabled_def)
    from runs_given_up [OF runs_release_if_held assms this] show ?thesis
      unfolding step(10) [OF Lane_reclaim] .
  qed
qed

section \<open>Interleavings\<close>

text \<open>
  The table with what the owner keeps: the peaks, how many attempts it admitted and settled, and
  how many were abandoned, which the program does not count.  A run ends early when an admission
  or a settlement fails.
\<close>

record flow =
  fl_table :: table
  fl_peaks :: peaks
  fl_admitted :: nat
  fl_settled :: nat
  fl_abandoned :: nat

fun run_lanes :: "config \<Rightarrow> (nat \<times> lane_op) list \<Rightarrow> flow \<Rightarrow> world \<Rightarrow> (flow \<times> world) option" where
  "run_lanes cf [] f w = Some (f, w)"
| "run_lanes cf ((i, a) # steps) f w =
     (case fl_table f of (rt, cells) \<Rightarrow>
        if i < length cells then do {
          ((e, pk, rt, c), w) \<leftarrow> lane_step cf cells (fl_peaks f) a (rt, cells ! i) w;
          let f = f\<lparr>fl_table := (rt, cells[i := c]), fl_peaks := pk,
            fl_admitted := fl_admitted f + of_bool (e = Admitted), fl_settled := fl_settled f + of_bool (e = Resolved),
            fl_abandoned := fl_abandoned f + of_bool (e = Abandoned)\<rparr>;
          if e = Refused then Some (f, w) else run_lanes cf steps f w
        }
        else None)"

definition flow_ok :: "flow \<Rightarrow> bool" where
  "flow_ok f \<longleftrightarrow> table_ok (fl_table f) \<and> list_all dormant (snd (fl_table f))"

definition all_held :: "flow \<Rightarrow> int \<Rightarrow> int" where
  "all_held f x = (\<Sum>c\<leftarrow>snd (fl_table f). int (count_list (held c) x))"

definition all_occupied :: "flow \<Rightarrow> nat" where
  "all_occupied f = sum_list (map occupied (snd (fl_table f)))"

definition conserved :: "flow \<Rightarrow> flow \<Rightarrow> (call \<times> reply) list \<Rightarrow> bool" where
  "conserved f g es \<longleftrightarrow> flow_ok g \<and>
     commits es + fl_admitted f + fl_settled f = fl_admitted g + fl_settled g \<and>
     all_occupied g + fl_settled g + fl_abandoned g + fl_admitted f =
       all_occupied f + fl_settled f + fl_abandoned f + fl_admitted g \<and>
     (\<forall>x \<ge> 0. fd_net es x = all_held g x - all_held f x)"

lemma conserved_trans: "conserved f g es \<Longrightarrow> conserved g h fs \<Longrightarrow> conserved f h (es @ fs)"
  by (auto simp: conserved_def)

lemma sum_list_update_nat:
  fixes h :: "'a \<Rightarrow> nat"
  shows "i < length xs \<Longrightarrow> sum_list (map h (xs[i := y])) + h (xs ! i) = sum_list (map h xs) + h y"
proof (induction xs arbitrary: i)
  case (Cons x xs)
  show ?case
  proof (cases i)
    case (Suc j)
    with Cons show ?thesis by force
  qed simp
qed simp

lemma sum_list_update_int:
  fixes h :: "'a \<Rightarrow> int"
  shows "i < length xs \<Longrightarrow> sum_list (map h (xs[i := y])) = sum_list (map h xs) + h y - h (xs ! i)"
proof (induction xs arbitrary: i)
  case (Cons x xs)
  show ?case
  proof (cases i)
    case (Suc j)
    with Cons show ?thesis by force
  qed simp
qed simp

lemma conserved_step:
  assumes "stepped (rt, cells ! i) e (rt', c) es" and "fl_table f = (rt, cells)" and "i < length cells" and "flow_ok f"
  shows "conserved f (f\<lparr>fl_table := (rt', cells[i := c]), fl_peaks := pk,
    fl_admitted := fl_admitted f + of_bool (e = Admitted), fl_settled := fl_settled f + of_bool (e = Resolved),
    fl_abandoned := fl_abandoned f + of_bool (e = Abandoned)\<rparr>) es"
proof -
  have t: "table_ok (rt, cells)" "list_all dormant cells" using assms(2,4) by (simp_all add: flow_ok_def)
  have st: "keeps_accounts (rt, cells ! i) (rt', c)" "fd_ledger (cells ! i) c es" "dormant c"
    "commits es = of_bool (e = Admitted) + of_bool (e = Resolved)"
    "occupied c + of_bool (e = Resolved) + of_bool (e = Abandoned) = occupied (cells ! i) + of_bool (e = Admitted)"
    using assms(1) by (simp_all add: stepped_def)
  have "table_ok (rt', cells[i := c])"
    using st(1) table_accounts [OF t(1) assms(3)] by (auto simp: keeps_accounts_def intro: accounts_table [OF t(1) assms(3)])
  moreover have "list_all dormant (cells[i := c])"
    using t(2) st(3) set_update_subset_insert [of cells i c] by (auto simp: list_all_iff)
  moreover have "all_held (f\<lparr>fl_table := (rt', cells[i := c])\<rparr>) x = all_held f x + fd_net es x" if "x \<ge> 0" for x
    using st(2) that sum_list_update_int [OF assms(3), of "\<lambda>c. int (count_list (held c) x)" c]
    by (simp add: all_held_def assms(2) fd_ledger_def)
  moreover have "sum_list (map occupied (cells[i := c])) + occupied (cells ! i) = sum_list (map occupied cells) + occupied c"
    by (rule sum_list_update_nat [OF assms(3)])
  ultimately show ?thesis
    using st(4,5) by (auto simp: conserved_def flow_ok_def all_held_def all_occupied_def assms(2))
qed

lemma run_lanes_conserved:
  "run_lanes cf steps f w = Some (g, w') \<Longrightarrow> flow_ok f \<Longrightarrow> \<exists>es. emits w w' es \<and> conserved f g es"
proof (induction cf steps f w rule: run_lanes.induct)
  case (1 cf f w)
  then show ?case by (intro exI [of _ "[]"]) (simp add: conserved_def)
next
  case (2 cf i a steps f w)
  obtain rt cells where t: "fl_table f = (rt, cells)" by (cases "fl_table f")
  from "2.prems"(1) t obtain e pk rt' c w1 where i: "i < length cells"
    and st: "lane_step cf cells (fl_peaks f) a (rt, cells ! i) w = Some ((e, pk, rt', c), w1)"
    by (auto split: if_splits)
  let ?g = "f\<lparr>fl_table := (rt', cells[i := c]), fl_peaks := pk,
    fl_admitted := fl_admitted f + of_bool (e = Admitted), fl_settled := fl_settled f + of_bool (e = Resolved),
    fl_abandoned := fl_abandoned f + of_bool (e = Abandoned)\<rparr>"
  have rest: "(if e = Refused then Some (?g, w1) else run_lanes cf steps ?g w1) = Some (g, w')"
    using "2.prems"(1) i st unfolding run_lanes.simps(2) t prod.case by (simp add: Let_def)
  have "dormant (cells ! i)" using "2.prems"(2) t i by (auto simp: flow_ok_def list_all_iff)
  from runsD [OF runs_lane_step st] this obtain es where es: "emits w w1 es" "stepped (rt, cells ! i) e (rt', c) es"
    by auto
  from conserved_step [OF es(2) t i "2.prems"(2)] have cg: "conserved f ?g es" .
  show ?case
  proof (cases "e = Refused")
    case True
    with rest have "?g = g" "w1 = w'" unfolding if_P [OF True] by (auto simp only: option.inject prod.inject)
    with es(1) cg show ?thesis by blast
  next
    case False
    with rest have run: "run_lanes cf steps ?g w1 = Some (g, w')" by (simp only: if_False)
    from cg have "flow_ok ?g" by (simp add: conserved_def)
    with "2.IH" [OF t [symmetric] i st refl refl refl refl refl False run] run False obtain fs where
      "emits w1 w' fs" "conserved ?g g fs" by blast
    with es(1) cg show ?thesis by (blast intro: emits_trans conserved_trans)
  qed
qed

text \<open>Only the fatal path abandons.\<close>

definition fatal_step :: "lane_op \<Rightarrow> bool" where
  "fatal_step a \<longleftrightarrow> a = Lane_abandon \<or> a = Lane_reclaim"

lemma lane_step_abandoned:
  "lane_step cf cells pk a s w = Some ((Abandoned, q), w') \<Longrightarrow> fatal_step a"
  by (cases a) (auto simp: lane_step_def fatal_step_def moved_def settle_and_release_def split: if_splits option.splits)

lemma run_lanes_abandons_none:
  "run_lanes cf steps f w = Some (g, w') \<Longrightarrow> \<forall>p \<in> set steps. \<not> fatal_step (snd p) \<Longrightarrow> fl_abandoned g = fl_abandoned f"
proof (induction cf steps f w rule: run_lanes.induct)
  case (2 cf i a steps f w)
  obtain rt cells where t: "fl_table f = (rt, cells)" by (cases "fl_table f")
  from "2.prems"(1) t obtain e pk rt' c w1 where i: "i < length cells"
    and st: "lane_step cf cells (fl_peaks f) a (rt, cells ! i) w = Some ((e, pk, rt', c), w1)"
    by (auto split: if_splits)
  have e: "e \<noteq> Abandoned" using "2.prems"(2) lane_step_abandoned [of cf cells "fl_peaks f" a] st by auto
  let ?g = "f\<lparr>fl_table := (rt', cells[i := c]), fl_peaks := pk,
    fl_admitted := fl_admitted f + of_bool (e = Admitted), fl_settled := fl_settled f + of_bool (e = Resolved),
    fl_abandoned := fl_abandoned f + of_bool (e = Abandoned)\<rparr>"
  have rest: "(if e = Refused then Some (?g, w1) else run_lanes cf steps ?g w1) = Some (g, w')"
    using "2.prems"(1) i st unfolding run_lanes.simps(2) t prod.case by (simp add: Let_def)
  show ?case
  proof (cases "e = Refused")
    case True
    with rest show ?thesis by auto
  next
    case False
    with rest have run: "run_lanes cf steps ?g w1 = Some (g, w')" by (simp only: if_False)
    with "2.IH" [OF t [symmetric] i st refl refl refl refl refl False run] "2.prems"(2) e show ?thesis by simp
  qed
qed simp

section \<open>Properties\<close>

definition empty_flow :: "runtime \<Rightarrow> cell list \<Rightarrow> flow" where
  "empty_flow rt cells = \<lparr>fl_table = (rt, cells), fl_peaks = \<lparr>pk_overlap = 0, pk_settle_ns = 0\<rparr>,
     fl_admitted = 0, fl_settled = 0, fl_abandoned = 0\<rparr>"


definition idle_cell :: cell where
  "idle_cell = vacate sample_cell"

definition sample_config :: config where
  "sample_config = \<lparr>cf_nocache = False, cf_self = ''/p'', cf_fixture = ''normal'', cf_target = ''/t'',
     cf_database = [47], cf_inject_fatal_after = 0\<rparr>"

definition sample_failed_attempt :: "reply list" where
  "sample_failed_attempt = [ok 0, ok 0, ok 0, ok_out 0 [0, 1], err 24, ok_out 0 [0, 2], ok_out 0 [0, 3], ok 0,
     err 2, err 2, err 2, ok 0, ok 101, ok 0, ok 0, ok 101, ok 0, ok 0, ok_out 0 [0, 4]]"

lemma flow_ok_empty:
  assumes "rt_scratch_current rt = 0" and "list_all (\<lambda>c. c_state c = Vacant \<and> dormant c) cells"
  shows "flow_ok (empty_flow rt cells)"
proof -
  have "sum_list (map charge cells) = 0" "\<forall>c \<in> set cells. charge c = 0"
    using assms(2) by (auto simp: list_all_iff dormant_def)
  with assms show ?thesis by (auto simp: flow_ok_def empty_flow_def table_ok_def list_all_iff)
qed

lemma run_sample_attempt:
  "\<exists>g w'. run_lanes sample_config [(0, Lane_admit 1), (0, Lane_dispatch), (0, Lane_settle)]
      (empty_flow (sample_runtime\<lparr>rt_scratch_current := 0\<rparr>) [idle_cell]) (boot sample_failed_attempt) = Some (g, w') \<and>
    fl_admitted g = 1 \<and> fl_settled g = 1 \<and> snd (fl_table g) = [idle_cell]"
  by (simp cong: bind_option_cong_code add: empty_flow_def idle_cell_def vacate_def lane_step_def enabled_def admit_def
      sql_exec_def moved_def dispatch_cell_def start_cell_def spawn_bash_def nonblocking_pipe_def seal_failed_def
      seal_cell_def now_ns_def settle_and_release_def settle_def validate_def has_flag_def failure_flags_def set_flag_def
      settle_transaction_def import_if_def imports_content_def measure_storage_def allocated_fd_bytes_def
      sqlite_storage_allocated_def allocated_path_bytes_def companion_allocated_def insert_row_def count_bash_def
      release_cell_def close_fd_if_def cell_bytes_def sample_config_def sample_failed_attempt_def boot_def out_def
      fails_def bytes_of_def sample_cell_def sample_runtime_def Let_def)


lemma all_vacant:
  assumes "list_all (\<lambda>c. c_state c = Vacant \<and> dormant c) (snd (fl_table f))"
  shows "all_occupied f = 0" and "all_held f x = 0" and "sum_list (map charge (snd (fl_table f))) = 0"
proof -
  have "occupied c = 0 \<and> held c = [] \<and> charge c = 0" if "c \<in> set (snd (fl_table f))" for c
    using assms that by (auto simp: list_all_iff dormant_def occupied_def)
  then show "all_occupied f = 0" "all_held f x = 0" "sum_list (map charge (snd (fl_table f))) = 0"
    by (simp_all add: all_occupied_def all_held_def cong: map_cong)
qed


text \<open>One attempt is settled, the next one loses its shell to the fatal path.\<close>

definition sample_abandoned_attempt :: "reply list" where
  "sample_abandoned_attempt = sample_failed_attempt @ [ok 0, ok 0, ok 0, ok_out 0 [0, 5],
     ok_out 0 [10, 11], ok 0, ok 0, ok 0, ok 0, ok_out 0 [12, 13], ok 0, ok 0, ok 0, ok 0,
     ok 20, ok 0, ok 0, ok 21, ok 0, ok 0, ok 60, ok 0, ok 0, ok 0, ok 0, ok_out 60 [9], ok 0, ok 0, ok 0, ok 0]"

lemma run_sample_abandoned:
  "\<exists>g w'. run_lanes sample_config [(0, Lane_admit 1), (0, Lane_dispatch), (0, Lane_settle), (0, Lane_admit 2),
        (0, Lane_dispatch), (0, Lane_abandon)]
      (empty_flow (sample_runtime\<lparr>rt_scratch_current := 0\<rparr>) [idle_cell]) (boot sample_abandoned_attempt) = Some (g, w') \<and>
    fl_admitted g = 2 \<and> fl_settled g = 1 \<and> fl_abandoned g = 1 \<and> snd (fl_table g) = [idle_cell]"
  by (simp cong: bind_option_cong_code add: empty_flow_def idle_cell_def vacate_def lane_step_def enabled_def admit_def
      sql_exec_def moved_def dispatch_cell_def start_cell_def spawn_bash_def nonblocking_pipe_def seal_failed_def
      seal_cell_def now_ns_def settle_and_release_def settle_def validate_def has_flag_def failure_flags_def set_flag_def
      settle_transaction_def import_if_def imports_content_def measure_storage_def allocated_fd_bytes_def
      sqlite_storage_allocated_def allocated_path_bytes_def companion_allocated_def insert_row_def count_bash_def
      release_cell_def close_fd_if_def cell_bytes_def sample_config_def sample_failed_attempt_def sample_abandoned_attempt_def given_up_def abandon_cell_def
      open_unlinked_spool_def adopt_child_def close_pair_def boot_def out_def
      fails_def bytes_of_def sample_cell_def sample_runtime_def Let_def)


end
