(* ===== verification/Custody_Reactor.thy ===== *)
theory Custody_Reactor
  imports Custody_Flow
begin

text \<open>
  The threads of \<open>integrated_capacity.c\<close> as loops over the table: the reactor's rounds, the wait
  for the lanes to be ready, and the owner's configuration, admission and settlement sweeps.
  The thread functions are modelled between the points where another thread may intervene: a run
  of a loop here is a run in which no other lane changes the cells it looks at, which the states
  guarantee for the cells it works on.  Loads of the atomic flags and the calls of the condition
  variable are calls whose replies the script gives.
\<close>

section \<open>The reactor's loop\<close>

text \<open>A pass over the table, cell by cell.\<close>

fun pass :: "(custody \<Rightarrow> world \<Rightarrow> (custody \<times> world) option) \<Rightarrow> nat list \<Rightarrow> table \<Rightarrow> world \<Rightarrow> (table \<times> world) option" where
  "pass f [] t w = Some (t, w)"
| "pass f (i # is) t w = do { (t, w) \<leftarrow> at_cell i f t w; pass f is t w }"

definition live_cells :: "table \<Rightarrow> nat" where
  "live_cells t = length (filter (\<lambda>c. c_state c = Active) (snd t))"

text \<open>The descriptors to poll: owner and which pipe, in the order of the table.\<close>

definition watched :: "table \<Rightarrow> (nat \<times> bool) list" where
  "watched t = concat (map (\<lambda>i. let c = snd t ! i in
     if c_kind c = Bash \<and> c_state c = Active
     then (if c_pipe_a c \<ge> 0 then [(i, True)] else []) @ (if c_pipe_b c \<ge> 0 then [(i, False)] else [])
     else []) [0..<length (snd t)])"

fun drain_ready :: "(nat \<times> bool) list \<Rightarrow> nat \<Rightarrow> reply \<Rightarrow> table \<Rightarrow> world \<Rightarrow> (table \<times> world) option" where
  "drain_ready [] k polled t w = Some (t, w)"
| "drain_ready ((i, first) # ps) k polled t w = do {
     (t, w) \<leftarrow> (if out k polled \<noteq> 0 then at_cell i (drain_pipe first) t w else Some (t, w));
     drain_ready ps (k + 1) polled t w
   }"

section \<open>Passes keep the table\<close>

text \<open>A run that keeps the invariant of the table and its length.\<close>

abbreviation keeps_table :: "table \<Rightarrow> table \<Rightarrow> bool" where
  "keeps_table t t' \<equiv> length (snd t') = length (snd t) \<and> (table_ok t \<longrightarrow> table_ok t')"

lemma runs_at_cell:
  assumes "runs (f (fst t, snd t ! i)) (\<lambda>s es. keeps_accounts (fst t, snd t ! i) s)" and "i < length (snd t)"
  shows "runs (at_cell i f t) (\<lambda>t' es. keeps_table t t')"
proof -
  obtain rt cells where t: "t = (rt, cells)" by (cases t)
  have "table_ok (rt', cells[i := c])" if "keeps_accounts (rt, cells ! i) (rt', c)" "table_ok (rt, cells)" for rt' c
    using that assms(2) table_accounts [of rt cells i]
    by (auto simp: t keeps_accounts_def intro: accounts_table)
  with assms(1) show ?thesis
    unfolding at_cell_def t prod.case fst_conv snd_conv
    by (intro runs_bind [OF assms(1) [unfolded t fst_conv snd_conv]] runs_rules) (auto simp: t)
qed

lemma runs_pass:
  assumes "\<And>s. runs (f s) (\<lambda>s' es. keeps_accounts s s')"
  shows "list_all (\<lambda>i. i < length (snd t)) js \<Longrightarrow> runs (pass f js t) (\<lambda>t' es. keeps_table t t')"
proof (induction js arbitrary: t)
  case Nil
  have "runs (\<lambda>w. Some (t, w)) (\<lambda>t' es. keeps_table t t')" by (intro runs_rules) simp
  then show ?case by simp
next
  case (Cons i js)
  have "runs (\<lambda>w. pass f (i # js) t w) (\<lambda>t' es. keeps_table t t')"
    unfolding pass.simps
    by (intro runs_bind [OF runs_at_cell [where f = f, OF assms]] runs_weaken [OF Cons.IH])
      (use Cons.prems in auto)
  then show ?case .
qed


text \<open>A start leaves the charge as it is.\<close>

definition same_charge :: "cell \<Rightarrow> cell \<Rightarrow> bool" where
  "same_charge c d \<longleftrightarrow> c_bytes_a d = c_bytes_a c \<and> c_bytes_b d = c_bytes_b c"

lemma charge_spawn_bash:
  "runs (spawn_bash nocache self (rt, c)) (\<lambda>p es. \<forall>e d. p = Here (e, d) \<longrightarrow> same_charge c d)"
proof -
  have child: "runs (bash_child self a b p q) (\<lambda>z es. \<forall>e d. z \<noteq> Here (e :: int, d :: cell))" for a b p q
    unfolding bash_child_def by (intro runs_bind [OF runs_close_pair] runs_rules) auto
  show ?thesis
    unfolding spawn_bash_def prod.case
    by (intro runs_bind [OF runs_nonblocking_pipe] runs_bind [OF runs_close_pair] runs_bind [OF runs_open_spool]
        runs_bind [OF runs_adopt_child] runs_weaken [OF runs_close_pair] runs_weaken [OF child] runs_rules)
      (auto simp: same_charge_def)
qed

lemma charge_start_cell: "runs (start_cell cf (rt, c)) (\<lambda>x es. same_charge c (snd x))"
proof -
  have model: "runs (configure_model nocache (rt, c)) (\<lambda>x es. same_charge c (snd x))" for nocache
    unfolding configure_model_def prod.case
    by (intro runs_bind [OF runs_open_spool] runs_bind [OF inert_set_options] runs_rules) (auto simp: same_charge_def)
  have "runs (\<lambda>w. case p of Here x \<Rightarrow> Some (x, w) | Gone a \<Rightarrow> None | Became b \<Rightarrow> None)
      (\<lambda>y fs. same_charge c (snd y))" if "\<forall>e d. p = Here (e, d) \<longrightarrow> same_charge c d"
    for p :: "(int \<times> cell) process"
    using that by (cases p) (auto intro!: runs_ret runs_none)
  then show ?thesis
    unfolding start_cell_def
    by (intro runs_weaken [OF model] runs_bind [OF charge_spawn_bash] runs_rules) simp_all
qed

lemma keeping_seal_failed: "keeping s (seal_failed s)"
  by (rule runs_weaken [OF sound_seal_failed]) (simp add: sound_def)

lemma keeping_from_charge:
  assumes "same_charge (c\<lparr>c_state := Active, c_started_ns := at\<rparr>) d" and "keeps_accounts (rt, d) t"
  shows "keeps_accounts (rt, c) t"
proof -
  have "keeps_accounts (rt, c) (rt, d)" using assms(1) by (intro keeps_accounts_same) (simp_all add: same_charge_def)
  then show ?thesis using assms(2) by (rule keeps_accounts_trans)
qed

lemma keeping_dispatch_cell: "keeping s (dispatch_cell cf s)"
proof -
  obtain rt c where s: "s = (rt, c)" by (cases s)
  show ?thesis
    unfolding dispatch_cell_def s prod.case
    by (intro runs_bind [OF uncommitted_now_ns] runs_bind [OF charge_start_cell] runs_weaken [OF keeping_seal_failed]
        runs_rules) (auto intro: keeping_from_charge)
qed

lemma keeping_check_bash: "keeping s (check_bash s)"
  unfolding check_bash_def
  by (intro runs_bind [OF keeping_bash_terminal] runs_weaken [OF keeping_seal_cell] runs_rules)
    (auto intro: keeps_accounts_trans)

lemma keeping_complete_model: "keeping s (complete_model result s)"
  by (cases s) (simp, rule runs_weaken [OF runs_complete_model], simp add: works_def sound_def)

section \<open>Messages and rounds\<close>

lemma runs_complete_at: "i < length (snd t) \<Longrightarrow> runs (at_cell i (complete_model r) t) (\<lambda>t' es. keeps_table t t')"
  by (rule runs_at_cell [where f = "complete_model r", OF keeping_complete_model])

lemma complete_shrinks:
  assumes "index_of P (snd t) = Some i" and "at_cell i (complete_model r) t w = Some (t', w')"
  shows "length (w_script w') \<le> length (w_script w)"
proof -
  obtain es where "emits w w' es"
    by (rule runsD [OF runs_complete_at [OF index_of_less [OF assms(1)]] assms(2)])
  then show ?thesis by (simp add: emits_def)
qed

text \<open>The messages: \<open>CURLMSG_DONE\<close> is 1; the first cell that has the handle is completed.\<close>

function read_messages :: "table \<Rightarrow> world \<Rightarrow> (table \<times> world) option" where
  "read_messages t w =
     (case sys (Env (Curl ''multi_info_read'')) w of
        None \<Rightarrow> None
      | Some (m, w1) \<Rightarrow>
          if r_ret m = 0 then Some (t, w1)
          else if out 0 m \<noteq> 1 then read_messages t w1
          else (case index_of (\<lambda>c. c_easy c = out 1 m) (snd t) of
              None \<Rightarrow> read_messages t w1
            | Some i \<Rightarrow> (case at_cell i (complete_model (out 2 m)) t w1 of
                None \<Rightarrow> None
              | Some (t, w2) \<Rightarrow> read_messages t w2)))"
  by pat_completeness auto
termination
  by (relation "measure (\<lambda>(_, w). length (w_script w))") (auto dest!: sys_shrinks complete_shrinks)

declare read_messages.simps [simp del]

record lanes =
  ln_fatal :: bool
  ln_loops :: u64
  ln_max_poll_ns :: u64

datatype round_end = Continue | Break

definition stop_seen :: "world \<Rightarrow> (bool \<times> world) option" where
  "stop_seen w = do { (r, w) \<leftarrow> sys (Env (Query ''stop'')) w; Some (r_ret r \<noteq> 0, w) }"

text \<open>\<open>signal_owner\<close>: the mutex and the broadcast are one call.\<close>

definition signal_owner :: "world \<Rightarrow> (unit \<times> world) option" where
  "signal_owner w = do { (_, w) \<leftarrow> sys (Env (Query ''cond_broadcast'')) w; Some ((), w) }"

definition wait_idle :: "world \<Rightarrow> (unit \<times> world) option" where
  "wait_idle w = do {
     (stop, w) \<leftarrow> stop_seen w;
     if stop then Some ((), w) else do { (_, w) \<leftarrow> sys (Env (Query ''cond_wait'')) w; Some ((), w) }
   }"

definition serve_round :: "config \<Rightarrow> lanes \<Rightarrow> table \<Rightarrow> world \<Rightarrow> ((round_end \<times> lanes \<times> table) \<times> world) option" where
  "serve_round cf ln t w = do {
     let ps = watched t;
     (t0, w) \<leftarrow> now_ns w;
     (p, w) \<leftarrow> sys (Env (Curl ''multi_poll'')) w;
     (t1, w) \<leftarrow> now_ns w;
     let ln = ln\<lparr>ln_max_poll_ns := max_u64 (ln_max_poll_ns ln) (t1 - t0)\<rparr>;
     if r_ret p \<noteq> 0 then Some ((Break, ln\<lparr>ln_fatal := True\<rparr>, t), w)
     else do {
       let ln = ln\<lparr>ln_loops := ln_loops ln + 1\<rparr>;
       if cf_inject_fatal_after cf \<noteq> 0 \<and> ln_loops ln \<ge> cf_inject_fatal_after cf
       then Some ((Break, ln\<lparr>ln_fatal := True\<rparr>, t), w)
       else do {
         (t, w) \<leftarrow> drain_ready ps 0 p t w;
         (r, w) \<leftarrow> sys (Env (Curl ''multi_perform'')) w;
         if r_ret r \<noteq> 0 then Some ((Break, ln\<lparr>ln_fatal := True\<rparr>, t), w)
         else do {
           (t, w) \<leftarrow> read_messages t w;
           (t, w) \<leftarrow> pass check_bash [0..<length (snd t)] t w;
           Some ((Continue, ln, t), w)
         }
       }
     }
   }"

definition reactor_round :: "config \<Rightarrow> lanes \<Rightarrow> table \<Rightarrow> world \<Rightarrow> ((round_end \<times> lanes \<times> table) \<times> world) option" where
  "reactor_round cf ln t w = do {
     (t, w) \<leftarrow> pass (dispatch_cell cf) [0..<length (snd t)] t w;
     if live_cells t = 0 then do { (_, w) \<leftarrow> wait_idle w; Some ((Continue, ln, t), w) }
     else serve_round cf ln t w
   }"

section \<open>The rounds keep the table\<close>

lemma runs_drain_ready:
  "list_all (\<lambda>p. fst p < length (snd t)) ps \<Longrightarrow> runs (drain_ready ps k polled t) (\<lambda>t' es. keeps_table t t')"
proof (induction ps arbitrary: k t)
  case Nil
  have "runs (\<lambda>w. Some (t, w)) (\<lambda>t' es. keeps_table t t')" by (intro runs_rules) simp
  then show ?case by simp
next
  case (Cons p ps)
  obtain i first where p: "p = (i, first)" by (cases p)
  have "runs (\<lambda>w. drain_ready (p # ps) k polled t w) (\<lambda>t' es. keeps_table t t')"
    unfolding p drain_ready.simps
    by (intro runs_bind_if runs_bind_ret runs_bind [OF runs_at_cell [where f = "drain_pipe first", OF keeping_drain_pipe]]
        runs_weaken [OF Cons.IH]) (use Cons.prems in \<open>auto simp: p\<close>)
  then show ?case .
qed

lemma read_messages_keeps:
  "read_messages t w = Some (t', w') \<Longrightarrow> \<exists>es. emits w w' es \<and> keeps_table t t'"
proof (induction t w rule: read_messages.induct)
  case (1 t w)
  from "1.prems" obtain m w1 where m: "sys (Env (Curl ''multi_info_read'')) w = Some (m, w1)"
    by (auto simp: read_messages.simps [of t w] split: option.splits)
  then have e: "emits w w1 [(Env (Curl ''multi_info_read''), m)]" by (simp add: sys_emits)
  note r = "1.prems" [unfolded read_messages.simps [of t w] m option.case prod.case]
  show ?case
  proof (cases "r_ret m = 0")
    case True
    with r e show ?thesis by auto
  next
    case ret: False
    show ?thesis
    proof (cases "out 0 m \<noteq> 1")
      case True
      with r ret have "read_messages t w1 = Some (t', w')" by simp
      from "1.IH" (1) [OF m refl ret True this] e show ?thesis by (blast intro: emits_trans)
    next
      case fin: False
      show ?thesis
      proof (cases "index_of (\<lambda>c. c_easy c = out 1 m) (snd t)")
        case None
        with r ret fin have "read_messages t w1 = Some (t', w')" by simp
        from "1.IH" (2) [OF m refl ret fin None this] e show ?thesis by (blast intro: emits_trans)
      next
        case (Some i)
        with r ret fin obtain u w2 where u: "at_cell i (complete_model (out 2 m)) t w1 = Some (u, w2)"
          and rest: "read_messages u w2 = Some (t', w')" by (auto split: option.splits)
        from runsD [OF runs_complete_at [OF index_of_less [OF Some]] u]
        obtain fs where fs: "emits w1 w2 fs" "keeps_table t u" by blast
        from "1.IH" (3) [OF m refl ret fin Some u refl rest] obtain gs where
          gs: "emits w2 w' gs" "keeps_table u t'" by blast
        from gs(2) fs(2) have "keeps_table t t'" by simp
        with emits_trans [OF e emits_trans [OF fs(1) gs(1)]] show ?thesis by blast
      qed
    qed
  qed
qed

lemma runs_read_messages: "runs (read_messages t) (\<lambda>t' es. keeps_table t t')"
  by (rule runsI) (rule read_messages_keeps)

lemma watched_less: "list_all (\<lambda>p. fst p < length (snd t)) (watched t)"
  by (auto simp: watched_def list_all_iff Let_def split: if_splits)

lemma runs_stop_seen: "runs stop_seen (\<lambda>_ es. es \<noteq> [])"
  unfolding stop_seen_def by (intro runs_rules) simp

lemma runs_signal_owner: "runs signal_owner (\<lambda>_ es. True)"
  unfolding signal_owner_def by (intro runs_rules) simp

lemma runs_wait_idle: "runs wait_idle (\<lambda>_ es. True)"
  unfolding wait_idle_def by (intro runs_bind [OF runs_stop_seen] runs_rules) simp_all

abbreviation keeps_lanes :: "table \<Rightarrow> round_end \<times> lanes \<times> table \<Rightarrow> bool" where
  "keeps_lanes t x \<equiv> keeps_table t (snd (snd x))"

lemma runs_serve_round: "runs (serve_round cf ln t) (\<lambda>x es. keeps_lanes t x)"
proof -
  have checks: "runs (pass check_bash [0..<length (snd t)] t) (\<lambda>t' es. keeps_table t t')" for t
    by (rule runs_pass [OF keeping_check_bash]) (simp add: list_all_iff)
  show ?thesis
    unfolding serve_round_def
    by (intro runs_bind [OF runs_now_ns] runs_bind [OF runs_drain_ready] runs_bind [OF runs_read_messages]
        runs_bind [OF checks] runs_rules watched_less) simp_all
qed

lemma runs_reactor_round: "runs (reactor_round cf ln t) (\<lambda>x es. keeps_lanes t x)"
proof -
  have sweep: "runs (pass (dispatch_cell cf) [0..<length (snd t)] t) (\<lambda>t' es. keeps_table t t')"
    by (rule runs_pass [OF keeping_dispatch_cell]) (simp add: list_all_iff)
  show ?thesis
    unfolding reactor_round_def
    by (intro runs_bind [OF sweep] runs_bind [OF runs_wait_idle] runs_weaken [OF runs_serve_round] runs_rules) auto
qed

lemma reactor_round_shrinks:
  "reactor_round cf ln t w = Some (x, w') \<Longrightarrow> length (w_script w') \<le> length (w_script w)"
  by (erule runsD [OF runs_reactor_round]) (simp add: emits_def)

lemma stop_seen_shrinks: "stop_seen w = Some (b, w') \<Longrightarrow> length (w_script w') < length (w_script w)"
  by (erule runs_shrinks [OF runs_stop_seen])

section \<open>The reactor\<close>

text \<open>Each turn of the loop looks at \<open>stop\<close>, so a run that ends has looked at it finitely often.\<close>

function reactor_loop :: "config \<Rightarrow> lanes \<Rightarrow> table \<Rightarrow> world \<Rightarrow> ((lanes \<times> table) \<times> world) option" where
  "reactor_loop cf ln t w =
     (case stop_seen w of
        None \<Rightarrow> None
      | Some (stop, w1) \<Rightarrow>
          if stop then Some ((ln, t), w1)
          else (case reactor_round cf ln t w1 of
              None \<Rightarrow> None
            | Some ((e, ln, t), w2) \<Rightarrow> (if e = Break then Some ((ln, t), w2) else reactor_loop cf ln t w2)))"
  by pat_completeness auto
termination
  by (relation "measure (\<lambda>(_, _, _, w). length (w_script w))")
    (auto dest!: stop_seen_shrinks reactor_round_shrinks)

declare reactor_loop.simps [simp del]

lemma reactor_loop_keeps:
  "reactor_loop cf ln t w = Some ((ln', t'), w') \<Longrightarrow> \<exists>es. emits w w' es \<and> keeps_table t t'"
proof (induction cf ln t w rule: reactor_loop.induct)
  case (1 cf ln t w)
  from "1.prems" obtain stop w1 where s: "stop_seen w = Some (stop, w1)"
    by (auto simp: reactor_loop.simps [of cf ln t w] split: option.splits)
  from runsD [OF runs_stop_seen s] obtain es where e: "emits w w1 es" by blast
  note r = "1.prems" [unfolded reactor_loop.simps [of cf ln t w] s option.case prod.case]
  show ?case
  proof (cases stop)
    case True
    with r e show ?thesis by auto
  next
    case stop: False
    with r obtain b ln1 t1 w2 where u: "reactor_round cf ln t w1 = Some ((b, ln1, t1), w2)"
      by (auto split: option.splits)
    from runsD [OF runs_reactor_round u] obtain fs where fs: "emits w1 w2 fs" "keeps_table t t1" by auto
    show ?thesis
    proof (cases "b = Break")
      case True
      with r stop u have "t' = t1" "w' = w2" by simp_all
      with e fs show ?thesis by (blast intro: emits_trans)
    next
      case False
      with r stop u have rest: "reactor_loop cf ln1 t1 w2 = Some ((ln', t'), w')" by simp
      from "1.IH" [OF s refl stop u refl refl refl False rest] obtain gs where
        gs: "emits w2 w' gs" "keeps_table t1 t'" by blast
      from gs(2) fs(2) have "keeps_table t t'" by simp
      with emits_trans [OF e emits_trans [OF fs(1) gs(1)]] show ?thesis by blast
    qed
  qed
qed

lemma runs_reactor_loop: "runs (reactor_loop cf ln t) (\<lambda>x es. keeps_table t (snd x))"
proof (rule runsI)
  fix w x w'
  assume run: "reactor_loop cf ln t w = Some (x, w')"
  obtain ln' t' where x: "x = (ln', t')" by (cases x)
  from reactor_loop_keeps [OF run [unfolded x]] show "\<exists>es. emits w w' es \<and> keeps_table t (snd x)" by (simp add: x)
qed

text \<open>The cells are given up and the owner is told.\<close>

definition abandon_all :: "table \<Rightarrow> world \<Rightarrow> (table \<times> world) option" where
  "abandon_all t w = do {
     (t, w) \<leftarrow> pass abandon_cell [0..<length (snd t)] t w;
     (_, w) \<leftarrow> signal_owner w;
     Some (t, w)
   }"

definition reactor_main :: "config \<Rightarrow> lanes \<Rightarrow> table \<Rightarrow> world \<Rightarrow> ((lanes \<times> table) \<times> world) option" where
  "reactor_main cf ln t w = do {
     (m, w) \<leftarrow> sys (Env (Curl ''multi_init'')) w;
     if r_ret m = 0 then do { (_, w) \<leftarrow> signal_owner w; Some ((ln\<lparr>ln_fatal := True\<rparr>, t), w) }
     else do {
       (s, w) \<leftarrow> sys (Env (Curl ''multi_setopt'')) w;
       if r_ret s \<noteq> 0 then do {
         (_, w) \<leftarrow> sys (Env (Curl ''multi_cleanup'')) w;
         (_, w) \<leftarrow> signal_owner w;
         Some ((ln\<lparr>ln_fatal := True\<rparr>, t), w)
       }
       else do {
         (_, w) \<leftarrow> signal_owner w;
         ((ln, t), w) \<leftarrow> reactor_loop cf ln t w;
         (t, w) \<leftarrow> (if ln_fatal ln then abandon_all t w else Some (t, w));
         (_, w) \<leftarrow> sys (Env (Curl ''multi_cleanup'')) w;
         Some ((ln, t), w)
       }
     }
   }"

lemma runs_abandon_all: "runs (abandon_all t) (\<lambda>t' es. keeps_table t t')"
proof -
  have "runs (pass abandon_cell [0..<length (snd t)] t) (\<lambda>t' es. keeps_table t t')"
    by (rule runs_pass [OF keeping_abandon_cell]) (simp add: list_all_iff)
  then show ?thesis
    unfolding abandon_all_def by (rule runs_bind) (intro runs_bind [OF runs_signal_owner] runs_rules, simp)
qed

lemma runs_reactor_main: "runs (reactor_main cf ln t) (\<lambda>x es. keeps_table t (snd x))"
  unfolding reactor_main_def
  by (intro runs_bind [OF runs_signal_owner] runs_bind [OF runs_reactor_loop] runs_bind [OF runs_abandon_all] runs_rules)
    simp_all

end
