(* ===== verification/Custody_Plan.thy ===== *)
theory Custody_Plan
  imports Custody_Reactor
begin

text \<open>
  How a run of \<open>integrated_capacity.c\<close> is set up: the arguments and the environment, the plan of
  the table, the measurement of the process, the database, and the wait for the lanes.
  The environment is a function from names to texts.
\<close>

section \<open>Numbers in text\<close>

definition is_space :: "char \<Rightarrow> bool" where
  "is_space c \<longleftrightarrow> of_char c \<in> {9, 10, 11, 12, 13, 32 :: nat}"

definition digit_of :: "char \<Rightarrow> nat option" where
  "digit_of c = (let n = of_char c in if 48 \<le> n \<and> n \<le> (57 :: nat) then Some (n - 48) else None)"

fun read_digits :: "nat \<Rightarrow> string \<Rightarrow> nat" where
  "read_digits n [] = n"
| "read_digits n (c # cs) = (case digit_of c of None \<Rightarrow> n | Some d \<Rightarrow> read_digits (10 * n + d) cs)"

text \<open>The sign and the digits after leading space; outside the range of an \<open>int\<close> C leaves \<open>atoi\<close>
  undefined.\<close>

definition signed_digits :: "string \<Rightarrow> bool \<times> nat" where
  "signed_digits s = (let s = dropWhile is_space s in
     if take 1 s = ''-'' then (True, read_digits 0 (drop 1 s))
     else if take 1 s = ''+'' then (False, read_digits 0 (drop 1 s))
     else (False, read_digits 0 s))"

definition atoi :: "string \<Rightarrow> int" where
  "atoi s = (case signed_digits s of (neg, n) \<Rightarrow> if neg then - int n else int n)"

text \<open>\<open>strtoull\<close> saturates, and a sign negates modulo the width.\<close>

definition strtoull :: "string \<Rightarrow> u64" where
  "strtoull s = (case signed_digits s of (neg, n) \<Rightarrow>
     if n \<ge> 2 ^ 64 then -1 else if neg then - of_nat n else of_nat n)"

section \<open>The plan\<close>

record plan =
  pl_capacity :: int
  pl_timeout :: int
  pl_cycles :: int
  pl_lane :: bool
  pl_patch_index :: int
  pl_bash_count :: int
  pl_model_count :: int

definition fixtures :: "string list" where
  "fixtures = [''normal'', ''term'', ''kill'', ''inherited'', ''escaped'', ''interfere-before'', ''interfere-during'',
     ''interfere-after'']"

definition profiles :: "string list" where
  "profiles = [''mixed'', ''bash-only'', ''patch-race'']"

text \<open>Patch index, shells and transports of a profile.\<close>

definition counts_of :: "string \<Rightarrow> int \<Rightarrow> (int \<times> int \<times> int) option" where
  "counts_of profile capacity =
     (if profile = ''bash-only'' then Some (-1, capacity, 0)
      else if profile = ''patch-race'' then (if capacity \<noteq> 2 then None else Some (1, 1, 0))
      else
        let patch = (if capacity \<ge> 10 then capacity - 1 else -1);
            bash = (if capacity > 1 then capacity div 4 else 0)
        in Some (patch, bash, capacity - bash - (if patch \<ge> 0 then 1 else 0)))"

definition kind_at :: "plan \<Rightarrow> int \<Rightarrow> custody_kind" where
  "kind_at p i = (if i < pl_model_count p then Model else if i = pl_patch_index p then Patch else Bash)"

definition free_cell :: "custody_kind \<Rightarrow> cell" where
  "free_cell k = \<lparr>c_state = Vacant, c_kind = k, c_terminal_seen = False, c_root_reaped = False, c_flags = 0,
     c_attempt_id = 0, c_operation_id = 0, c_started_ns = 0, c_completed_ns = 0, c_bytes_a = 0, c_bytes_b = 0,
     c_callbacks = 0, c_deadline_ns = 0, c_grace_deadline_ns = 0, c_easy = 0, c_spool_a = -1, c_spool_b = -1,
     c_pipe_a = -1, c_pipe_b = -1, c_root_pid = 0, c_process_group = 0, c_wait_status = 0\<rparr>"

definition planned_cells :: "plan \<Rightarrow> cell list" where
  "planned_cells p = map (\<lambda>i. free_cell (kind_at p (int i))) [0..<nat (pl_capacity p)]"

definition blank_runtime :: runtime where
  "blank_runtime = \<lparr>rt_bash_cancel_after_ns = 0, rt_bash_term_grace_ns = 0, rt_bash_pipe_grace_ns = 0,
     rt_effect_output_limit = 0, rt_host_scratch_quota = 0, rt_scratch_current = 0, rt_scratch_highwater = 0,
     rt_max_write_ns = 0, rt_max_term_lateness_ns = 0, rt_max_kill_lateness_ns = 0, rt_max_signal_to_reap_ns = 0,
     rt_max_pipe_grace_lateness_ns = 0, rt_max_model_callback_gap_ns = 0, rt_first_model_sealed_ns = 0,
     rt_last_model_sealed_ns = 0, rt_validator_active = 0, rt_validator_max = 0, rt_bash_term_sent = 0,
     rt_bash_kill_sent = 0, rt_bash_reaped = 0, rt_bash_pipe_grace_expired = 0, rt_max_live_spool_allocated = 0,
     rt_max_storage_allocated = 0\<rparr>"

definition limit_of :: "string option \<Rightarrow> u64 \<Rightarrow> u64" where
  "limit_of t otherwise = (case t of None \<Rightarrow> otherwise | Some s \<Rightarrow> strtoull s)"

definition planned_runtime :: "(string \<Rightarrow> string option) \<Rightarrow> string \<Rightarrow> runtime" where
  "planned_runtime getenv fixture = blank_runtime\<lparr>
     rt_bash_term_grace_ns := 250000000, rt_bash_pipe_grace_ns := 500000000,
     rt_effect_output_limit := limit_of (getenv ''RUI_PROOF_EFFECT_OUTPUT_LIMIT'') (-1),
     rt_host_scratch_quota := limit_of (getenv ''RUI_PROOF_HOST_SCRATCH_QUOTA'') (-1),
     rt_bash_cancel_after_ns := (if fixture = ''term'' \<or> fixture = ''kill'' then 100000000 else 0)\<rparr>"

definition planned_config :: "(string \<Rightarrow> string option) \<Rightarrow> string \<Rightarrow> string list \<Rightarrow> string \<Rightarrow> config" where
  "planned_config getenv program argv fixture = \<lparr>
     cf_nocache = (getenv ''RUI_PROOF_SPOOL_NOCACHE'' \<noteq> None),
     cf_self = program, cf_fixture = fixture, cf_target = [], cf_database = bytes_of (argv ! 5),
     cf_inject_fatal_after = limit_of (getenv ''RUI_PROOF_INJECT_REACTOR_FATAL_AFTER_LOOPS'') 0\<rparr>"

text \<open>The status of the first check that fails, or the plan with the runtime and the configuration;
  \<open>curl_global_init\<close> is a call between the checks.\<close>

definition plan_run ::
    "(string \<Rightarrow> string option) \<Rightarrow> string \<Rightarrow> string list \<Rightarrow> world \<Rightarrow> ((int + plan \<times> runtime \<times> config) \<times> world) option" where
  "plan_run getenv program argv w =
     (if length argv \<notin> {8, 9, 10} then Some (Inl 2, w)
      else
        let capacity = atoi (argv ! 1); timeout = atoi (argv ! 7); mode = argv ! 6 in
        if capacity < 1 \<or> capacity > 100 \<or> timeout < 1 then Some (Inl 2, w)
        else if mode \<noteq> ''lane'' \<and> mode \<noteq> ''owner'' then Some (Inl 2, w)
        else do {
          (g, w) \<leftarrow> sys (Env (Curl ''global_init'')) w;
          let fixture = (if length argv = 10 then argv ! 9 else ''normal'');
          let profile = (if length argv \<ge> 9 then argv ! 8 else ''mixed'');
          let cycles = (case getenv ''RUI_PROOF_CYCLES'' of None \<Rightarrow> 1 | Some s \<Rightarrow> atoi s);
          Some (if r_ret g \<noteq> 0 then Inl 1
            else if fixture \<notin> set fixtures \<or> profile \<notin> set profiles then Inl 2
            else if cycles < 1 \<or> cycles > 1000 then Inl 2
            else (case counts_of profile capacity of
                None \<Rightarrow> Inl 2
              | Some (patch, bash, model) \<Rightarrow> Inr (\<lparr>pl_capacity = capacity, pl_timeout = timeout, pl_cycles = cycles,
                  pl_lane = (mode = ''lane''), pl_patch_index = patch, pl_bash_count = bash, pl_model_count = model\<rparr>,
                  planned_runtime getenv fixture, planned_config getenv program argv fixture)), w)
        })"

section \<open>Measuring the process\<close>

record sample =
  sm_rss :: u64
  sm_physical :: u64
  sm_lifetime_physical :: u64
  sm_virtual_size :: u64
  sm_threads :: u32
  sm_fds :: u32

definition zero_sample :: sample where
  "zero_sample = \<lparr>sm_rss = 0, sm_physical = 0, sm_lifetime_physical = 0, sm_virtual_size = 0, sm_threads = 0, sm_fds = 0\<rparr>"

abbreviation (input) TASKINFO_BYTES :: int where "TASKINFO_BYTES \<equiv> 96"
abbreviation (input) FDINFO_BYTES :: int where "FDINFO_BYTES \<equiv> 8"

text \<open>The task reply stores resident size, virtual size and threads; the usage reply the footprint and
  its lifetime maximum.\<close>

definition observe :: "sample \<Rightarrow> world \<Rightarrow> ((bool \<times> sample) \<times> world) option" where
  "observe sm w = do {
     (t, w) \<leftarrow> sys (Env (Query ''PROC_PIDTASKINFO'')) w;
     (u, w) \<leftarrow> sys (Env (Query ''proc_pid_rusage'')) w;
     (f, w) \<leftarrow> sys (Env (Query ''PROC_PIDLISTFDS'')) w;
     if r_ret t \<noteq> TASKINFO_BYTES \<or> r_ret u \<noteq> 0 \<or> r_ret f < 0 then Some ((False, sm), w)
     else Some ((True, sm\<lparr>
       sm_rss := max_u64 (sm_rss sm) (word_of_int (out 0 t)),
       sm_virtual_size := max_u64 (sm_virtual_size sm) (word_of_int (out 1 t)),
       sm_threads := (let n = word_of_int (out 2 t) in if n > sm_threads sm then n else sm_threads sm),
       sm_physical := max_u64 (sm_physical sm) (word_of_int (out 0 u)),
       sm_lifetime_physical := max_u64 (sm_lifetime_physical sm) (word_of_int (out 1 u)),
       sm_fds := (let n = word_of_int (r_ret f div FDINFO_BYTES) in
         if r_ret f > 0 \<and> n > sm_fds sm then n else sm_fds sm)\<rparr>), w)
   }"

section \<open>The database\<close>

definition schema :: string where
  "schema = ''PRAGMA foreign_keys; journal_mode=WAL; synchronous=FULL; CREATE TABLE operation, attempt, artifact, completion, resolution''"

definition open_database :: "world \<Rightarrow> (int \<times> world) option" where
  "open_database w = do {
     (r, w) \<leftarrow> sys (Env (Sql ''open'')) w;
     if r_ret r \<noteq> 0 then Some (-1, w) else sql_exec schema w
   }"

text \<open>A scalar query.\<close>

definition scalar_int :: "string \<Rightarrow> world \<Rightarrow> (int \<times> world) option" where
  "scalar_int statement w = do {
     (p, w) \<leftarrow> sys (Env (Sql statement)) w;
     if r_ret p \<noteq> 0 then Some (-1, w)
     else do {
       (s, w) \<leftarrow> sys (Env (Sql ''step'')) w;
       (_, w) \<leftarrow> sys (Env (Sql ''finalize'')) w;
       Some (if r_ret s = SQLITE_ROW then out 0 s else -1, w)
     }
   }"

section \<open>Waiting for the lanes\<close>

definition flag :: "string \<Rightarrow> world \<Rightarrow> (bool \<times> world) option" where
  "flag name w = do { (r, w) \<leftarrow> sys (Env (Query name)) w; Some (r_ret r \<noteq> 0, w) }"

text \<open>\<open>ready && (!patch_lane || patch_ready)\<close>, loading only what C loads.\<close>

definition lanes_ready :: "bool \<Rightarrow> world \<Rightarrow> (bool \<times> world) option" where
  "lanes_ready patch_lane w = do {
     (r, w) \<leftarrow> flag ''reactor_ready'' w;
     if r \<and> patch_lane then flag ''patch_ready'' w else Some (r, w)
   }"

definition still_waiting :: "bool \<Rightarrow> world \<Rightarrow> (bool \<times> world) option" where
  "still_waiting patch_lane w = do {
     (r, w) \<leftarrow> lanes_ready patch_lane w;
     if r then Some (False, w) else do { (f, w) \<leftarrow> flag ''fatal'' w; Some (\<not> f, w) }
   }"

text \<open>The clock, then the timed wait.\<close>

definition timed_wait :: "world \<Rightarrow> (unit \<times> world) option" where
  "timed_wait w = do {
     (_, w) \<leftarrow> sys (Env (Query ''CLOCK_REALTIME'')) w;
     (_, w) \<leftarrow> sys (Env (Query ''cond_timedwait'')) w;
     Some ((), w)
   }"

lemma runs_flag: "runs (flag name) (\<lambda>_ es. es \<noteq> [] \<and> inert es)"
  unfolding flag_def by (intro runs_rules) (simp add: inert_def)

lemma runs_lanes_ready: "runs (lanes_ready patch_lane) (\<lambda>_ es. es \<noteq> [] \<and> inert es)"
  unfolding lanes_ready_def
  by (intro runs_bind [OF runs_flag] runs_weaken [OF runs_flag] runs_rules) (auto simp: inert_def)

lemma runs_still_waiting: "runs (still_waiting patch_lane) (\<lambda>_ es. es \<noteq> [] \<and> inert es)"
  unfolding still_waiting_def
  by (intro runs_bind [OF runs_lanes_ready] runs_bind [OF runs_flag] runs_rules) auto

lemma runs_timed_wait: "runs timed_wait uncommitted"
  unfolding timed_wait_def by (intro runs_rules) (simp add: inert_def)

lemma still_waiting_shrinks: "still_waiting p w = Some (b, w') \<Longrightarrow> length (w_script w') < length (w_script w)"
  by (rule runs_shrinks [OF runs_weaken [OF runs_still_waiting]]) auto

lemma now_ns_shrinks: "now_ns w = Some (at, w') \<Longrightarrow> length (w_script w') < length (w_script w)"
  by (auto simp: now_ns_def dest: sys_shrinks)

lemma timed_wait_shrinks: "timed_wait w = Some (x, w') \<Longrightarrow> length (w_script w') < length (w_script w)"
  by (auto simp: timed_wait_def dest!: sys_shrinks)

text \<open>The loop: -1 at the deadline.\<close>

function wait_loop :: "bool \<Rightarrow> u64 \<Rightarrow> world \<Rightarrow> (bool \<times> world) option" where
  "wait_loop patch_lane deadline w =
     (case still_waiting patch_lane w of
        None \<Rightarrow> None
      | Some (waiting, w1) \<Rightarrow>
          if \<not> waiting then Some (True, w1)
          else (case now_ns w1 of
              None \<Rightarrow> None
            | Some (at, w2) \<Rightarrow>
                if at \<ge> deadline then Some (False, w2)
                else (case timed_wait w2 of
                    None \<Rightarrow> None
                  | Some (_, w3) \<Rightarrow> wait_loop patch_lane deadline w3)))"
  by pat_completeness auto
termination
  by (relation "measure (\<lambda>(_, _, w). length (w_script w))")
    (auto dest!: still_waiting_shrinks now_ns_shrinks timed_wait_shrinks)

declare wait_loop.simps [simp del]

definition wait_lanes_ready :: "bool \<Rightarrow> world \<Rightarrow> (int \<times> world) option" where
  "wait_lanes_ready patch_lane w = do {
     (at, w) \<leftarrow> now_ns w;
     (in_time, w) \<leftarrow> wait_loop patch_lane (at + 5000000000) w;
     if \<not> in_time then Some (-1, w)
     else do { (r, w) \<leftarrow> lanes_ready patch_lane w; Some (if r then 0 else -1, w) }
   }"

section \<open>The plan is a partition of the table\<close>

definition counts_fit :: "plan \<Rightarrow> bool" where
  "counts_fit p \<longleftrightarrow> 0 \<le> pl_model_count p \<and> 0 \<le> pl_bash_count p \<and>
     (if pl_patch_index p = -1 then pl_model_count p + pl_bash_count p = pl_capacity p
      else pl_patch_index p = pl_capacity p - 1 \<and> pl_model_count p + pl_bash_count p + 1 = pl_capacity p)"

lemma planned_kinds:
  assumes "counts_fit p"
  shows "map c_kind (planned_cells p) = replicate (nat (pl_model_count p)) Model @
    replicate (nat (pl_bash_count p)) Bash @ (if 0 \<le> pl_patch_index p then [Patch] else [])"
proof (rule nth_equalityI)
  show "length (map c_kind (planned_cells p)) = length (replicate (nat (pl_model_count p)) Model @
    replicate (nat (pl_bash_count p)) Bash @ (if 0 \<le> pl_patch_index p then [Patch] else []))"
    using assms by (auto simp: planned_cells_def counts_fit_def split: if_splits)
next
  fix i assume "i < length (map c_kind (planned_cells p))"
  then have i: "int i < pl_capacity p" by (auto simp: planned_cells_def)
  then have "map c_kind (planned_cells p) ! i = kind_at p (int i)" by (simp add: planned_cells_def free_cell_def)
  with i assms show "map c_kind (planned_cells p) ! i = (replicate (nat (pl_model_count p)) Model @
    replicate (nat (pl_bash_count p)) Bash @ (if 0 \<le> pl_patch_index p then [Patch] else [])) ! i"
    by (auto simp: kind_at_def counts_fit_def nth_append nth_Cons' split: if_splits)
qed

lemma counts_of_fit:
  assumes "counts_of profile capacity = Some (patch, bash, model)" and "1 \<le> capacity"
    and "pl_capacity p = capacity" "pl_patch_index p = patch" "pl_bash_count p = bash" "pl_model_count p = model"
  shows "counts_fit p"
  using assms by (auto simp: counts_of_def counts_fit_def Let_def split: if_splits)

lemma plan_run_fits:
  assumes "plan_run getenv program argv w = Some (Inr (p, rt, cf), w')"
  shows "counts_fit p \<and> 1 \<le> pl_capacity p \<and> pl_capacity p \<le> 100 \<and> 1 \<le> pl_cycles p \<and> pl_cycles p \<le> 1000"
  using assms counts_of_fit [where p = p]
  by (auto simp: plan_run_def Let_def split: if_splits option.splits)

text \<open>
  C31. The counts of a plan are those of the table it makes: the transports come first, the patch is
  one cell or none, the other cells are shells, and together they fill the capacity.
\<close>

theorem plan_fills_table:
  assumes "plan_run getenv program argv w = Some (Inr (p, rt, cf), w')"
  shows "length (planned_cells p) = nat (pl_capacity p) \<and> 1 \<le> pl_capacity p \<and> pl_capacity p \<le> 100 \<and>
    int (length (filter (\<lambda>c. c_kind c = Model) (planned_cells p))) = pl_model_count p \<and>
    int (length (filter (\<lambda>c. c_kind c = Bash) (planned_cells p))) = pl_bash_count p \<and>
    int (length (filter (\<lambda>c. c_kind c = Patch) (planned_cells p))) = of_bool (0 \<le> pl_patch_index p)"
proof -
  note fits = plan_run_fits [OF assms]
  then have c: "counts_fit p" by simp
  have count: "length (filter (\<lambda>c. c_kind c = k) (planned_cells p)) =
      length (filter (\<lambda>x. x = k) (map c_kind (planned_cells p)))" for k
    by (simp add: filter_map comp_def)
  show ?thesis
    using fits unfolding count planned_kinds [OF c] by (simp add: planned_cells_def counts_fit_def)
qed

definition no_env :: "string \<Rightarrow> string option" where
  "no_env name = None"

lemma plan_fills_table_witness:
  "\<exists>p rt cf w'. plan_run no_env ''p'' [''integrated'', ''10'', ''u'', ''c'', ''s'', ''d'', ''lane'', ''5''] (boot [ok 0]) =
      Some (Inr (p, rt, cf), w') \<and> length (filter (\<lambda>c. c_kind c = Patch) (planned_cells p)) = 1"
proof -
  have "\<exists>p rt cf w'. plan_run no_env ''p'' [''integrated'', ''10'', ''u'', ''c'', ''s'', ''d'', ''lane'', ''5''] (boot [ok 0]) =
      Some (Inr (p, rt, cf), w') \<and> pl_patch_index p = 9"
    by (simp cong: bind_option_cong_code add: plan_run_def boot_def no_env_def atoi_def signed_digits_def is_space_def
        digit_of_def fixtures_def profiles_def counts_of_def Let_def)
  then obtain p rt cf w' where run: "plan_run no_env ''p'' [''integrated'', ''10'', ''u'', ''c'', ''s'', ''d'', ''lane'', ''5''] (boot [ok 0]) =
      Some (Inr (p, rt, cf), w')" "pl_patch_index p = 9" by blast
  from plan_fills_table [OF run(1)] run(2) have "length (filter (\<lambda>c. c_kind c = Patch) (planned_cells p)) = 1" by simp
  with run(1) show ?thesis by blast
qed

end
