(* ===== verification/Custody_Owner.thy ===== *)
theory Custody_Owner
  imports Custody_Plan
begin

text \<open>
  The owner of \<open>integrated_capacity.c\<close>: it admits every cell of the table, settles what the other
  lanes seal, and repeats this for the cycles of the plan.  The other lanes run beside it: a
  schedule gives the steps they take before each cell the owner admits or looks at, and before
  the lanes are joined, only steps that are theirs; the steps of the fatal path are among them.
  Every such step works on one cell its lane owns, and the owner learns of it only when it next
  reads the state of a cell, which is where the schedule puts it; what the owner calls in between
  is about no cell.  A run that returns 1 in the middle of the C function is \<open>Returned\<close>.
\<close>

section \<open>The other lanes\<close>

type_synonym schedule = "(nat \<times> lane_op) list list"

definition others_op :: "bool \<Rightarrow> lane_op \<Rightarrow> bool" where
  "others_op patch_lane a = (case a of Lane_admit _ \<Rightarrow> False | Lane_settle \<Rightarrow> False | Lane_reclaim \<Rightarrow> False
     | Lane_patch \<Rightarrow> patch_lane | _ \<Rightarrow> True)"

definition others_work :: "bool \<Rightarrow> config \<Rightarrow> schedule \<Rightarrow> flow \<Rightarrow> world \<Rightarrow> ((schedule \<times> flow) \<times> world) option" where
  "others_work patch_lane cf sch f w = (case sch of
      [] \<Rightarrow> Some (([], f), w)
    | steps # sch \<Rightarrow>
        if list_all (\<lambda>p. others_op patch_lane (snd p)) steps
        then do { (f, w) \<leftarrow> run_lanes cf steps f w; Some ((sch, f), w) }
        else None)"

section \<open>Admission of the table\<close>

text \<open>The identifier of cell \<open>i\<close> is \<open>base + i + 1\<close>.\<close>

fun admit_all :: "bool \<Rightarrow> config \<Rightarrow> nat list \<Rightarrow> int \<Rightarrow> schedule \<Rightarrow> flow \<Rightarrow> world \<Rightarrow>
    ((bool \<times> schedule \<times> flow) \<times> world) option" where
  "admit_all pl cf [] base sch f w = Some ((True, sch, f), w)"
| "admit_all pl cf (i # is) base sch f w = do {
     ((sch, f), w) \<leftarrow> others_work pl cf sch f w;
     case fl_table f of (rt, cells) \<Rightarrow> do {
       ((e, c), w) \<leftarrow> admit (base + int i + 1) (cells ! i) w;
       let f = f\<lparr>fl_table := (rt, cells[i := c]), fl_admitted := fl_admitted f + of_bool (e = 0)\<rparr>;
       if e \<noteq> 0 then Some ((False, sch, f), w) else admit_all pl cf is base sch f w
     }
   }"

section \<open>The settlement sweep\<close>

text \<open>\<open>n\<close> counts what the cycle has settled; a failed settlement returns from the program.\<close>

fun sweep :: "bool \<Rightarrow> config \<Rightarrow> nat list \<Rightarrow> nat \<Rightarrow> schedule \<Rightarrow> flow \<Rightarrow> world \<Rightarrow>
    ((bool \<times> nat \<times> schedule \<times> flow) \<times> world) option" where
  "sweep pl cf [] n sch f w = Some ((True, n, sch, f), w)"
| "sweep pl cf (i # is) n sch f w = do {
     ((sch, f), w) \<leftarrow> others_work pl cf sch f w;
     case fl_table f of (rt, cells) \<Rightarrow>
       if c_state (cells ! i) \<noteq> Sealed then sweep pl cf is n sch f w
       else do {
         ((e, pk, rt, c), w) \<leftarrow> settle_and_release cf cells (fl_peaks f) (rt, cells ! i) w;
         let f = f\<lparr>fl_table := (rt, cells[i := c]), fl_peaks := pk,
           fl_settled := fl_settled f + of_bool (e = Resolved)\<rparr>;
         if e \<noteq> Resolved then Some ((False, n, sch, f), w) else sweep pl cf is (n + 1) sch f w
       }
   }"

section \<open>What the phases conserve\<close>

text \<open>Conservation, with the attempts admitted and settled on the way.\<close>

definition shifts :: "nat \<Rightarrow> nat \<Rightarrow> flow \<Rightarrow> flow \<Rightarrow> (call \<times> reply) list \<Rightarrow> bool" where
  "shifts a s f g es \<longleftrightarrow> conserved f g es \<and> length (snd (fl_table g)) = length (snd (fl_table f)) \<and>
     fl_admitted g = fl_admitted f + a \<and> fl_settled g = fl_settled f + s"

lemma shifts_ok: "shifts a s f g es \<Longrightarrow> flow_ok g"
  by (simp add: shifts_def conserved_def)

lemma shifts_refl: "flow_ok f \<Longrightarrow> shifts 0 0 f f []"
  by (simp add: shifts_def conserved_def)

lemma shifts_trans: "shifts a s f g es \<Longrightarrow> shifts b t g h fs \<Longrightarrow> shifts (a + b) (s + t) f h (es @ fs)"
  unfolding shifts_def using conserved_trans by auto

lemma shifts_idle: "shifts 0 0 f g es \<Longrightarrow> shifts b t g h fs \<Longrightarrow> shifts b t f h (es @ fs)"
  using shifts_trans [of 0 0 f g es b t h fs] by simp

lemma shifts_inert: "inert es \<Longrightarrow> shifts a s f g fs \<Longrightarrow> shifts a s f g (es @ fs)"
  by (simp add: shifts_def conserved_def inert_commits inert_fds)

lemma shifts_inert_after: "inert fs \<Longrightarrow> shifts a s f g es \<Longrightarrow> shifts a s f g (es @ fs)"
  by (simp add: shifts_def conserved_def inert_commits inert_fds)

lemma shifts_inert_after2: "inert gs \<Longrightarrow> inert fs \<Longrightarrow> shifts a s f g es \<Longrightarrow> shifts a s f g (es @ fs @ gs)"
  by (rule shifts_inert_after) simp_all

lemma runs_case_pair:
  "(\<And>a b. p = (a, b) \<Longrightarrow> runs (g a b) \<Phi>) \<Longrightarrow> runs (\<lambda>w. case p of (a, b) \<Rightarrow> g a b w) \<Phi>"
  by (cases p) simp

text \<open>One step of another lane.\<close>

lemma moved_end: "moved pk f w = Some ((e, q), w') \<Longrightarrow> e = Moved"
  by (auto simp: moved_def)

lemma given_up_end: "given_up pk f w = Some ((e, q), w') \<Longrightarrow> e = Moved \<or> e = Abandoned"
  by (auto simp: given_up_def)

lemma others_moved:
  "others_op pl a \<Longrightarrow> lane_step cf cells pk a s w = Some ((e, q), w') \<Longrightarrow> e = Moved \<or> e = Abandoned"
  by (cases a) (auto simp: lane_step_def others_op_def dest: moved_end given_up_end split: if_splits)

lemma run_lanes_others:
  "run_lanes cf steps f w = Some (g, w') \<Longrightarrow> list_all (\<lambda>p. others_op pl (snd p)) steps \<Longrightarrow>
     length (snd (fl_table g)) = length (snd (fl_table f)) \<and> fl_admitted g = fl_admitted f \<and> fl_settled g = fl_settled f"
proof (induction cf steps f w rule: run_lanes.induct)
  case (2 cf i a steps f w)
  obtain rt cells where t: "fl_table f = (rt, cells)" by (cases "fl_table f")
  from "2.prems"(1) t obtain e pk rt' c w1 where i: "i < length cells"
    and st: "lane_step cf cells (fl_peaks f) a (rt, cells ! i) w = Some ((e, pk, rt', c), w1)"
    by (auto split: if_splits)
  have e: "e \<noteq> Admitted" "e \<noteq> Resolved" "e \<noteq> Refused" using "2.prems"(2) others_moved [OF _ st, of pl] by auto
  let ?g = "f\<lparr>fl_table := (rt', cells[i := c]), fl_peaks := pk,
    fl_admitted := fl_admitted f + of_bool (e = Admitted), fl_settled := fl_settled f + of_bool (e = Resolved),
    fl_abandoned := fl_abandoned f + of_bool (e = Abandoned)\<rparr>"
  have rest: "run_lanes cf steps ?g w1 = Some (g, w')"
    using "2.prems"(1) i st e(3) unfolding run_lanes.simps(2) t prod.case by (simp add: Let_def)
  have "list_all (\<lambda>p. others_op pl (snd p)) steps" using "2.prems"(2) by simp
  with "2.IH" [OF t [symmetric] i st refl refl refl refl refl e(3) rest] e show ?case by (simp add: t)
qed simp

lemma runs_others_work:
  assumes "flow_ok f"
  shows "runs (others_work pl cf sch f) (\<lambda>(sch, g) es. shifts 0 0 f g es)"
proof (cases sch)
  case Nil
  show ?thesis
    unfolding others_work_def Nil list.case by (intro runs_rules) (simp add: shifts_refl assms)
next
  case (Cons steps rest)
  have lanes: "runs (run_lanes cf steps f) (\<lambda>g es. shifts 0 0 f g es)" if "list_all (\<lambda>p. others_op pl (snd p)) steps"
    using run_lanes_conserved [OF _ assms] run_lanes_others [OF _ that] by (intro runsI) (force simp: shifts_def)
  show ?thesis
    unfolding others_work_def Cons list.case
    by (intro runs_if runs_bind [OF lanes] runs_rules) simp_all
qed

text \<open>All \<open>n\<close> are admitted, or fewer and the program returns.\<close>

definition admits :: "nat \<Rightarrow> flow \<Rightarrow> bool \<times> schedule \<times> flow \<Rightarrow> (call \<times> reply) list \<Rightarrow> bool" where
  "admits n f x es \<longleftrightarrow> (\<exists>a. shifts a 0 f (snd (snd x)) es \<and> (fst x \<longrightarrow> a = n))"

lemma admits_Suc: "shifts 1 0 f g es \<Longrightarrow> admits n g x fs \<Longrightarrow> admits (Suc n) f x (es @ fs)"
  unfolding admits_def using shifts_trans [of 1 0 f g es _ 0] by fastforce

lemma admits_idle: "shifts 0 0 f g es \<Longrightarrow> admits n g x fs \<Longrightarrow> admits n f x (es @ fs)"
  unfolding admits_def using shifts_idle by blast

lemma runs_admit_cell:
  assumes "flow_ok f" and "fl_table f = (rt, cells)" and "i < length cells"
  shows "runs (admit ident (cells ! i)) (\<lambda>(e, c) es. shifts (of_bool (e = 0)) 0 f
    (f\<lparr>fl_table := (rt, cells[i := c]), fl_admitted := fl_admitted f + of_bool (e = 0)\<rparr>) es)"
proof -
  have dorm: "dormant (cells ! i)" using assms by (auto simp: flow_ok_def list_all_iff)
  have adm: "shifts (of_bool (e = 0)) 0 f
      (f\<lparr>fl_table := (rt, cells[i := c]), fl_admitted := fl_admitted f + of_bool (e = 0)\<rparr>) es"
    if "admitted ident (cells ! i) e c es" "fd_ledger (cells ! i) c es" for e c es
  proof (cases "c_state (cells ! i) = Vacant")
    case True
    have "stepped (rt, cells ! i) (if e = 0 then Admitted else Refused) (rt, c) es"
      using that dorm True by (simp add: stepped_admitted)
    from conserved_step [OF this assms(2,3,1), of "fl_peaks f"] show ?thesis
      by (cases "e = 0") (simp_all add: shifts_def assms(2))
  next
    case False
    with that(1) have "e \<noteq> 0" "c = cells ! i" "commits es = 0" by (auto simp: admitted_def split: if_splits)
    with that(2) assms(1) show ?thesis
      by (simp add: shifts_def conserved_def assms(2) fd_ledger_def flow_ok_def all_held_def all_occupied_def)
  qed
  show ?thesis
    by (rule runs_weaken [OF runs_both [OF runs_admit ledger_admit]]) (auto intro: adm)
qed

lemma runs_admit_all:
  assumes "flow_ok f" and "list_all (\<lambda>i. i < length (snd (fl_table f))) is"
  shows "runs (admit_all pl cf is base sch f) (admits (length is) f)"
  using assms
proof (induction "is" arbitrary: sch f)
  case Nil
  have "runs (\<lambda>w. Some ((True, sch, f), w)) (admits 0 f)"
    by (intro runs_rules) (simp add: admits_def shifts_refl Nil)
  then show ?case by simp
next
  case (Cons i js)
  let ?upd = "\<lambda>g e c. g\<lparr>fl_table := (fst (fl_table g), (snd (fl_table g))[i := c]), fl_admitted := fl_admitted g + of_bool (e = (0::int))\<rparr>"
  have body: "runs (\<lambda>w. case fl_table g of (rt, cells) \<Rightarrow> do {
       ((e, c), w) \<leftarrow> admit (base + int i + 1) (cells ! i) w;
       let f = g\<lparr>fl_table := (rt, cells[i := c]), fl_admitted := fl_admitted g + of_bool (e = 0)\<rparr>;
       if e \<noteq> 0 then Some ((False, sch, f), w) else admit_all pl cf js base sch f w
     }) (admits (Suc (length js)) g)" if g: "shifts 0 0 f g es" for g sch es
  proof -
    obtain rt cells where t: "fl_table g = (rt, cells)" by (cases "fl_table g")
    have i: "i < length cells" using Cons.prems(2) g by (simp add: shifts_def t)
    have refused: "admits (Suc (length js)) g (False, sch, ?upd g e c) es"
      if "shifts (of_bool (e = 0)) 0 g (?upd g e c) es" "e \<noteq> 0" for e c es
      using that by (auto simp: admits_def)
    have rest: "runs (admit_all pl cf js base sch (?upd g e c)) (\<lambda>x gs. admits (Suc (length js)) g x (fs @ gs))"
      if "shifts (of_bool (e = 0)) 0 g (?upd g e c) fs" "\<not> e \<noteq> 0" for e c fs
    proof -
      from that have s: "shifts 1 0 g (?upd g e c) fs" by simp
      have len: "list_all (\<lambda>i. i < length (snd (fl_table (?upd g e c)))) js"
        using g Cons.prems(2) by (auto simp: shifts_def list_all_iff)
      show ?thesis by (rule runs_weaken [OF Cons.IH [OF shifts_ok [OF s] len]]) (rule admits_Suc [OF s])
    qed
    show ?thesis
      unfolding t prod.case Let_def
      by (intro runs_bind [OF runs_admit_cell [OF shifts_ok [OF g] t i]] runs_pair runs_if runs_ret)
        (use refused rest in \<open>auto simp only: append_Nil2 prod.case t fst_conv snd_conv\<close>)
  qed
  have "runs (\<lambda>w. admit_all pl cf (i # js) base sch f w) (admits (Suc (length js)) f)"
    unfolding admit_all.simps
    by (intro runs_bind [OF runs_others_work [OF Cons.prems(1)]] runs_pair runs_weaken [OF body])
      (auto simp only: prod.case intro: admits_idle)
  then show ?case by simp
qed

section \<open>The sweep\<close>

definition sweeps :: "nat \<Rightarrow> flow \<Rightarrow> bool \<times> nat \<times> schedule \<times> flow \<Rightarrow> (call \<times> reply) list \<Rightarrow> bool" where
  "sweeps n f x es \<longleftrightarrow> (\<exists>k. fst (snd x) = n + k \<and> shifts 0 k f (snd (snd (snd x))) es)"

lemma sweeps_idle: "shifts 0 0 f g es \<Longrightarrow> sweeps n g x fs \<Longrightarrow> sweeps n f x (es @ fs)"
  unfolding sweeps_def using shifts_idle by blast

lemma sweeps_one: "shifts 0 1 f g es \<Longrightarrow> sweeps (n + 1) g x fs \<Longrightarrow> sweeps n f x (es @ fs)"
  unfolding sweeps_def using shifts_trans [of 0 1 f g es 0] by fastforce

lemma settle_ends: "runs (settle_and_release cf cells pk s) (\<lambda>x es. fst x = Resolved \<or> fst x = Refused)"
  unfolding settle_and_release_def
  by (intro runs_bind [OF runs_settle] runs_bind [OF sound_release_cell] runs_rules) simp_all

lemma runs_settle_cell:
  assumes "flow_ok f" and "fl_table f = (rt, cells)" and "i < length cells" and "c_state (cells ! i) = Sealed"
  shows "runs (settle_and_release cf cells (fl_peaks f) (rt, cells ! i))
    (\<lambda>(e, pk, rt', c) es. shifts 0 (of_bool (e = Resolved)) f
      (f\<lparr>fl_table := (rt', cells[i := c]), fl_peaks := pk, fl_settled := fl_settled f + of_bool (e = Resolved)\<rparr>) es)"
proof -
  have one: "shifts 0 (of_bool (e = Resolved)) f
      (f\<lparr>fl_table := (rt', cells[i := c]), fl_peaks := pk, fl_settled := fl_settled f + of_bool (e = Resolved)\<rparr>) es"
    if "stepped (rt, cells ! i) e (rt', c) es" "e = Resolved \<or> e = Refused" for e pk rt' c es
    using conserved_step [OF that(1) assms(2,3,1), of pk] that(2) by (auto simp: shifts_def assms(2))
  have "c_state (snd (rt, cells ! i)) = Sealed" using assms(4) by simp
  from runs_both [OF runs_settle_and_release [OF this] settle_ends] show ?thesis
    by (rule runs_weaken) (clarify, rule one, simp_all)
qed

lemma sweeps_stop: "shifts 0 (of_bool False) f g es \<Longrightarrow> sweeps n f (False, n, sch, g) es"
  by (simp add: sweeps_def)

lemma runs_sweep:
  assumes "flow_ok f" and "list_all (\<lambda>i. i < length (snd (fl_table f))) is"
  shows "runs (sweep pl cf is n sch f) (sweeps n f)"
  using assms
proof (induction "is" arbitrary: n sch f)
  case Nil
  have "runs (\<lambda>w. Some ((True, n, sch, f), w)) (sweeps n f)"
    by (intro runs_rules) (simp add: sweeps_def shifts_refl Nil)
  then show ?case by simp
next
  case (Cons i js)
  have tail: "runs (sweep pl cf js m sch g) (sweeps m g)" if "shifts a k f g es" for m sch g a k es
    by (rule Cons.IH) (use that Cons.prems(2) shifts_ok in \<open>auto simp: shifts_def\<close>)
  have body: "runs (\<lambda>w. case fl_table g of (rt, cells) \<Rightarrow>
       if c_state (cells ! i) \<noteq> Sealed then sweep pl cf js n sch g w
       else do {
         ((e, pk, rt, c), w) \<leftarrow> settle_and_release cf cells (fl_peaks g) (rt, cells ! i) w;
         let f = g\<lparr>fl_table := (rt, cells[i := c]), fl_peaks := pk, fl_settled := fl_settled g + of_bool (e = Resolved)\<rparr>;
         if e \<noteq> Resolved then Some ((False, n, sch, f), w) else sweep pl cf js (n + 1) sch f w
       }) (sweeps n g)" if g: "shifts 0 0 f g es" for g sch es
  proof -
    obtain rt cells where t: "fl_table g = (rt, cells)" by (cases "fl_table g")
    have i: "i < length cells" using Cons.prems(2) g by (simp add: shifts_def t)
    have go: "runs (sweep pl cf js (n + 1) sch h) (\<lambda>x gs. sweeps n g x (fs @ gs))"
      if "shifts 0 (of_bool (e = Resolved)) g h fs" "\<not> e \<noteq> Resolved" for h fs e
    proof -
      from that have h: "shifts 0 1 g h fs" by simp
      show ?thesis by (rule runs_weaken [OF tail [OF shifts_trans [OF g h]]]) (rule sweeps_one [OF h])
    qed
    show ?thesis
      unfolding t prod.case Let_def
    proof (rule runs_if)
      show "runs (sweep pl cf js n sch g) (sweeps n g)" by (rule tail [OF g])
    next
      assume "\<not> c_state (cells ! i) \<noteq> Sealed"
      then have sealed: "c_state (cells ! i) = Sealed" by simp
      show "runs (\<lambda>w. Option.bind (settle_and_release cf cells (fl_peaks g) (rt, cells ! i) w)
          (\<lambda>((e, pk, rt, c), w). if e \<noteq> Resolved then Some ((False, n, sch, g\<lparr>fl_table := (rt, cells[i := c]), fl_peaks := pk,
              fl_settled := fl_settled g + of_bool (e = Resolved)\<rparr>), w)
            else sweep pl cf js (n + 1) sch (g\<lparr>fl_table := (rt, cells[i := c]), fl_peaks := pk,
              fl_settled := fl_settled g + of_bool (e = Resolved)\<rparr>) w)) (sweeps n g)"
        by (intro runs_bind [OF runs_settle_cell [OF shifts_ok [OF g] t i sealed]] runs_pair runs_if runs_ret)
          (auto simp only: append_Nil2 prod.case intro: sweeps_stop go)
    qed
  qed
  have "runs (\<lambda>w. sweep pl cf (i # js) n sch f w) (sweeps n f)"
    unfolding sweep.simps
    by (intro runs_bind [OF runs_others_work [OF Cons.prems(1)]] runs_pair runs_weaken [OF body])
      (auto simp only: prod.case intro: sweeps_idle)
  then show ?case .
qed

section \<open>The owner's state\<close>

record owner =
  ow_flow :: flow
  ow_sched :: schedule
  ow_fatal :: bool \<comment> \<open>the owner has set the flag\<close>
  ow_active :: sample
  ow_first_idle :: sample
  ow_final_idle :: sample
  ow_completed :: nat
  ow_target :: string

definition fatal_seen :: "owner \<Rightarrow> world \<Rightarrow> (bool \<times> world) option" where
  "fatal_seen ow w = (if ow_fatal ow then Some (True, w) else flag ''fatal'' w)"

text \<open>The condition of the loop, with the calls C makes for it.\<close>

definition unsettled :: "nat \<Rightarrow> u64 \<Rightarrow> nat \<Rightarrow> owner \<Rightarrow> world \<Rightarrow> (bool \<times> world) option" where
  "unsettled capacity deadline n ow w =
     (if n \<ge> capacity then Some (False, w)
      else do {
        (at, w) \<leftarrow> now_ns w;
        if at \<ge> deadline then Some (False, w)
        else do { (f, w) \<leftarrow> fatal_seen ow w; Some (\<not> f, w) }
      })"

datatype turn = Return_1 | Leave | Again

definition set_fatal :: "owner \<Rightarrow> world \<Rightarrow> (owner \<times> world) option" where
  "set_fatal ow w = do { (_, w) \<leftarrow> signal_owner w; Some (ow\<lparr>ow_fatal := True\<rparr>, w) }"

definition settle_turn :: "bool \<Rightarrow> config \<Rightarrow> nat \<Rightarrow> nat \<Rightarrow> owner \<Rightarrow> world \<Rightarrow> ((turn \<times> nat \<times> owner) \<times> world) option" where
  "settle_turn pl cf capacity n ow w = do {
     ((good, m, sch, f), w) \<leftarrow> sweep pl cf [0..<capacity] n (ow_sched ow) (ow_flow ow) w;
     let ow = ow\<lparr>ow_sched := sch, ow_flow := f\<rparr>;
     if \<not> good then Some ((Return_1, m, ow), w)
     else do {
       ((seen, sm), w) \<leftarrow> observe (ow_active ow) w;
       let ow = ow\<lparr>ow_active := sm\<rparr>;
       if \<not> seen then do { (ow, w) \<leftarrow> set_fatal ow w; Some ((Leave, m, ow), w) }
       else if m = n then do { (_, w) \<leftarrow> timed_wait w; Some ((Again, m, ow), w) }
       else Some ((Again, m, ow), w)
     }
   }"

section \<open>Every step only makes calls\<close>

abbreviation calls :: "'a \<Rightarrow> (call \<times> reply) list \<Rightarrow> bool" where
  "calls \<equiv> (\<lambda>_ _. True)"

lemma calls_quantum: "runs (run_patch_quantum fixture target c) calls"
  by (rule runs_weaken [OF status_quantum]) simp

lemma calls_patch_turn: "runs (patch_turn fixture target s) calls"
proof -
  have seal: "runs (seal_cell s) calls" for s by (rule runs_weaken [OF sound_seal_cell]) simp
  obtain rt c where s: "s = (rt, c)" by (cases s)
  show ?thesis
    unfolding patch_turn_def s prod.case
    by (intro runs_bind [OF calls_quantum] runs_weaken [OF seal] runs_rules) simp_all
qed

lemma calls_moved: "runs f calls \<Longrightarrow> runs (moved pk f) calls"
  unfolding moved_def by (erule runs_bind) (intro runs_rules, simp)

lemma calls_given_up: "runs f calls \<Longrightarrow> runs (given_up pk f) calls"
  unfolding given_up_def by (erule runs_bind) (intro runs_rules, simp)

lemma calls_lane_step: "runs (lane_step cf cells pk a s) calls"
proof (cases "enabled a (snd s)")
  case False
  then have "lane_step cf cells pk a s = (\<lambda>w. None)" by (simp add: lane_step_def fun_eq_iff)
  then show ?thesis by (simp add: runs_none)
next
  case True
  note step = lane_step_cases [OF True]
  show ?thesis
  proof (cases a)
    case (Lane_admit ident)
    show ?thesis
      unfolding step(1) [OF Lane_admit] by (intro runs_bind [OF runs_admit] runs_rules) simp
  next
    case Lane_dispatch
    show ?thesis
      unfolding step(2) [OF Lane_dispatch] by (intro calls_moved runs_weaken [OF keeping_dispatch_cell]) simp
  next
    case Lane_patch
    show ?thesis unfolding step(3) [OF Lane_patch] by (intro calls_moved calls_patch_turn)
  next
    case (Lane_deliver bytes)
    show ?thesis
      unfolding step(4) [OF Lane_deliver] by (intro calls_moved runs_bind [OF sound_model_write] runs_rules) simp
  next
    case (Lane_drain first)
    show ?thesis
      unfolding step(5) [OF Lane_drain] by (intro calls_moved runs_weaken [OF sound_drain_pipe]) simp
  next
    case Lane_check
    show ?thesis
      unfolding step(6) [OF Lane_check] by (intro calls_moved runs_weaken [OF keeping_check_bash]) simp
  next
    case (Lane_complete result)
    show ?thesis
      unfolding step(7) [OF Lane_complete] by (intro calls_moved runs_weaken [OF keeping_complete_model]) simp
  next
    case Lane_settle
    show ?thesis
      unfolding step(8) [OF Lane_settle] by (rule runs_weaken [OF settle_ends]) simp
  next
    case Lane_abandon
    show ?thesis
      unfolding step(9) [OF Lane_abandon] by (intro calls_given_up runs_weaken [OF runs_abandon_cell]) simp
  next
    case Lane_reclaim
    show ?thesis
      unfolding step(10) [OF Lane_reclaim] by (intro calls_given_up runs_weaken [OF runs_release_if_held]) simp
  qed
qed

lemma calls_run_lanes: "runs (run_lanes cf steps f) calls"
proof (induction steps arbitrary: f)
  case Nil
  have "runs (\<lambda>w. Some (f, w)) calls" by (intro runs_rules) simp
  then show ?case by simp
next
  case (Cons p steps)
  obtain i a where p: "p = (i, a)" by (cases p)
  obtain rt cells where t: "fl_table f = (rt, cells)" by (cases "fl_table f")
  have "runs (\<lambda>w. run_lanes cf (p # steps) f w) calls"
    unfolding p run_lanes.simps t prod.case
    by (intro runs_bind [OF calls_lane_step] runs_weaken [OF Cons.IH] runs_rules) simp_all
  then show ?case .
qed

lemma calls_others_work: "runs (others_work pl cf sch f) calls"
proof (cases sch)
  case Nil
  show ?thesis unfolding others_work_def Nil list.case by (intro runs_rules) simp
next
  case (Cons steps rest)
  show ?thesis
    unfolding others_work_def Cons list.case by (intro runs_bind [OF calls_run_lanes] runs_rules) simp
qed

lemma calls_sweep: "runs (sweep pl cf is n sch f) calls"
proof (induction "is" arbitrary: n sch f)
  case Nil
  have "runs (\<lambda>w. Some ((True, n, sch, f), w)) calls" by (intro runs_rules) simp
  then show ?case by simp
next
  case (Cons i js)
  have "runs (\<lambda>w. sweep pl cf (i # js) n sch f w) calls"
    unfolding sweep.simps
    by (intro runs_bind [OF calls_others_work] runs_bind [OF settle_ends] runs_weaken [OF Cons.IH] runs_case_pair runs_rules)
      simp_all
  then show ?case .
qed

lemma inert_signal_owner: "runs signal_owner uncommitted"
  unfolding signal_owner_def by (intro runs_rules) simp

lemma inert_observe: "runs (observe sm) uncommitted"
  unfolding observe_def by (intro runs_rules) simp_all

lemma inert_flag: "runs (flag name) uncommitted"
  by (rule runs_weaken [OF runs_flag]) simp

lemma inert_fatal_seen: "runs (fatal_seen ow) uncommitted"
  unfolding fatal_seen_def by (intro inert_flag runs_rules) simp

lemma inert_set_fatal: "runs (set_fatal ow) (\<lambda>x es. inert es \<and> ow_flow x = ow_flow ow \<and> ow_completed x = ow_completed ow)"
  unfolding set_fatal_def by (intro runs_bind [OF inert_signal_owner] runs_rules) simp

lemma inert_unsettled: "runs (unsettled capacity deadline n ow) (\<lambda>x es. inert es \<and> (x \<longrightarrow> es \<noteq> []))"
proof -
  have now: "runs now_ns (\<lambda>_ es. inert es \<and> es \<noteq> [])" unfolding now_ns_def by (intro runs_rules) simp
  show ?thesis
    unfolding unsettled_def by (intro runs_bind [OF now] runs_bind [OF inert_fatal_seen] runs_rules) simp_all
qed

lemma calls_settle_turn: "runs (settle_turn pl cf capacity n ow) calls"
  unfolding settle_turn_def
  by (intro runs_bind [OF calls_sweep] runs_bind [OF inert_observe] runs_bind [OF inert_set_fatal]
      runs_bind [OF runs_timed_wait] runs_rules) simp_all

lemma settle_turn_shrinks:
  "settle_turn pl cf capacity n ow w = Some (x, w') \<Longrightarrow> length (w_script w') \<le> length (w_script w)"
  by (erule runsD [OF calls_settle_turn]) (simp add: emits_def)

lemma unsettled_shrinks:
  "unsettled capacity deadline n ow w = Some (True, w') \<Longrightarrow> length (w_script w') < length (w_script w)"
  by (erule runsD [OF inert_unsettled]) (auto simp: emits_def)

section \<open>The settlement of a cycle\<close>

function settle_loop :: "bool \<Rightarrow> config \<Rightarrow> nat \<Rightarrow> u64 \<Rightarrow> nat \<Rightarrow> owner \<Rightarrow> world \<Rightarrow> ((bool \<times> nat \<times> owner) \<times> world) option" where
  "settle_loop pl cf capacity deadline n ow w =
     (case unsettled capacity deadline n ow w of
        None \<Rightarrow> None
      | Some (going, w1) \<Rightarrow>
          if \<not> going then Some ((True, n, ow), w1)
          else (case settle_turn pl cf capacity n ow w1 of
              None \<Rightarrow> None
            | Some ((e, m, ow), w2) \<Rightarrow>
                if e = Return_1 then Some ((False, m, ow), w2)
                else if e = Leave then Some ((True, m, ow), w2)
                else settle_loop pl cf capacity deadline m ow w2))"
  by pat_completeness auto
termination
  by (relation "measure (\<lambda>(_, _, _, _, _, _, w). length (w_script w))")
    (auto dest!: unsettled_shrinks settle_turn_shrinks)

declare settle_loop.simps [simp del]

lemma settle_turn_sweeps:
  assumes "flow_ok (ow_flow ow)" and "capacity \<le> length (snd (fl_table (ow_flow ow)))"
  shows "runs (settle_turn pl cf capacity n ow) (\<lambda>x es. ow_completed (snd (snd x)) = ow_completed ow \<and>
    sweeps n (ow_flow ow) (True, fst (snd x), ow_sched (snd (snd x)), ow_flow (snd (snd x))) es)"
proof -
  have sw: "runs (sweep pl cf [0..<capacity] n sch (ow_flow ow)) (sweeps n (ow_flow ow))" for sch
    by (rule runs_sweep) (use assms in \<open>auto simp: list_all_iff\<close>)
  show ?thesis
    unfolding settle_turn_def Let_def
    by (intro runs_bind [OF sw] runs_bind [OF inert_observe] runs_bind [OF inert_set_fatal]
        runs_bind [OF runs_timed_wait] runs_rules) (auto simp: sweeps_def intro: shifts_inert_after shifts_inert_after2)
qed

definition settles :: "nat \<Rightarrow> owner \<Rightarrow> bool \<times> nat \<times> owner \<Rightarrow> (call \<times> reply) list \<Rightarrow> bool" where
  "settles n ow x es \<longleftrightarrow> ow_completed (snd (snd x)) = ow_completed ow \<and>
     (\<exists>k. fst (snd x) = n + k \<and> shifts 0 k (ow_flow ow) (ow_flow (snd (snd x))) es)"

lemma settle_loop_settles:
  "settle_loop pl cf capacity deadline n ow w = Some (x, w') \<Longrightarrow> flow_ok (ow_flow ow) \<Longrightarrow>
     capacity \<le> length (snd (fl_table (ow_flow ow))) \<Longrightarrow> \<exists>es. emits w w' es \<and> settles n ow x es"
proof (induction pl cf capacity deadline n ow w rule: settle_loop.induct)
  case (1 pl cf capacity deadline n ow w)
  from "1.prems"(1) obtain going w1 where u: "unsettled capacity deadline n ow w = Some (going, w1)"
    by (auto simp: settle_loop.simps [of pl cf capacity deadline n ow w] split: option.splits)
  from runsD [OF inert_unsettled u] obtain es where es: "emits w w1 es" "inert es" by blast
  note r = "1.prems"(1) [unfolded settle_loop.simps [of pl cf capacity deadline n ow w] u option.case prod.case]
  show ?case
  proof (cases going)
    case False
    with r have "x = (True, n, ow)" "w1 = w'" by simp_all
    with es "1.prems"(2) shifts_inert [OF es(2) shifts_refl [OF "1.prems"(2)]] show ?thesis
      by (intro exI [of _ es]) (simp add: settles_def)
  next
    case True
    with r obtain e m ow1 w2 where t: "settle_turn pl cf capacity n ow w1 = Some ((e, m, ow1), w2)"
      by (auto split: option.splits)
    from runsD [OF settle_turn_sweeps [OF "1.prems"(2,3)] t] obtain fs where fsw: "emits w1 w2 fs"
      "ow_completed ow1 = ow_completed ow \<and> sweeps n (ow_flow ow) (True, m, ow_sched ow1, ow_flow ow1) fs"
      unfolding fst_conv snd_conv by blast
    then obtain k where fs: "emits w1 w2 fs" "ow_completed ow1 = ow_completed ow" "m = n + k"
      "shifts 0 k (ow_flow ow) (ow_flow ow1) fs" by (auto simp: sweeps_def)
    note both = emits_trans [OF es(1) fs(1)] shifts_inert [OF es(2) fs(4)]
    show ?thesis
    proof (cases "e = Again")
      case False
      with r True t have "snd x = (m, ow1)" "w2 = w'" by (cases e; auto)+
      with both fs show ?thesis by (intro exI [of _ "es @ fs"]) (auto simp: settles_def)
    next
      case again: True
      with r True t have rest: "settle_loop pl cf capacity deadline m ow1 w2 = Some (x, w')" by simp
      have "capacity \<le> length (snd (fl_table (ow_flow ow1)))" using "1.prems"(3) fs(4) by (simp add: shifts_def)
      from "1.IH" [OF u refl _ t refl refl refl _ _ rest shifts_ok [OF fs(4)] this] True again
      obtain gs where gs: "emits w2 w' gs" "settles m ow1 x gs" by auto
      from gs(2) obtain j where j: "fst (snd x) = m + j" "shifts 0 j (ow_flow ow1) (ow_flow (snd (snd x))) gs"
        "ow_completed (snd (snd x)) = ow_completed ow1" by (auto simp: settles_def)
      from shifts_trans [OF both(2) j(2)] emits_trans [OF both(1) gs(1)] j fs show ?thesis
        by (intro exI [of _ "(es @ fs) @ gs"]) (auto simp: settles_def)
    qed
  qed
qed

lemma runs_settle_loop:
  assumes "flow_ok (ow_flow ow)" and "capacity \<le> length (snd (fl_table (ow_flow ow)))"
  shows "runs (settle_loop pl cf capacity deadline n ow) (settles n ow)"
  by (rule runsI) (rule settle_loop_settles [OF _ assms])

section \<open>A cycle\<close>

datatype cycle_end = Returned | Broken | Completed

text \<open>In owner mode the owner runs the patch itself; the exchange fails if the cell is not
  dispatchable.\<close>

definition owner_patch :: "plan \<Rightarrow> config \<Rightarrow> owner \<Rightarrow> world \<Rightarrow> ((bool \<times> owner) \<times> world) option" where
  "owner_patch p cf ow w =
     (if pl_patch_index p \<ge> 0 \<and> \<not> pl_lane p then
        let i = nat (pl_patch_index p) in
        if c_state (snd (fl_table (ow_flow ow)) ! i) \<noteq> Dispatchable then Some ((False, ow), w)
        else do {
          (t, w) \<leftarrow> at_cell i (patch_turn (cf_fixture cf) (cf_target cf)) (fl_table (ow_flow ow)) w;
          Some ((True, ow\<lparr>ow_flow := (ow_flow ow)\<lparr>fl_table := t\<rparr>\<rparr>), w)
        }
      else Some ((True, ow), w))"

definition forget_sealed_times :: "flow \<Rightarrow> flow" where
  "forget_sealed_times f = (case fl_table f of (rt, cells) \<Rightarrow>
     f\<lparr>fl_table := (rt\<lparr>rt_first_model_sealed_ns := 0, rt_last_model_sealed_ns := 0\<rparr>, cells)\<rparr>)"

definition finish_cycle :: "int \<Rightarrow> owner \<Rightarrow> world \<Rightarrow> ((cycle_end \<times> owner) \<times> world) option" where
  "finish_cycle cycle ow w = do {
     ((seen, sm), w) \<leftarrow> observe zero_sample w;
     if \<not> seen then do { (ow, w) \<leftarrow> set_fatal ow w; Some ((Broken, ow), w) }
     else Some ((Completed, ow\<lparr>ow_first_idle := (if cycle = 0 then sm else ow_first_idle ow),
       ow_final_idle := sm, ow_completed := ow_completed ow + 1\<rparr>), w)
   }"

definition settle_cycle :: "plan \<Rightarrow> config \<Rightarrow> int \<Rightarrow> owner \<Rightarrow> world \<Rightarrow> ((cycle_end \<times> owner) \<times> world) option" where
  "settle_cycle p cf cycle ow w = do {
     (at, w) \<leftarrow> now_ns w;
     ((good, n, ow), w) \<leftarrow> settle_loop (pl_lane p) cf (nat (pl_capacity p))
       (at + word_of_int (pl_timeout p) * 1000000000) 0 ow w;
     if \<not> good then Some ((Returned, ow), w)
     else if n \<noteq> nat (pl_capacity p) then Some ((Broken, ow), w)
     else finish_cycle cycle ow w
   }"

definition owner_cycle :: "plan \<Rightarrow> config \<Rightarrow> string \<Rightarrow> int \<Rightarrow> owner \<Rightarrow> world \<Rightarrow> ((cycle_end \<times> owner) \<times> world) option" where
  "owner_cycle p cf scratch cycle ow w = do {
     ((e, target), w) \<leftarrow> (if pl_patch_index p \<ge> 0 then prepare_patch_target scratch (ow_target ow) w
       else Some ((0, ow_target ow), w));
     let ow = ow\<lparr>ow_target := target\<rparr>;
     let cf = cf\<lparr>cf_target := target\<rparr>;
     if e \<noteq> 0 then Some ((Returned, ow), w)
     else do {
       ((good, sch, f), w) \<leftarrow> admit_all (pl_lane p) cf [0..<nat (pl_capacity p)] (cycle * pl_capacity p)
         (ow_sched ow) (forget_sealed_times (ow_flow ow)) w;
       let ow = ow\<lparr>ow_sched := sch, ow_flow := f\<rparr>;
       if \<not> good then Some ((Returned, ow), w)
       else do {
         (_, w) \<leftarrow> signal_owner w;
         ((good, ow), w) \<leftarrow> owner_patch p cf ow w;
         if \<not> good then Some ((Returned, ow), w) else settle_cycle p cf cycle ow w
       }
     }
   }"

text \<open>The loop over the cycles stops at a cycle that does not complete, and when the flag is set.\<close>

fun owner_cycles :: "plan \<Rightarrow> config \<Rightarrow> string \<Rightarrow> int list \<Rightarrow> owner \<Rightarrow> world \<Rightarrow> ((bool \<times> owner) \<times> world) option" where
  "owner_cycles p cf scratch [] ow w = Some ((True, ow), w)"
| "owner_cycles p cf scratch (c # cs) ow w = do {
     (f, w) \<leftarrow> fatal_seen ow w;
     if f then Some ((True, ow), w)
     else do {
       ((e, ow), w) \<leftarrow> owner_cycle p cf scratch c ow w;
       if e = Returned then Some ((False, ow), w)
       else if e = Broken then Some ((True, ow), w)
       else owner_cycles p cf scratch cs ow w
     }
   }"

section \<open>What a cycle conserves\<close>

text \<open>Calls that commit nothing and leave no descriptor open.\<close>

abbreviation quiet :: "(call \<times> reply) list \<Rightarrow> bool" where
  "quiet es \<equiv> nets (\<lambda>_. 0) es"

lemma quiet_inert: "inert es \<Longrightarrow> quiet es"
  by (simp add: inert_commits inert_fds)

lemma shifts_quiet: "quiet es \<Longrightarrow> shifts a s f g fs \<Longrightarrow> shifts a s f g (es @ fs)"
  by (simp add: shifts_def conserved_def)

lemma inert_remove_markers: "runs (remove_markers target xs) uncommitted"
proof (induction xs)
  case Nil
  have "runs (\<lambda>w. Some ((), w)) uncommitted" by (intro runs_rules) simp
  then show ?case by simp
next
  case (Cons x xs)
  have one: "runs (\<lambda>w. case m of Some p \<Rightarrow> do { (_, w) \<leftarrow> sys (Io (Unlink p)) w; Some ((), w) } | None \<Rightarrow> Some ((), w))
      uncommitted" for m
    by (intro runs_rules) simp_all
  have "runs (\<lambda>w. remove_markers target (x # xs) w) uncommitted"
    unfolding remove_markers.simps
    by (intro runs_bind [OF one] runs_weaken [OF Cons.IH]) simp
  then show ?case .
qed

lemma inert_fill_windows: "runs (fill_windows n fd) uncommitted"
proof (induction n)
  case 0
  have "runs (\<lambda>w. Some (0 :: int, w)) uncommitted" by (intro runs_rules) simp
  then show ?case by simp
next
  case (Suc n)
  have "runs (\<lambda>w. fill_windows (Suc n) fd w) uncommitted"
    unfolding fill_windows.simps
    by (intro runs_bind [OF inert_write_all] runs_weaken [OF Suc.IH] runs_rules) simp_all
  then show ?case .
qed

lemma inert_choose_target: "runs (choose_target scratch target) uncommitted"
  unfolding choose_target_def by (intro runs_rules) simp_all

lemma quiet_prepare: "runs (prepare_patch_target scratch target) (\<lambda>_ es. quiet es)"
  unfolding prepare_patch_target_def close_with_def remove_patch_markers_def
  by (intro runs_bind [OF inert_choose_target] runs_bind [OF inert_remove_markers] runs_bind [OF inert_fill_windows] runs_rules)
    (auto simp: inert_fds inert_commits)

lemma forget_shifts: "flow_ok f \<Longrightarrow> shifts 0 0 f (forget_sealed_times f) []"
  by (cases "fl_table f")
    (auto simp: shifts_def conserved_def forget_sealed_times_def flow_ok_def table_ok_def all_held_def all_occupied_def)

lemma runs_owner_patch:
  assumes "flow_ok (ow_flow ow)" and "pl_patch_index p < int (length (snd (fl_table (ow_flow ow))))"
  shows "runs (owner_patch p cf ow) (\<lambda>x es. shifts 0 0 (ow_flow ow) (ow_flow (snd x)) es \<and>
    ow_completed (snd x) = ow_completed ow)"
proof -
  let ?f = "ow_flow ow" and ?i = "nat (pl_patch_index p)"
  obtain rt cells where t: "fl_table ?f = (rt, cells)" by (cases "fl_table ?f")
  have turn: "runs (at_cell ?i (patch_turn fixture target) (rt, cells))
      (\<lambda>u es. shifts 0 0 ?f (?f\<lparr>fl_table := u\<rparr>) es)"
    if "pl_patch_index p \<ge> 0" "c_state (cells ! ?i) = Dispatchable" for fixture target
  proof -
    have i: "?i < length cells" using assms(2) that(1) by (simp add: t)
    have "dormant (cells ! ?i)" using assms(1) t i by (auto simp: flow_ok_def list_all_iff)
    then have wait: "c_wait_status (cells ! ?i) = 0" using that(2) by (simp add: dormant_def)
    have step: "shifts 0 0 ?f (?f\<lparr>fl_table := (rt', cells[?i := c])\<rparr>) es" if "works (rt, cells ! ?i) (rt', c) es" for rt' c es
    proof -
      have "stepped (rt, cells ! ?i) Moved (rt', c) es"
        by (rule stepped_works [OF that]) (use \<open>c_state (cells ! ?i) = Dispatchable\<close> in simp)
      from conserved_step [OF this t i assms(1), of "fl_peaks ?f"] show ?thesis by (simp add: shifts_def t)
    qed
    show ?thesis
      unfolding at_cell_def prod.case
      by (intro runs_bind [OF runs_patch_turn [OF that(2) wait]] runs_rules) (simp only: append_Nil2 step)
  qed
  show ?thesis
    unfolding owner_patch_def Let_def t snd_conv
    by (intro runs_bind [OF turn] runs_rules) (simp_all add: shifts_refl assms(1))
qed

definition cycled :: "nat \<Rightarrow> owner \<Rightarrow> cycle_end \<times> owner \<Rightarrow> (call \<times> reply) list \<Rightarrow> bool" where
  "cycled capacity ow x es \<longleftrightarrow> (\<exists>a k. shifts a k (ow_flow ow) (ow_flow (snd x)) es \<and>
     ow_completed (snd x) = ow_completed ow + of_bool (fst x = Completed) \<and>
     (fst x = Completed \<longrightarrow> a = capacity \<and> k = capacity))"

lemma runs_finish_cycle:
  "runs (finish_cycle cycle ow) (\<lambda>x es. inert es \<and> ow_flow (snd x) = ow_flow ow \<and>
     ow_completed (snd x) = ow_completed ow + of_bool (fst x = Completed))"
  unfolding finish_cycle_def
  by (intro runs_bind [OF inert_observe] runs_bind [OF inert_set_fatal] runs_rules) simp_all

lemma runs_settle_cycle:
  assumes "flow_ok (ow_flow ow)" and "nat (pl_capacity p) = length (snd (fl_table (ow_flow ow)))"
  shows "runs (settle_cycle p cf cycle ow) (\<lambda>x es. \<exists>k. shifts 0 k (ow_flow ow) (ow_flow (snd x)) es \<and>
     ow_completed (snd x) = ow_completed ow + of_bool (fst x = Completed) \<and> (fst x = Completed \<longrightarrow> k = nat (pl_capacity p)))"
proof -
  note loop = runs_settle_loop [OF assms(1), of "nat (pl_capacity p)"]
  show ?thesis
    unfolding settle_cycle_def
    by (intro runs_bind [OF uncommitted_now_ns] runs_bind [OF loop] runs_weaken [OF runs_finish_cycle] runs_rules)
      (use assms(2) in \<open>auto simp: settles_def intro!: exI intro: shifts_inert shifts_inert_after shifts_inert [OF _ shifts_inert_after]\<close>)
qed

lemma runs_owner_cycle:
  assumes "flow_ok (ow_flow ow)" and "nat (pl_capacity p) = length (snd (fl_table (ow_flow ow)))"
    and "pl_patch_index p < pl_capacity p"
  shows "runs (owner_cycle p cf scratch cycle ow) (cycled (nat (pl_capacity p)) ow)"
proof -
  let ?n = "nat (pl_capacity p)" and ?f = "forget_sealed_times (ow_flow ow)"
  have forget: "shifts 0 0 (ow_flow ow) ?f []" by (rule forget_shifts [OF assms(1)])
  have prep: "runs (\<lambda>w. if pl_patch_index p \<ge> 0 then prepare_patch_target scratch (ow_target ow) w
      else Some ((0, ow_target ow), w)) (\<lambda>_ es. quiet es)"
    by (intro runs_if quiet_prepare runs_ret) simp
  have adm: "runs (admit_all (pl_lane p) cf [0..<?n] base sch ?f)
      (\<lambda>x es. \<exists>a. shifts a 0 (ow_flow ow) (snd (snd x)) es \<and> (fst x \<longrightarrow> a = ?n))" for cf base sch
  proof (rule runs_weaken [OF runs_admit_all [OF shifts_ok [OF forget]]])
    show "list_all (\<lambda>i. i < length (snd (fl_table ?f))) [0..<?n]"
      using forget assms(2) by (simp add: shifts_def list_all_iff)
  qed (use shifts_trans [OF forget] in \<open>fastforce simp: admits_def\<close>)
  have rest: "runs (\<lambda>w. do { (_, w) \<leftarrow> signal_owner w;
         ((good, ow), w) \<leftarrow> owner_patch p cf ow1 w;
         if \<not> good then Some ((Returned, ow), w) else settle_cycle p cf cycle ow w })
      (\<lambda>x fs. cycled ?n ow x (ps @ es @ fs))"
    if "quiet ps" "shifts ?n 0 (ow_flow ow) (ow_flow ow1) es" "ow_completed ow1 = ow_completed ow" for cf ow1 ps es
  proof -
    have ok: "flow_ok (ow_flow ow1)" "length (snd (fl_table (ow_flow ow1))) = ?n"
      using that(2) assms(2) by (simp_all add: shifts_def conserved_def)
    have "runs (owner_patch p cf ow1) (\<lambda>x es. shifts 0 0 (ow_flow ow1) (ow_flow (snd x)) es \<and> ow_completed (snd x) = ow_completed ow1)"
      by (rule runs_owner_patch [OF ok(1)]) (use assms(3) ok(2) in simp)
    then have patch: "runs (owner_patch p cf ow1) (\<lambda>x fs. shifts ?n 0 (ow_flow ow) (ow_flow (snd x)) (es @ fs) \<and>
        ow_completed (snd x) = ow_completed ow)"
      by (rule runs_weaken) (use shifts_trans [OF that(2)] that(3) in fastforce)
    have last: "runs (settle_cycle p cf cycle ow2) (\<lambda>x gs. \<exists>k. shifts ?n k (ow_flow ow) (ow_flow (snd x)) (fs @ gs) \<and>
        ow_completed (snd x) = ow_completed ow + of_bool (fst x = Completed) \<and> (fst x = Completed \<longrightarrow> k = ?n))"
      if s: "shifts ?n 0 (ow_flow ow) (ow_flow ow2) fs" "ow_completed ow2 = ow_completed ow" for ow2 fs
    proof -
      have "runs (settle_cycle p cf cycle ow2) (\<lambda>x es. \<exists>k. shifts 0 k (ow_flow ow2) (ow_flow (snd x)) es \<and>
          ow_completed (snd x) = ow_completed ow2 + of_bool (fst x = Completed) \<and> (fst x = Completed \<longrightarrow> k = ?n))"
        by (rule runs_settle_cycle) (use s assms(2) in \<open>simp_all add: shifts_def conserved_def\<close>)
      then show ?thesis by (rule runs_weaken) (use shifts_trans [OF s(1)] s(2) in fastforce)
    qed
    have wake: "shifts a k (ow_flow ow) g (ps @ es @ qs @ fs)" if "inert qs" "shifts a k (ow_flow ow) g (es @ fs)" for a k g qs fs
      using that \<open>quiet ps\<close> by (simp add: shifts_def conserved_def inert_commits inert_fds)
    show ?thesis
    proof (rule runs_bind [OF inert_signal_owner], rule runs_bind [OF patch], rule runs_pair, rule runs_if)
      fix u :: unit and qs :: "(call \<times> reply) list" and x fs good and ow2 :: owner
      assume q: "inert qs" and x: "shifts ?n 0 (ow_flow ow) (ow_flow (snd x)) (es @ fs) \<and> ow_completed (snd x) = ow_completed ow"
        and e: "x = (good, ow2)"
      show "runs (\<lambda>w. Some ((Returned, ow2), w)) (\<lambda>y gs. cycled ?n ow y (ps @ es @ qs @ fs @ gs))"
        by (rule runs_ret) (use wake [OF q, of ?n 0 "ow_flow ow2" fs] x e in \<open>auto simp: cycled_def\<close>)
      have "runs (settle_cycle p cf cycle ow2) (\<lambda>x gs. \<exists>k. shifts ?n k (ow_flow ow) (ow_flow (snd x)) ((es @ fs) @ gs) \<and>
          ow_completed (snd x) = ow_completed ow + of_bool (fst x = Completed) \<and> (fst x = Completed \<longrightarrow> k = ?n))"
        by (rule last) (use x e in simp_all)
      then show "runs (settle_cycle p cf cycle ow2) (\<lambda>y gs. cycled ?n ow y (ps @ es @ qs @ fs @ gs))"
        by (rule runs_weaken) (use wake [OF q] in \<open>fastforce simp: cycled_def\<close>)
    qed
  qed
  have early: "cycled ?n ow (Returned, ow1) (ps @ es)"
    if "quiet ps" "shifts a 0 (ow_flow ow) (ow_flow ow1) es" "ow_completed ow1 = ow_completed ow" for a ps es ow1
    using that by (auto simp: cycled_def intro!: exI shifts_quiet)
  show ?thesis
    unfolding owner_cycle_def Let_def
  proof (rule runs_bind [OF prep], rule runs_pair, rule runs_if)
    fix x ps e target
    assume q: "quiet ps"
    let ?ow = "ow\<lparr>ow_target := target\<rparr>"
    show "runs (\<lambda>w. Some ((Returned, ?ow), w)) (\<lambda>y fs. cycled ?n ow y (ps @ fs))"
      by (rule runs_ret) (use early [OF q, of 0 ?ow "[]"] in \<open>simp add: shifts_refl assms(1)\<close>)
    have f: "forget_sealed_times (ow_flow ?ow) = ?f" by simp
    show "runs (\<lambda>w. Option.bind (admit_all (pl_lane p) (cf\<lparr>cf_target := target\<rparr>) [0..<?n] (cycle * pl_capacity p)
          (ow_sched ?ow) (forget_sealed_times (ow_flow ?ow)) w)
        (\<lambda>((good, sch, f), w). if \<not> good then Some ((Returned, ?ow\<lparr>ow_sched := sch, ow_flow := f\<rparr>), w)
          else Option.bind (signal_owner w) (\<lambda>(_, w).
            Option.bind (owner_patch p (cf\<lparr>cf_target := target\<rparr>) (?ow\<lparr>ow_sched := sch, ow_flow := f\<rparr>) w)
            (\<lambda>((good, ow), w). if \<not> good then Some ((Returned, ow), w)
              else settle_cycle p (cf\<lparr>cf_target := target\<rparr>) cycle ow w))))
        (\<lambda>y fs. cycled ?n ow y (ps @ fs))"
      unfolding f
    proof (rule runs_bind [OF adm], rule runs_pair, rule runs_pair, rule runs_if)
      fix x es good y g and sch :: schedule
      assume x: "\<exists>a. shifts a 0 (ow_flow ow) (snd (snd x)) es \<and> (fst x \<longrightarrow> a = ?n)" "x = (good, y)" "y = (sch, g)"
      then obtain a where a: "shifts a 0 (ow_flow ow) g es" "good \<longrightarrow> a = ?n" by auto
      let ?ow1 = "?ow\<lparr>ow_sched := sch, ow_flow := g\<rparr>"
      show "runs (\<lambda>w. Some ((Returned, ?ow1), w)) (\<lambda>y fs. cycled ?n ow y (ps @ es @ fs))"
        by (rule runs_ret) (use early [OF q, of a ?ow1 es] a(1) in simp)
      assume "\<not> \<not> good"
      with a have "shifts ?n 0 (ow_flow ow) (ow_flow ?ow1) es" by simp
      from rest [OF q this, of "cf\<lparr>cf_target := target\<rparr>"]
      show "runs (\<lambda>w. Option.bind (signal_owner w) (\<lambda>(_, w). Option.bind (owner_patch p (cf\<lparr>cf_target := target\<rparr>) ?ow1 w)
            (\<lambda>((good, ow), w). if \<not> good then Some ((Returned, ow), w)
              else settle_cycle p (cf\<lparr>cf_target := target\<rparr>) cycle ow w)))
          (\<lambda>y fs. cycled ?n ow y (ps @ es @ fs))" by simp
    qed
  qed
qed

section \<open>All cycles\<close>

definition cycles_done :: "nat \<Rightarrow> nat \<Rightarrow> owner \<Rightarrow> owner \<Rightarrow> (call \<times> reply) list \<Rightarrow> bool" where
  "cycles_done capacity m ow ow' es \<longleftrightarrow> (\<exists>a k. shifts a k (ow_flow ow) (ow_flow ow') es \<and>
     ow_completed ow' \<le> ow_completed ow + m \<and>
     (ow_completed ow' = ow_completed ow + m \<longrightarrow> a = m * capacity \<and> k = m * capacity))"

lemma cycles_done_none: "inert es \<Longrightarrow> flow_ok (ow_flow ow) \<Longrightarrow> cycles_done n (Suc m) ow ow es"
  using shifts_inert [OF _ shifts_refl, of es "ow_flow ow"] by (auto simp: cycles_done_def)

lemma cycles_done_short: "inert es \<Longrightarrow> cycled n ow (e, ow') fs \<Longrightarrow> e \<noteq> Completed \<Longrightarrow> cycles_done n (Suc m) ow ow' (es @ fs)"
  by (auto simp: cycles_done_def cycled_def intro: shifts_inert)

lemma cycles_done_Suc:
  assumes "inert es" and "cycled n ow (Completed, ow1) fs" and "cycles_done n m ow1 ow2 gs"
  shows "cycles_done n (Suc m) ow ow2 (es @ fs @ gs)"
proof -
  from assms(2) have 1: "shifts n n (ow_flow ow) (ow_flow ow1) fs" "ow_completed ow1 = ow_completed ow + 1"
    by (auto simp: cycled_def)
  from assms(3) obtain a k where 2: "shifts a k (ow_flow ow1) (ow_flow ow2) gs" "ow_completed ow2 \<le> ow_completed ow1 + m"
    "ow_completed ow2 = ow_completed ow1 + m \<longrightarrow> a = m * n \<and> k = m * n" by (auto simp: cycles_done_def)
  from shifts_inert [OF assms(1) shifts_trans [OF 1(1) 2(1)]] 1(2) 2(2,3) show ?thesis
    unfolding cycles_done_def by (intro exI [of _ "n + a"] exI [of _ "n + k"]) auto
qed

lemma runs_owner_cycles:
  assumes "flow_ok (ow_flow ow)" and "nat (pl_capacity p) = length (snd (fl_table (ow_flow ow)))"
    and "pl_patch_index p < pl_capacity p"
  shows "runs (owner_cycles p cf scratch cs ow) (\<lambda>x es. cycles_done (nat (pl_capacity p)) (length cs) ow (snd x) es)"
  using assms(1,2)
proof (induction cs arbitrary: ow)
  case Nil
  have "runs (\<lambda>w. Some ((True, ow), w)) (\<lambda>x es. cycles_done (nat (pl_capacity p)) 0 ow (snd x) es)"
    by (intro runs_ret) (use shifts_refl [OF Nil.prems(1)] in \<open>auto simp: cycles_done_def\<close>)
  then show ?case by simp
next
  case (Cons c cs)
  let ?n = "nat (pl_capacity p)"
  have tail: "runs (owner_cycles p cf scratch cs ow1) (\<lambda>x gs. cycles_done ?n (Suc (length cs)) ow (snd x) (es @ fs @ gs))"
    if "inert es" "cycled ?n ow (Completed, ow1) fs" for ow1 es fs
  proof -
    have "runs (owner_cycles p cf scratch cs ow1) (\<lambda>x es. cycles_done ?n (length cs) ow1 (snd x) es)"
      by (rule Cons.IH) (use that(2) Cons.prems(2) in \<open>auto simp: cycled_def shifts_def conserved_def\<close>)
    then show ?thesis by (rule runs_weaken) (rule cycles_done_Suc [OF that])
  qed
  have "runs (\<lambda>w. owner_cycles p cf scratch (c # cs) ow w) (\<lambda>x es. cycles_done ?n (Suc (length cs)) ow (snd x) es)"
    unfolding owner_cycles.simps
  proof (rule runs_bind [OF inert_fatal_seen], rule runs_if)
    fix fatal es assume es: "inert es"
    show "runs (\<lambda>w. Some ((True, ow), w)) (\<lambda>x fs. cycles_done ?n (Suc (length cs)) ow (snd x) (es @ fs))"
      by (rule runs_ret) (use cycles_done_none [OF es Cons.prems(1)] in simp)
    show "runs (\<lambda>w. Option.bind (owner_cycle p cf scratch c ow w) (\<lambda>((e, ow), w).
        if e = Returned then Some ((False, ow), w) else if e = Broken then Some ((True, ow), w)
        else owner_cycles p cf scratch cs ow w)) (\<lambda>x fs. cycles_done ?n (Suc (length cs)) ow (snd x) (es @ fs))"
    proof (rule runs_bind [OF runs_owner_cycle [OF Cons.prems assms(3)]], rule runs_pair)
      fix x fs e ow1 assume x: "cycled ?n ow x fs" "x = (e, ow1)"
      show "runs (\<lambda>w. if e = Returned then Some ((False, ow1), w) else if e = Broken then Some ((True, ow1), w)
          else owner_cycles p cf scratch cs ow1 w) (\<lambda>x gs. cycles_done ?n (Suc (length cs)) ow (snd x) (es @ fs @ gs))"
      proof (cases e)
        case Completed
        with x tail [OF es, of ow1 fs] show ?thesis by simp
      qed (use x cycles_done_short [OF es, of ?n ow e ow1 fs] in \<open>auto intro!: runs_ret\<close>)
    qed
  qed
  then show ?case by simp
qed

text \<open>The owner before the first cycle.\<close>

definition new_owner :: "plan \<Rightarrow> runtime \<Rightarrow> schedule \<Rightarrow> owner" where
  "new_owner p rt sch = \<lparr>ow_flow = empty_flow rt (planned_cells p), ow_sched = sch, ow_fatal = False,
     ow_active = zero_sample, ow_first_idle = zero_sample, ow_final_idle = zero_sample, ow_completed = 0,
     ow_target = []\<rparr>"

definition cycle_numbers :: "plan \<Rightarrow> int list" where
  "cycle_numbers p = map int [0..<nat (pl_cycles p)]"

end
