(* ===== verification/Custody_Run.thy ===== *)
theory Custody_Run
  imports Custody_Owner
begin

text \<open>
  A whole run of \<open>integrated_capacity.c\<close> from its arguments to its exit status: the checks and
  threads it starts with, the owner's cycles, and what it does at the end.  The printed report is
  not modelled; the numbers in it are those of the owner and of the queries modelled here.
\<close>

section \<open>Starting\<close>

definition passes :: "string \<Rightarrow> world \<Rightarrow> (bool \<times> world) option" where
  "passes name w = do { (r, w) \<leftarrow> sys (Env (Query name)) w; Some (r_ret r = 0, w) }"

definition observes :: "world \<Rightarrow> (bool \<times> world) option" where
  "observes w = do { ((seen, _), w) \<leftarrow> observe zero_sample w; Some (seen, w) }"

definition returns_0 :: "(world \<Rightarrow> (int \<times> world) option) \<Rightarrow> world \<Rightarrow> (bool \<times> world) option" where
  "returns_0 f w = do { (e, w) \<leftarrow> f w; Some (e = 0, w) }"

text \<open>A call that fails after another succeeded undoes it.\<close>

definition passes_or :: "string \<Rightarrow> string \<Rightarrow> world \<Rightarrow> (bool \<times> world) option" where
  "passes_or name undo w = do {
     (good, w) \<leftarrow> passes name w;
     if good then Some (True, w) else do { (_, w) \<leftarrow> passes undo w; Some (False, w) }
   }"

text \<open>The checks in order; the first that fails ends the run with status 1.\<close>

fun all_pass :: "(world \<Rightarrow> (bool \<times> world) option) list \<Rightarrow> world \<Rightarrow> (bool \<times> world) option" where
  "all_pass [] w = Some (True, w)"
| "all_pass (f # fs) w = do { (good, w) \<leftarrow> f w; if good then all_pass fs w else Some (False, w) }"

definition start_thread :: "(world \<Rightarrow> (bool \<times> world) option) list" where
  "start_thread = [passes ''attr_init'', passes_or ''attr_setstacksize'' ''attr_destroy'', passes ''thread_create'',
     passes ''attr_destroy'']"

definition patch_thread :: "plan \<Rightarrow> bool" where
  "patch_thread p \<longleftrightarrow> pl_patch_index p \<ge> 0 \<and> pl_lane p"

definition start_checks :: "plan \<Rightarrow> (world \<Rightarrow> (bool \<times> world) option) list" where
  "start_checks p = [passes ''mutex_init'', passes_or ''cond_init'' ''mutex_destroy'', observes, returns_0 open_database, observes] @
     start_thread @ (if patch_thread p then start_thread else []) @
     [returns_0 (wait_lanes_ready (patch_thread p)), observes, passes ''getrusage'']"

section \<open>Ending\<close>

text \<open>A failure here only raises the flag.\<close>

definition require :: "(world \<Rightarrow> (bool \<times> world) option) \<Rightarrow> owner \<Rightarrow> world \<Rightarrow> (owner \<times> world) option" where
  "require f ow w = do { (good, w) \<leftarrow> f w; Some (if good then ow else ow\<lparr>ow_fatal := True\<rparr>, w) }"

definition release_all :: "owner \<Rightarrow> world \<Rightarrow> (owner \<times> world) option" where
  "release_all ow w = do {
     (f, w) \<leftarrow> fatal_seen ow w;
     if f then do {
       (t, w) \<leftarrow> pass release_if_held [0..<length (snd (fl_table (ow_flow ow)))] (fl_table (ow_flow ow)) w;
       Some (ow\<lparr>ow_flow := (ow_flow ow)\<lparr>fl_table := t\<rparr>\<rparr>, w)
     }
     else Some (ow, w)
   }"

text \<open>The last steps of the lanes before they are joined: after a fatal error the reactor gives up
  its cells there.\<close>

definition last_turn :: "plan \<Rightarrow> config \<Rightarrow> owner \<Rightarrow> world \<Rightarrow> (owner \<times> world) option" where
  "last_turn p cf ow w = do {
     ((sch, f), w) \<leftarrow> others_work (pl_lane p) cf (ow_sched ow) (ow_flow ow) w;
     Some (ow\<lparr>ow_sched := sch, ow_flow := f\<rparr>, w)
   }"

text \<open>The idle measurements, the hold when asked for, and the end of the lanes.\<close>

definition wind_down :: "(string \<Rightarrow> string option) \<Rightarrow> plan \<Rightarrow> config \<Rightarrow> owner \<Rightarrow> world \<Rightarrow> (owner \<times> world) option" where
  "wind_down getenv p cf ow w = do {
     (_, w) \<leftarrow> now_ns w;
     (ow, w) \<leftarrow> require (passes ''getrusage'') ow w;
     (_, w) \<leftarrow> (if getenv ''RUI_PROOF_PRESSURE_RELIEF'' \<noteq> None then passes ''malloc_zone_pressure_relief'' w else Some (True, w));
     (ow, w) \<leftarrow> require observes ow w;
     (ow, w) \<leftarrow> (if (case getenv ''RUI_PROOF_IDLE_HOLD_SECONDS'' of None \<Rightarrow> 0 | Some s \<Rightarrow> atoi s) > 0
       then do { (_, w) \<leftarrow> passes ''sleep'' w; require observes ow w } else Some (ow, w));
     (_, w) \<leftarrow> signal_owner w;
     (ow, w) \<leftarrow> last_turn p cf ow w;
     (ow, w) \<leftarrow> require (passes ''thread_join'') ow w;
     (ow, w) \<leftarrow> (if patch_thread p then require (passes ''thread_join'') ow w else Some (ow, w));
     release_all ow w
   }"

text \<open>The number of resolutions stays 0 when the query fails.\<close>

definition count_resolutions :: "world \<Rightarrow> (int \<times> world) option" where
  "count_resolutions w = do {
     (n, w) \<leftarrow> scalar_int ''SELECT count(*) FROM resolution'' w;
     Some (if n < 0 then 0 else n, w)
   }"

fun scalars :: "string list \<Rightarrow> world \<Rightarrow> (int list \<times> world) option" where
  "scalars [] w = Some ([], w)"
| "scalars (q # qs) w = do { (n, w) \<leftarrow> scalar_int q w; (ns, w) \<leftarrow> scalars qs w; Some (n # ns, w) }"

definition class_query :: "completion_class \<Rightarrow> string" where
  "class_query k = ''SELECT count(*) FROM completion WHERE class='' @ class_name k"

text \<open>The first byte of the target: patched, original, or neither.\<close>

definition patch_final_relation :: "string \<Rightarrow> world \<Rightarrow> (int \<times> world) option" where
  "patch_final_relation target w =
     (if target = [] then Some (0, w)
      else do {
        (f, w) \<leftarrow> sys (Fd (Open target)) w;
        if r_ret f < 0 then Some (0, w)
        else do {
          (r, w) \<leftarrow> sys (Io (Read (r_ret f) 1)) w;
          close_with (r_ret f) (if r_ret r \<noteq> 1 then 0 else if r_data r = [112] then 1 else if r_data r = [97] then 2 else 3) w
        }
      })"

definition remove_target :: "string \<Rightarrow> world \<Rightarrow> (unit \<times> world) option" where
  "remove_target target w =
     (if target = [] then Some ((), w)
      else do {
        (_, w) \<leftarrow> remove_patch_markers target w;
        (_, w) \<leftarrow> sys (Io (Unlink target)) w;
        Some ((), w)
      })"

record report =
  rp_rows :: int
  rp_classes :: "int list"
  rp_relation :: int

definition collect_report :: "owner \<Rightarrow> world \<Rightarrow> ((report \<times> owner) \<times> world) option" where
  "collect_report ow w = do {
     (_, w) \<leftarrow> passes ''sqlite3_status64'' w;
     (_, w) \<leftarrow> passes ''sqlite3_db_status'' w;
     (n, w) \<leftarrow> count_resolutions w;
     (ns, w) \<leftarrow> scalars (map class_query [Success, Protocol_error, Preparation_failure, Bash_cancelled, Transport_failure,
       Local_resource_failure, Output_limit, Patch_conflict, Patch_indeterminate] @ [''SELECT count(*) FROM artifact'']) w;
     (ow, w) \<leftarrow> require (passes ''sqlite3_close'') ow w;
     Some ((\<lparr>rp_rows = n, rp_classes = ns, rp_relation = 0\<rparr>, ow), w)
   }"

text \<open>The status: everything destroyed, no fatal error, every cycle complete, everything settled.\<close>

definition exit_status :: "plan \<Rightarrow> report \<Rightarrow> owner \<Rightarrow> world \<Rightarrow> (int \<times> world) option" where
  "exit_status p rp ow w = do {
     (destroyed, w) \<leftarrow> all_pass [passes ''cond_destroy'', passes ''mutex_destroy''] w;
     (_, w) \<leftarrow> remove_target (ow_target ow) w;
     (fatal, w) \<leftarrow> (if destroyed then fatal_seen ow w else Some (True, w));
     let expected = pl_capacity p * pl_cycles p;
     Some (if destroyed \<and> \<not> fatal \<and> int (ow_completed ow) = pl_cycles p \<and>
       int (fl_settled (ow_flow ow)) = expected \<and> rp_rows rp = expected then 0 else 1, w)
   }"

definition finish_run :: "(string \<Rightarrow> string option) \<Rightarrow> plan \<Rightarrow> config \<Rightarrow> owner \<Rightarrow> world \<Rightarrow> ((int \<times> owner) \<times> world) option" where
  "finish_run getenv p cf ow w = do {
     (ow, w) \<leftarrow> wind_down getenv p cf ow w;
     ((rp, ow), w) \<leftarrow> collect_report ow w;
     (_, w) \<leftarrow> sys (Env (Curl ''global_cleanup'')) w;
     (seen, w) \<leftarrow> observes w;
     if \<not> seen then Some ((1, ow), w)
     else do {
       (rel, w) \<leftarrow> patch_final_relation (ow_target ow) w;
       (e, w) \<leftarrow> exit_status p (rp\<lparr>rp_relation := rel\<rparr>) ow w;
       Some ((e, ow), w)
     }
   }"

text \<open>A run that returns before its cycles has no owner.\<close>

definition run_integrated ::
    "(string \<Rightarrow> string option) \<Rightarrow> string \<Rightarrow> string list \<Rightarrow> schedule \<Rightarrow> world \<Rightarrow> ((int \<times> (plan \<times> owner) option) \<times> world) option" where
  "run_integrated getenv program argv sch w = do {
     (r, w) \<leftarrow> plan_run getenv program argv w;
     case r of
       Inl e \<Rightarrow> Some ((e, None), w)
     | Inr (p, rt, cf) \<Rightarrow> do {
         (good, w) \<leftarrow> all_pass (start_checks p) w;
         if \<not> good then Some ((1, None), w)
         else do {
           (_, w) \<leftarrow> now_ns w;
           ((good, ow), w) \<leftarrow> owner_cycles p cf (argv ! 4) (cycle_numbers p) (new_owner p rt sch) w;
           if \<not> good then Some ((1, Some (p, ow)), w)
           else do {
             ((e, ow), w) \<leftarrow> finish_run getenv p cf ow w;
             Some ((e, Some (p, ow)), w)
           }
         }
       }
   }"

text \<open>The program: a fixture child, a run, or the usage message.\<close>

definition main ::
    "(string \<Rightarrow> string option) \<Rightarrow> schedule \<Rightarrow> string list \<Rightarrow> world \<Rightarrow> (fixture_end \<times> world) option" where
  "main getenv sch argv w =
     (if length argv = 4 \<and> argv ! 1 = ''child'' then run_bash_child (argv ! 2) (argv ! 3) w
      else if length argv \<ge> 2 \<and> argv ! 1 = ''integrated'' then do {
        ((e, _), w) \<leftarrow> run_integrated getenv (argv ! 0) (drop 1 argv) sch w;
        Some (Returns e, w)
      }
      else Some (Returns 2, w))"

section \<open>What starting and ending do\<close>

lemma inert_passes: "runs (passes name) uncommitted"
  unfolding passes_def by (intro runs_rules) simp

lemma inert_observes: "runs observes uncommitted"
  unfolding observes_def by (intro runs_bind [OF inert_observe] runs_rules) simp

lemma inert_returns_0: "runs f uncommitted \<Longrightarrow> runs (returns_0 f) uncommitted"
  unfolding returns_0_def by (erule runs_bind) (intro runs_rules, simp)

lemma inert_passes_or: "runs (passes_or name undo) uncommitted"
  unfolding passes_or_def by (intro runs_bind [OF inert_passes] runs_rules) simp_all

lemma inert_all_pass: "list_all (\<lambda>f. runs f uncommitted) fs \<Longrightarrow> runs (all_pass fs) uncommitted"
proof (induction fs)
  case Nil
  have "runs (\<lambda>w. Some (True, w)) uncommitted" by (intro runs_rules) simp
  then show ?case by simp
next
  case (Cons f fs)
  have f: "runs f uncommitted" and fs: "runs (all_pass fs) uncommitted" using Cons by simp_all
  have "runs (\<lambda>w. all_pass (f # fs) w) uncommitted"
    unfolding all_pass.simps by (intro runs_bind [OF f] runs_weaken [OF fs] runs_rules) simp_all
  then show ?case .
qed

lemma inert_open_database: "runs open_database uncommitted"
proof -
  have "runs (sql_exec schema) uncommitted" by (rule inert_sql) (simp add: schema_def)
  then show ?thesis
    unfolding open_database_def by (intro runs_rules runs_weaken [OF \<open>runs (sql_exec schema) uncommitted\<close>]) simp_all
qed

lemma inert_wait_loop: "wait_loop patch_lane deadline w = Some (b, w') \<Longrightarrow> \<exists>es. emits w w' es \<and> inert es"
proof (induction patch_lane deadline w rule: wait_loop.induct)
  case (1 patch_lane deadline w)
  from "1.prems" obtain waiting w1 where u: "still_waiting patch_lane w = Some (waiting, w1)"
    by (auto simp: wait_loop.simps [of patch_lane deadline w] split: option.splits)
  from runsD [OF runs_still_waiting u] obtain es where es: "emits w w1 es" "inert es" by blast
  note r = "1.prems" [unfolded wait_loop.simps [of patch_lane deadline w] u option.case prod.case]
  show ?case
  proof (cases waiting)
    case False
    with r es show ?thesis by auto
  next
    case waiting: True
    with r obtain at w2 where n: "now_ns w1 = Some (at, w2)" by (auto split: option.splits)
    from runsD [OF uncommitted_now_ns n] obtain fs where fs: "emits w1 w2 fs" "inert fs" by blast
    note ef = emits_trans [OF es(1) fs(1)]
    show ?thesis
    proof (cases "at \<ge> deadline")
      case True
      with r waiting n have "w2 = w'" by simp
      with ef es fs show ?thesis by (intro exI [of _ "es @ fs"]) simp
    next
      case False
      with r waiting n obtain x w3 where t: "timed_wait w2 = Some (x, w3)"
        and rest: "wait_loop patch_lane deadline w3 = Some (b, w')" by (auto split: option.splits)
      from runsD [OF runs_timed_wait t] obtain gs where gs: "emits w2 w3 gs" "inert gs" by blast
      from "1.IH" [OF u refl _ n refl False t refl rest] waiting obtain hs where hs: "emits w3 w' hs" "inert hs" by auto
      from emits_trans [OF emits_trans [OF ef gs(1)] hs(1)] es fs gs hs show ?thesis
        by (intro exI [of _ "((es @ fs) @ gs) @ hs"]) simp
    qed
  qed
qed

lemma inert_wait_lanes_ready: "runs (wait_lanes_ready patch_lane) uncommitted"
proof -
  have loop: "runs (wait_loop patch_lane deadline) uncommitted" for deadline
    by (rule runsI) (rule inert_wait_loop)
  show ?thesis
    unfolding wait_lanes_ready_def
    by (intro runs_bind [OF uncommitted_now_ns] runs_bind [OF loop] runs_bind [OF runs_lanes_ready] runs_rules) simp_all
qed

lemma inert_start_checks: "runs (all_pass (start_checks p)) uncommitted"
  by (rule inert_all_pass)
    (auto simp: start_checks_def start_thread_def intro: inert_passes inert_passes_or inert_observes inert_returns_0
      inert_open_database inert_wait_lanes_ready)

text \<open>Ending a run whose cells are all vacant changes nothing but the flag.\<close>

definition all_free :: "owner \<Rightarrow> bool" where
  "all_free ow \<longleftrightarrow> list_all (\<lambda>c. c_state c = Vacant) (snd (fl_table (ow_flow ow)))"

definition ended :: "owner \<Rightarrow> owner \<Rightarrow> (call \<times> reply) list \<Rightarrow> bool" where
  "ended ow ow' es \<longleftrightarrow> inert es \<and> ow_completed ow' = ow_completed ow \<and> ow_flow ow' = ow_flow ow"

lemma ended_refl [simp]: "ended ow ow []"
  by (simp add: ended_def)

lemma ended_trans: "ended ow u es \<Longrightarrow> ended u v fs \<Longrightarrow> ended ow v (es @ fs)"
  by (simp add: ended_def)

lemma ended_inert: "inert es \<Longrightarrow> ended ow ow es"
  by (simp add: ended_def)

lemma ended_require: "runs f uncommitted \<Longrightarrow> runs (require f ow) (\<lambda>x es. ended ow x es)"
  unfolding require_def by (erule runs_bind) (intro runs_rules, simp add: ended_def)

lemma release_nothing:
  "list_all (\<lambda>i. i < length cells \<and> c_state (cells ! i) = Vacant) js \<Longrightarrow>
     pass release_if_held js (rt, cells) w = Some ((rt, cells), w)"
  by (induction js) (simp_all add: at_cell_def release_if_held_def)

lemma ended_release_all:
  assumes "all_free ow"
  shows "runs (release_all ow) (\<lambda>x es. ended ow x es)"
proof -
  obtain rt cells where t: "fl_table (ow_flow ow) = (rt, cells)" by (cases "fl_table (ow_flow ow)")
  have same: "pass release_if_held [0..<length cells] (rt, cells) w = Some ((rt, cells), w)" for w
    by (rule release_nothing) (use assms t in \<open>auto simp: all_free_def list_all_iff\<close>)
  have "(ow_flow ow)\<lparr>fl_table := (rt, cells)\<rparr> = ow_flow ow" using t by (cases "ow_flow ow") simp
  then have "ended ow (ow\<lparr>ow_flow := (ow_flow ow)\<lparr>fl_table := (rt, cells)\<rparr>\<rparr>) es" if "inert es" for es
    using that by (simp add: ended_def)
  then show ?thesis
    unfolding release_all_def t snd_conv same
    by (intro runs_bind [OF inert_fatal_seen] runs_rules) (simp_all add: ended_inert)
qed

lemma ended_free: "ended ow u es \<Longrightarrow> all_free u = all_free ow"
  by (simp add: ended_def all_free_def)

text \<open>No lane finds work in a table of vacant cells.\<close>

lemma others_need_work: "others_op pl a \<Longrightarrow> c_state (snd s) = Vacant \<Longrightarrow> lane_step cf cells pk a s w = None"
  by (cases a) (simp_all add: lane_step_def enabled_def others_op_def)

lemma others_idle:
  assumes "all_free ow"
  shows "runs (others_work pl cf sch (ow_flow ow)) (\<lambda>x es. snd x = ow_flow ow \<and> es = [])"
proof (cases sch)
  case Nil
  show ?thesis unfolding others_work_def Nil list.case by (intro runs_rules) simp
next
  case (Cons steps rest)
  obtain rt cells where t: "fl_table (ow_flow ow) = (rt, cells)" by (cases "fl_table (ow_flow ow)")
  have "runs (run_lanes cf steps (ow_flow ow)) (\<lambda>g es. g = ow_flow ow \<and> es = [])"
    if "list_all (\<lambda>p. others_op pl (snd p)) steps"
  proof (cases steps)
    case Nil
    have "runs (\<lambda>w. run_lanes cf steps (ow_flow ow) w) (\<lambda>g es. g = ow_flow ow \<and> es = [])"
      unfolding Nil run_lanes.simps by (intro runs_rules) simp
    then show ?thesis .
  next
    case (Cons q more)
    obtain i a where q: "q = (i, a)" by (cases q)
    have "run_lanes cf steps (ow_flow ow) = (\<lambda>w. None)"
      using that assms others_need_work [of pl a "(rt, cells ! i)"]
      by (auto simp: Cons q t all_free_def list_all_iff fun_eq_iff)
    then show ?thesis by (simp add: runs_none)
  qed
  then show ?thesis
    unfolding others_work_def Cons list.case by (intro runs_if runs_bind runs_none runs_rules) simp_all
qed

lemma ended_last_turn: "all_free ow \<Longrightarrow> runs (last_turn p cf ow) (\<lambda>x es. ended ow x es)"
  unfolding last_turn_def by (intro runs_bind [OF others_idle] runs_rules) (auto simp: ended_def)

lemma ended_wind_down:
  assumes "all_free ow"
  shows "runs (wind_down getenv p cf ow) (\<lambda>x es. ended ow x es)"
proof -
  have relief: "runs (\<lambda>w. if getenv ''RUI_PROOF_PRESSURE_RELIEF'' \<noteq> None then passes ''malloc_zone_pressure_relief'' w
      else Some (True, w)) uncommitted"
    by (intro runs_if inert_passes runs_ret) simp
  have hold: "runs (\<lambda>w. if b then Option.bind (passes ''sleep'' w) (\<lambda>(_, w). require observes u w) else Some (u, w))
      (\<lambda>x es. ended u x es)" for b and u :: owner
    by (intro runs_if runs_bind [OF inert_passes] runs_weaken [OF ended_require [OF inert_observes]] runs_ret)
      (auto simp: ended_def)
  have join: "runs (\<lambda>w. if b then require (passes ''thread_join'') u w else Some (u, w)) (\<lambda>x es. ended u x es)"
    for b and u :: owner
    by (intro runs_if ended_require [OF inert_passes] runs_ret) simp
  have release: "runs (release_all u) (\<lambda>x es. ended u x es)" if "ended ow u es" for u es
    by (rule ended_release_all) (use that assms ended_free in blast)
  have last: "runs (last_turn p cf u) (\<lambda>x es. ended u x es)" if "ended ow u es" for u es
    by (rule ended_last_turn) (use that assms ended_free in blast)
  show ?thesis
    unfolding wind_down_def
    by (intro runs_bind [OF uncommitted_now_ns] runs_bind [OF ended_require [OF inert_passes]] runs_bind [OF relief]
        runs_bind [OF ended_require [OF inert_observes]] runs_bind [OF hold] runs_bind [OF inert_signal_owner]
        runs_bind [OF last] runs_bind [OF join] runs_weaken [OF release]) (auto simp: ended_def)
qed

lemma inert_scalar_int: "statement \<noteq> ''COMMIT'' \<Longrightarrow> runs (scalar_int statement) uncommitted"
  unfolding scalar_int_def by (intro runs_rules) simp_all

lemma inert_scalars: "''COMMIT'' \<notin> set qs \<Longrightarrow> runs (scalars qs) uncommitted"
proof (induction qs)
  case Nil
  have "runs (\<lambda>w. Some ([] :: int list, w)) uncommitted" by (intro runs_rules) simp
  then show ?case by simp
next
  case (Cons q qs)
  have q: "runs (scalar_int q) uncommitted" and qs: "runs (scalars qs) uncommitted"
    using Cons by (auto intro: inert_scalar_int)
  have "runs (\<lambda>w. scalars (q # qs) w) uncommitted"
    unfolding scalars.simps by (intro runs_bind [OF q] runs_bind [OF qs] runs_rules) simp
  then show ?case .
qed

lemma ended_collect_report: "runs (collect_report ow) (\<lambda>x es. ended ow (snd x) es)"
proof -
  have rows: "runs count_resolutions uncommitted"
    unfolding count_resolutions_def by (intro runs_bind [OF inert_scalar_int] runs_rules) simp_all
  have classes: "runs (scalars (map class_query ks @ [''SELECT count(*) FROM artifact''])) uncommitted" for ks
    by (rule inert_scalars) (auto simp: class_query_def)
  show ?thesis
    unfolding collect_report_def
    by (intro runs_bind [OF inert_passes] runs_bind [OF rows] runs_bind [OF classes]
        runs_bind [OF ended_require [OF inert_passes]] runs_rules) (simp add: ended_def)
qed

lemma quiet_relation: "runs (patch_final_relation target) (\<lambda>_ es. quiet es)"
  unfolding patch_final_relation_def close_with_def by (intro runs_rules) (auto simp: fails_def)

lemma inert_remove_target: "runs (remove_target target) uncommitted"
  unfolding remove_target_def remove_patch_markers_def
  by (intro runs_bind [OF inert_remove_markers] runs_rules) simp_all

lemma runs_exit_status:
  "runs (exit_status p rp ow) (\<lambda>e es. inert es \<and> (e = 0 \<longrightarrow> int (ow_completed ow) = pl_cycles p))"
proof -
  have destroy: "runs (all_pass [passes ''cond_destroy'', passes ''mutex_destroy'']) uncommitted"
    by (rule inert_all_pass) (simp add: inert_passes)
  have fatal: "runs (\<lambda>w. if b then fatal_seen ow w else Some (True, w)) uncommitted" for b
    by (intro runs_if inert_fatal_seen runs_ret) simp
  show ?thesis
    unfolding exit_status_def
    by (intro runs_bind [OF destroy] runs_bind [OF inert_remove_target] runs_bind [OF fatal] runs_rules) auto
qed

text \<open>A status of 0 needs every cycle complete; then ending changes nothing.\<close>

lemma completed_require: "runs f uncommitted \<Longrightarrow> runs (require f ow) (\<lambda>x es. ow_completed x = ow_completed ow)"
  by (rule runs_weaken [OF ended_require]) (simp_all add: ended_def)

lemma completed_release_all: "runs (release_all ow) (\<lambda>x es. ow_completed x = ow_completed ow)"
proof -
  have "keeping s (release_if_held s)" for s
    unfolding release_if_held_def by (intro runs_if keeping_release_cell runs_ret) simp
  then have release: "runs (pass release_if_held [0..<length (snd t)] t) (\<lambda>t' es. keeps_table t t')" for t
    by (rule runs_pass) (simp add: list_all_iff)
  show ?thesis
    unfolding release_all_def by (intro runs_bind [OF inert_fatal_seen] runs_bind [OF release] runs_rules) simp_all
qed

lemma completed_last_turn: "runs (last_turn p cf ow) (\<lambda>x es. ow_completed x = ow_completed ow)"
  unfolding last_turn_def by (intro runs_bind [OF calls_others_work] runs_rules) auto

lemma completed_wind_down: "runs (wind_down getenv p cf ow) (\<lambda>x es. ow_completed x = ow_completed ow)"
proof -
  have relief: "runs (\<lambda>w. if getenv ''RUI_PROOF_PRESSURE_RELIEF'' \<noteq> None then passes ''malloc_zone_pressure_relief'' w
      else Some (True, w)) uncommitted"
    by (intro runs_if inert_passes runs_ret) simp
  have hold: "runs (\<lambda>w. if b then Option.bind (passes ''sleep'' w) (\<lambda>(_, w). require observes u w) else Some (u, w))
      (\<lambda>x es. ow_completed x = ow_completed u)" for b and u :: owner
    by (intro runs_if runs_bind [OF inert_passes] runs_weaken [OF completed_require [OF inert_observes]] runs_ret) simp_all
  have join: "runs (\<lambda>w. if b then require (passes ''thread_join'') u w else Some (u, w))
      (\<lambda>x es. ow_completed x = ow_completed u)" for b and u :: owner
    by (intro runs_if completed_require [OF inert_passes] runs_ret) simp
  show ?thesis
    unfolding wind_down_def
    by (intro runs_bind [OF uncommitted_now_ns] runs_bind [OF completed_require [OF inert_passes]] runs_bind [OF relief]
        runs_bind [OF completed_require [OF inert_observes]] runs_bind [OF hold] runs_bind [OF inert_signal_owner]
        runs_bind [OF completed_last_turn] runs_bind [OF join] runs_weaken [OF completed_release_all]) simp_all
qed

lemma finish_run_completed:
  "runs (finish_run getenv p cf ow) (\<lambda>x es. fst x = 0 \<longrightarrow> int (ow_completed ow) = pl_cycles p)"
  unfolding finish_run_def
  by (intro runs_bind [OF completed_wind_down] runs_bind [OF ended_collect_report] runs_bind [OF inert_observes]
      runs_bind [OF quiet_relation] runs_bind [OF runs_exit_status] runs_rules) (auto simp: ended_def)

lemma finish_run_quiet:
  assumes "all_free ow"
  shows "runs (finish_run getenv p cf ow) (\<lambda>x es. quiet es \<and> ow_flow (snd x) = ow_flow ow)"
  unfolding finish_run_def
  by (intro runs_bind [OF ended_wind_down [OF assms]] runs_bind [OF ended_collect_report] runs_bind [OF inert_observes]
      runs_bind [OF quiet_relation] runs_bind [OF runs_exit_status] runs_rules)
    (auto simp: ended_def inert_commits inert_fds)

section \<open>Status 0\<close>

text \<open>What is left when every admitted attempt is settled.\<close>

lemma nothing_left:
  assumes "shifts a a f g es" and "all_occupied f = 0" and "\<And>x. all_held f x = 0" and "fl_abandoned f = 0"
  shows "list_all (\<lambda>c. c_state c = Vacant) (snd (fl_table g))" and "x \<ge> 0 \<Longrightarrow> fd_net es x = 0"
    and "commits es = 2 * a" and "rt_scratch_current (fst (fl_table g)) = 0"
proof -
  have c: "conserved f g es" "fl_admitted g = fl_admitted f + a" "fl_settled g = fl_settled f + a"
    using assms(1) by (simp_all add: shifts_def)
  then have "all_occupied g = 0" using assms(2,4) by (simp add: conserved_def)
  then have vacant: "\<forall>c \<in> set (snd (fl_table g)). c_state c = Vacant"
    by (auto simp: all_occupied_def occupied_def)
  then show "list_all (\<lambda>c. c_state c = Vacant) (snd (fl_table g))" by (simp add: list_all_iff)
  have ok: "flow_ok g" using c(1) by (simp add: conserved_def)
  with vacant have "list_all (\<lambda>c. c_state c = Vacant \<and> dormant c) (snd (fl_table g))"
    by (auto simp: flow_ok_def list_all_iff)
  note v = all_vacant [OF this]
  show "fd_net es x = 0" if "x \<ge> 0" using c(1) v(2) assms(3) that by (simp add: conserved_def)
  show "commits es = 2 * a" using c by (simp add: conserved_def)
  have "unat (rt_scratch_current (fst (fl_table g))) = 0"
    using ok v(3) by (cases "fl_table g") (simp add: flow_ok_def table_ok_def)
  then show "rt_scratch_current (fst (fl_table g)) = 0" by (simp add: unat_eq_0)
qed

text \<open>What the plan gives.\<close>

definition planned :: "int + plan \<times> runtime \<times> config \<Rightarrow> bool" where
  "planned r \<longleftrightarrow> (case r of Inl e \<Rightarrow> e \<noteq> 0
     | Inr (p, rt, cf) \<Rightarrow> counts_fit p \<and> 1 \<le> pl_capacity p \<and> 1 \<le> pl_cycles p \<and> rt_scratch_current rt = 0)"

lemma runs_plan_run: "runs (plan_run getenv program argv) (\<lambda>r es. inert es \<and> planned r)"
proof (rule runsI)
  fix w r w'
  assume run: "plan_run getenv program argv w = Some (r, w')"
  then have "\<exists>es. emits w w' es \<and> inert es"
    by (auto simp: plan_run_def Let_def sys_emits split: if_splits intro: exI [of _ "[]"])
  moreover have "planned r"
  proof (cases r)
    case (Inl e)
    with run show ?thesis by (auto simp: plan_run_def planned_def Let_def split: if_splits option.splits)
  next
    case (Inr x)
    obtain p rt cf where x: "x = (p, rt, cf)" by (cases x)
    have "rt_scratch_current rt = 0"
      using run Inr x
      by (auto simp: plan_run_def Let_def planned_runtime_def blank_runtime_def split: if_splits option.splits)
    with plan_run_fits [OF run [unfolded Inr x]] show ?thesis by (simp add: planned_def Inr x)
  qed
  ultimately show "\<exists>es. emits w w' es \<and> inert es \<and> planned r" by blast
qed

lemma new_owner_flow:
  assumes "rt_scratch_current rt = 0"
  shows "flow_ok (ow_flow (new_owner p rt sch))" and "all_occupied (ow_flow (new_owner p rt sch)) = 0"
    and "all_held (ow_flow (new_owner p rt sch)) x = 0"
    and "fl_abandoned (ow_flow (new_owner p rt sch)) = 0"
    and "length (snd (fl_table (ow_flow (new_owner p rt sch)))) = nat (pl_capacity p)"
proof -
  have cells: "list_all (\<lambda>c. c_state c = Vacant \<and> dormant c) (planned_cells p)"
    by (auto simp: list_all_iff planned_cells_def free_cell_def dormant_def held_def charge_def)
  from flow_ok_empty [OF assms cells] show "flow_ok (ow_flow (new_owner p rt sch))" by (simp add: new_owner_def)
  have "list_all (\<lambda>c. c_state c = Vacant \<and> dormant c) (snd (fl_table (empty_flow rt (planned_cells p))))"
    using cells by (simp add: empty_flow_def)
  from all_vacant [OF this] show "all_occupied (ow_flow (new_owner p rt sch)) = 0"
    "all_held (ow_flow (new_owner p rt sch)) x = 0" by (simp_all add: new_owner_def)
  show "fl_abandoned (ow_flow (new_owner p rt sch)) = 0" by (simp add: new_owner_def empty_flow_def)
  show "length (snd (fl_table (ow_flow (new_owner p rt sch)))) = nat (pl_capacity p)"
    by (simp add: new_owner_def empty_flow_def planned_cells_def)
qed

lemma patch_index_less: "counts_fit p \<Longrightarrow> 1 \<le> pl_capacity p \<Longrightarrow> pl_patch_index p < pl_capacity p"
  by (auto simp: counts_fit_def split: if_splits)

text \<open>The calls of the whole run.\<close>

definition run_accounted :: "plan \<Rightarrow> owner \<Rightarrow> (call \<times> reply) list \<Rightarrow> bool" where
  "run_accounted p ow es \<longleftrightarrow>
     (let n = nat (pl_capacity p) * nat (pl_cycles p) in
      fl_admitted (ow_flow ow) = n \<and> fl_settled (ow_flow ow) = n \<and> commits es = 2 * n \<and> all_free ow \<and>
      (\<forall>x \<ge> 0. fd_net es x = 0) \<and> rt_scratch_current (fst (fl_table (ow_flow ow))) = 0)"

lemma accounted_quiet: "quiet fs \<Longrightarrow> run_accounted p ow es \<Longrightarrow> run_accounted p ow (fs @ es)"
  "quiet fs \<Longrightarrow> ow_flow ow' = ow_flow ow \<Longrightarrow> run_accounted p ow es \<Longrightarrow> run_accounted p ow' (es @ fs)"
  by (simp_all add: run_accounted_def all_free_def Let_def)

lemma completed_accounted:
  assumes "rt_scratch_current rt = 0"
    and "cycles_done (nat (pl_capacity p)) (length (cycle_numbers p)) (new_owner p rt sch) ow es"
    and "int (ow_completed ow) = pl_cycles p"
  shows "run_accounted p ow es"
proof -
  let ?n = "nat (pl_capacity p) * nat (pl_cycles p)"
  have len: "length (cycle_numbers p) = nat (pl_cycles p)" by (simp add: cycle_numbers_def)
  have zero: "ow_completed (new_owner p rt sch) = 0" "fl_admitted (ow_flow (new_owner p rt sch)) = 0"
    "fl_settled (ow_flow (new_owner p rt sch)) = 0" by (simp_all add: new_owner_def empty_flow_def)
  have "ow_completed ow = nat (pl_cycles p)" using assms(3) by simp
  with assms(2) zero(1) len have s: "shifts ?n ?n (ow_flow (new_owner p rt sch)) (ow_flow ow) es"
    by (auto simp: cycles_done_def mult.commute)
  note left = nothing_left [OF s new_owner_flow(2-4) [OF assms(1)]]
  show ?thesis
    unfolding run_accounted_def Let_def all_free_def
    using left s zero by (simp add: shifts_def)
qed

lemma runs_run_integrated:
  "runs (run_integrated getenv program argv sch) (\<lambda>x es. fst x = 0 \<longrightarrow>
     (\<exists>p ow. snd x = Some (p, ow) \<and> run_accounted p ow es))"
proof -
  have cycles: "runs (owner_cycles p cf scratch (cycle_numbers p) (new_owner p rt sch))
      (\<lambda>x es. cycles_done (nat (pl_capacity p)) (length (cycle_numbers p)) (new_owner p rt sch) (snd x) es)"
    if "planned (Inr (p, rt, cf))" for p rt cf scratch
    by (rule runs_owner_cycles)
      (use that new_owner_flow(1,5) patch_index_less in \<open>simp_all add: planned_def\<close>)
  have finish: "runs (finish_run getenv p cf ow) (\<lambda>x fs. fst x = 0 \<longrightarrow> run_accounted p (snd x) (qs @ es @ fs))"
    if p: "planned (Inr (p, rt, cf))" and fin: "cycles_done (nat (pl_capacity p)) (length (cycle_numbers p)) (new_owner p rt sch) ow es"
      and q: "quiet qs" for p rt cf ow es qs
  proof (cases "int (ow_completed ow) = pl_cycles p")
    case True
    have acc: "run_accounted p ow es"
      by (rule completed_accounted [OF _ fin True]) (use p in \<open>simp add: planned_def\<close>)
    then have "all_free ow" by (simp add: run_accounted_def Let_def)
    from finish_run_quiet [OF this] show ?thesis
      by (rule runs_weaken) (use accounted_quiet(1) [OF q accounted_quiet(2) [OF _ _ acc]] in simp)
  next
    case False
    then show ?thesis by (intro runs_weaken [OF finish_run_completed]) simp
  qed
  show ?thesis
    unfolding run_integrated_def
  proof (rule runs_bind [OF runs_plan_run])
    fix r ps
    assume r: "inert ps \<and> planned r"
    show "runs (\<lambda>w. case r of Inl e \<Rightarrow> Some ((e, None), w)
        | Inr (p, rt, cf) \<Rightarrow> Option.bind (all_pass (start_checks p) w) (\<lambda>(good, w).
            if \<not> good then Some ((1, None), w)
            else Option.bind (now_ns w) (\<lambda>(_, w).
              Option.bind (owner_cycles p cf (argv ! 4) (cycle_numbers p) (new_owner p rt sch) w) (\<lambda>((good, ow), w).
                if \<not> good then Some ((1, Some (p, ow)), w)
                else Option.bind (finish_run getenv p cf ow w) (\<lambda>((e, ow), w). Some ((e, Some (p, ow)), w))))))
        (\<lambda>x es. fst x = 0 \<longrightarrow> (\<exists>p ow. snd x = Some (p, ow) \<and> run_accounted p ow (ps @ es)))"
    proof (cases r)
      case (Inl e)
      with r show ?thesis by (auto simp: planned_def intro!: runs_ret)
    next
      case (Inr z)
      obtain p rt cf where z: "z = (p, rt, cf)" by (cases z)
      have pl: "planned (Inr (p, rt, cf))" using r Inr z by simp
      show ?thesis
        unfolding Inr z sum.case prod.case
      proof (rule runs_bind [OF inert_start_checks], rule runs_if)
        fix good qs assume q: "inert qs"
        show "runs (\<lambda>w. Some ((1 :: int, None), w)) (\<lambda>x es. fst x = 0 \<longrightarrow>
            (\<exists>p ow. snd x = Some (p, ow) \<and> run_accounted p ow (ps @ qs @ es)))"
          by (rule runs_ret) simp
        show "runs (\<lambda>w. Option.bind (now_ns w) (\<lambda>(_, w).
              Option.bind (owner_cycles p cf (argv ! 4) (cycle_numbers p) (new_owner p rt sch) w) (\<lambda>((good, ow), w).
                if \<not> good then Some ((1, Some (p, ow)), w)
                else Option.bind (finish_run getenv p cf ow w) (\<lambda>((e, ow), w). Some ((e, Some (p, ow)), w)))))
            (\<lambda>x es. fst x = 0 \<longrightarrow> (\<exists>p ow. snd x = Some (p, ow) \<and> run_accounted p ow (ps @ qs @ es)))"
        proof (rule runs_bind [OF uncommitted_now_ns], rule runs_bind [OF cycles [OF pl]], rule runs_pair, rule runs_if)
          fix u ts x es good ow
          assume t: "inert ts" and x: "x = (good, ow)"
            and c: "cycles_done (nat (pl_capacity p)) (length (cycle_numbers p)) (new_owner p rt sch) (snd x) es"
          show "runs (\<lambda>w. Some ((1 :: int, Some (p, ow)), w)) (\<lambda>x fs. fst x = 0 \<longrightarrow>
              (\<exists>p ow. snd x = Some (p, ow) \<and> run_accounted p ow (ps @ qs @ ts @ es @ fs)))"
            by (rule runs_ret) simp
          have quiet: "quiet (ps @ qs @ ts)" using r q t by (simp add: inert_commits inert_fds)
          have c: "cycles_done (nat (pl_capacity p)) (length (cycle_numbers p)) (new_owner p rt sch) ow es" using c x by simp
          show "runs (\<lambda>w. Option.bind (finish_run getenv p cf ow w) (\<lambda>((e, ow), w). Some ((e, Some (p, ow)), w)))
              (\<lambda>x fs. fst x = 0 \<longrightarrow> (\<exists>p ow. snd x = Some (p, ow) \<and> run_accounted p ow (ps @ qs @ ts @ es @ fs)))"
            by (intro runs_bind [OF finish [OF pl c quiet]] runs_pair runs_ret) auto
        qed
      qed
    qed
  qed
qed

text \<open>
  C10. When the program returns 0, it has admitted and settled exactly one attempt per cell and
  cycle, with two commits each and no other; every cell is vacant, every descriptor it opened is
  closed and no scratch space is charged.
\<close>

theorem status_0_settles_everything:
  assumes "run_integrated getenv program argv sch w = Some ((0, Some (p, ow)), w')"
  shows "\<exists>es. emits w w' es \<and>
    (let n = nat (pl_capacity p) * nat (pl_cycles p) in
      fl_admitted (ow_flow ow) = n \<and> fl_settled (ow_flow ow) = n \<and> commits es = 2 * n \<and> all_free ow \<and>
      (\<forall>x \<ge> 0. fd_net es x = 0) \<and> rt_scratch_current (fst (fl_table (ow_flow ow))) = 0)"
  using runsD [OF runs_run_integrated assms] by (auto simp: run_accounted_def Let_def)

section \<open>A run that ends with status 0\<close>

text \<open>One transport whose spool cannot be made: the attempt fails and is settled all the same.\<close>

definition sample_process :: "reply list" where
  "sample_process = [ok_out 96 [1, 1, 1], ok_out 0 [1, 1], ok 0]"

definition sample_start :: "reply list" where
  "sample_start = [ok 0, ok 0, ok 0] @ sample_process @ [ok 0, ok 0] @ sample_process @ [ok 0, ok 0, ok 0, ok 0] @
     [ok_out 0 [0, 1], ok 1, ok 1] @ sample_process @ [ok 0, ok_out 0 [0, 1]]"

definition sample_cycle :: "reply list" where
  "sample_cycle = [ok 0, ok 0, ok 0, ok 0, ok 0, ok_out 0 [0, 1], ok_out 0 [0, 2], ok 0,
     ok_out 0 [0, 2], err 24, ok_out 0 [0, 3],
     ok_out 0 [0, 4], ok 0, err 2, err 2, err 2, ok 0, ok 101, ok 0, ok 0, ok 101, ok 0, ok 0, ok_out 0 [0, 4]] @
     sample_process @ sample_process"

definition sample_end :: "reply list" where
  "sample_end = [ok_out 0 [0, 5], ok 0] @ sample_process @ [ok 0, ok 0, ok 0, ok 0, ok 0] @
     [ok 0, ok_out 100 [1], ok 0] @ concat (replicate 10 [ok 0, ok_out 100 [0], ok 0]) @ [ok 0, ok 0] @ sample_process @
     [ok 0, ok 0, ok 0]"

definition sample_argv :: "string list" where
  "sample_argv = [''integrated'', ''1'', ''u'', ''c'', ''s'', ''d'', ''owner'', ''5'']"

lemma run_sample:
  "map_option (\<lambda>x. (fst (fst x), map_option (pl_capacity \<circ> fst) (snd (fst x))))
     (run_integrated no_env ''p'' sample_argv [[], [(0, Lane_dispatch)]] (boot (sample_start @ sample_cycle @ sample_end))) = Some (0, Some 1)"
  by code_simp

lemma status_0_settles_everything_witness:
  "\<exists>p ow w' es. run_integrated no_env ''p'' sample_argv [[], [(0, Lane_dispatch)]]
      (boot (sample_start @ sample_cycle @ sample_end)) = Some ((0, Some (p, ow)), w') \<and>
    emits (boot (sample_start @ sample_cycle @ sample_end)) w' es \<and>
    commits es = 2 * (nat (pl_capacity p) * nat (pl_cycles p)) \<and> pl_capacity p = 1"
proof -
  let ?w = "boot (sample_start @ sample_cycle @ sample_end)"
  from run_sample obtain p ow w' where run: "run_integrated no_env ''p'' sample_argv [[], [(0, Lane_dispatch)]] ?w = Some ((0, Some (p, ow)), w')"
    "pl_capacity p = 1" by fastforce
  from status_0_settles_everything [OF run(1)] obtain es where "emits ?w w' es"
    "commits es = 2 * (nat (pl_capacity p) * nat (pl_cycles p))" by (auto simp: Let_def)
  with run show ?thesis by blast
qed

end
