(* ===== verification/Slots.thy ===== *)
theory Slots
  imports Prelude
begin

text \<open>
  The bookkeeping benchmark \<open>slots.c\<close> of the execution-control experiments: four ways of walking
  the table of slots, and the program that times them.  \<open>None\<close> is an assertion that fails or an
  \<open>abort\<close>.  Handles are numbers, 0 the null pointer.  The environment says whether \<open>calloc\<close> gives
  memory and which readings of the clock succeed, both asserted; the times are only printed.
\<close>

section \<open>Slots\<close>

datatype slot_state = Free | Reserved | Dispatchable | Active | Sealed

record slot =
  sl_state :: slot_state
  sl_kind :: byte
  sl_attempt_id :: u64
  sl_easy :: nat

definition free_slot :: slot where
  "free_slot = \<lparr>sl_state = Free, sl_kind = 0, sl_attempt_id = 0, sl_easy = 0\<rparr>"

section \<open>The walks\<close>

fun state_scan :: "slot list \<Rightarrow> u64" where
  "state_scan [] = 0"
| "state_scan (c # cs) = (if sl_state c = Active then 1 else 0) + state_scan cs"

text \<open>A dispatchable slot would be taken, and aborts the program.\<close>

fun dispatch_scan :: "slot list \<Rightarrow> u64 option" where
  "dispatch_scan [] = Some 0"
| "dispatch_scan (c # cs) = (if sl_state c = Dispatchable then None else do {
     k \<leftarrow> dispatch_scan cs;
     Some ((if sl_state c = Active then 1 else 0) + k)
   })"

text \<open>Where attempt \<open>j\<close> of \<open>occupied\<close> is spread over \<open>n\<close> slots.\<close>

definition spread :: "nat \<Rightarrow> nat \<Rightarrow> nat \<Rightarrow> nat" where
  "spread n occupied j = j * n div occupied"

fun lookups :: "slot list \<Rightarrow> nat \<Rightarrow> nat list \<Rightarrow> u64" where
  "lookups cs occupied [] = 0"
| "lookups cs occupied (j # js) =
     (case index_of (\<lambda>c. sl_easy c = spread (length cs) occupied j + 1) cs of None \<Rightarrow> 0 | Some _ \<Rightarrow> 1) +
     lookups cs occupied js"

definition completion_lookup :: "slot list \<Rightarrow> nat \<Rightarrow> u64" where
  "completion_lookup cs occupied = lookups cs occupied [0..<occupied]"

text \<open>The three passes of \<open>completion_reuse\<close>: complete every handle, free what is sealed, and
  admit into the first free slot.\<close>

fun complete_handles :: "nat list \<Rightarrow> slot list \<Rightarrow> u64 \<Rightarrow> (slot list \<times> u64) option" where
  "complete_handles [] cs k = Some (cs, k)"
| "complete_handles (j # js) cs k =
     (case index_of (\<lambda>c. sl_easy c = j + 1) cs of
        None \<Rightarrow> complete_handles js cs k
      | Some i \<Rightarrow> if sl_state (cs ! i) \<noteq> Active then None
          else complete_handles js (cs[i := (cs ! i)\<lparr>sl_easy := 0, sl_state := Sealed\<rparr>]) (k + 1))"

definition free_sealed :: "slot list \<Rightarrow> slot list" where
  "free_sealed = map (\<lambda>c. if sl_state c = Sealed then c\<lparr>sl_state := Free\<rparr> else c)"

fun admit_first_free :: "nat list \<Rightarrow> slot list \<Rightarrow> slot list option" where
  "admit_first_free [] cs = Some cs"
| "admit_first_free (j # js) cs =
     (case index_of (\<lambda>c. sl_state c = Free) cs of
        None \<Rightarrow> None
      | Some i \<Rightarrow> admit_first_free js (cs[i := (cs ! i)\<lparr>sl_attempt_id := sl_attempt_id (cs ! i) + 1,
          sl_easy := j + 1, sl_state := Active\<rparr>]))"

definition completion_reuse :: "slot list \<Rightarrow> nat \<Rightarrow> (u64 \<times> slot list) option" where
  "completion_reuse cs occupied = do {
     (cs, k) \<leftarrow> complete_handles [0..<occupied] cs 0;
     cs \<leftarrow> admit_first_free [0..<occupied] (free_sealed cs);
     Some (k, cs)
   }"

section \<open>The program\<close>

definition run_mode :: "nat \<Rightarrow> nat \<Rightarrow> slot list \<Rightarrow> (u64 \<times> slot list) option" where
  "run_mode mode occupied cs =
     (if mode = 0 then Some (state_scan cs, cs)
      else if mode = 1 then map_option (\<lambda>k. (k, cs)) (dispatch_scan cs)
      else if mode = 2 then Some (completion_lookup cs occupied, cs)
      else completion_reuse cs occupied)"

text \<open>\<open>k\<close> runs with the sum of what they return.\<close>

fun run_many :: "nat \<Rightarrow> nat \<Rightarrow> nat \<Rightarrow> u64 \<Rightarrow> slot list \<Rightarrow> (u64 \<times> slot list) option" where
  "run_many 0 mode occupied acc cs = Some (acc, cs)"
| "run_many (Suc k) mode occupied acc cs = do {
     (v, cs) \<leftarrow> run_mode mode occupied cs;
     run_many k mode occupied (acc + v) cs
   }"

text \<open>Each repetition reads the clock twice: readings \<open>j\<close> and \<open>j + 1\<close> are those of the next one.\<close>

fun measure_repeats :: "(nat \<Rightarrow> bool) \<Rightarrow> nat \<Rightarrow> nat \<Rightarrow> nat \<Rightarrow> nat \<Rightarrow> nat \<Rightarrow> u64 \<Rightarrow> slot list \<Rightarrow> (u64 \<times> slot list) option" where
  "measure_repeats clock j 0 iterations mode occupied acc cs = Some (acc, cs)"
| "measure_repeats clock j (Suc r) iterations mode occupied acc cs =
     (if \<not> clock j then None
      else do {
        (checksum, cs) \<leftarrow> run_many iterations mode occupied 0 cs;
        if \<not> clock (j + 1) \<or> checksum \<noteq> of_nat iterations * of_nat occupied then None
        else measure_repeats clock (j + 2) r iterations mode occupied (acc + checksum) cs
      })"

fun occupy :: "nat list \<Rightarrow> nat \<Rightarrow> nat \<Rightarrow> slot list \<Rightarrow> slot list" where
  "occupy [] mode occupied cs = cs"
| "occupy (j # js) mode occupied cs =
     (let i = (if mode = 3 then j else spread (length cs) occupied j)
      in occupy js mode occupied (cs[i := (cs ! i)\<lparr>sl_state := Active, sl_easy := i + 1, sl_kind := 1\<rparr>]))"

text \<open>The numbers of the command line; the total checksum and the sum of the generations.\<close>

definition slots_main :: "bool \<Rightarrow> (nat \<Rightarrow> bool) \<Rightarrow> nat \<Rightarrow> nat \<Rightarrow> nat \<Rightarrow> nat \<Rightarrow> nat \<Rightarrow> (u64 \<times> u64) option" where
  "slots_main memory clock n percent mode iterations repeats =
     (if n = 0 \<or> n > 1000 \<or> percent > 100 \<or> mode \<ge> 4 \<or> iterations = 0 \<or> repeats = 0 \<or> repeats > 20 then None
      else if \<not> memory then None
      else do {
        let occupied = n * percent div 100;
        let cs = occupy [0..<occupied] mode occupied (replicate n free_slot);
        (_, cs) \<leftarrow> run_many 100 mode occupied 0 cs;
        (checksum, cs) \<leftarrow> measure_repeats clock 0 repeats iterations mode occupied 0 cs;
        let generations = sum_list (map sl_attempt_id cs);
        if state_scan cs \<noteq> of_nat occupied then None
        else if generations \<noteq> (if mode = 3 then (100 + of_nat iterations * of_nat repeats) * of_nat occupied else 0) then None
        else Some (checksum, generations)
      })"

section \<open>Reuse\<close>

lemma upt_Cons: "h # hs = [j..<m] \<Longrightarrow> h = j \<and> hs = [Suc j..<m] \<and> j < m"
  by (cases "j < m") (simp_all add: upt_conv_Cons)

text \<open>The table after \<open>k\<close> generations: the first \<open>m\<close> slots hold the attempts.\<close>

definition active_slot :: "u64 \<Rightarrow> nat \<Rightarrow> slot" where
  "active_slot k i = \<lparr>sl_state = Active, sl_kind = 1, sl_attempt_id = k, sl_easy = i + 1\<rparr>"

definition warm :: "u64 \<Rightarrow> nat \<Rightarrow> nat \<Rightarrow> slot list" where
  "warm k m n = map (active_slot k) [0..<m] @ replicate (n - m) free_slot"

definition idle_slot :: "u64 \<Rightarrow> slot_state \<Rightarrow> slot" where
  "idle_slot k s = \<lparr>sl_state = s, sl_kind = 1, sl_attempt_id = k, sl_easy = 0\<rparr>"

lemma complete_handles_warm:
  "j + length hs = m \<Longrightarrow> hs = [j..<m] \<Longrightarrow>
   complete_handles hs (replicate j (idle_slot k Sealed) @ map (active_slot k) [j..<m] @ replicate r free_slot) c =
     Some (replicate m (idle_slot k Sealed) @ replicate r free_slot, c + of_nat (length hs))"
proof (induction hs arbitrary: j c)
  case Nil
  then show ?case by simp
next
  case (Cons h hs)
  from Cons.prems have h: "h = j" "hs = [Suc j..<m]" "j < m"
    using upt_Cons by blast+
  have split: "map (active_slot k) [j..<m] = active_slot k j # map (active_slot k) [Suc j..<m]"
    using h(3) by (simp add: upt_conv_Cons)
  let ?cs = "replicate j (idle_slot k Sealed) @ active_slot k j # map (active_slot k) [Suc j..<m] @ replicate r free_slot"
  have idx: "index_of (\<lambda>c. sl_easy c = j + 1) ?cs = Some j"
    using index_of_append_hit [of "replicate j (idle_slot k Sealed)" "\<lambda>c. sl_easy c = j + 1" "active_slot k j"
        "map (active_slot k) [Suc j..<m] @ replicate r free_slot"]
    by (simp add: idle_slot_def active_slot_def)
  have upd: "?cs[j := (?cs ! j)\<lparr>sl_easy := 0, sl_state := Sealed\<rparr>] =
      replicate (Suc j) (idle_slot k Sealed) @ map (active_slot k) [Suc j..<m] @ replicate r free_slot"
    by (simp add: list_update_append nth_append active_slot_def idle_slot_def replicate_append_same [symmetric])
  have act: "sl_state (?cs ! j) = Active" by (simp add: nth_append active_slot_def)
  have "complete_handles (h # hs) ?cs c = complete_handles hs (?cs[j := (?cs ! j)\<lparr>sl_easy := 0, sl_state := Sealed\<rparr>]) (c + 1)"
    using idx act by (simp add: h(1))
  also have "\<dots> = Some (replicate m (idle_slot k Sealed) @ replicate r free_slot, c + 1 + of_nat (length hs))"
    unfolding upd by (rule Cons.IH) (use Cons.prems h in auto)
  finally show ?case by (simp add: split append.assoc)
qed

lemma free_sealed_idle:
  "free_sealed (replicate m (idle_slot k Sealed) @ replicate r free_slot) = replicate m (idle_slot k Free) @ replicate r free_slot"
  by (simp add: free_sealed_def idle_slot_def free_slot_def)

lemma admit_first_free_warm:
  "j + length hs = m \<Longrightarrow> hs = [j..<m] \<Longrightarrow>
   admit_first_free hs (map (active_slot (k + 1)) [0..<j] @ replicate (m - j) (idle_slot k Free) @ replicate r free_slot) =
     Some (map (active_slot (k + 1)) [0..<m] @ replicate r free_slot)"
proof (induction hs arbitrary: j)
  case Nil
  then show ?case by simp
next
  case (Cons h hs)
  from Cons.prems have h: "h = j" "hs = [Suc j..<m]" "j < m" using upt_Cons by blast+
  have split: "replicate (m - j) (idle_slot k Free) = idle_slot k Free # replicate (m - Suc j) (idle_slot k Free)"
    using h(3) by (metis Suc_diff_Suc replicate_Suc)
  let ?cs = "map (active_slot (k + 1)) [0..<j] @ idle_slot k Free # replicate (m - Suc j) (idle_slot k Free) @ replicate r free_slot"
  have idx: "index_of (\<lambda>c. sl_state c = Free) ?cs = Some j"
    using index_of_append_hit [of "map (active_slot (k + 1)) [0..<j]" "\<lambda>c. sl_state c = Free" "idle_slot k Free"
        "replicate (m - Suc j) (idle_slot k Free) @ replicate r free_slot"]
    by (simp add: idle_slot_def active_slot_def)
  have upd: "?cs[j := (?cs ! j)\<lparr>sl_attempt_id := sl_attempt_id (?cs ! j) + 1, sl_easy := j + 1, sl_state := Active\<rparr>] =
      map (active_slot (k + 1)) [0..<Suc j] @ replicate (m - Suc j) (idle_slot k Free) @ replicate r free_slot"
    by (simp add: list_update_append nth_append active_slot_def idle_slot_def)
  have "admit_first_free (h # hs) ?cs = admit_first_free hs
      (?cs[j := (?cs ! j)\<lparr>sl_attempt_id := sl_attempt_id (?cs ! j) + 1, sl_easy := j + 1, sl_state := Active\<rparr>])"
    using idx by (simp add: h(1))
  also have "\<dots> = Some (map (active_slot (k + 1)) [0..<m] @ replicate r free_slot)"
    unfolding upd by (rule Cons.IH) (use Cons.prems h in auto)
  finally show ?case by (simp add: split)
qed

lemma completion_reuse_warm: "completion_reuse (warm k m n) m = Some (of_nat m, warm (k + 1) m n)"
  using complete_handles_warm [of 0 "[0..<m]" m k "n - m" 0] admit_first_free_warm [of 0 "[0..<m]" m k "n - m"]
  by (simp add: completion_reuse_def warm_def free_sealed_idle)

lemma occupy_warm:
  "hs = [j..<m] \<Longrightarrow> j \<le> m \<Longrightarrow> m \<le> n \<Longrightarrow> occupy hs 3 m (warm 0 j n) = warm 0 m n"
proof (induction hs arbitrary: j)
  case Nil
  then have "j = m" by (metis le_neq_implies_less not_Cons_self2 upt_rec list.distinct(1))
  then show ?case by simp
next
  case (Cons h hs)
  then have h: "h = j" "hs = [Suc j..<m]" "j < m" using upt_Cons by blast+
  with Cons.prems have split: "replicate (n - j) free_slot = free_slot # replicate (n - Suc j) free_slot"
    by (metis Suc_diff_Suc less_le_trans replicate_Suc)
  have "(warm 0 j n)[j := (warm 0 j n ! j)\<lparr>sl_state := Active, sl_easy := j + 1, sl_kind := 1\<rparr>] = warm 0 (Suc j) n"
  proof -
    have "free_slot\<lparr>sl_state := Active, sl_easy := j + 1, sl_kind := 1\<rparr> = active_slot 0 j"
      by (simp add: active_slot_def free_slot_def)
    then show ?thesis by (simp add: warm_def split list_update_append nth_append)
  qed
  then have "occupy (h # hs) 3 m (warm 0 j n) = occupy hs 3 m (warm 0 (Suc j) n)"
    unfolding occupy.simps Let_def by (simp add: h(1))
  also have "\<dots> = warm 0 m n" by (rule Cons.IH) (use h Cons.prems in simp_all)
  finally show ?case .
qed

section \<open>Spreading\<close>

lemma spread_less: "j < m \<Longrightarrow> m \<le> n \<Longrightarrow> spread n m j < n"
  by (simp add: spread_def less_mult_imp_div_less)

lemma spread_Suc: "0 < m \<Longrightarrow> m \<le> n \<Longrightarrow> spread n m j < spread n m (Suc j)"
proof -
  assume "0 < m" "m \<le> n"
  then have "(j * n + m) div m \<le> (j * n + n) div m" by (intro div_le_mono) simp
  moreover have "(j * n + m) div m = j * n div m + 1" using \<open>0 < m\<close> by (simp add: div_add_self2)
  ultimately show ?thesis by (simp add: spread_def add.commute)
qed

lemma inj_spread: "m \<le> n \<Longrightarrow> inj_on (spread n m) {..<m}"
  by (cases "m = 0") (auto intro!: strict_mono_imp_inj_on simp: strict_mono_Suc_iff spread_Suc intro: inj_on_subset)

definition spread_table :: "nat set \<Rightarrow> slot list \<Rightarrow> bool" where
  "spread_table T cs \<longleftrightarrow> (\<forall>i < length cs. cs ! i = (if i \<in> T then active_slot 0 i else free_slot))"

lemma occupy_spread:
  "mode \<noteq> 3 \<Longrightarrow> spread_table T cs \<Longrightarrow> length cs = n \<Longrightarrow> \<forall>j \<in> set js. spread n m j < n \<Longrightarrow>
   spread_table (T \<union> spread n m ` set js) (occupy js mode m cs) \<and> length (occupy js mode m cs) = n"
proof (induction js arbitrary: T cs)
  case Nil
  then show ?case by simp
next
  case (Cons j js)
  let ?i = "spread n m j"
  have "spread_table (insert ?i T) (cs[?i := (cs ! ?i)\<lparr>sl_state := Active, sl_easy := ?i + 1, sl_kind := 1\<rparr>])"
    using Cons.prems by (auto simp: spread_table_def nth_list_update active_slot_def free_slot_def)
  from Cons.IH [OF _ this] Cons.prems show ?case by (simp add: Let_def)
qed

text \<open>What the scans see of such a table.\<close>

lemma state_scan_count: "state_scan cs = of_nat (length (filter (\<lambda>c. sl_state c = Active) cs))"
  by (induction cs) simp_all

lemma dispatch_scan_count: "\<forall>c \<in> set cs. sl_state c \<noteq> Dispatchable \<Longrightarrow> dispatch_scan cs = Some (state_scan cs)"
  by (induction cs) simp_all

lemma spread_table_scan:
  assumes "spread_table T cs" and "T \<subseteq> {..<length cs}"
  shows "state_scan cs = of_nat (card T)" and "\<forall>c \<in> set cs. sl_state c \<noteq> Dispatchable"
    and "sum_list (map sl_attempt_id cs) = 0"
proof -
  have "{i. i < length cs \<and> sl_state (cs ! i) = Active} = T"
    using assms by (auto simp: spread_table_def active_slot_def free_slot_def split: if_splits)
  then show "state_scan cs = of_nat (card T)" by (simp add: state_scan_count length_filter_conv_card)
  have each: "sl_state c \<noteq> Dispatchable \<and> sl_attempt_id c = 0" if "c \<in> set cs" for c
    using that assms(1) by (auto simp: spread_table_def in_set_conv_nth active_slot_def free_slot_def split: if_splits)
  then show "\<forall>c \<in> set cs. sl_state c \<noteq> Dispatchable" by blast
  from each have "map sl_attempt_id cs = map (\<lambda>_. 0) cs" by (simp cong: map_cong)
  then show "sum_list (map sl_attempt_id cs) = 0" by (simp only: sum_list_0)
qed

lemma lookups_all:
  assumes "\<forall>j \<in> set js. \<exists>c \<in> set cs. sl_easy c = spread (length cs) m j + 1"
  shows "lookups cs m js = of_nat (length js)"
  using assms
proof (induction js)
  case (Cons j js)
  then have "index_of (\<lambda>c. sl_easy c = spread (length cs) m j + 1) cs \<noteq> None" by (auto simp: index_of_None)
  with Cons show ?case by auto
qed simp

section \<open>Runs\<close>

text \<open>A table every run of the mode leaves alike, with what a run returns.\<close>

lemma run_many_fixed:
  assumes "run_mode mode m cs = Some (v, cs)"
  shows "run_many k mode m acc cs = Some (acc + of_nat k * v, cs)"
  by (induction k arbitrary: acc) (simp_all add: assms algebra_simps)

lemma run_many_warm:
  "run_many r 3 m acc (warm k m n) = Some (acc + of_nat r * of_nat m, warm (k + of_nat r) m n)"
  by (induction r arbitrary: acc k) (simp_all add: run_mode_def completion_reuse_warm algebra_simps)

text \<open>The readings of \<open>r\<close> repetitions from reading \<open>j\<close> succeed.\<close>

definition ticks :: "(nat \<Rightarrow> bool) \<Rightarrow> nat \<Rightarrow> nat \<Rightarrow> bool" where
  "ticks clock j r \<longleftrightarrow> (\<forall>k < 2 * r. clock (j + k))"

lemma ticks_simps [simp]:
  "ticks clock j 0" "ticks clock j (Suc r) \<longleftrightarrow> clock j \<and> clock (Suc j) \<and> ticks clock (Suc (Suc j)) r"
proof -
  have "(\<forall>k < Suc (Suc m). P k) \<longleftrightarrow> P 0 \<and> P (Suc 0) \<and> (\<forall>k < m. P (Suc (Suc k)))" for m and P :: "nat \<Rightarrow> bool"
    by (auto simp: All_less_Suc2)
  from this [of "2 * r" "\<lambda>k. clock (j + k)"]
  show "ticks clock j (Suc r) \<longleftrightarrow> clock j \<and> clock (Suc j) \<and> ticks clock (Suc (Suc j)) r"
    by (simp add: ticks_def)
qed (simp add: ticks_def)

lemma measure_fixed:
  assumes "run_mode mode m cs = Some (of_nat m, cs)"
  shows "measure_repeats clock j r its mode m acc cs =
    (if ticks clock j r then Some (acc + of_nat r * (of_nat its * of_nat m), cs) else None)"
  by (induction r arbitrary: acc j) (simp_all add: run_many_fixed [OF assms] algebra_simps)

lemma measure_warm:
  "measure_repeats clock j r its 3 m acc (warm k m n) =
     (if ticks clock j r then Some (acc + of_nat r * (of_nat its * of_nat m), warm (k + of_nat its * of_nat r) m n) else None)"
  by (induction r arbitrary: acc k j) (simp_all add: run_many_warm algebra_simps)

lemma warm_scan: "state_scan (warm k m n) = of_nat m" "sum_list (map sl_attempt_id (warm k m n)) = k * of_nat m"
  by (simp_all add: state_scan_count warm_def active_slot_def free_slot_def comp_def sum_list_triv sum_list_replicate mult.commute)

text \<open>
  C32. On a command line it accepts, with memory for the table and a clock that can be read, the
  program never fails an assertion: each of the walks finds every occupied slot in every run, the
  reuse of the slots leaves each attempt where it was with one generation more per run, and so the
  checksum and the generations are what the arguments say.  Without the memory, or when one of its
  two readings of the clock per repetition fails, it ends in that assertion.
\<close>

theorem slots_main_exact:
  assumes "1 \<le> n" and "n \<le> 1000" and "percent \<le> 100" and "mode < 4" and "0 < iterations" and "0 < repeats" and "repeats \<le> 20"
  shows "slots_main memory clock n percent mode iterations repeats = (let m = n * percent div 100 in
    if memory \<and> (\<forall>k < 2 * repeats. clock k)
    then Some (of_nat repeats * (of_nat iterations * of_nat m),
      if mode = 3 then (100 + of_nat iterations * of_nat repeats) * of_nat m else 0)
    else None)"
proof -
  let ?m = "n * percent div 100"
  have t: "ticks clock 0 repeats \<longleftrightarrow> (\<forall>k < 2 * repeats. clock k)" by (simp add: ticks_def)
  have mn: "?m \<le> n" using assms(3) by (metis div_le_mono mult_le_mono2 nonzero_mult_div_cancel_right zero_neq_numeral)
  show ?thesis
  proof (cases "mode = 3")
    case True
    have "occupy [0..<?m] 3 ?m (replicate n free_slot) = warm 0 ?m n"
      using occupy_warm [of "[0..<?m]" 0 ?m n] mn by (simp add: warm_def)
    then show ?thesis
      using assms True
      by (simp add: slots_main_def Let_def run_many_warm measure_warm warm_scan t algebra_simps)
  next
    case False
    let ?cs = "occupy [0..<?m] mode ?m (replicate n free_slot)" and ?T = "spread n ?m ` {..<?m}"
    have "spread_table {} (replicate n free_slot)" by (simp add: spread_table_def)
    from occupy_spread [OF False this, of n "[0..<?m]" ?m] have tab: "spread_table ?T ?cs" "length ?cs = n"
      using mn by (simp_all add: spread_less atLeast0LessThan)
    have T: "?T \<subseteq> {..<length ?cs}" "card ?T = ?m"
      using tab(2) mn by (auto simp: spread_less card_image inj_spread)
    note scan = spread_table_scan [OF tab(1) T(1), unfolded T(2)]
    have found: "\<exists>c \<in> set ?cs. sl_easy c = spread (length ?cs) ?m j + 1" if "j < ?m" for j
    proof -
      have i: "spread n ?m j < length ?cs" using that tab(2) mn by (simp add: spread_less)
      with tab(1) that have "?cs ! spread n ?m j = active_slot 0 (spread n ?m j)" by (auto simp: spread_table_def)
      with nth_mem [OF i] tab(2) show ?thesis by (intro bexI [of _ "?cs ! spread n ?m j"]) (simp_all add: active_slot_def)
    qed
    have "lookups ?cs ?m [0..<?m] = of_nat ?m" using lookups_all [of "[0..<?m]" ?cs ?m] found by simp
    then have "run_mode mode ?m ?cs = Some (of_nat ?m, ?cs)"
      using assms(4) False scan dispatch_scan_count [OF scan(2)] by (auto simp: run_mode_def completion_lookup_def)
    then show ?thesis
      using assms False scan by (simp add: slots_main_def Let_def run_many_fixed measure_fixed t)
  qed
qed

lemma slots_main_exact_witness:
  "slots_main True (\<lambda>k. k < 2) 3 70 3 2 1 = Some (4, 204) \<and> slots_main True (\<lambda>k. k < 1) 3 70 3 2 1 = None"
proof -
  have "\<exists>k<2. \<not> k < (1 :: nat)" by (rule exI [of _ 1]) simp
  then show ?thesis
    using slots_main_exact [of 3 70 3 2 1 True "\<lambda>k. k < 2"] slots_main_exact [of 3 70 3 2 1 True "\<lambda>k. k < 1"] by auto
qed

end
