(* ===== verification/Custody_Protocol.thy ===== *)
theory Custody_Protocol
  imports Prelude
begin

text \<open>
  The custody protocol fixture \<open>custody.c\<close> of the execution-control experiments: one slot that owns
  a child, a durable store of attempts, resolutions and completions, and the scenarios that must
  pass, and must fail when the fixture is broken on purpose.  The three tables are lists keyed by
  the attempt, with what SQLite documents of the statements used: a duplicate primary key is an error,
  \<open>ON CONFLICT DO NOTHING\<close> ignores it, what an open transaction wrote is durable from its COMMIT on and
  lost with a ROLLBACK or with its connection.  The system calls of the fixture are taken to
  succeed; the child is what it was given when it was forked, and the crashed owner is a process of
  its own that leaves its bytes in the witness pipe, its durable rows and its exit status.
\<close>

section \<open>The store\<close>

record store =
  st_attempts :: "(int \<times> string) list"
  st_resolutions :: "(int \<times> string) list"
  st_completions :: "int list"

definition empty_store :: store where
  "empty_store = \<lparr>st_attempts = [], st_resolutions = [], st_completions = []\<rparr>"

datatype failure = Assertion string | Sqlite

definition insert_attempt :: "int \<Rightarrow> string \<Rightarrow> store \<Rightarrow> failure + store" where
  "insert_attempt ident kind st =
     (if ident \<in> fst ` set (st_attempts st) then Inl Sqlite
      else Inr (st\<lparr>st_attempts := st_attempts st @ [(ident, kind)]\<rparr>))"

definition insert_resolution :: "int \<Rightarrow> string \<Rightarrow> store \<Rightarrow> failure + store" where
  "insert_resolution attempt result st =
     (if attempt \<in> fst ` set (st_resolutions st) \<or> attempt \<notin> fst ` set (st_attempts st) then Inl Sqlite
      else Inr (st\<lparr>st_resolutions := st_resolutions st @ [(attempt, result)]\<rparr>))"

definition and_then :: "failure + 'a \<Rightarrow> ('a \<Rightarrow> failure + 'b) \<Rightarrow> failure + 'b" where
  "and_then x k = (case x of Inl f \<Rightarrow> Inl f | Inr y \<Rightarrow> k y)"

text \<open>A connection: what is durable, and what its open transaction sees.\<close>

record connection =
  cn_durable :: store
  cn_open :: "store option"

datatype statement = Begin | Attempt int string | Resolution int string | Commit | Rollback

definition execute :: "statement \<Rightarrow> connection \<Rightarrow> failure + connection" where
  "execute q c = (case (q, cn_open c) of
      (Begin, None) \<Rightarrow> Inr (c\<lparr>cn_open := Some (cn_durable c)\<rparr>)
    | (Attempt ident kind, Some st) \<Rightarrow> and_then (insert_attempt ident kind st) (\<lambda>st. Inr (c\<lparr>cn_open := Some st\<rparr>))
    | (Resolution attempt result, Some st) \<Rightarrow>
        and_then (insert_resolution attempt result st) (\<lambda>st. Inr (c\<lparr>cn_open := Some st\<rparr>))
    | (Commit, Some st) \<Rightarrow> Inr \<lparr>cn_durable = st, cn_open = None\<rparr>
    | (Rollback, Some st) \<Rightarrow> Inr (c\<lparr>cn_open := None\<rparr>)
    | _ \<Rightarrow> Inl Sqlite)"

fun execute_all :: "statement list \<Rightarrow> connection \<Rightarrow> failure + connection" where
  "execute_all [] c = Inr c"
| "execute_all (q # qs) c = and_then (execute q c) (execute_all qs)"

text \<open>The statements of one call of \<open>sql\<close>, and what another connection then reads.\<close>

definition sql :: "statement list \<Rightarrow> store \<Rightarrow> failure + store" where
  "sql qs st = and_then (execute_all qs \<lparr>cn_durable = st, cn_open = None\<rparr>) (\<lambda>c. Inr (cn_durable c))"

definition add_attempt :: "int \<Rightarrow> string \<Rightarrow> store \<Rightarrow> failure + store" where
  "add_attempt ident kind = sql [Begin, Attempt ident kind, Commit]"

definition add_resolution :: "int \<Rightarrow> string \<Rightarrow> store \<Rightarrow> failure + store" where
  "add_resolution attempt result = sql [Begin, Resolution attempt result, Commit]"

text \<open>The number of rows changed; the attempt must exist when foreign keys are checked.\<close>

definition complete_unresolved :: "int \<Rightarrow> store \<Rightarrow> failure + (int \<times> store)" where
  "complete_unresolved attempt st =
     (if attempt \<in> fst ` set (st_resolutions st) \<or> attempt \<in> set (st_completions st) then Inr (0, st)
      else if attempt \<notin> fst ` set (st_attempts st) then Inl Sqlite
      else Inr (1, st\<lparr>st_completions := st_completions st @ [attempt]\<rparr>))"

section \<open>The slot\<close>

record protocol_slot =
  ps_occupied :: bool
  ps_permit :: bool
  ps_live :: bool
  ps_attempt :: int
  ps_generation :: u32

type_synonym event = "int \<times> u32"

definition zero_slot :: protocol_slot where
  "zero_slot = \<lparr>ps_occupied = False, ps_permit = False, ps_live = False, ps_attempt = 0, ps_generation = 0\<rparr>"

definition reserve :: "int \<Rightarrow> protocol_slot \<Rightarrow> bool \<times> protocol_slot" where
  "reserve attempt s =
     (if ps_occupied s then (False, s)
      else (True, s\<lparr>ps_occupied := True, ps_attempt := attempt, ps_generation := ps_generation s + 1, ps_permit := False\<rparr>))"

definition require_that :: "bool \<Rightarrow> string \<Rightarrow> failure + 'a \<Rightarrow> failure + 'a" where
  "require_that b message k = (if b then k else Inl (Assertion message))"

definition release :: "protocol_slot \<Rightarrow> failure + protocol_slot" where
  "release s = require_that (\<not> ps_live s) ''slot release requires local child/pipe cleanup''
     (Inr (s\<lparr>ps_occupied := False, ps_permit := False\<rparr>))"

text \<open>The child keeps the attempt and the generation of the slot it was forked with.\<close>

definition launch :: "protocol_slot \<Rightarrow> failure + (protocol_slot \<times> event)" where
  "launch s = require_that (ps_occupied s \<and> ps_permit s \<and> \<not> ps_live s) ''dispatch requires live one-shot permit''
     (Inr (s\<lparr>ps_permit := False, ps_live := True\<rparr>, (ps_attempt s, ps_generation s)))"

definition cleanup :: "protocol_slot \<Rightarrow> protocol_slot" where
  "cleanup s = s\<lparr>ps_live := False\<rparr>"

definition settle :: "bool \<Rightarrow> protocol_slot \<Rightarrow> event \<Rightarrow> store \<Rightarrow> failure + (int \<times> store)" where
  "settle broken s e st =
     (if \<not> ps_occupied s then Inr (0, st)
      else if \<not> broken \<and> (ps_attempt s \<noteq> fst e \<or> ps_generation s \<noteq> snd e) then Inr (0, st)
      else complete_unresolved (ps_attempt s) st)"

section \<open>The scenarios\<close>

text \<open>A reservation that must succeed.\<close>

definition reserved :: "int \<Rightarrow> string \<Rightarrow> protocol_slot \<Rightarrow> (protocol_slot \<Rightarrow> failure + 'a) \<Rightarrow> failure + 'a" where
  "reserved attempt message s k = (case reserve attempt s of (r, s) \<Rightarrow> require_that r message (k s))"

definition rollback_case :: "store \<Rightarrow> failure + store" where
  "rollback_case st =
     reserved 1 ''reserve first slot'' zero_slot (\<lambda>s.
     and_then (sql [Begin, Attempt 1 ''bash'', Rollback] st) (\<lambda>st.
     and_then (release s) (\<lambda>s.
     require_that (st_attempts st = []) ''rollback leaves no admitted Attempt'' (
     require_that (\<not> ps_permit s \<and> \<not> ps_occupied s) ''rollback restores capacity without dispatch authority'' (
     reserved 2 ''capacity reusable after rollback'' s (\<lambda>s.
     and_then (release s) (\<lambda>_. Inr st)))))))"

text \<open>
  The owner that crashes: it reserves, commits its attempt, and perhaps uses its permit, which it
  witnesses in the pipe.  The result is what is left of it: the pipe and the durable rows.
\<close>

definition crashing_owner :: "bool \<Rightarrow> store \<Rightarrow> failure + (string \<times> store)" where
  "crashing_owner dispatched st =
     reserved 1 ''reserve crash slot'' zero_slot (\<lambda>s.
     and_then (add_attempt 1 ''bash'' st) (\<lambda>st.
     let s = s\<lparr>ps_permit := True\<rparr> in
     if dispatched then let s = s\<lparr>ps_permit := False\<rparr> in Inr (''X'', st) else Inr ([], st)))"

text \<open>The recovery: the owner must have exited with 0, and the pipe must show the crash point.\<close>

definition crash_case :: "bool \<Rightarrow> bool \<Rightarrow> store \<Rightarrow> failure + store" where
  "crash_case broken dispatched st =
     (case crashing_owner dispatched st of
        Inl _ \<Rightarrow> Inl (Assertion ''child ended successfully'')
      | Inr (marker, st) \<Rightarrow>
          let effects = length (take 1 marker) in
          require_that (effects = of_bool dispatched) ''external launch witness matches crash point'' (
          require_that (length (st_attempts st) = 1 \<and> st_completions st = []) ''committed unresolved Attempt survives reopen'' (
          and_then (if broken \<and> dispatched then add_attempt 2 ''bash'' st else Inr st) (\<lambda>st.
          let s = (if broken \<and> \<not> dispatched then (snd (reserve 1 zero_slot))\<lparr>ps_permit := True\<rparr> else zero_slot) in
          require_that (\<not> ps_permit s) ''recovery must not fabricate a Dispatch Permit'' (
          require_that (length (st_attempts st) = 1) ''uncertain Bash must not get a blind replacement Attempt'' (Inr st))))))"

definition cancellation_case :: "bool \<Rightarrow> store \<Rightarrow> failure + store" where
  "cancellation_case broken st =
     reserved 1 ''reserve cancellation slot'' zero_slot (\<lambda>s.
     and_then (add_attempt 1 ''model'' st) (\<lambda>st.
     and_then (launch (s\<lparr>ps_permit := True\<rparr>)) (\<lambda>(s, e).
     and_then (add_resolution 1 ''interrupted'' st) (\<lambda>st.
     require_that (st_completions st = []) ''interruption invents no Attempt Completion'' (
     and_then (settle broken s e st) (\<lambda>(k, st).
     require_that (k = 0) ''late output cannot override interruption'' (
     let s = (if broken then s\<lparr>ps_occupied := False\<rparr> else s) in
     case reserve 2 s of (early, s) \<Rightarrow>
     let s = cleanup s in
     require_that (\<not> early) ''cannot reserve slot while old executor retains pipes/resources'' (
     and_then (release s) (\<lambda>s.
     reserved 2 ''slot reusable after local cleanup'' s (\<lambda>s.
     and_then (release s) (\<lambda>_. Inr st)))))))))))"

definition stale_case :: "bool \<Rightarrow> store \<Rightarrow> failure + store" where
  "stale_case broken st =
     reserved 1 ''reserve old slot'' zero_slot (\<lambda>s.
     and_then (add_attempt 1 ''model'' st) (\<lambda>st.
     and_then (launch (s\<lparr>ps_permit := True\<rparr>)) (\<lambda>(s, stale).
     and_then (release (cleanup s)) (\<lambda>s.
     reserved 2 ''reuse slot for next Attempt'' s (\<lambda>s.
     and_then (add_attempt 2 ''bash'' st) (\<lambda>st.
     and_then (settle broken s stale st) (\<lambda>(accepted, st).
     require_that (accepted = 0 \<and> st_completions st = []) ''delayed old callback must not settle newer Attempt'' (
     let current = (ps_attempt s, ps_generation s) in
     and_then (settle broken s current st) (\<lambda>(k, st).
     require_that (k = 1) ''exact current callback settles once'' (
     and_then (settle broken s current st) (\<lambda>(k, st).
     require_that (k = 0 \<and> length (st_completions st) = 1) ''duplicate callback cannot add Completion'' (
     and_then (release s) (\<lambda>_. Inr st)))))))))))))"

definition run_scenario :: "string \<Rightarrow> bool \<Rightarrow> store \<Rightarrow> failure + store" where
  "run_scenario name broken st =
     (if name = ''rollback'' then rollback_case st
      else if name = ''commit-before-dispatch'' then crash_case broken False st
      else if name = ''uncertain-external'' then crash_case broken True st
      else if name = ''cancel-before-cleanup'' then cancellation_case broken st
      else if name = ''stale-callback'' then stale_case broken st
      else Inl (Assertion ''unknown scenario''))"

text \<open>0 and the store, or the status with which \<open>require\<close> or \<open>sql\<close> ends the program.\<close>

definition custody_main :: "string list \<Rightarrow> bool \<Rightarrow> store \<Rightarrow> nat" where
  "custody_main argv broken st =
     (if length argv \<noteq> 4 then 2
      else (case run_scenario (argv ! 1) broken st of
          Inl (Assertion _) \<Rightarrow> 2
        | Inl Sqlite \<Rightarrow> 3
        | Inr _ \<Rightarrow> 0))"

section \<open>The scenarios decide\<close>

text \<open>
  An evaluation on a fresh database: every scenario passes; broken on purpose, every scenario but the
  rollback, which the flag does not reach, ends with the assertion it is there for.
\<close>

lemmas scenario_simps = custody_main_def run_scenario_def rollback_case_def crash_case_def crashing_owner_def
  cancellation_case_def stale_case_def reserved_def reserve_def release_def launch_def cleanup_def settle_def
  complete_unresolved_def add_attempt_def add_resolution_def sql_def execute_def insert_attempt_def insert_resolution_def
  and_then_def require_that_def zero_slot_def empty_store_def Let_def

lemma scenarios_pass:
  "custody_main [a, ''rollback'', d, z] b empty_store = 0"
  "custody_main [a, ''commit-before-dispatch'', d, z] False empty_store = 0"
  "custody_main [a, ''uncertain-external'', d, z] False empty_store = 0"
  "custody_main [a, ''cancel-before-cleanup'', d, z] False empty_store = 0"
  "custody_main [a, ''stale-callback'', d, z] False empty_store = 0"
  by (simp_all add: scenario_simps)

lemma scenarios_catch:
  "run_scenario ''commit-before-dispatch'' True empty_store =
     Inl (Assertion ''recovery must not fabricate a Dispatch Permit'')"
  "run_scenario ''uncertain-external'' True empty_store =
     Inl (Assertion ''uncertain Bash must not get a blind replacement Attempt'')"
  "run_scenario ''cancel-before-cleanup'' True empty_store =
     Inl (Assertion ''cannot reserve slot while old executor retains pipes/resources'')"
  "run_scenario ''stale-callback'' True empty_store =
     Inl (Assertion ''delayed old callback must not settle newer Attempt'')"
  by (simp_all add: scenario_simps)

section \<open>Stale events\<close>

text \<open>What happens to a slot: reservations and releases, launches and cleanups, as they succeed.\<close>

datatype slot_op = Op_reserve int | Op_permit | Op_launch | Op_cleanup | Op_release

fun slot_step :: "slot_op \<Rightarrow> protocol_slot \<Rightarrow> protocol_slot" where
  "slot_step (Op_reserve a) s = snd (reserve a s)"
| "slot_step Op_permit s = s\<lparr>ps_permit := True\<rparr>"
| "slot_step Op_launch s = (case launch s of Inl _ \<Rightarrow> s | Inr (s, _) \<Rightarrow> s)"
| "slot_step Op_cleanup s = cleanup s"
| "slot_step Op_release s = (case release s of Inl _ \<Rightarrow> s | Inr s \<Rightarrow> s)"

definition slot_steps :: "slot_op list \<Rightarrow> protocol_slot \<Rightarrow> protocol_slot" where
  "slot_steps ops s = fold slot_step ops s"

text \<open>The reservations that succeed.\<close>

fun reservations :: "slot_op list \<Rightarrow> protocol_slot \<Rightarrow> nat" where
  "reservations [] s = 0"
| "reservations (p # ops) s = (case p of Op_reserve a \<Rightarrow> of_bool (\<not> ps_occupied s) | _ \<Rightarrow> 0) + reservations ops (slot_step p s)"

lemma generation_step:
  "ps_generation (slot_step p s) = ps_generation s + of_nat (case p of Op_reserve a \<Rightarrow> of_bool (\<not> ps_occupied s) | _ \<Rightarrow> 0)"
  by (cases p) (auto simp: reserve_def launch_def release_def cleanup_def require_that_def)

lemma generation_counts: "ps_generation (slot_steps ops s) = ps_generation s + of_nat (reservations ops s)"
proof (induction ops arbitrary: s)
  case (Cons p ops)
  then show ?case using generation_step [of p s] by (simp add: slot_steps_def)
qed (simp add: slot_steps_def)

text \<open>
  C34. An event of a child forked before the slot was reserved again settles nothing: whatever the
  slot did since, as long as it was reserved fewer than \<open>2 ^ 32\<close> times since the launch, the
  generation tells the old child from the new.
\<close>

theorem stale_event_settles_nothing:
  assumes "launch s = Inr (s', e)" and "0 < reservations ops s'" and "reservations ops s' < 2 ^ 32"
  shows "settle False (slot_steps ops s') e st = Inr (0, st)"
proof -
  have "snd e = ps_generation s'"
    using assms(1) by (auto simp: launch_def require_that_def split: if_splits)
  moreover have "(of_nat (reservations ops s') :: u32) \<noteq> 0"
    using assms(2,3) by (simp add: word_of_nat_eq_0_iff) (metis dvd_imp_le leD)
  ultimately have "ps_generation (slot_steps ops s') \<noteq> snd e"
    by (simp add: generation_counts)
  then show ?thesis by (simp add: settle_def)
qed

lemma stale_event_settles_nothing_witness:
  "settle False (slot_steps [Op_cleanup, Op_release, Op_reserve 1]
      \<lparr>ps_occupied = True, ps_permit = False, ps_live = True, ps_attempt = 1, ps_generation = 1\<rparr>) (1, 1) empty_store
    = Inr (0, empty_store)"
  by (rule stale_event_settles_nothing [where s = "\<lparr>ps_occupied = True, ps_permit = True, ps_live = False, ps_attempt = 1, ps_generation = 1\<rparr>"])
    (simp_all add: launch_def require_that_def cleanup_def release_def)

text \<open>The generation is what saves it: with \<open>2 ^ 32\<close> reservations in between the event would count.\<close>

lemma generation_wraps: "reservations ops s = 2 ^ 32 \<Longrightarrow> ps_generation (slot_steps ops s) = ps_generation s"
  by (simp add: generation_counts)

end
