(* ===== verification/Script_Loop.thy ===== *)
theory Script_Loop
  imports Os_Script
begin

text \<open>
  Control flow of the experiments: an assertion, a loop over a list with a state, and a loop that
  goes on until it gives a result.  An assertion that fails ends the program, so the run is not
  completed, \<open>None\<close>.  Each turn of a loop makes a call at least; a turn that made none would be
  repeated for ever, and is \<open>None\<close> as well.
\<close>

section \<open>Assertions\<close>

definition assert :: "bool \<Rightarrow> world \<Rightarrow> (unit \<times> world) option" where
  "assert b w = (if b then Some ((), w) else None)"

lemma runs_bind_assert: "(b \<Longrightarrow> runs (h ()) \<Phi>) \<Longrightarrow> runs (\<lambda>w. Option.bind (assert b w) (case_prod h)) \<Phi>"
  by (cases b) (simp_all add: assert_def runs_none)

lemma runs_assert: "(b \<Longrightarrow> \<Phi> () []) \<Longrightarrow> runs (assert b) \<Phi>"
  by (rule runsI) (auto simp: assert_def split: if_splits)

lemma assert_Some [simp]: "assert b w = Some (u, w') \<longleftrightarrow> b \<and> w' = w"
  by (auto simp: assert_def)

section \<open>A loop over a list\<close>

fun each :: "('a \<Rightarrow> 's \<Rightarrow> world \<Rightarrow> ('s \<times> world) option) \<Rightarrow> 'a list \<Rightarrow> 's \<Rightarrow> world \<Rightarrow> ('s \<times> world) option" where
  "each f [] s w = Some (s, w)"
| "each f (x # xs) s w = do { (s, w) \<leftarrow> f x s w; each f xs s w }"

text \<open>\<open>I xs s es\<close>: what holds of the state \<open>s\<close> and the calls \<open>es\<close> when \<open>xs\<close> is still to be done.\<close>

lemma each_invariant:
  assumes "\<And>x ys s es. I (x # ys) s es \<Longrightarrow> runs (f x s) (\<lambda>s' fs. I ys s' (es @ fs))"
  shows "I xs s es \<Longrightarrow> runs (each f xs s) (\<lambda>s' fs. I [] s' (es @ fs))"
proof (induction xs arbitrary: s es)
  case Nil
  then show ?case by (auto intro: runs_ret)
next
  case (Cons x xs)
  have "runs (\<lambda>w. Option.bind (f x s w) (case_prod (each f xs))) (\<lambda>s' fs. I [] s' (es @ fs))"
    by (rule runs_bind [OF assms [OF Cons.prems]]) (use Cons.IH in fastforce)
  then show ?case by (simp add: case_prod_unfold)
qed

lemma runs_each:
  assumes "I xs s []"
    and "\<And>x ys s es. I (x # ys) s es \<Longrightarrow> runs (f x s) (\<lambda>s' fs. I ys s' (es @ fs))"
  shows "runs (each f xs s) (I [])"
  using each_invariant [where I = I, OF assms(2,1)] by simp

section \<open>A loop that ends with a result\<close>

function script_loop :: "('s \<Rightarrow> world \<Rightarrow> (('s + 'r) \<times> world) option) \<Rightarrow> 's \<Rightarrow> world \<Rightarrow> ('r \<times> world) option" where
  "script_loop f s w =
     (case f s w of
        None \<Rightarrow> None
      | Some (Inr r, w') \<Rightarrow> Some (r, w')
      | Some (Inl s', w') \<Rightarrow> if length (w_script w') < length (w_script w) then script_loop f s' w' else None)"
  by pat_completeness auto
termination by (relation "measure (\<lambda>(_, _, w). length (w_script w))") auto

declare script_loop.simps [simp del]

lemma runs_script_loop:
  assumes "\<And>s. I s \<Longrightarrow> runs (f s) (\<lambda>x es. case x of Inl s' \<Rightarrow> I s' \<and> P s s' es | Inr r \<Rightarrow> Q s r es)"
    and "\<And>s s' r es fs. P s s' es \<Longrightarrow> Q s' r fs \<Longrightarrow> Q s r (es @ fs)"
  shows "I s \<Longrightarrow> runs (script_loop f s) (Q s)"
proof -
  have "script_loop f s w = Some (r, w') \<Longrightarrow> I s \<Longrightarrow> \<exists>es. emits w w' es \<and> Q s r es" for w w' r s
  proof (induction "length (w_script w)" arbitrary: s w rule: less_induct)
    case less
    from less.prems(1) obtain x w1 where x: "f s w = Some (x, w1)"
      by (subst (asm) script_loop.simps) (auto split: option.splits)
    from runsD [OF assms(1) [OF less.prems(2)] x] obtain es where
      es: "emits w w1 es" "case x of Inl s' \<Rightarrow> I s' \<and> P s s' es | Inr r \<Rightarrow> Q s r es" by blast
    show ?case
    proof (cases x)
      case (Inr r')
      with less.prems(1) x have "r' = r" "w1 = w'" by (simp_all add: script_loop.simps [of f s w])
      with es Inr show ?thesis by auto
    next
      case (Inl s')
      with less.prems(1) x have shorter: "length (w_script w1) < length (w_script w)"
        and rest: "script_loop f s' w1 = Some (r, w')"
        by (simp_all add: script_loop.simps [of f s w] split: if_splits)
      from less.hyps [OF shorter rest] es(2) Inl obtain fs where "emits w1 w' fs" "Q s' r fs" by auto
      with es Inl assms(2) emits_trans [OF es(1)] show ?thesis by fastforce
    qed
  qed
  then show "I s \<Longrightarrow> runs (script_loop f s) (Q s)" by (auto intro!: runsI)
qed

end
