(* ===== verification/Reactor_Spool.thy ===== *)
theory Reactor_Spool
  imports Custody_Plan Script_Loop
begin

text \<open>
  The reactor capacity experiment \<open>reactor_spool.c\<close>: many transfers on one thread, each written to
  an unlinked spool, with a histogram of the write times.  libcurl is a parameter: its calls are
  calls of the script, and \<open>deliveries\<close> gives the data it hands to the callback in each call of
  \<open>curl_multi_perform\<close>.  Products of doubles are parameters too: \<open>scale n\<close> is the integer part of
  a quantile times \<open>n\<close>, \<open>due\<close> says whether a time has reached the cancellation.
\<close>

section \<open>Transfers and counters\<close>

record transfer =
  tr_easy :: int
  tr_spool_fd :: int
  tr_bytes :: u64
  tr_callbacks :: u64
  tr_max_callback_bytes :: u64
  tr_first_callback_ns :: u64
  tr_last_callback_ns :: u64
  tr_max_callback_gap_ns :: u64
  tr_completed_ns :: u64
  tr_upload_remaining :: u64
  tr_result :: int
  tr_done :: bool
  tr_in_multi :: bool
  tr_cancelled :: bool

record counters =
  ct_write_hist :: "u64 list"
  ct_write_calls :: u64
  ct_write_ns_total :: u64
  ct_write_ns_max :: u64
  ct_perform_calls :: u64
  ct_perform_ns_total :: u64
  ct_perform_ns_max :: u64
  ct_poll_calls :: u64
  ct_poll_ns_total :: u64
  ct_max_socket_backlog :: u64
  ct_cancellation_calls :: u64
  ct_cancellation_ns_total :: u64
  ct_cancellation_ns_max :: u64

section \<open>The histogram\<close>

function bucket_from :: "nat \<Rightarrow> u64 \<Rightarrow> nat" where
  "bucket_from b v = (if v > 1 \<and> b < 63 then bucket_from (b + 1) (drop_bit 1 v) else b)"
  by pat_completeness auto
termination by (relation "measure (\<lambda>(b, _). 63 - b)") auto

declare bucket_from.simps [simp del]

definition log2_bucket :: "u64 \<Rightarrow> nat" where
  "log2_bucket v = bucket_from 0 v"

text \<open>The first bucket at which at least \<open>target\<close> values are seen.\<close>

fun hist_scan :: "nat \<Rightarrow> u64 \<Rightarrow> u64 \<Rightarrow> u64 list \<Rightarrow> u64" where
  "hist_scan i target seen [] = 2 ^ 63"
| "hist_scan i target seen (h # hs) =
     (let seen = seen + h in if seen \<ge> target then 2 ^ i else hist_scan (i + 1) target seen hs)"

definition hist_quantile :: "(u64 \<Rightarrow> u64) \<Rightarrow> counters \<Rightarrow> u64" where
  "hist_quantile scale ct =
     (if ct_write_calls ct = 0 then 0
      else hist_scan 0 (scale (ct_write_calls ct - 1) + 1) 0 (ct_write_hist ct))"

definition count_write :: "u64 \<Rightarrow> counters \<Rightarrow> counters" where
  "count_write elapsed ct = ct\<lparr>ct_write_calls := ct_write_calls ct + 1,
     ct_write_ns_total := ct_write_ns_total ct + elapsed,
     ct_write_ns_max := (if elapsed > ct_write_ns_max ct then elapsed else ct_write_ns_max ct),
     ct_write_hist := (ct_write_hist ct)[log2_bucket elapsed := ct_write_hist ct ! log2_bucket elapsed + 1]\<rparr>"

section \<open>Quantiles of an array\<close>

definition compare_u64 :: "u64 \<Rightarrow> u64 \<Rightarrow> int" where
  "compare_u64 a b = of_bool (a > b) - of_bool (a < b)"

text \<open>Insertion by the comparison; \<open>qsort\<close> leaves the array sorted by it.\<close>

fun insert_by :: "(u64 \<Rightarrow> u64 \<Rightarrow> int) \<Rightarrow> u64 \<Rightarrow> u64 list \<Rightarrow> u64 list" where
  "insert_by cmp x [] = [x]"
| "insert_by cmp x (y # ys) = (if cmp x y \<le> 0 then x # y # ys else y # insert_by cmp x ys)"

definition qsort :: "(u64 \<Rightarrow> u64 \<Rightarrow> int) \<Rightarrow> u64 list \<Rightarrow> u64 list" where
  "qsort cmp xs = foldr (insert_by cmp) xs []"

definition array_quantile :: "(nat \<Rightarrow> nat) \<Rightarrow> u64 list \<Rightarrow> u64 \<times> u64 list" where
  "array_quantile scale values = (let vs = qsort compare_u64 values in (vs ! scale (length values - 1), vs))"

section \<open>The callbacks\<close>

definition spool_write :: "int \<Rightarrow> byte list \<Rightarrow> world \<Rightarrow> (int \<times> world) option" where
  "spool_write = reporting progress (\<lambda>x. if x = None then 0 else -1)"

interpretation sw: exact_writer spool_write "\<lambda>x. x = 0"
  unfolding spool_write_def by (rule exact_reporting) simp_all

definition note_callback :: "u64 \<Rightarrow> u64 \<Rightarrow> transfer \<Rightarrow> transfer" where
  "note_callback at len t =
     (let gap = at - tr_last_callback_ns t in
      t\<lparr>tr_first_callback_ns := (if tr_first_callback_ns t = 0 then at else tr_first_callback_ns t),
        tr_max_callback_gap_ns := (if tr_last_callback_ns t \<noteq> 0 \<and> gap > tr_max_callback_gap_ns t then gap
          else tr_max_callback_gap_ns t),
        tr_last_callback_ns := at,
        tr_bytes := tr_bytes t + len,
        tr_callbacks := tr_callbacks t + 1,
        tr_max_callback_bytes := (if len > tr_max_callback_bytes t then len else tr_max_callback_bytes t)\<rparr>)"

definition spool_cb :: "byte list \<Rightarrow> counters \<times> transfer \<Rightarrow> world \<Rightarrow> ((nat \<times> counters \<times> transfer) \<times> world) option" where
  "spool_cb bytes s w = (case s of (ct, t) \<Rightarrow> do {
     (started, w) \<leftarrow> now_ns w;
     (e, w) \<leftarrow> spool_write (tr_spool_fd t) bytes w;
     if e \<noteq> 0 then Some ((0, ct, t), w)
     else do {
       (finished, w) \<leftarrow> now_ns w;
       (at, w) \<leftarrow> now_ns w;
       Some ((length bytes, count_write (finished - started) ct, note_callback at (of_nat (length bytes)) t), w)
     }
   })"

text \<open>The bytes given to the upload and the transfer after it.\<close>

definition read_cb :: "u64 \<Rightarrow> transfer \<Rightarrow> byte list \<times> transfer" where
  "read_cb capacity t =
     (let len = (if tr_upload_remaining t < capacity then tr_upload_remaining t else capacity)
      in (replicate (unat len) 120, t\<lparr>tr_upload_remaining := tr_upload_remaining t - len\<rparr>))"

section \<open>A transfer\<close>

definition open_spool :: "string \<Rightarrow> world \<Rightarrow> (int \<times> world) option" where
  "open_spool directory w =
     (let path = directory @ ''/rui-spool.XXXXXX'' in
      if length path \<ge> 1024 then Some (-1, w)
      else do {
        (f, w) \<leftarrow> sys (Fd (Mkstemp path)) w;
        if r_ret f < 0 then Some (-1, w)
        else do {
          (u, w) \<leftarrow> sys (Io (Unlink path)) w;
          if r_ret u \<noteq> 0 then do { (_, w) \<leftarrow> sys (Fd (Close (r_ret f))) w; Some (-1, w) }
          else Some (r_ret f, w)
        }
      })"

definition transfer_options :: "string list" where
  "transfer_options = [''URL'', ''CAINFO'', ''HTTP_VERSION'', ''WRITEFUNCTION'', ''WRITEDATA'', ''NOSIGNAL'', ''NOPROXY'',
     ''FRESH_CONNECT'', ''FORBID_REUSE'', ''ACCEPT_ENCODING'', ''BUFFERSIZE'', ''POST'', ''POSTFIELDSIZE_LARGE'',
     ''READFUNCTION'', ''READDATA'', ''UPLOAD_BUFFERSIZE'', ''TIMEOUT'']"

text \<open>The results of the options are not looked at.\<close>

fun ask_all :: "string list \<Rightarrow> world \<Rightarrow> (unit \<times> world) option" where
  "ask_all [] w = Some ((), w)"
| "ask_all (x # xs) w = do { (_, w) \<leftarrow> sys (Env (Curl x)) w; ask_all xs w }"

definition blank_transfer :: transfer where
  "blank_transfer = \<lparr>tr_easy = 0, tr_spool_fd = -1, tr_bytes = 0, tr_callbacks = 0, tr_max_callback_bytes = 0,
     tr_first_callback_ns = 0, tr_last_callback_ns = 0, tr_max_callback_gap_ns = 0, tr_completed_ns = 0,
     tr_upload_remaining = 0, tr_result = 0, tr_done = False, tr_in_multi = False, tr_cancelled = False\<rparr>"

definition configure :: "string \<Rightarrow> transfer \<Rightarrow> world \<Rightarrow> ((int \<times> transfer) \<times> world) option" where
  "configure directory t w = do {
     (f, w) \<leftarrow> open_spool directory w;
     let t = t\<lparr>tr_spool_fd := f\<rparr>;
     if f < 0 then Some ((1, t), w)
     else do {
       (e, w) \<leftarrow> sys (Env (Curl ''easy_init'')) w;
       let t = t\<lparr>tr_easy := r_ret e\<rparr>;
       if r_ret e = 0 then Some ((1, t), w)
       else do { (_, w) \<leftarrow> ask_all transfer_options w; Some ((0, t\<lparr>tr_upload_remaining := 4096\<rparr>), w) }
     }
   }"

fun configure_all :: "string \<Rightarrow> nat \<Rightarrow> world \<Rightarrow> ((bool \<times> transfer list) \<times> world) option" where
  "configure_all directory 0 w = Some ((True, []), w)"
| "configure_all directory (Suc n) w = do {
     ((e, t), w) \<leftarrow> configure directory blank_transfer w;
     if e \<noteq> 0 then Some ((False, [t]), w)
     else do { ((good, ts), w) \<leftarrow> configure_all directory n w; Some ((good, t # ts), w) }
   }"

section \<open>Sampling\<close>

text \<open>Like the other experiment's, but each part is used if it is there.\<close>

definition observe_parts :: "sample \<Rightarrow> world \<Rightarrow> (sample \<times> world) option" where
  "observe_parts sm w = do {
     (t, w) \<leftarrow> sys (Env (Query ''PROC_PIDTASKINFO'')) w;
     (u, w) \<leftarrow> sys (Env (Query ''proc_pid_rusage'')) w;
     (f, w) \<leftarrow> sys (Env (Query ''PROC_PIDLISTFDS'')) w;
     let sm = (if r_ret t = TASKINFO_BYTES then sm\<lparr>
         sm_rss := max_u64 (sm_rss sm) (word_of_int (out 0 t)),
         sm_virtual_size := max_u64 (sm_virtual_size sm) (word_of_int (out 1 t)),
         sm_threads := (let n = word_of_int (out 2 t) in if n > sm_threads sm then n else sm_threads sm)\<rparr> else sm);
     Some (sm\<lparr>sm_physical := max_u64 (sm_physical sm) (word_of_int (out 0 u)),
       sm_lifetime_physical := max_u64 (sm_lifetime_physical sm) (word_of_int (out 1 u)),
       sm_fds := (let n = word_of_int (r_ret f div FDINFO_BYTES) in
         if r_ret f > 0 \<and> n > sm_fds sm then n else sm_fds sm)\<rparr>, w)
   }"

text \<open>\<open>CURL_SOCKET_BAD\<close> is -1; \<open>FIONREAD\<close> stores the pending bytes.\<close>

fun sample_socket_backlog :: "transfer list \<Rightarrow> counters \<Rightarrow> world \<Rightarrow> (counters \<times> world) option" where
  "sample_socket_backlog [] ct w = Some (ct, w)"
| "sample_socket_backlog (t # ts) ct w =
     (if tr_done t then sample_socket_backlog ts ct w
      else do {
        (g, w) \<leftarrow> sys (Env (Curl ''ACTIVESOCKET'')) w;
        if r_ret g \<noteq> 0 \<or> out 0 g = -1 then sample_socket_backlog ts ct w
        else do {
          (p, w) \<leftarrow> sys (Io (Fionread (out 0 g))) w;
          sample_socket_backlog ts
            (if r_ret p = 0 \<and> out 0 p > 0 \<and> word_of_int (out 0 p) > ct_max_socket_backlog ct
             then ct\<lparr>ct_max_socket_backlog := word_of_int (out 0 p)\<rparr> else ct) w
        }
      })"

section \<open>The transfers run\<close>

text \<open>A call libcurl makes back while it performs: data for transfer \<open>i\<close>, or room for its upload.\<close>

datatype callback = Write_to nat "byte list" | Read_from nat u64

definition run_callback :: "callback \<Rightarrow> counters \<times> transfer list \<Rightarrow> world \<Rightarrow> ((counters \<times> transfer list) \<times> world) option" where
  "run_callback cb s w = (case s of (ct, ts) \<Rightarrow>
     (case cb of
        Write_to i bytes \<Rightarrow>
          if i < length ts then do {
            ((_, ct, t), w) \<leftarrow> spool_cb bytes (ct, ts ! i) w;
            Some ((ct, ts[i := t]), w)
          }
          else None
      | Read_from i capacity \<Rightarrow>
          if i < length ts then Some ((ct, ts[i := snd (read_cb capacity (ts ! i))]), w) else None))"

definition note_perform :: "u64 \<Rightarrow> counters \<Rightarrow> counters" where
  "note_perform elapsed ct = ct\<lparr>ct_perform_calls := ct_perform_calls ct + 1,
     ct_perform_ns_total := ct_perform_ns_total ct + elapsed,
     ct_perform_ns_max := (if elapsed > ct_perform_ns_max ct then elapsed else ct_perform_ns_max ct)\<rparr>"

text \<open>The result, the number of transfers still running, and what the callbacks did.\<close>

definition multi_perform :: "(reply \<Rightarrow> callback list) \<Rightarrow> counters \<times> transfer list \<Rightarrow> world \<Rightarrow>
    ((int \<times> int \<times> counters \<times> transfer list) \<times> world) option" where
  "multi_perform deliveries s w = do {
     (started, w) \<leftarrow> now_ns w;
     (r, w) \<leftarrow> sys (Env (Curl ''multi_perform'')) w;
     ((ct, ts), w) \<leftarrow> each run_callback (deliveries r) s w;
     (finished, w) \<leftarrow> now_ns w;
     Some ((r_ret r, out 0 r, note_perform (finished - started) ct, ts), w)
   }"

text \<open>Removing the first transfers; the flag is false when libcurl refuses one.\<close>

definition note_cancellation :: "u64 \<Rightarrow> counters \<Rightarrow> counters" where
  "note_cancellation elapsed ct = ct\<lparr>ct_cancellation_calls := ct_cancellation_calls ct + 1,
     ct_cancellation_ns_total := ct_cancellation_ns_total ct + elapsed,
     ct_cancellation_ns_max := (if elapsed > ct_cancellation_ns_max ct then elapsed else ct_cancellation_ns_max ct)\<rparr>"

fun cancel_first :: "nat \<Rightarrow> transfer list \<Rightarrow> counters \<Rightarrow> world \<Rightarrow> ((bool \<times> counters \<times> transfer list) \<times> world) option" where
  "cancel_first 0 ts ct w = Some ((True, ct, ts), w)"
| "cancel_first (Suc n) [] ct w = Some ((True, ct, []), w)"
| "cancel_first (Suc n) (t # ts) ct w = do {
     (started, w) \<leftarrow> now_ns w;
     (r, w) \<leftarrow> sys (Env (Curl ''multi_remove_handle'')) w;
     (finished, w) \<leftarrow> now_ns w;
     if r_ret r \<noteq> 0 then Some ((False, ct, t # ts), w)
     else do {
       (at, w) \<leftarrow> now_ns w;
       ((good, ct, ts), w) \<leftarrow> cancel_first n ts (note_cancellation (finished - started) ct) w;
       Some ((good, ct, t\<lparr>tr_in_multi := False, tr_cancelled := True, tr_done := True, tr_completed_ns := at\<rparr> # ts), w)
     }
   }"

text \<open>One message: \<open>CURLMSG_DONE\<close> is 1; the reply gives its handle and its result.\<close>

definition message_turn :: "transfer list \<Rightarrow> world \<Rightarrow> ((transfer list + transfer list) \<times> world) option" where
  "message_turn ts w = do {
     (m, w) \<leftarrow> sys (Env (Curl ''multi_info_read'')) w;
     if r_ret m = 0 then Some (Inr ts, w)
     else if out 0 m \<noteq> 1 then Some (Inl ts, w)
     else (case index_of (\<lambda>t. tr_easy t = out 1 m) ts of
         None \<Rightarrow> Some (Inl ts, w)
       | Some i \<Rightarrow> do {
           (at, w) \<leftarrow> now_ns w;
           Some (Inl (ts[i := (ts ! i)\<lparr>tr_result := out 2 m, tr_done := True, tr_completed_ns := at\<rparr>]), w)
         })
   }"

section \<open>The loop\<close>

record spool_plan =
  sp_wall_started :: u64
  sp_cancel_count :: nat
  sp_backlog_interval :: u64

record reactor =
  rc_counters :: counters
  rc_transfers :: "transfer list"
  rc_running :: int
  rc_result :: int
  rc_last_backlog :: u64
  rc_last_process :: u64
  rc_cancelled :: bool
  rc_active :: sample

definition sample_if :: "bool \<Rightarrow> sample \<Rightarrow> world \<Rightarrow> (sample \<times> world) option" where
  "sample_if b sm w = (if b then observe_parts sm w else Some (sm, w))"

definition cancel_if :: "bool \<Rightarrow> nat \<Rightarrow> transfer list \<Rightarrow> counters \<Rightarrow> world \<Rightarrow> ((bool \<times> counters \<times> transfer list) \<times> world) option" where
  "cancel_if b n ts ct w = (if b then cancel_first n ts ct w else Some ((True, ct, ts), w))"

definition backlog_if :: "bool \<Rightarrow> transfer list \<Rightarrow> counters \<Rightarrow> world \<Rightarrow> (counters \<times> world) option" where
  "backlog_if b ts ct w = (if b then sample_socket_backlog ts ct w else Some (ct, w))"

text \<open>The end of the loop, with false when a cancellation failed and the program returns 1.\<close>

definition poll_turn :: "(reply \<Rightarrow> callback list) \<Rightarrow> (u64 \<Rightarrow> bool) \<Rightarrow> spool_plan \<Rightarrow> reactor \<Rightarrow> world \<Rightarrow>
    ((reactor + bool \<times> reactor) \<times> world) option" where
  "poll_turn deliveries due p rc w =
     (if rc_running rc = 0 \<or> rc_result rc \<noteq> 0 then Some (Inr (True, rc), w)
      else do {
        (started, w) \<leftarrow> now_ns w;
        (_, w) \<leftarrow> sys (Env (Curl ''multi_poll'')) w;
        (polled, w) \<leftarrow> now_ns w;
        (at, w) \<leftarrow> now_ns w;
        let ct = rc_counters rc;
        let ct = ct\<lparr>ct_poll_ns_total := ct_poll_ns_total ct + (polled - started), ct_poll_calls := ct_poll_calls ct + 1\<rparr>;
        let now = (\<not> rc_cancelled rc \<and> sp_cancel_count p > 0 \<and> due (at - sp_wall_started p));
        ((good, ct, ts), w) \<leftarrow> cancel_if now (sp_cancel_count p) (rc_transfers rc) ct w;
        if \<not> good then Some (Inr (False, rc\<lparr>rc_counters := ct, rc_transfers := ts\<rparr>), w)
        else do {
          let backlog = (sp_backlog_interval p \<noteq> 0 \<and> at - rc_last_backlog rc \<ge> sp_backlog_interval p);
          (ct, w) \<leftarrow> backlog_if backlog ts ct w;
          ((result, running, ct, ts), w) \<leftarrow> multi_perform deliveries (ct, ts) w;
          let process = (at - rc_last_process rc \<ge> 50000000);
          (active, w) \<leftarrow> sample_if process (rc_active rc) w;
          (ts, w) \<leftarrow> script_loop message_turn ts w;
          Some (Inl \<lparr>rc_counters = ct, rc_transfers = ts, rc_running = running, rc_result = result,
            rc_last_backlog = (if backlog then at else rc_last_backlog rc),
            rc_last_process = (if process then at else rc_last_process rc),
            rc_cancelled = (rc_cancelled rc \<or> now), rc_active = active\<rparr>, w)
        }
      })"

section \<open>The end of a run\<close>

record totals =
  tt_bytes :: u64
  tt_callbacks :: u64
  tt_max_callback_bytes :: u64
  tt_spool_blocks :: u64
  tt_failures :: int
  tt_gaps :: "u64 list"
  tt_completion_spread :: "u64 list"

definition no_totals :: totals where
  "no_totals = \<lparr>tt_bytes = 0, tt_callbacks = 0, tt_max_callback_bytes = 0, tt_spool_blocks = 0, tt_failures = 0,
     tt_gaps = [], tt_completion_spread = []\<rparr>"

text \<open>The least time of completion, of those that have one.\<close>

fun first_completion :: "u64 \<Rightarrow> transfer list \<Rightarrow> u64" where
  "first_completion m [] = m"
| "first_completion m (t # ts) =
     first_completion (if tr_completed_ns t \<noteq> 0 \<and> tr_completed_ns t < m then tr_completed_ns t else m) ts"

definition add_transfer :: "u64 \<Rightarrow> transfer \<Rightarrow> totals \<Rightarrow> totals" where
  "add_transfer first t tt = tt\<lparr>tt_bytes := tt_bytes tt + tr_bytes t,
     tt_callbacks := tt_callbacks tt + tr_callbacks t,
     tt_max_callback_bytes := (if tr_max_callback_bytes t > tt_max_callback_bytes tt then tr_max_callback_bytes t
       else tt_max_callback_bytes tt),
     tt_failures := tt_failures tt + (if \<not> tr_cancelled t \<and> tr_result t \<noteq> 0 then 1 else 0),
     tt_gaps := tt_gaps tt @ [tr_max_callback_gap_ns t],
     tt_completion_spread := tt_completion_spread tt @ [tr_completed_ns t - first]\<rparr>"

definition settle_transfer :: "u64 \<Rightarrow> transfer \<Rightarrow> totals \<Rightarrow> world \<Rightarrow> (totals \<times> world) option" where
  "settle_transfer first t tt w = do {
     let tt = add_transfer first t tt;
     (st, w) \<leftarrow> sys (Io (Fstat (tr_spool_fd t))) w;
     let tt = (if r_ret st = 0 then tt\<lparr>tt_spool_blocks := tt_spool_blocks tt + word_of_int (out 0 st) * 512\<rparr> else tt);
     (_, w) \<leftarrow> (if tr_in_multi t then sys (Env (Curl ''multi_remove_handle'')) w else Some (ok 0, w));
     (_, w) \<leftarrow> sys (Env (Curl ''easy_cleanup'')) w;
     (_, w) \<leftarrow> sys (Fd (Close (tr_spool_fd t))) w;
     Some (tt, w)
   }"

text \<open>The handles are added; the results are not looked at.\<close>

definition add_handle :: "transfer \<Rightarrow> transfer list \<Rightarrow> world \<Rightarrow> (transfer list \<times> world) option" where
  "add_handle t ts w = do {
     (_, w) \<leftarrow> sys (Env (Curl ''multi_add_handle'')) w;
     Some (ts @ [t\<lparr>tr_in_multi := True\<rparr>], w)
   }"

definition no_counters :: counters where
  "no_counters = \<lparr>ct_write_hist = replicate 64 0, ct_write_calls = 0, ct_write_ns_total = 0, ct_write_ns_max = 0,
     ct_perform_calls = 0, ct_perform_ns_total = 0, ct_perform_ns_max = 0, ct_poll_calls = 0, ct_poll_ns_total = 0,
     ct_max_socket_backlog = 0, ct_cancellation_calls = 0, ct_cancellation_ns_total = 0, ct_cancellation_ns_max = 0\<rparr>"

text \<open>From the transfers in the multi handle to their end; false when the loop returned 1.\<close>

definition run_transfers :: "(reply \<Rightarrow> callback list) \<Rightarrow> (u64 \<Rightarrow> bool) \<Rightarrow> nat \<Rightarrow> u64 \<Rightarrow> transfer list \<Rightarrow> world \<Rightarrow>
    ((bool \<times> reactor) \<times> world) option" where
  "run_transfers deliveries due cancel_count interval ts w = do {
     (_, w) \<leftarrow> sys (Env (Query ''getrusage'')) w;
     (wall_started, w) \<leftarrow> now_ns w;
     ((result, running, ct, ts), w) \<leftarrow> multi_perform deliveries (no_counters, ts) w;
     script_loop
       (poll_turn deliveries due \<lparr>sp_wall_started = wall_started, sp_cancel_count = cancel_count, sp_backlog_interval = interval\<rparr>)
       \<lparr>rc_counters = ct, rc_transfers = ts, rc_running = running, rc_result = result, rc_last_backlog = 0,
        rc_last_process = 0, rc_cancelled = False, rc_active = zero_sample\<rparr> w
   }"

text \<open>\<open>calloc\<close> replies 0 when it fails; both arrays are asked for before either is looked at.\<close>

definition allocates :: "world \<Rightarrow> (bool \<times> world) option" where
  "allocates w = do { (r, w) \<leftarrow> sys (Env (Query ''calloc'')) w; Some (r_ret r \<noteq> 0, w) }"

definition end_transfers :: "reactor \<Rightarrow> world \<Rightarrow> (totals option \<times> world) option" where
  "end_transfers rc w = do {
     (_, w) \<leftarrow> now_ns w;
     (_, w) \<leftarrow> sys (Env (Query ''getrusage'')) w;
     (_, w) \<leftarrow> observe_parts zero_sample w;
     (gaps, w) \<leftarrow> allocates w;
     (spread, w) \<leftarrow> allocates w;
     if \<not> gaps \<or> \<not> spread then Some (None, w)
     else do {
       (tt, w) \<leftarrow> each (settle_transfer (first_completion (- 1) (rc_transfers rc))) (rc_transfers rc) no_totals w;
       (_, w) \<leftarrow> sys (Env (Curl ''multi_cleanup'')) w;
       (_, w) \<leftarrow> observe_parts zero_sample w;
       Some (Some tt, w)
     }
   }"

text \<open>The status, and what is reported of a run that comes to its end.\<close>

definition spool_run :: "(reply \<Rightarrow> callback list) \<Rightarrow> (u64 \<Rightarrow> bool) \<Rightarrow> u64 \<Rightarrow> nat \<Rightarrow> nat \<Rightarrow> string \<Rightarrow> world \<Rightarrow>
    ((int \<times> (counters \<times> totals) option) \<times> world) option" where
  "spool_run deliveries due interval n cancel_count directory w = do {
     (g, w) \<leftarrow> sys (Env (Curl ''global_init'')) w;
     if r_ret g \<noteq> 0 then Some ((1, None), w)
     else do {
       (_, w) \<leftarrow> observe_parts zero_sample w;
       (made, w) \<leftarrow> allocates w;
       if \<not> made then Some ((1, None), w)
       else do {
         ((good, ts), w) \<leftarrow> configure_all directory n w;
         if \<not> good then Some ((1, None), w)
         else do {
           (_, w) \<leftarrow> observe_parts zero_sample w;
           (m, w) \<leftarrow> sys (Env (Curl ''multi_init'')) w;
           if r_ret m = 0 then Some ((1, None), w)
           else do {
             (_, w) \<leftarrow> sys (Env (Curl ''multi_setopt'')) w;
             (ts, w) \<leftarrow> each add_handle ts [] w;
             ((good, rc), w) \<leftarrow> run_transfers deliveries due cancel_count interval ts w;
             if \<not> good then Some ((1, None), w)
             else do {
               (ended, w) \<leftarrow> end_transfers rc w;
               case ended of
                 None \<Rightarrow> Some ((1, None), w)
               | Some tt \<Rightarrow> do {
                   (_, w) \<leftarrow> sys (Env (Curl ''global_cleanup'')) w;
                   Some ((if rc_result rc \<noteq> 0 \<or> tt_failures tt \<noteq> 0 then 1 else 0, Some (rc_counters rc, tt)), w)
                 }
             }
           }
         }
       }
     }
   }"

definition spool_main :: "(reply \<Rightarrow> callback list) \<Rightarrow> (u64 \<Rightarrow> bool) \<Rightarrow> u64 \<Rightarrow> string list \<Rightarrow> world \<Rightarrow>
    ((int \<times> (counters \<times> totals) option) \<times> world) option" where
  "spool_main deliveries due interval argv w =
     (if length argv \<noteq> 5 \<and> length argv \<noteq> 7 then Some ((2, None), w)
      else let n = atoi (argv ! 1); cancel_count = (if length argv = 7 then atoi (argv ! 6) else 0) in
        if n \<le> 0 \<or> n > 1000 \<or> cancel_count < 0 \<or> cancel_count > n then Some ((2, None), w)
        else spool_run deliveries due interval (nat n) (nat cancel_count) (argv ! 4) w)"

section \<open>The bucket of a value\<close>

lemma bucket_from_bounds:
  "b \<le> 63 \<Longrightarrow> unat v < 2 ^ (64 - b) \<Longrightarrow> 0 < v \<Longrightarrow>
     b \<le> bucket_from b v \<and> bucket_from b v \<le> 63 \<and> 2 ^ (bucket_from b v - b) \<le> unat v \<and>
     unat v < 2 ^ (bucket_from b v - b + 1)"
proof (induction b v rule: bucket_from.induct)
  case (1 b v)
  show ?case
  proof (cases "v > 1 \<and> b < 63")
    case True
    let ?v = "drop_bit 1 v" and ?r = "bucket_from (b + 1) (drop_bit 1 v)"
    have half: "unat ?v = unat v div 2" by (simp only: unat_drop_bit_eq) (simp add: drop_bit_eq_div)
    have v: "unat v > 1" using True by (simp add: word_less_nat_alt)
    have "unat ?v < 2 ^ (64 - (b + 1))"
    proof -
      have "64 - b = Suc (64 - (b + 1))" using True by linarith
      with "1.prems"(2) have "unat v < 2 * 2 ^ (64 - (b + 1))" by simp
      then show ?thesis unfolding half by (simp add: less_mult_imp_div_less mult.commute)
    qed
    moreover have "0 < ?v" using half v by (simp add: word_less_nat_alt)
    ultimately have IH: "b + 1 \<le> ?r" "?r \<le> 63" "2 ^ (?r - (b + 1)) \<le> unat ?v" "unat ?v < 2 ^ (?r - (b + 1) + 1)"
      using "1.IH" [OF True] True by simp_all
    have e: "bucket_from b v = ?r" by (subst bucket_from.simps) (simp add: True)
    have d: "?r - b = Suc (?r - (b + 1))" using IH(1) by simp
    from IH half show ?thesis unfolding e d power_Suc by auto
  next
    case False
    then have e: "bucket_from b v = b" by (subst bucket_from.simps) (simp only: if_False)
    show ?thesis
    proof (cases "v > 1")
      case True
      with False "1.prems"(1) have "b = 63" by simp
      with "1.prems" show ?thesis unfolding e by (simp add: word_less_nat_alt Suc_leI)
    next
      case False
      then have "unat v \<le> 1" by (simp add: word_less_nat_alt)
      moreover have "0 < unat v" using "1.prems"(3) by (simp add: word_less_nat_alt)
      ultimately have "unat v = 1" by linarith
      with "1.prems" show ?thesis unfolding e by simp
    qed
  qed
qed

lemma log2_bucket_bounds:
  "0 < v \<Longrightarrow> 2 ^ log2_bucket v \<le> unat v \<and> unat v < 2 ^ (log2_bucket v + 1) \<and> log2_bucket v \<le> 63"
  using bucket_from_bounds [of 0 v] unat_u64 [of v] by (simp add: log2_bucket_def)

lemma log2_bucket_0 [simp]: "log2_bucket 0 = 0"
  by (simp add: log2_bucket_def bucket_from.simps)

lemma log2_bucket_less: "log2_bucket v < 64"
  using log2_bucket_bounds [of v] by (cases "v = 0") (auto simp: word_gt_0)

lemma log2_bucket_mono: "v \<le> u \<Longrightarrow> log2_bucket v \<le> log2_bucket u"
proof (cases "v = 0")
  case False
  assume "v \<le> u"
  with False have "0 < v" "0 < u" by (simp_all add: word_gt_0) auto
  note b = log2_bucket_bounds [OF this(1)] log2_bucket_bounds [OF this(2)]
  have "(2 :: nat) ^ log2_bucket v < 2 ^ (log2_bucket u + 1)"
    using b \<open>v \<le> u\<close> by (meson le_less_trans le_trans word_le_nat_alt)
  then have "log2_bucket v < log2_bucket u + 1" by (rule power_less_imp_less_exp [rotated]) simp
  then show ?thesis by simp
qed simp

section \<open>The histogram counts the writes\<close>

definition histogram :: "u64 list \<Rightarrow> u64 list" where
  "histogram vs = map (\<lambda>j. of_nat (length (filter (\<lambda>v. log2_bucket v = j) vs))) [0..<64]"

lemma histogram_snoc:
  "(histogram vs)[log2_bucket v := histogram vs ! log2_bucket v + 1] = histogram (vs @ [v])"
  by (rule nth_equalityI) (auto simp: histogram_def nth_list_update log2_bucket_less)

lemma count_writes:
  "ct_write_hist ct = histogram us \<Longrightarrow> ct_write_calls ct = of_nat (length us) \<Longrightarrow>
     ct_write_hist (fold count_write vs ct) = histogram (us @ vs) \<and>
     ct_write_calls (fold count_write vs ct) = of_nat (length (us @ vs))"
proof (induction vs arbitrary: ct us)
  case (Cons v vs)
  have "ct_write_hist (count_write v ct) = histogram (us @ [v])"
    using Cons.prems by (simp add: count_write_def histogram_snoc)
  moreover have "ct_write_calls (count_write v ct) = of_nat (length (us @ [v]))"
    using Cons.prems by (simp add: count_write_def)
  ultimately show ?case using Cons.IH [of "count_write v ct" "us @ [v]"] by simp
qed simp

text \<open>In a sorted list the values below a bound come first.\<close>

lemma sorted_filter_prefix:
  fixes g :: "'a :: linorder \<Rightarrow> nat"
  assumes "\<And>x y. x \<le> y \<Longrightarrow> g x \<le> g y"
  shows "sorted xs \<Longrightarrow> i < length xs \<Longrightarrow> i < length (filter (\<lambda>v. g v < k) xs) \<longleftrightarrow> g (xs ! i) < k"
proof (induction xs arbitrary: i)
  case (Cons x xs)
  show ?case
  proof (cases "g x < k")
    case True
    with Cons show ?thesis by (cases i) auto
  next
    case False
    then have "\<forall>y \<in> set (x # xs). \<not> g y < k"
      using Cons.prems(1) assms by (auto simp: not_less) (meson order_trans)
    then have "filter (\<lambda>v. g v < k) (x # xs) = []" by (simp add: filter_empty_conv)
    moreover have "\<not> g ((x # xs) ! i) < k" using \<open>\<forall>y \<in> set (x # xs). \<not> g y < k\<close> Cons.prems(2) nth_mem by blast
    ultimately show ?thesis by simp
  qed
qed simp

lemma filter_less_Suc:
  "length (filter (\<lambda>v. g v < Suc i) xs) = length (filter (\<lambda>v. g v < i) xs) + length (filter (\<lambda>v. g v = i) xs)"
  by (induction xs) (auto simp: less_Suc_eq)

lemma hist_scan_sorted:
  assumes "sorted xs" and "\<forall>v \<in> set xs. g v < n" and "0 < T" and "T \<le> length xs" and "length xs < 2 ^ 64"
    and "\<And>x y. x \<le> y \<Longrightarrow> g x \<le> g y"
  shows "i \<le> n \<Longrightarrow> length (filter (\<lambda>v. g v < i) xs) < T \<Longrightarrow>
    hist_scan i (of_nat T) (of_nat (length (filter (\<lambda>v. g v < i) xs)))
      (map (\<lambda>j. of_nat (length (filter (\<lambda>v. g v = j) xs))) [i..<n]) = 2 ^ g (xs ! (T - 1))"
proof (induction "n - i" arbitrary: i)
  case 0
  then have "filter (\<lambda>v. g v < i) xs = xs" using assms(2) by simp
  with 0 assms(4) show ?case by simp
next
  case (Suc d)
  then have i: "i < n" by simp
  let ?a = "length (filter (\<lambda>v. g v < Suc i) xs)"
  have le: "?a \<le> length xs" by simp
  have seen: "(of_nat (length (filter (\<lambda>v. g v < i) xs)) + of_nat (length (filter (\<lambda>v. g v = i) xs)) :: u64) = of_nat ?a"
    by (simp add: filter_less_Suc)
  have cmp: "((of_nat T :: u64) \<le> of_nat ?a) = (T \<le> ?a)"
  proof -
    have "length xs < 2 ^ 64 \<Longrightarrow> n \<le> length xs \<Longrightarrow> unat (of_nat n :: u64) = n" for n
      by (simp add: unsigned_of_nat take_bit_nat_eq_self)
    from this [OF assms(5) assms(4)] this [OF assms(5) le] show ?thesis by (simp only: word_le_nat_alt)
  qed
  have T: "T - 1 < length xs" using assms(3,4) by simp
  have pre: "T - 1 < length (filter (\<lambda>v. g v < k) xs) \<longleftrightarrow> g (xs ! (T - 1)) < k" for k
    by (rule sorted_filter_prefix [OF _ assms(1) T]) (rule assms(6))
  show ?case
  proof (cases "T \<le> ?a")
    case True
    have "T - 1 < ?a" "\<not> T - 1 < length (filter (\<lambda>v. g v < i) xs)"
      using True Suc.prems(2) assms(3) by linarith+
    then have "g (xs ! (T - 1)) < Suc i" "\<not> g (xs ! (T - 1)) < i" unfolding pre by blast+
    then have "g (xs ! (T - 1)) = i" by simp
    with True cmp seen show ?thesis by (simp add: upt_conv_Cons [OF i] Let_def)
  next
    case False
    then have "hist_scan (Suc i) (of_nat T) (of_nat ?a) (map (\<lambda>j. of_nat (length (filter (\<lambda>v. g v = j) xs))) [Suc i..<n]) =
        2 ^ g (xs ! (T - 1))"
      using Suc by simp
    with False cmp seen show ?thesis by (simp add: upt_conv_Cons [OF i] Let_def)
  qed
qed

lemma histogram_sort: "histogram (sort vs) = histogram vs"
proof -
  have "length (filter P (sort vs)) = length (filter P vs)" for P :: "u64 \<Rightarrow> bool"
    by (metis filter_sort length_sort)
  then show ?thesis by (simp add: histogram_def)
qed

lemma histogram_Nil: "ct_write_hist no_counters = histogram []"
  by (rule nth_equalityI) (simp_all add: no_counters_def histogram_def)

text \<open>
  C36. After the writes \<open>vs\<close> a quantile read from the histogram is the power of two of the bucket of
  the exact quantile: it bounds the exact quantile from below, and twice it from above.
\<close>

theorem hist_quantile_of_exact:
  assumes "vs \<noteq> []" and "length vs < 2 ^ 64" and "k < length vs" and "scale (of_nat (length vs) - 1) = of_nat k"
  shows "hist_quantile scale (fold count_write vs no_counters) = 2 ^ log2_bucket (sort vs ! k) \<and>
    (sort vs ! k \<noteq> 0 \<longrightarrow> 2 ^ log2_bucket (sort vs ! k) \<le> unat (sort vs ! k) \<and>
      unat (sort vs ! k) < 2 * 2 ^ log2_bucket (sort vs ! k))"
proof -
  let ?ct = "fold count_write vs no_counters"
  have ct: "ct_write_hist ?ct = histogram (sort vs)" "ct_write_calls ?ct = of_nat (length vs)"
    using count_writes [of no_counters "[]" vs] histogram_Nil
    by (simp_all add: histogram_sort no_counters_def)
  have "(of_nat (length vs) :: u64) \<noteq> 0"
    using assms(1,2) by (simp add: word_of_nat_eq_0_iff) (metis dvd_imp_le leD length_greater_0_conv)
  moreover have "hist_scan 0 (of_nat (k + 1)) (of_nat (length (filter (\<lambda>v. log2_bucket v < 0) (sort vs))))
      (map (\<lambda>j. of_nat (length (filter (\<lambda>v. log2_bucket v = j) (sort vs)))) [0..<64]) = 2 ^ log2_bucket (sort vs ! (k + 1 - 1))"
    by (rule hist_scan_sorted) (use assms(2,3) in \<open>simp_all add: log2_bucket_less log2_bucket_mono\<close>)
  ultimately have "hist_quantile scale ?ct = 2 ^ log2_bucket (sort vs ! k)"
    by (simp add: hist_quantile_def ct assms(4) histogram_def add.commute)
  then show ?thesis using log2_bucket_bounds [of "sort vs ! k"] by (simp add: word_gt_0)
qed

lemma hist_quantile_of_exact_witness:
  "hist_quantile (drop_bit 1) (fold count_write [9, 1, 5] no_counters) = 4 \<and> sort [9, 1, 5] ! 1 = (5 :: u64)"
proof -
  have "sort [9, 1, 5] ! 1 = (5 :: u64)" "log2_bucket 5 = 2" by code_simp+
  with hist_quantile_of_exact [of "[9, 1, 5]" 1 "drop_bit 1"] show ?thesis by simp
qed

text \<open>The quantile of an array is the one of the sorted array.\<close>

lemma qsort_sort: "qsort compare_u64 xs = sort xs"
proof -
  have "insert_by compare_u64 x ys = insort x ys" for x ys
    by (induction ys) (auto simp: compare_u64_def)
  then have "insert_by compare_u64 = insort" by (intro ext)
  then show ?thesis by (simp add: qsort_def sort_key_def)
qed

lemma array_quantile_sort: "array_quantile scale xs = (sort xs ! scale (length xs - 1), sort xs)"
  by (simp add: array_quantile_def qsort_sort Let_def)

section \<open>What the calls say of the callbacks\<close>

text \<open>
  The calls of a run tell how many callbacks wrote, apart from the program's own counts: the data
  callbacks libcurl made, which its reply to each \<open>curl_multi_perform\<close> determines, less the writes
  that failed, for a callback ends at its first failed write.  \<open>write_total\<close> is what all writes took.
\<close>

definition is_write_to :: "callback \<Rightarrow> bool" where
  "is_write_to cb \<longleftrightarrow> (case cb of Write_to _ _ \<Rightarrow> True | Read_from _ _ \<Rightarrow> False)"

definition data_callbacks :: "callback list \<Rightarrow> nat" where
  "data_callbacks cbs = length (filter is_write_to cbs)"

definition delivered :: "(reply \<Rightarrow> callback list) \<Rightarrow> (call \<times> reply) list \<Rightarrow> nat" where
  "delivered deliveries es =
     sum_list (map (\<lambda>(c, r). if c = Env (Curl ''multi_perform'') then data_callbacks (deliveries r) else 0) es)"

fun write_took :: "call \<times> reply \<Rightarrow> nat option" where
  "write_took (Io (Write fd bs), r) = Some (length (take (nat (r_ret r)) bs))"
| "write_took _ = None"

fun failed_write :: "call \<times> reply \<Rightarrow> bool" where
  "failed_write (Io (Write fd bs), r) \<longleftrightarrow> r_ret r \<le> 0"
| "failed_write _ \<longleftrightarrow> False"

definition failed_writes :: "(call \<times> reply) list \<Rightarrow> nat" where
  "failed_writes es = length (filter failed_write es)"

definition write_total :: "(call \<times> reply) list \<Rightarrow> nat" where
  "write_total es = sum_list (map (\<lambda>e. case write_took e of Some n \<Rightarrow> n | None \<Rightarrow> 0) es)"

lemmas heard_defs = delivered_def failed_writes_def write_total_def

lemma heard_append [simp]:
  "delivered d (es @ fs) = delivered d es + delivered d fs" "failed_writes (es @ fs) = failed_writes es + failed_writes fs"
  "write_total (es @ fs) = write_total es + write_total fs"
  by (simp_all add: heard_defs)

lemma heard_Nil [simp]: "delivered d [] = 0" "failed_writes [] = 0" "write_total [] = 0"
  by (simp_all add: heard_defs)

text \<open>A call that is neither a write nor a turn of libcurl.\<close>

definition silent :: "call \<times> reply \<Rightarrow> bool" where
  "silent e \<longleftrightarrow> fst e \<noteq> Env (Curl ''multi_perform'') \<and> write_took e = None"

lemma silent_simps [simp]:
  "silent (Env (Curl v), r) = (v \<noteq> ''multi_perform'')" "silent (Env (Query v), r)" "silent (Env Now, r)" "silent (Fd f, r)"
  "silent (Io (Unlink p), r)" "silent (Io (Fstat fd), r)" "silent (Io (Fionread fd), r)"
  by (simp_all add: silent_def)

lemma silent_heard:
  "list_all silent es \<Longrightarrow> delivered d es = 0 \<and> failed_writes es = 0 \<and> write_total es = 0"
proof (induction es)
  case (Cons e es)
  have "failed_write e = False" if "write_took e = None" using that by (cases e rule: failed_write.cases) auto
  with Cons show ?case by (cases e) (simp add: heard_defs silent_def)
qed simp

lemma silent_Cons [simp]:
  "silent e \<Longrightarrow> delivered d (e # es) = delivered d es" "silent e \<Longrightarrow> failed_writes (e # es) = failed_writes es"
  "silent e \<Longrightarrow> write_total (e # es) = write_total es"
  using silent_heard [of "[e]" d] heard_append(1) [of d "[e]" es] heard_append(2,3) [of "[e]" es] by simp_all

lemma heard_perform [simp]:
  "delivered d ((Env (Curl ''multi_perform''), r) # es) = data_callbacks (d r) + delivered d es"
  "failed_writes ((Env (Curl ''multi_perform''), r) # es) = failed_writes es"
  "write_total ((Env (Curl ''multi_perform''), r) # es) = write_total es"
  by (simp_all add: heard_defs)

section \<open>Every spool is closed\<close>

definition balanced :: "(call \<times> reply) list \<Rightarrow> bool" where
  "balanced es \<longleftrightarrow> (\<forall>fd. fd_net es fd = 0) \<and> list_all silent es"

lemma balanced_Nil [simp]: "balanced []"
  by (simp add: balanced_def)

lemma balanced_Cons: "\<forall>fd. fd_delta e fd = 0 \<Longrightarrow> silent e \<Longrightarrow> balanced es \<Longrightarrow> balanced (e # es)"
  by (simp add: balanced_def)

lemma balanced_heard:
  "balanced es \<Longrightarrow> fd_net es fd = 0" "balanced es \<Longrightarrow> delivered d es = 0" "balanced es \<Longrightarrow> failed_writes es = 0"
  "balanced es \<Longrightarrow> write_total es = 0" "balanced es \<Longrightarrow> list_all silent es"
  using silent_heard [of es d] by (simp_all add: balanced_def)

lemma balanced_append: "balanced es \<Longrightarrow> balanced fs \<Longrightarrow> balanced (es @ fs)"
  by (simp add: balanced_def)

text \<open>What the loop keeps: the spools, and that the counts agree with each other.\<close>

definition kept :: "int list \<Rightarrow> counters \<times> transfer list \<Rightarrow> bool" where
  "kept ds s \<longleftrightarrow> map tr_spool_fd (snd s) = ds \<and> length (ct_write_hist (fst s)) = 64 \<and>
     sum_list (map tr_callbacks (snd s)) = ct_write_calls (fst s) \<and>
     sum_list (ct_write_hist (fst s)) = ct_write_calls (fst s)"

definition spooled :: "counters \<times> transfer list \<Rightarrow> u64" where
  "spooled s = sum_list (map tr_bytes (snd s))"

text \<open>The counts grow by what the calls say.\<close>

definition counted :: "(reply \<Rightarrow> callback list) \<Rightarrow> counters \<times> transfer list \<Rightarrow> counters \<times> transfer list \<Rightarrow>
    (call \<times> reply) list \<Rightarrow> bool" where
  "counted d s t es \<longleftrightarrow> (\<forall>fd. fd_net es fd = 0) \<and>
     ct_write_calls (fst t) + of_nat (failed_writes es) = ct_write_calls (fst s) + of_nat (delivered d es) \<and>
     (failed_writes es = 0 \<longrightarrow> spooled t = spooled s + of_nat (write_total es))"

lemma counted_trans: "counted d s t es \<Longrightarrow> counted d t u fs \<Longrightarrow> counted d s u (es @ fs)"
  unfolding counted_def by (auto simp: algebra_simps)

lemma counted_before: "balanced es \<Longrightarrow> counted d s t fs \<Longrightarrow> counted d s t (es @ fs)"
  using silent_heard [of es d] by (simp add: counted_def balanced_def)

lemma counted_after: "counted d s t es \<Longrightarrow> balanced fs \<Longrightarrow> counted d s t (es @ fs)"
  using silent_heard [of fs d] by (simp add: counted_def balanced_def)

lemma counted_balanced: "balanced es \<Longrightarrow> counted d s s es"
  using silent_heard [of es d] by (simp add: counted_def balanced_def)

lemma counted_from:
  "counted d s t es \<Longrightarrow> ct_write_calls (fst u) = ct_write_calls (fst s) \<Longrightarrow> spooled u = spooled s \<Longrightarrow> counted d u t es"
  "counted d s t es \<Longrightarrow> ct_write_calls (fst u) = ct_write_calls (fst t) \<Longrightarrow> spooled u = spooled t \<Longrightarrow> counted d s u es"
  by (simp_all add: counted_def)

lemma sum_list_map_update:
  fixes f :: "'a \<Rightarrow> u64"
  shows "i < length xs \<Longrightarrow> sum_list (map f (xs[i := y])) = sum_list (map f xs) + (f y - f (xs ! i))"
proof (induction xs arbitrary: i)
  case (Cons x xs)
  then show ?case by (cases i) (auto simp: algebra_simps)
qed simp

lemma map_update_same: "i < length xs \<Longrightarrow> f y = f (xs ! i) \<Longrightarrow> map f (xs[i := y]) = map f xs"
  by (rule nth_equalityI) (auto simp: nth_list_update)

lemma kept_update:
  assumes "kept ds (ct, ts)" and "i < length ts" and "tr_spool_fd t = tr_spool_fd (ts ! i)"
    and "tr_callbacks t = tr_callbacks (ts ! i)"
  shows "kept ds (ct, ts[i := t])"
  using assms by (simp add: kept_def map_update_same del: map_update)

lemma kept_callback:
  assumes "kept ds (ct, ts)" and "i < length ts"
  shows "kept ds (count_write elapsed ct, ts[i := note_callback at n (ts ! i)])"
proof -
  let ?h = "ct_write_hist ct"
  have "sum_list (?h[log2_bucket elapsed := ?h ! log2_bucket elapsed + 1]) = sum_list ?h + 1"
    using sum_list_map_update [of "log2_bucket elapsed" ?h id "?h ! log2_bucket elapsed + 1"] assms(1)
    by (simp add: kept_def log2_bucket_less)
  with assms show ?thesis
    by (simp add: kept_def count_write_def note_callback_def Let_def sum_list_map_update map_update_same del: map_update)
qed

lemma balanced_now: "runs now_ns (\<lambda>_ es. balanced es)"
  unfolding now_ns_def by (intro runs_rules) (simp add: balanced_def)

text \<open>A spool write either writes everything or ends at its one failed write.\<close>

definition wrote :: "nat \<Rightarrow> bool \<Rightarrow> (call \<times> reply) list \<Rightarrow> bool" where
  "wrote n complete es \<longleftrightarrow> (\<forall>fd. fd_net es fd = 0) \<and> (\<forall>d. delivered d es = 0) \<and>
     failed_writes es = of_bool (\<not> complete) \<and> (complete \<longrightarrow> write_total es = n)"

lemma wrote_Cons:
  "0 < r_ret r \<Longrightarrow> wrote (length bs - nat (r_ret r)) c es \<Longrightarrow> wrote (length bs) c ((Io (Write fd bs), r) # es)"
  by (auto simp: wrote_def heard_defs)

lemma wrote_progress: "write_loop progress fd bs w = Some (x, w') \<Longrightarrow> \<exists>es. emits w w' es \<and> wrote (length bs) (x = None) es"
proof (induction progress fd bs w rule: write_loop.induct)
  case (1 fd bs w)
  show ?case
  proof (cases "bs = []")
    case True
    with "1.prems" have "x = None" "w' = w" by (simp_all add: write_loop.simps [of progress fd "[]" w])
    with True show ?thesis by (intro exI [of _ "[]"]) (simp add: wrote_def)
  next
    case False
    with "1.prems" obtain r w1 where s: "sys (Io (Write fd bs)) w = Some (r, w1)"
      by (auto simp: write_loop.simps [of progress fd bs w] split: option.splits)
    let ?e = "(Io (Write fd bs), r)"
    from s have e: "emits w w1 [?e]" by (simp add: sys_emits)
    show ?thesis
    proof (cases "progress r")
      case True
      with "1.prems" s False have "write_loop progress fd (drop (nat (r_ret r)) bs) w1 = Some (x, w')"
        by (simp add: write_loop.simps [of progress fd bs w])
      from "1.hyps" [OF False s refl True this] obtain es where
        es: "emits w1 w' es" "wrote (length (drop (nat (r_ret r)) bs)) (x = None) es" by blast
      from emits_trans [OF e es(1)] wrote_Cons [of r bs "x = None" es fd] es(2) True show ?thesis
        by (auto simp: progress_def)
    next
      case stop: False
      with "1.prems" s False have "x = Some r" "w' = w1" by (simp_all add: write_loop.simps [of progress fd bs w])
      with e stop show ?thesis by (intro exI [of _ "[?e]"]) (auto simp: wrote_def heard_defs progress_def)
    qed
  qed
qed

lemma runs_spool_write: "runs (spool_write fd bs) (\<lambda>e es. wrote (length bs) (e = 0) es)"
proof -
  have "runs (write_loop progress fd bs) (\<lambda>x es. wrote (length bs) (x = None) es)"
    by (rule runsI) (rule wrote_progress)
  then show ?thesis
    unfolding spool_write_def reporting_def by (rule runs_bind) (intro runs_rules, auto)
qed

lemma wrote_around: "balanced es \<Longrightarrow> wrote n c fs \<Longrightarrow> balanced gs \<Longrightarrow> wrote n c (es @ fs @ gs)"
  using silent_heard [of es] silent_heard [of gs] by (simp add: wrote_def balanced_def)

lemma wrote_before: "balanced es \<Longrightarrow> wrote n c fs \<Longrightarrow> wrote n c (es @ fs)"
  using wrote_around [of es n c fs "[]"] by simp

lemma wrote_before2: "balanced es \<Longrightarrow> wrote n c fs \<Longrightarrow> balanced gs \<Longrightarrow> balanced hs \<Longrightarrow> wrote n c (es @ fs @ gs @ hs)"
  using wrote_around [of es n c fs "gs @ hs"] by (simp add: balanced_append)

text \<open>A callback changes the counts exactly when it wrote everything.\<close>

definition called_back :: "byte list \<Rightarrow> counters \<times> transfer \<Rightarrow> counters \<times> transfer \<Rightarrow> (call \<times> reply) list \<Rightarrow> bool" where
  "called_back bytes s t es \<longleftrightarrow> (case s of (ct, u) \<Rightarrow>
     wrote (length bytes) False es \<and> t = (ct, u) \<or>
     wrote (length bytes) True es \<and> (\<exists>elapsed at. t = (count_write elapsed ct, note_callback at (of_nat (length bytes)) u)))"

lemma runs_spool_cb: "runs (spool_cb bytes s) (\<lambda>(_, t) es. called_back bytes s t es)"
proof -
  obtain ct u where s: "s = (ct, u)" by (cases s)
  show ?thesis
    unfolding spool_cb_def s prod.case
    by (intro runs_bind [OF balanced_now] runs_bind [OF runs_spool_write] runs_rules)
      (auto simp: called_back_def intro: wrote_before wrote_before2)
qed

lemma spooled_callback:
  "i < length ts \<Longrightarrow> spooled (ct, ts[i := note_callback at n (ts ! i)]) = spooled (du, ts) + n"
  by (simp add: spooled_def sum_list_map_update note_callback_def Let_def)

lemma spooled_same: "map tr_bytes us = map tr_bytes ts \<Longrightarrow> spooled (ct, us) = spooled (du, ts)"
  by (simp add: spooled_def)

text \<open>What a list of callbacks adds: \<open>m\<close> of them wrote or failed.\<close>

definition called :: "nat \<Rightarrow> counters \<times> transfer list \<Rightarrow> counters \<times> transfer list \<Rightarrow> (call \<times> reply) list \<Rightarrow> bool" where
  "called m s t es \<longleftrightarrow> (\<forall>fd. fd_net es fd = 0) \<and> (\<forall>d. delivered d es = 0) \<and>
     ct_write_calls (fst t) + of_nat (failed_writes es) = ct_write_calls (fst s) + of_nat m \<and>
     (failed_writes es = 0 \<longrightarrow> spooled t = spooled s + of_nat (write_total es))"

lemma called_trans: "called m s t es \<Longrightarrow> called n t u fs \<Longrightarrow> called (m + n) s u (es @ fs)"
  unfolding called_def by (auto simp: algebra_simps)

lemma called_write:
  assumes "called_back bytes (ct, ts ! i) (du, t) es" and "i < length ts"
  shows "called 1 (ct, ts) (du, ts[i := t]) es"
  using assms
  by (auto simp: called_back_def called_def wrote_def count_write_def spooled_callback [of i ts _ _ _ ct] intro!: spooled_same)

lemma called_kept:
  assumes "called_back bytes (ct, ts ! i) (du, t) es" and "i < length ts" and "kept ds (ct, ts)"
  shows "kept ds (du, ts[i := t])"
  using assms kept_callback [OF assms(3,2)] by (auto simp: called_back_def)

lemma runs_run_callback:
  assumes "kept ds s"
  shows "runs (run_callback cb s) (\<lambda>t es. called (of_bool (is_write_to cb)) s t es \<and> kept ds t)"
proof (cases cb)
  case (Write_to i bytes)
  obtain ct ts where s: "s = (ct, ts)" by (cases s)
  show ?thesis unfolding run_callback_def Write_to s prod.case callback.case
    by (intro runs_bind [OF runs_spool_cb] runs_rules)
      (auto simp: is_write_to_def intro: called_write [unfolded One_nat_def] called_kept [OF _ _ assms [unfolded s]])
next
  case (Read_from i capacity)
  obtain ct ts where s: "s = (ct, ts)" by (cases s)
  have "kept ds (ct, ts[i := snd (read_cb capacity (ts ! i))]) \<and>
      spooled (ct, ts[i := snd (read_cb capacity (ts ! i))]) = spooled (ct, ts)" if "i < length ts"
  proof (rule conjI)
    show "kept ds (ct, ts[i := snd (read_cb capacity (ts ! i))])"
      by (rule kept_update [OF assms [unfolded s] that]) (simp_all add: read_cb_def Let_def)
    show "spooled (ct, ts[i := snd (read_cb capacity (ts ! i))]) = spooled (ct, ts)"
      by (rule spooled_same, rule map_update_same [OF that]) (simp add: read_cb_def Let_def)
  qed
  then show ?thesis unfolding run_callback_def Read_from s prod.case callback.case
    by (intro runs_rules) (auto simp: is_write_to_def called_def)
qed

lemma runs_callbacks:
  "kept ds s \<Longrightarrow> runs (each run_callback cbs s) (\<lambda>t es. called (data_callbacks cbs) s t es \<and> kept ds t)"
proof (induction cbs arbitrary: s)
  case Nil
  then show ?case by (auto simp: called_def data_callbacks_def intro!: runs_ret)
next
  case (Cons cb cbs)
  have next_one: "runs (each run_callback cbs t) (\<lambda>u fs. called (data_callbacks (cb # cbs)) s u (es @ fs) \<and> kept ds u)"
    if "called (of_bool (is_write_to cb)) s t es \<and> kept ds t" for t es
    by (rule runs_weaken [OF Cons.IH])
      (use that called_trans [of "of_bool (is_write_to cb)" s t es "data_callbacks cbs"] in
        \<open>auto simp: data_callbacks_def split: if_splits\<close>)
  have "runs (\<lambda>w. each run_callback (cb # cbs) s w) (\<lambda>u es. called (data_callbacks (cb # cbs)) s u es \<and> kept ds u)"
    unfolding each.simps by (rule runs_bind [OF runs_run_callback [OF Cons.prems]], rule next_one)
  then show ?case .
qed

lemma kept_note_perform [simp]: "kept ds (note_perform e ct, ts) = kept ds (ct, ts)"
  by (simp add: kept_def note_perform_def)

lemma counted_perform:
  assumes "balanced es" and "called (data_callbacks (d r)) s (ct, ts) fs" and "balanced gs"
  shows "counted d s (note_perform e ct, ts) (es @ (Env (Curl ''multi_perform''), r) # fs @ gs)"
  using assms by (simp add: counted_def called_def note_perform_def spooled_def balanced_heard)

lemma runs_perform:
  assumes "kept ds s"
  shows "runs (multi_perform deliveries s) (\<lambda>(_, _, t) es. counted deliveries s t es \<and> kept ds t)"
  unfolding multi_perform_def
  by (intro runs_bind [OF balanced_now] runs_bind [OF runs_callbacks [OF assms]] runs_rules)
    (auto intro!: counted_perform)

text \<open>What does not touch the spools and the counts of a transfer.\<close>

definition same_transfers :: "transfer list \<Rightarrow> transfer list \<Rightarrow> bool" where
  "same_transfers ts us \<longleftrightarrow> map tr_spool_fd us = map tr_spool_fd ts \<and> map tr_callbacks us = map tr_callbacks ts \<and>
     map tr_bytes us = map tr_bytes ts"

definition same_writes :: "counters \<Rightarrow> counters \<Rightarrow> bool" where
  "same_writes ct du \<longleftrightarrow> ct_write_hist du = ct_write_hist ct \<and> ct_write_calls du = ct_write_calls ct"

lemma same_refl [simp]: "same_transfers ts ts" "same_writes ct ct"
  by (simp_all add: same_transfers_def same_writes_def)

lemma same_poll [simp]: "same_writes (ct\<lparr>ct_poll_ns_total := a, ct_poll_calls := b\<rparr>) du = same_writes ct du"
  by (simp add: same_writes_def)

lemma kept_same: "kept ds (ct, ts) \<Longrightarrow> same_writes ct du \<Longrightarrow> same_transfers ts us \<Longrightarrow> kept ds (du, us)"
  by (simp add: kept_def same_transfers_def same_writes_def)

lemma counted_same:
  "balanced es \<Longrightarrow> same_writes ct du \<Longrightarrow> same_transfers ts us \<Longrightarrow> counted d (ct, ts) (du, us) es"
  by (rule counted_from(2) [OF counted_balanced]) (simp_all add: same_writes_def same_transfers_def spooled_def)

lemma same_trans:
  "same_transfers ts us \<Longrightarrow> same_transfers us vs \<Longrightarrow> same_transfers ts vs"
  "same_writes ct du \<Longrightarrow> same_writes du ev \<Longrightarrow> same_writes ct ev"
  by (simp_all add: same_transfers_def same_writes_def)

lemma runs_cancel_first:
  "runs (cancel_first n ts ct) (\<lambda>(_, du, us) es. balanced es \<and> same_writes ct du \<and> same_transfers ts us)"
proof (induction n arbitrary: ts ct)
  case 0
  show ?case by (simp add: runs_ret)
next
  case (Suc n)
  show ?case
  proof (cases ts)
    case Nil
    then show ?thesis by (simp add: runs_ret)
  next
    case (Cons t us)
    show ?thesis unfolding Cons cancel_first.simps
      by (intro runs_bind [OF balanced_now] runs_bind [OF Suc] runs_rules)
        (auto intro!: balanced_append balanced_Cons simp: same_writes_def same_transfers_def note_cancellation_def)
  qed
qed

lemma runs_cancel_if:
  "runs (cancel_if b n ts ct) (\<lambda>(_, du, us) es. balanced es \<and> same_writes ct du \<and> same_transfers ts us)"
  unfolding cancel_if_def by (intro runs_if runs_cancel_first runs_ret) simp

lemma runs_backlog: "runs (sample_socket_backlog ts ct) (\<lambda>du es. balanced es \<and> same_writes ct du)"
proof (induction ts arbitrary: ct)
  case (Cons t ts)
  show ?case unfolding sample_socket_backlog.simps
    by (intro runs_if runs_bind_sys runs_weaken [OF Cons])
      (auto intro!: balanced_append balanced_Cons simp: same_writes_def split: if_splits)
next
  case Nil
  show ?case by (rule runsI) (auto intro!: exI [of _ "[]"])
qed

lemma runs_backlog_if: "runs (backlog_if b ts ct) (\<lambda>du es. balanced es \<and> same_writes ct du)"
  unfolding backlog_if_def by (intro runs_if runs_backlog runs_ret) simp

lemma runs_observe_parts: "runs (observe_parts sm) (\<lambda>_ es. balanced es)"
  unfolding observe_parts_def by (intro runs_rules) (simp add: balanced_def)

lemma runs_sample_if: "runs (sample_if b sm) (\<lambda>_ es. balanced es)"
  unfolding sample_if_def by (intro runs_if runs_observe_parts runs_ret) simp

lemma runs_message_turn:
  "runs (message_turn ts) (\<lambda>x es. balanced es \<and> same_transfers ts (case x of Inl us \<Rightarrow> us | Inr us \<Rightarrow> us))"
  unfolding message_turn_def
  by (intro runs_bind [OF balanced_now] runs_rules)
    (auto intro!: balanced_Cons simp: same_transfers_def map_update_same index_of_less simp del: map_update)

lemma runs_messages: "runs (script_loop message_turn ts) (\<lambda>us es. balanced es \<and> same_transfers ts us)"
  by (rule runs_script_loop [where I = "\<lambda>_. True" and Q = "\<lambda>ts us es. balanced es \<and> same_transfers ts us"
        and P = "\<lambda>ts us es. balanced es \<and> same_transfers ts us"])
    (auto intro: balanced_append same_trans runs_weaken [OF runs_message_turn] split: sum.splits)

abbreviation counts :: "reactor \<Rightarrow> counters \<times> transfer list" where
  "counts rc \<equiv> (rc_counters rc, rc_transfers rc)"

lemma runs_poll_turn:
  assumes "kept ds (counts rc)"
  shows "runs (poll_turn deliveries due p rc) (\<lambda>x es.
    (case x of Inl r \<Rightarrow> counted deliveries (counts rc) (counts r) es \<and> kept ds (counts r)
     | Inr r \<Rightarrow> counted deliveries (counts rc) (counts (snd r)) es \<and> kept ds (counts (snd r))))"
proof -
  note k = kept_same [OF assms]
  have perform: "runs (multi_perform deliveries (ev, us)) (\<lambda>(_, _, s') es. counted deliveries (ev, us) s' es \<and> kept ds s')"
    if "same_writes (rc_counters rc) du" "same_transfers (rc_transfers rc) us" "same_writes du ev" for du us ev
    by (rule runs_perform [OF k]) (use that in \<open>auto intro: same_trans\<close>)
  show ?thesis unfolding poll_turn_def Let_def
    by (intro runs_bind [OF balanced_now] runs_bind [OF runs_cancel_if] runs_bind [OF runs_backlog_if] runs_bind [OF perform]
        runs_bind [OF runs_sample_if] runs_bind [OF runs_messages] runs_rules)
      (auto intro: k kept_same simp: assms balanced_heard counted_def same_writes_def same_transfers_def spooled_def)
qed

lemma runs_run_transfers:
  assumes "kept ds (no_counters, ts)"
  shows "runs (run_transfers deliveries due n interval ts)
    (\<lambda>x es. counted deliveries (no_counters, ts) (counts (snd x)) es \<and> kept ds (counts (snd x)))"
proof -
  have loop: "runs (script_loop (poll_turn deliveries due p) rc)
      (\<lambda>x es. counted deliveries (counts rc) (counts (snd x)) es \<and> kept ds (counts (snd x)))"
    if "kept ds (counts rc)" for p rc
    by (rule runs_script_loop [where I = "\<lambda>rc. kept ds (counts rc)" and
        P = "\<lambda>rc rc' es. counted deliveries (counts rc) (counts rc') es" and
        Q = "\<lambda>rc x es. counted deliveries (counts rc) (counts (snd x)) es \<and> kept ds (counts (snd x))", OF _ _ that])
      (auto intro: counted_trans runs_weaken [OF runs_poll_turn] split: sum.splits)
  show ?thesis unfolding run_transfers_def
    by (intro runs_bind [OF balanced_now] runs_bind [OF runs_perform [OF assms]] runs_bind_sys runs_pair runs_weaken [OF loop])
      (auto simp: counted_def balanced_heard algebra_simps)
qed

text \<open>The spools a list of transfers holds.\<close>

definition spools :: "transfer list \<Rightarrow> int list" where
  "spools ts = map tr_spool_fd ts"

lemma acquires_open_spool:
  "runs (open_spool d) (\<lambda>f es. acquires (\<lambda>f. if f < 0 then [] else [f]) f es \<and> list_all silent es)"
  unfolding open_spool_def by (intro runs_rules) (auto simp: acquires_def Let_def)

lemma balanced_ask_all: "''multi_perform'' \<notin> set xs \<Longrightarrow> runs (ask_all xs) (\<lambda>_ es. balanced es)"
proof (induction xs)
  case Nil
  show ?case by (rule runsI) (auto intro!: exI [of _ "[]"])
next
  case (Cons x xs)
  have "runs (\<lambda>w. ask_all (x # xs) w) (\<lambda>_ es. balanced es)"
    unfolding ask_all.simps
    by (intro runs_bind_sys runs_weaken [OF Cons.IH]) (use Cons.prems in \<open>auto intro!: balanced_Cons\<close>)
  then show ?case .
qed

lemma balanced_options: "runs (ask_all transfer_options) (\<lambda>_ es. balanced es)"
  by (rule balanced_ask_all) (simp add: transfer_options_def)

lemma acquires_configure:
  "runs (configure d t) (\<lambda>(e, u) es. (\<forall>fd. fd_net es fd = of_bool (0 \<le> tr_spool_fd u \<and> tr_spool_fd u = fd)) \<and>
     list_all silent es \<and> (e = 0 \<longrightarrow> 0 \<le> tr_spool_fd u \<and> tr_callbacks u = tr_callbacks t \<and> tr_bytes u = tr_bytes t))"
  unfolding configure_def
  by (intro runs_bind [OF acquires_open_spool] runs_bind [OF balanced_options] runs_rules)
    (auto simp: acquires_def balanced_def split: if_splits)

text \<open>Transfers that have not begun.\<close>

definition unused :: "transfer list \<Rightarrow> bool" where
  "unused ts \<longleftrightarrow> list_all (\<lambda>t. tr_callbacks t = 0 \<and> tr_bytes t = 0) ts"

lemma unused_Nil [simp]: "unused []"
  by (simp add: unused_def)

lemma acquires_configure_all:
  "runs (configure_all d n) (\<lambda>(good, ts) es. good \<longrightarrow> (\<forall>fd. fd_net es fd = int (count_list (spools ts) fd)) \<and>
     list_all silent es \<and> unused ts)"
proof (induction n)
  case 0
  show ?case by (rule runsI) (auto intro!: exI [of _ "[]"] simp: spools_def unused_def)
next
  case (Suc n)
  show ?case unfolding configure_all.simps
    by (intro runs_bind [OF acquires_configure] runs_bind [OF Suc] runs_rules)
      (auto simp: spools_def blank_transfer_def unused_def)
qed

text \<open>The end of a transfer closes its spool and adds it to the totals.\<close>

definition totalled :: "transfer list \<Rightarrow> totals \<Rightarrow> totals \<Rightarrow> (call \<times> reply) list \<Rightarrow> bool" where
  "totalled ts tt uu es \<longleftrightarrow> (\<forall>fd. fd_net es fd = - int (count_list (spools ts) fd)) \<and> list_all silent es \<and>
     tt_callbacks uu = tt_callbacks tt + sum_list (map tr_callbacks ts) \<and> tt_bytes uu = tt_bytes tt + sum_list (map tr_bytes ts)"

lemma closes_settle_transfer: "runs (settle_transfer m t tt) (\<lambda>uu es. totalled [t] tt uu es)"
  unfolding settle_transfer_def by (intro runs_rules) (auto simp: add_transfer_def totalled_def spools_def)

lemma closes_transfers: "runs (each (settle_transfer m) ts tt) (\<lambda>uu es. totalled ts tt uu es)"
proof (induction ts arbitrary: tt)
  case Nil
  show ?case by (rule runsI) (auto intro!: exI [of _ "[]"] simp: spools_def totalled_def)
next
  case (Cons t ts)
  show ?case unfolding each.simps
    by (intro runs_bind [OF closes_settle_transfer] runs_weaken [OF Cons]) (auto simp: spools_def totalled_def)
qed

lemma runs_add_handles:
  "runs (each add_handle ts us) (\<lambda>vs es. balanced es \<and> spools vs = spools us @ spools ts \<and> (unused us \<longrightarrow> unused ts \<longrightarrow> unused vs))"
proof (induction ts arbitrary: us)
  case Nil
  show ?case by (rule runsI) (auto intro!: exI [of _ "[]"] simp: spools_def)
next
  case (Cons t ts)
  have one: "runs (add_handle t us) (\<lambda>vs es. balanced es \<and> vs = us @ [t\<lparr>tr_in_multi := True\<rparr>])"
    unfolding add_handle_def by (intro runs_rules) (auto intro!: balanced_Cons)
  show ?case unfolding each.simps
    by (intro runs_bind [OF one] runs_weaken [OF Cons]) (auto intro!: balanced_append simp: spools_def unused_def)
qed

lemma balanced_allocates: "runs allocates (\<lambda>_ es. balanced es)"
  unfolding allocates_def by (intro runs_rules) (simp add: balanced_def)

lemma runs_end_transfers:
  "runs (end_transfers rc) (\<lambda>x es. \<forall>tt. x = Some tt \<longrightarrow> totalled (rc_transfers rc) no_totals tt es)"
  unfolding end_transfers_def
  by (intro runs_bind [OF balanced_now] runs_bind [OF runs_observe_parts] runs_bind [OF balanced_allocates]
      runs_bind [OF closes_transfers] runs_rules)
    (auto simp: balanced_def totalled_def)

lemma kept_start: "unused us \<Longrightarrow> kept (spools us) (no_counters, us) \<and> spooled (no_counters, us) = 0"
proof -
  assume u: "unused us"
  have "sum_list (map f us) = 0" if "\<forall>t \<in> set us. f t = 0" for f :: "transfer \<Rightarrow> u64"
    using that by (induction us) simp_all
  with u show ?thesis by (simp add: kept_def no_counters_def spools_def spooled_def sum_list_replicate unused_def list_all_iff)
qed

text \<open>All transfers, from their start.\<close>

definition transferred :: "(reply \<Rightarrow> callback list) \<Rightarrow> transfer list \<Rightarrow> reactor \<Rightarrow> (call \<times> reply) list \<Rightarrow> bool" where
  "transferred d ts rc es \<longleftrightarrow> (\<forall>fd. fd_net es fd = 0) \<and> spools (rc_transfers rc) = spools ts \<and>
     ct_write_calls (rc_counters rc) + of_nat (failed_writes es) = of_nat (delivered d es) \<and>
     sum_list (map tr_callbacks (rc_transfers rc)) = ct_write_calls (rc_counters rc) \<and>
     sum_list (ct_write_hist (rc_counters rc)) = ct_write_calls (rc_counters rc) \<and>
     (failed_writes es = 0 \<longrightarrow> sum_list (map tr_bytes (rc_transfers rc)) = of_nat (write_total es))"

lemma runs_run_spools:
  assumes "unused ts"
  shows "runs (run_transfers deliveries due n interval ts) (\<lambda>(_, rc) es. transferred deliveries ts rc es)"
proof -
  from kept_start [OF assms] have k: "kept (spools ts) (no_counters, ts)" and z: "spooled (no_counters, ts) = 0" by simp_all
  show ?thesis
    by (rule runs_weaken [OF runs_run_transfers [OF k]])
      (use z in \<open>auto simp: kept_def counted_def transferred_def spooled_def spools_def no_counters_def\<close>)
qed

text \<open>What a run that comes to its end reports.\<close>

definition spool_report :: "(reply \<Rightarrow> callback list) \<Rightarrow> (int \<times> (counters \<times> totals) option) \<Rightarrow> (call \<times> reply) list \<Rightarrow> bool" where
  "spool_report d x es \<longleftrightarrow> (case x of
     (status, Some (ct, tt)) \<Rightarrow> (\<forall>fd. fd_net es fd = 0) \<and>
       tt_callbacks tt + of_nat (failed_writes es) = of_nat (delivered d es) \<and>
       ct_write_calls ct = tt_callbacks tt \<and> sum_list (ct_write_hist ct) = tt_callbacks tt \<and>
       (failed_writes es = 0 \<longrightarrow> tt_bytes tt = of_nat (write_total es)) \<and> (status = 0 \<longrightarrow> tt_failures tt = 0)
   | _ \<Rightarrow> True)"

lemma reported:
  assumes "balanced a" "balanced b" "balanced c" "balanced d" and "list_all silent es"
    and "\<forall>fd. fd_net es fd = int (count_list (spools ts) fd)"
    and "transferred dl us rc fs" and "spools us = spools [] @ spools ts" and "totalled (rc_transfers rc) no_totals tt gs"
    and "status = 0 \<longrightarrow> tt_failures tt = 0"
  shows "spool_report dl (status, Some (rc_counters rc, tt)) ((Env (Curl ''global_init''), r1) # a @ b @ es @ c @
    (Env (Curl ''multi_init''), r2) # (Env (Curl ''multi_setopt''), r3) # d @ fs @ gs @ [(Env (Curl ''global_cleanup''), r4)])"
proof -
  have "list_all silent gs" using assms(9) by (simp add: totalled_def)
  note silent_heard [OF this, of dl] silent_heard [OF assms(5), of dl]
  with assms show ?thesis
    by (simp add: spool_report_def transferred_def totalled_def no_totals_def balanced_heard spools_def)
qed

lemma runs_spool_run: "runs (spool_run deliveries due interval n k d) (spool_report deliveries)"
proof -
  have early: "spool_report deliveries (1, None) es" for es by (simp add: spool_report_def)
  show ?thesis
    unfolding spool_run_def
    by (intro runs_bind [OF runs_observe_parts] runs_bind [OF balanced_allocates] runs_bind [OF acquires_configure_all]
        runs_bind [OF runs_add_handles] runs_bind [OF runs_run_spools] runs_bind [OF runs_end_transfers] runs_rules)
      (auto intro!: reported simp: early)
qed

text \<open>
  C35. When the program comes to its end it has closed every spool it opened exactly once.  The
  callbacks it reports are the data callbacks libcurl made less those whose write failed, both read
  off the calls of the run; the counter of writes and the buckets of the histogram agree with it;
  and when no write failed the bytes it reports are the bytes all writes took.  Status 0 means that
  no transfer failed.
\<close>

theorem spool_main_accounts:
  assumes "spool_main deliveries due interval argv w = Some ((status, Some (ct, tt)), w')"
  shows "\<exists>es. emits w w' es \<and> (\<forall>fd. fd_net es fd = 0) \<and>
    tt_callbacks tt + of_nat (failed_writes es) = of_nat (delivered deliveries es) \<and>
    ct_write_calls ct = tt_callbacks tt \<and> sum_list (ct_write_hist ct) = tt_callbacks tt \<and>
    (failed_writes es = 0 \<longrightarrow> tt_bytes tt = of_nat (write_total es)) \<and> (status = 0 \<longrightarrow> tt_failures tt = 0)"
proof -
  from assms obtain n k where "spool_run deliveries due interval n k (argv ! 4) w = Some ((status, Some (ct, tt)), w')"
    by (auto simp: spool_main_def Let_def split: if_splits)
  from runsD [OF runs_spool_run this] obtain es where "emits w w' es" "spool_report deliveries (status, Some (ct, tt)) es"
    by blast
  then show ?thesis by (intro exI [of _ es]) (simp add: spool_report_def)
qed

text \<open>One transfer and two callbacks: three bytes that are written, and one that finds no space.\<close>

definition spool_script :: "reply list" where
  "spool_script = replicate 4 (ok 0) @ [ok 1] @ [ok 5, ok 0, ok 77] @ replicate 20 (ok 0) @ [ok 9] @ replicate 3 (ok 0) @
     [ok_out 0 [1, 0], ok_out 0 [1, 5], ok_out 0 [0], ok_out 0 [1, 10], ok 3, ok_out 0 [1, 30], ok_out 0 [1, 40],
      ok_out 0 [1, 45], err 28, ok_out 0 [1, 50]] @
     replicate 5 (ok 0) @ [ok 1, ok 1] @ replicate 9 (ok 0)"

definition spool_argv :: "string list" where
  "spool_argv = [''spool'', ''1'', ''url'', ''ca'', ''dir'']"

definition spool_deliveries :: "reply \<Rightarrow> callback list" where
  "spool_deliveries r = [Write_to 0 [1, 2, 3], Write_to 0 [4]]"

lemma run_spool:
  "map_option (\<lambda>x. (fst (fst x), map_option (\<lambda>(ct, tt). (ct_write_calls ct, tt_bytes tt)) (snd (fst x)), w_script (snd x)))
     (spool_main spool_deliveries (\<lambda>_. False) 0 spool_argv (boot spool_script)) = Some (0, Some (1, 3), [])"
  by code_simp

lemma spool_main_accounts_witness:
  "\<exists>ct tt w' es. spool_main spool_deliveries (\<lambda>_. False) 0 spool_argv (boot spool_script) = Some ((0, Some (ct, tt)), w') \<and>
    emits (boot spool_script) w' es \<and> (\<forall>fd. fd_net es fd = 0) \<and> tt_callbacks tt = 1 \<and>
    1 + of_nat (failed_writes es) = (of_nat (delivered spool_deliveries es) :: u64)"
proof -
  from run_spool obtain ct tt w' where run:
    "spool_main spool_deliveries (\<lambda>_. False) 0 spool_argv (boot spool_script) = Some ((0, Some (ct, tt)), w')"
    "ct_write_calls ct = 1" by fastforce
  from spool_main_accounts [OF run(1)] run(2) obtain es where
    "emits (boot spool_script) w' es" "\<forall>fd. fd_net es fd = 0" "tt_callbacks tt = 1"
    "1 + of_nat (failed_writes es) = (of_nat (delivered spool_deliveries es) :: u64)" by auto
  with run(1) show ?thesis by blast
qed

end
