(* ===== verification/Lifetimes_Memory.thy ===== *)
theory Lifetimes_Memory
  imports Script_Loop "HOL-Library.Multiset"
begin

text \<open>
  The allocator of the execution lifetime fixture, \<open>probe.c\<close>: every block has a header with its size
  and its category, 0 for the fixture's own and 1 for libcurl's, and the live bytes of each category
  are counted.  Addresses are handles given in order, 0 the null pointer: the code only compares
  them with null, and \<open>malloc\<close> never gives one that is in use.
\<close>

section \<open>Blocks\<close>

record block =
  bk_size :: u64
  bk_category :: nat
  bk_bytes :: "byte list"

record memory =
  mm_live :: "u64 list"
  mm_peak :: "u64 list"
  mm_blocks :: "(nat \<times> block) list"
  mm_next :: nat

definition no_memory :: memory where
  "no_memory = \<lparr>mm_live = [0, 0], mm_peak = [0, 0], mm_blocks = [], mm_next = 1\<rparr>"

text \<open>The size of the header; the sum with it may wrap around.\<close>

abbreviation HEADER :: u64 where "HEADER \<equiv> 16"

definition add_block :: "u64 \<Rightarrow> nat \<Rightarrow> byte list \<Rightarrow> memory \<Rightarrow> memory" where
  "add_block n cat bs m =
     (let now = mm_live m ! cat + n
      in m\<lparr>mm_live := (mm_live m)[cat := now],
           mm_peak := (if now > mm_peak m ! cat then (mm_peak m)[cat := now] else mm_peak m),
           mm_blocks := (mm_next m, \<lparr>bk_size = n, bk_category = cat, bk_bytes = bs\<rparr>) # mm_blocks m,
           mm_next := mm_next m + 1\<rparr>)"

definition allocate :: "u64 \<Rightarrow> nat \<Rightarrow> memory \<Rightarrow> world \<Rightarrow> ((nat \<times> memory) \<times> world) option" where
  "allocate n cat m w = do {
     (r, w) \<leftarrow> sys (Env (Malloc (unat (HEADER + n)))) w;
     if r_ret r = 0 then Some ((0, m), w)
     else Some ((mm_next m, add_block n cat (drop (unat HEADER) (r_data r)) m), w)
   }"

fun drop_block :: "nat \<Rightarrow> (nat \<times> block) list \<Rightarrow> (nat \<times> block) list" where
  "drop_block p [] = []"
| "drop_block p (b # bs) = (if fst b = p then bs else b # drop_block p bs)"

definition remove_block :: "nat \<Rightarrow> block \<Rightarrow> memory \<Rightarrow> memory" where
  "remove_block p b m = m\<lparr>mm_live := (mm_live m)[bk_category b := mm_live m ! bk_category b - bk_size b],
     mm_blocks := drop_block p (mm_blocks m)\<rparr>"

text \<open>Releasing what is not allocated is undefined, and has no completed run.\<close>

definition release :: "nat \<Rightarrow> memory \<Rightarrow> world \<Rightarrow> (memory \<times> world) option" where
  "release p m w =
     (if p = 0 then Some (m, w)
      else (case map_of (mm_blocks m) p of
          None \<Rightarrow> None
        | Some b \<Rightarrow> do { (_, w) \<leftarrow> sys (Env (Free (bk_bytes b))) w; Some (remove_block p b m, w) }))"

section \<open>The allocation functions given to libcurl\<close>

definition cm :: "u64 \<Rightarrow> memory \<Rightarrow> world \<Rightarrow> ((nat \<times> memory) \<times> world) option" where
  "cm n m w = allocate n 1 m w"

text \<open>\<open>memcpy\<close> to the start of block \<open>p\<close>.\<close>

definition stored :: "nat \<Rightarrow> byte list \<Rightarrow> nat \<times> block \<Rightarrow> nat \<times> block" where
  "stored p bs x = (fst x, if fst x = p then (snd x)\<lparr>bk_bytes := bs @ drop (length bs) (bk_bytes (snd x))\<rparr> else snd x)"

definition store_bytes :: "nat \<Rightarrow> byte list \<Rightarrow> memory \<Rightarrow> memory" where
  "store_bytes p bs m = m\<lparr>mm_blocks := map (stored p bs) (mm_blocks m)\<rparr>"

definition cr :: "nat \<Rightarrow> u64 \<Rightarrow> memory \<Rightarrow> world \<Rightarrow> ((nat \<times> memory) \<times> world) option" where
  "cr p n m w =
     (if p = 0 then cm n m w
      else (case map_of (mm_blocks m) p of
          None \<Rightarrow> None
        | Some b \<Rightarrow> do {
            ((q, m), w) \<leftarrow> cm n m w;
            if q = 0 then Some ((0, m), w)
            else do {
              let m = store_bytes q (take (unat (if bk_size b < n then bk_size b else n)) (bk_bytes b)) m;
              (m, w) \<leftarrow> release p m w;
              Some ((q, m), w)
            }
          }))"

definition cs :: "string \<Rightarrow> memory \<Rightarrow> world \<Rightarrow> ((nat \<times> memory) \<times> world) option" where
  "cs s m w = do {
     ((p, m), w) \<leftarrow> cm (of_nat (length s) + 1) m w;
     if p = 0 then Some ((0, m), w) else Some ((p, store_bytes p (bytes_of s @ [0]) m), w)
   }"

definition cc :: "u64 \<Rightarrow> u64 \<Rightarrow> memory \<Rightarrow> world \<Rightarrow> ((nat \<times> memory) \<times> world) option" where
  "cc a b m w =
     (if b \<noteq> 0 \<and> a > - 1 div b then Some ((0, m), w)
      else do {
        ((p, m), w) \<leftarrow> cm (a * b) m w;
        if p = 0 then Some ((0, m), w) else Some ((p, store_bytes p (replicate (unat (a * b)) 0) m), w)
      })"

text \<open>What libcurl does with its memory during one call; it only gives back what it was given.\<close>

datatype mem_op = Cm u64 | Cr nat u64 | Cs string | Cc u64 u64 | Cfree nat

definition curls :: "nat \<Rightarrow> memory \<Rightarrow> bool" where
  "curls p m \<longleftrightarrow> p = 0 \<or> map_option bk_category (map_of (mm_blocks m) p) = Some 1"

definition mem_op_step :: "mem_op \<Rightarrow> memory \<Rightarrow> world \<Rightarrow> (memory \<times> world) option" where
  "mem_op_step x m w =
     (case x of
        Cm n \<Rightarrow> do { ((_, m), w) \<leftarrow> cm n m w; Some (m, w) }
      | Cr p n \<Rightarrow> if \<not> curls p m then None
          else do { ((_, m), w) \<leftarrow> cr p n m w; Some (m, w) }
      | Cs s \<Rightarrow> do { ((_, m), w) \<leftarrow> cs s m w; Some (m, w) }
      | Cc a b \<Rightarrow> do { ((_, m), w) \<leftarrow> cc a b m w; Some (m, w) }
      | Cfree p \<Rightarrow> if \<not> curls p m then None else release p m w)"

section \<open>The accounts\<close>

definition bytes_in :: "nat \<Rightarrow> memory \<Rightarrow> u64" where
  "bytes_in cat m = sum_list (map (\<lambda>b. if bk_category (snd b) = cat then bk_size (snd b) else 0) (mm_blocks m))"

definition handles_in :: "nat \<Rightarrow> memory \<Rightarrow> nat multiset" where
  "handles_in cat m = mset (map fst (filter (\<lambda>b. bk_category (snd b) = cat) (mm_blocks m)))"

definition memory_ok :: "memory \<Rightarrow> bool" where
  "memory_ok m \<longleftrightarrow> length (mm_live m) = 2 \<and> length (mm_peak m) = 2 \<and> 0 < mm_next m \<and>
     distinct (map fst (mm_blocks m)) \<and>
     (\<forall>b \<in> set (mm_blocks m). 0 < fst b \<and> fst b < mm_next m \<and> bk_category (snd b) < 2) \<and>
     (\<forall>cat < 2. mm_live m ! cat = bytes_in cat m)"

lemma no_memory_ok: "memory_ok no_memory"
  by (auto simp: memory_ok_def no_memory_def bytes_in_def nth_Cons' less_2_cases_iff)

lemma add_block_ok:
  assumes "memory_ok m" and "cat < 2"
  shows "memory_ok (add_block n cat bs m)"
  using assms by (auto simp: memory_ok_def add_block_def Let_def bytes_in_def nth_list_update)

lemma handles_add_block:
  "handles_in k (add_block n cat bs m) = (if k = cat then {#mm_next m#} else {#}) + handles_in k m"
  by (auto simp: handles_in_def add_block_def Let_def)

lemma drop_block_props:
  "map_of bs p = Some b \<Longrightarrow> distinct (map fst bs) \<Longrightarrow>
     distinct (map fst (drop_block p bs)) \<and> set (drop_block p bs) \<subseteq> set bs \<and> p \<notin> fst ` set (drop_block p bs) \<and>
     sum_list (map (\<lambda>b. if bk_category (snd b) = k then bk_size (snd b) else 0) (drop_block p bs)) =
       sum_list (map (\<lambda>b. if bk_category (snd b) = k then bk_size (snd b) else 0) bs) -
       (if bk_category b = k then bk_size b else 0) \<and>
     mset (map fst (filter (\<lambda>b. bk_category (snd b) = k) bs)) =
       mset (map fst (filter (\<lambda>b. bk_category (snd b) = k) (drop_block p bs))) + (if bk_category b = k then {#p#} else {#})"
proof (induction bs)
  case (Cons a bs)
  show ?case
  proof (cases "fst a = p")
    case True
    with Cons.prems show ?thesis by auto
  next
    case False
    with Cons.prems have "map_of bs p = Some b" by (cases a) auto
    with Cons False show ?thesis by auto
  qed
qed simp

lemma remove_block_ok:
  assumes "memory_ok m" and "map_of (mm_blocks m) p = Some b"
  shows "memory_ok (remove_block p b m)"
    and "handles_in k m = handles_in k (remove_block p b m) + (if bk_category b = k then {#p#} else {#})"
proof -
  have d: "distinct (map fst (mm_blocks m))" using assms(1) by (simp add: memory_ok_def)
  note props = drop_block_props [OF assms(2) d]
  show "handles_in k m = handles_in k (remove_block p b m) + (if bk_category b = k then {#p#} else {#})"
    using props [of k] by (simp add: handles_in_def remove_block_def)
  have "bk_category b < 2" using assms map_of_SomeD [OF assms(2)] by (auto simp: memory_ok_def)
  with assms(1) props show "memory_ok (remove_block p b m)"
    by (auto simp: memory_ok_def remove_block_def bytes_in_def nth_list_update)
qed

lemma stored_same [simp]:
  "fst (stored p bs x) = fst x" "bk_category (snd (stored p bs x)) = bk_category (snd x)"
  "bk_size (snd (stored p bs x)) = bk_size (snd x)"
  by (simp_all add: stored_def)

lemma store_bytes_ok [simp]:
  "memory_ok (store_bytes p bs m) = memory_ok m" "handles_in k (store_bytes p bs m) = handles_in k m"
  "mm_next (store_bytes p bs m) = mm_next m"
  by (simp_all add: memory_ok_def store_bytes_def bytes_in_def handles_in_def comp_def filter_map cong: if_cong)

section \<open>What each function does to the accounts\<close>

text \<open>
  \<open>gives\<close>: the memory is still in order and holds one more block of the category, or none and the
  result is null.  \<open>same_own\<close>: the fixture's own blocks are the same.
\<close>

definition gives :: "nat \<Rightarrow> memory \<Rightarrow> nat \<Rightarrow> memory \<Rightarrow> bool" where
  "gives cat m p m' \<longleftrightarrow> memory_ok m' \<and> mm_next m \<le> mm_next m' \<and>
     handles_in 0 m' = handles_in 0 m + (if cat = 0 \<and> p \<noteq> 0 then {#p#} else {#})"

definition same_own :: "memory \<Rightarrow> memory \<Rightarrow> bool" where
  "same_own m m' \<longleftrightarrow> (memory_ok m \<longrightarrow> memory_ok m' \<and> handles_in 0 m' = handles_in 0 m)"

lemma same_own_refl [simp]: "same_own m m"
  by (simp add: same_own_def)

lemma same_own_trans: "same_own m m' \<Longrightarrow> same_own m' m'' \<Longrightarrow> same_own m m''"
  by (simp add: same_own_def)

text \<open>The calls of the allocator touch no descriptor.\<close>

definition no_descriptors :: "(call \<times> reply) list \<Rightarrow> bool" where
  "no_descriptors es \<longleftrightarrow> (\<forall>fd. fd_net es fd = 0)"

lemma no_descriptors_simps [simp]:
  "no_descriptors []" "no_descriptors (e # es) \<longleftrightarrow> (\<forall>fd. fd_delta e fd + fd_net es fd = 0)"
  by (simp_all add: no_descriptors_def)

lemma no_descriptors_append: "no_descriptors es \<Longrightarrow> no_descriptors fs \<Longrightarrow> no_descriptors (es @ fs)"
  by (simp add: no_descriptors_def)

lemma runs_allocate:
  "cat < 2 \<Longrightarrow> memory_ok m \<Longrightarrow> runs (allocate n cat m) (\<lambda>(p, m') es. no_descriptors es \<and> gives cat m p m' \<and>
     (p \<noteq> 0 \<longrightarrow> map_option bk_category (map_of (mm_blocks m') p) = Some cat) \<and>
     (\<forall>q. q < mm_next m \<longrightarrow> map_of (mm_blocks m') q = map_of (mm_blocks m) q))"
  unfolding allocate_def
  by (intro runs_rules) (auto simp: gives_def add_block_ok handles_add_block, auto simp: add_block_def Let_def memory_ok_def)

lemma runs_release:
  assumes "memory_ok m" and "p \<noteq> 0 \<Longrightarrow> map_option bk_category (map_of (mm_blocks m) p) = Some cat"
  shows "runs (release p m) (\<lambda>m' es. no_descriptors es \<and> memory_ok m' \<and>
    handles_in 0 m = handles_in 0 m' + (if cat = 0 \<and> p \<noteq> 0 then {#p#} else {#}))"
  unfolding release_def
proof (intro runs_rules)
  fix b r
  assume "p \<noteq> 0" and b: "map_of (mm_blocks m) p = Some b"
  with assms(2) have "bk_category b = cat" by simp
  with remove_block_ok [OF assms(1) b] \<open>p \<noteq> 0\<close> show "no_descriptors [(Env (Free (bk_bytes b)), r)] \<and> memory_ok (remove_block p b m) \<and>
      handles_in 0 m = handles_in 0 (remove_block p b m) + (if cat = 0 \<and> p \<noteq> 0 then {#p#} else {#})"
    by auto
qed (use assms in auto)

text \<open>A call of libcurl's allocator: the fixture's own blocks stay.\<close>

lemma live_handle: "memory_ok m \<Longrightarrow> map_of (mm_blocks m) p = Some b \<Longrightarrow> 0 < p \<and> p < mm_next m"
  by (drule map_of_SomeD) (force simp: memory_ok_def)

lemma category_store_bytes [simp]:
  "map_option bk_category (map_of (mm_blocks (store_bytes p bs m)) q) = map_option bk_category (map_of (mm_blocks m) q)"
proof -
  have "map_option bk_category (map_of (map (stored p bs) xs) q) = map_option bk_category (map_of xs q)" for xs
    by (induction xs) (auto simp: stored_def)
  then show ?thesis by (simp add: store_bytes_def)
qed

lemma runs_cm:
  "memory_ok m \<Longrightarrow> runs (cm n m) (\<lambda>(p, m') es. no_descriptors es \<and> memory_ok m' \<and> handles_in 0 m' = handles_in 0 m \<and>
     (\<forall>q. q < mm_next m \<longrightarrow> map_of (mm_blocks m') q = map_of (mm_blocks m) q))"
  unfolding cm_def by (rule runs_weaken [OF runs_allocate]) (auto simp: gives_def)

lemma runs_cr:
  assumes "memory_ok m" and "curls p m"
  shows "runs (cr p n m) (\<lambda>(q, m') es. no_descriptors es \<and> memory_ok m' \<and> handles_in 0 m' = handles_in 0 m)"
proof -
  have free: "runs (release p (store_bytes q bs m')) (\<lambda>m'' es. no_descriptors es \<and> memory_ok m'' \<and> handles_in 0 m' = handles_in 0 m'')"
    if "memory_ok m'" "p \<noteq> 0" "\<forall>q. q < mm_next m \<longrightarrow> map_of (mm_blocks m') q = map_of (mm_blocks m) q" for q bs m'
  proof -
    have "map_option bk_category (map_of (mm_blocks m) p) = Some 1" using assms(2) that(2) by (simp add: curls_def)
    moreover from this live_handle [OF assms(1)] have "p < mm_next m" by auto
    ultimately have "map_option bk_category (map_of (mm_blocks (store_bytes q bs m')) p) = Some 1" using that(3) by simp
    then show ?thesis by (intro runs_weaken [OF runs_release [where cat = 1]]) (simp_all add: that(1))
  qed
  show ?thesis unfolding cr_def
    by (intro runs_bind [OF runs_cm [OF assms(1)]] runs_bind [OF free] runs_weaken [OF runs_cm [OF assms(1)]] runs_rules)
      (auto intro: no_descriptors_append)
qed

lemma runs_cs: "memory_ok m \<Longrightarrow> runs (cs s m) (\<lambda>(p, m') es. no_descriptors es \<and> memory_ok m' \<and> handles_in 0 m' = handles_in 0 m)"
  unfolding cs_def by (intro runs_bind [OF runs_cm] runs_rules) auto

lemma runs_cc: "memory_ok m \<Longrightarrow> runs (cc a b m) (\<lambda>(p, m') es. no_descriptors es \<and> memory_ok m' \<and> handles_in 0 m' = handles_in 0 m)"
  unfolding cc_def by (intro runs_bind [OF runs_cm] runs_rules) auto

lemma runs_mem_op_step:
  assumes "memory_ok m"
  shows "runs (mem_op_step x m) (\<lambda>m' es. no_descriptors es \<and> memory_ok m' \<and> handles_in 0 m' = handles_in 0 m)"
proof (cases x)
  case (Cfree p)
  have "curls p m \<Longrightarrow> runs (release p m) (\<lambda>m' es. no_descriptors es \<and> memory_ok m' \<and> handles_in 0 m = handles_in 0 m')"
    by (intro runs_weaken [OF runs_release [OF assms, where cat = 1]]) (auto simp: curls_def)
  then show ?thesis unfolding mem_op_step_def Cfree mem_op.case
    by (intro runs_rules) (auto intro: runs_weaken)
next
  case (Cr p n)
  then show ?thesis unfolding mem_op_step_def Cr mem_op.case
    by (intro runs_rules runs_bind [OF runs_cr [OF assms]]) auto
next
  case (Cm n)
  then show ?thesis unfolding mem_op_step_def mem_op.case
    by (simp only: mem_op.case, intro runs_bind [OF runs_cm [OF assms]] runs_rules) auto
next
  case (Cs s)
  then show ?thesis unfolding mem_op_step_def mem_op.case
    by (simp only: mem_op.case, intro runs_bind [OF runs_cs [OF assms]] runs_rules) auto
next
  case (Cc a b)
  then show ?thesis unfolding mem_op_step_def mem_op.case
    by (simp only: mem_op.case, intro runs_bind [OF runs_cc [OF assms]] runs_rules) auto
qed

text \<open>Any number of calls.\<close>

lemma runs_mem_ops:
  assumes "memory_ok m"
  shows "runs (each mem_op_step xs m) (\<lambda>m' es. no_descriptors es \<and> memory_ok m' \<and> handles_in 0 m' = handles_in 0 m)"
  by (rule runs_each [where I = "\<lambda>_ m' es. no_descriptors es \<and> memory_ok m' \<and> handles_in 0 m' = handles_in 0 m"])
    (use assms in \<open>auto intro!: runs_weaken [OF runs_mem_op_step] no_descriptors_append\<close>)

lemma no_blocks_none_live:
  assumes "memory_ok m" and "handles_in cat m = {#}" and "cat < 2"
  shows "mm_live m ! cat = 0"
proof -
  have "filter (\<lambda>b. bk_category (snd b) = cat) xs = [] \<Longrightarrow>
      sum_list (map (\<lambda>b. if bk_category (snd b) = cat then bk_size (snd b) else 0) xs) = 0" for xs :: "(nat \<times> block) list"
    by (induction xs) (auto split: if_splits)
  moreover have "filter (\<lambda>b. bk_category (snd b) = cat) (mm_blocks m) = []"
    using assms(2) by (simp only: handles_in_def mset_zero_iff map_is_Nil_conv)
  ultimately have "bytes_in cat m = 0" unfolding bytes_in_def by blast
  with assms(1,3) show ?thesis by (simp add: memory_ok_def)
qed

section \<open>The bytes of a block\<close>

definition bytes_at :: "nat \<Rightarrow> memory \<Rightarrow> byte list option" where
  "bytes_at p m = map_option bk_bytes (map_of (mm_blocks m) p)"

lemma map_of_drop_block: "q \<noteq> p \<Longrightarrow> map_of (drop_block p bs) q = map_of bs q"
  by (induction bs) auto

lemma map_of_dropped: "distinct (map fst bs) \<Longrightarrow> map_of (drop_block p bs) p = None"
  by (induction bs) (auto simp: map_of_eq_None_iff)

lemma map_of_stored:
  "map_of (map (stored p bs) xs) q =
     map_option (\<lambda>b. if q = p then b\<lparr>bk_bytes := bs @ drop (length bs) (bk_bytes b)\<rparr> else b) (map_of xs q)"
  by (induction xs) (auto simp: stored_def)

text \<open>
  A reallocation that succeeds gives a block that starts with the bytes of the old one, as many
  as fit, and the old block is gone; one that fails leaves the memory as it was.
\<close>

lemma realloc_keeps_bytes:
  assumes "memory_ok m" and "map_of (mm_blocks m) p = Some b" and "cr p n m w = Some ((q, m'), w')"
  shows "if q = 0 then m' = m
    else bytes_at p m' = None \<and>
      (\<exists>rest. bytes_at q m' = Some (take (min (unat (bk_size b)) (unat n)) (bk_bytes b) @ rest))"
proof -
  from live_handle [OF assms(1,2)] have p: "p \<noteq> 0" "p < mm_next m" by simp_all
  let ?k = "unat (if bk_size b < n then bk_size b else n)"
  have k: "?k = min (unat (bk_size b)) (unat n)" by (simp add: word_less_nat_alt min_def)
  from assms(3) p(1) assms(2) obtain q1 m1 w1 where 1: "cm n m w = Some ((q1, m1), w1)"
    and rest: "if q1 = 0 then q = 0 \<and> m' = m1
      else q = q1 \<and> (\<exists>w2. release p (store_bytes q1 (take ?k (bk_bytes b)) m1) w1 = Some (m', w2))"
    unfolding cr_def by (auto split: if_splits)
  show ?thesis
  proof (cases "q1 = 0")
    case True
    with rest 1 assms(1) show ?thesis by (auto simp: cm_def allocate_def memory_ok_def split: if_splits)
  next
    case False
    with 1 obtain bs where m1: "q1 = mm_next m" "m1 = add_block n 1 bs m"
      by (auto simp: cm_def allocate_def split: if_splits)
    have ok: "distinct (map fst (mm_blocks m1))"
      using add_block_ok [OF assms(1), of 1 n bs] m1(2) by (simp add: memory_ok_def)
    let ?s = "store_bytes q1 (take ?k (bk_bytes b)) m1"
    from False rest obtain w2 where q: "q = q1" "release p ?s w1 = Some (m', w2)" by auto
    then obtain b' where m': "m' = remove_block p b' ?s" using p(1) by (auto simp: release_def split: option.splits)
    have "distinct (map fst (mm_blocks ?s))" using ok by (simp add: store_bytes_def comp_def)
    then have "bytes_at p m' = None" by (simp add: bytes_at_def m' remove_block_def map_of_dropped)
    moreover have "\<exists>rest. bytes_at q m' = Some (take ?k (bk_bytes b) @ rest)"
      using p(2) by (simp add: bytes_at_def m' q(1) m1 remove_block_def map_of_drop_block store_bytes_def map_of_stored add_block_def Let_def stored_def)
    ultimately show ?thesis using False q(1) unfolding k by simp
  qed
qed

lemma realloc_keeps_bytes_witness:
  "\<exists>m' w'. cr 1 2 \<lparr>mm_live = [0, 3], mm_peak = [0, 3], mm_blocks = [(1, \<lparr>bk_size = 3, bk_category = 1, bk_bytes = [7, 8, 9]\<rparr>)], mm_next = 2\<rparr>
      (boot [\<lparr>r_ret = 1, r_errno = 0, r_out = [], r_data = replicate 18 0\<rparr>, ok 0]) = Some ((2, m'), w') \<and>
    bytes_at 1 m' = None \<and> (\<exists>rest. bytes_at 2 m' = Some ([7, 8] @ rest))"
proof -
  let ?m = "\<lparr>mm_live = [0, 3], mm_peak = [0, 3], mm_blocks = [(1, \<lparr>bk_size = 3, bk_category = 1, bk_bytes = [7, 8, 9]\<rparr>)], mm_next = 2\<rparr>"
  let ?w = "boot [\<lparr>r_ret = 1, r_errno = 0, r_out = [], r_data = replicate 18 0\<rparr>, ok 0]"
  have "map_option (\<lambda>x. fst (fst x)) (cr 1 2 ?m ?w) = Some 2" by code_simp
  then obtain m' w' where run: "cr 1 2 ?m ?w = Some ((2, m'), w')" by auto
  have "memory_ok ?m" by (auto simp: memory_ok_def bytes_in_def nth_Cons' less_2_cases_iff)
  from realloc_keeps_bytes [OF this _ run] have "bytes_at 1 m' = None \<and> (\<exists>rest. bytes_at 2 m' = Some ([7, 8] @ rest))" by simp
  with run show ?thesis by blast
qed

end
