(* ===== verification/Lifetimes.thy ===== *)
theory Lifetimes
  imports Lifetimes_Memory Bash_Platform Custody_Plan
begin

text \<open>
  The execution lifetime fixture, \<open>probe.c\<close>: a table of custody slots, each with the effect it
  carries (a transfer, a shell or an edit), the capture of its output in an unlinked file, the check
  of the captured bytes and the release of everything.  An assertion that fails ends the run without
  a result.  libcurl is a parameter: \<open>memory_use\<close> is what it does with its memory in a call and
  \<open>callbacks\<close> what it hands to the callbacks, each as far as its reply tells.
\<close>

section \<open>Custody and effects\<close>

abbreviation WINDOW :: nat where "WINDOW \<equiv> 16384"
abbreviation CAP :: nat where "CAP \<equiv> 1000"
abbreviation CUSTODY_BYTES :: u64 where "CUSTODY_BYTES \<equiv> 64"
abbreviation EFFECT_BYTES :: u64 where "EFFECT_BYTES \<equiv> 64"

record effect =
  ef_easy :: int
  ef_headers :: int
  ef_window :: nat
  ef_request :: int
  ef_target :: int
  ef_in :: int
  ef_out :: int
  ef_error_source :: int
  ef_error_pipe :: int
  ef_error_bytes :: u64
  ef_pid :: int

text \<open>The effect of a slot is a block of the fixture's memory, the handle with the contents.\<close>

record custody =
  cu_operation :: u64
  cu_attempt :: u64
  cu_bytes :: u64
  cu_effect :: "(nat \<times> effect) option"
  cu_source :: int
  cu_occupied :: bool
  cu_sealed :: bool
  cu_pending :: bool
  cu_published :: bool

definition blank_effect :: effect where
  "blank_effect = \<lparr>ef_easy = 0, ef_headers = 0, ef_window = 0, ef_request = -1, ef_target = -1, ef_in = -1, ef_out = -1,
     ef_error_source = -1, ef_error_pipe = -1, ef_error_bytes = 0, ef_pid = 0\<rparr>"

definition blank_custody :: custody where
  "blank_custody = \<lparr>cu_operation = 0, cu_attempt = 0, cu_bytes = 0, cu_effect = None, cu_source = 0, cu_occupied = False,
     cu_sealed = False, cu_pending = False, cu_published = False\<rparr>"

text \<open>The counters the slots share.\<close>

record holdings =
  ho_memory :: memory
  ho_owned_fds :: int

datatype kind = Model | Bash | Edit

record fixture =
  fx_kind :: kind
  fx_early :: bool
  fx_count :: nat
  fx_bytes :: nat

section \<open>Descriptors and bytes\<close>

definition scratch :: "holdings \<Rightarrow> world \<Rightarrow> ((int \<times> holdings) \<times> world) option" where
  "scratch h w = do {
     (f, w) \<leftarrow> sys (Fd (Mkstemp ''/tmp/rui-lifetime-XXXXXX'')) w;
     (_, w) \<leftarrow> assert (r_ret f \<ge> 0) w;
     (c, w) \<leftarrow> sys (Fd (Set_cloexec (r_ret f))) w;
     (_, w) \<leftarrow> assert (r_ret c = 0) w;
     (u, w) \<leftarrow> sys (Io (Unlink ''/tmp/rui-lifetime-XXXXXX'')) w;
     (_, w) \<leftarrow> assert (r_ret u = 0) w;
     Some ((r_ret f, h\<lparr>ho_owned_fds := ho_owned_fds h + 1\<rparr>), w)
   }"

text \<open>\<open>shut\<close> leaves -1 in the field.\<close>

definition shut :: "int \<Rightarrow> holdings \<Rightarrow> world \<Rightarrow> (holdings \<times> world) option" where
  "shut fd h w =
     (if fd \<ge> 0 then do {
        (c, w) \<leftarrow> sys (Fd (Close fd)) w;
        (_, w) \<leftarrow> assert (r_ret c = 0) w;
        Some (h\<lparr>ho_owned_fds := ho_owned_fds h - 1\<rparr>, w)
      }
      else Some (h, w))"

definition allwrite :: "int \<Rightarrow> byte list \<Rightarrow> world \<Rightarrow> (unit \<times> world) option" where
  "allwrite fd bs w = do { (e, w) \<leftarrow> write_loop progress_or_eintr fd bs w; assert (e = None) w }"

text \<open>The pattern: \<open>a\<close> and newline in turn.\<close>

definition pattern :: "nat \<Rightarrow> byte list" where
  "pattern k = map (\<lambda>i. if even i then 97 else 10) [0..<k]"

fun chunks :: "nat \<Rightarrow> nat list" where
  "chunks n = (if n = 0 then [] else min n WINDOW # chunks (n - min n WINDOW))"

declare chunks.simps [simp del]

definition rewind :: "int \<Rightarrow> world \<Rightarrow> (unit \<times> world) option" where
  "rewind fd w = do { (r, w) \<leftarrow> sys (Io (Lseek_start fd)) w; assert (r_ret r = 0) w }"

definition fill :: "int \<Rightarrow> nat \<Rightarrow> world \<Rightarrow> (unit \<times> world) option" where
  "fill fd n w = do {
     (_, w) \<leftarrow> each (\<lambda>k _. allwrite fd (pattern k)) (chunks n) () w;
     rewind fd w
   }"

text \<open>What byte \<open>i\<close> of a captured file must be.\<close>

definition expected :: "bool \<Rightarrow> nat \<Rightarrow> byte" where
  "expected edit i = (if odd i then 10 else if edit \<and> i = 0 then 98 else 97)"

definition validate_turn :: "int \<Rightarrow> bool \<Rightarrow> nat \<Rightarrow> world \<Rightarrow> ((nat + nat) \<times> world) option" where
  "validate_turn fd edit pos w = do {
     (r, w) \<leftarrow> sys (Io (Read fd WINDOW)) w;
     (_, w) \<leftarrow> assert (r_ret r \<ge> 0) w;
     if r_ret r = 0 then Some (Inr pos, w)
     else do {
       (_, w) \<leftarrow> assert (\<forall>j < nat (r_ret r). r_data r ! j = expected edit (pos + j)) w;
       Some (Inl (pos + nat (r_ret r)), w)
     }
   }"

definition validate :: "fixture \<Rightarrow> int \<Rightarrow> bool \<Rightarrow> custody \<Rightarrow> world \<Rightarrow> (custody \<times> world) option" where
  "validate fx source edit c w = do {
     (_, w) \<leftarrow> assert (cu_occupied c \<and> cu_sealed c) w;
     (_, w) \<leftarrow> rewind source w;
     (pos, w) \<leftarrow> script_loop (validate_turn source edit) 0 w;
     (_, w) \<leftarrow> assert (pos = fx_bytes fx) w;
     (_, w) \<leftarrow> assert (cu_operation c = cu_attempt c + 10000) w;
     Some (c\<lparr>cu_published := True\<rparr>, w)
   }"

section \<open>libcurl\<close>

text \<open>A call of libcurl, with its use of the memory it was given.\<close>

definition curl :: "(reply \<Rightarrow> mem_op list) \<Rightarrow> string \<Rightarrow> holdings \<Rightarrow> world \<Rightarrow> ((reply \<times> holdings) \<times> world) option" where
  "curl memory_use name h w = do {
     (r, w) \<leftarrow> sys (Env (Curl name)) w;
     (m, w) \<leftarrow> each mem_op_step (memory_use r) (ho_memory h) w;
     Some ((r, h\<lparr>ho_memory := m\<rparr>), w)
   }"

text \<open>A call that must return 0, and one that must return an object.\<close>

definition curl_ok :: "(reply \<Rightarrow> mem_op list) \<Rightarrow> string \<Rightarrow> holdings \<Rightarrow> world \<Rightarrow> (holdings \<times> world) option" where
  "curl_ok memory_use name h w = do {
     ((r, h), w) \<leftarrow> curl memory_use name h w;
     (_, w) \<leftarrow> assert (r_ret r = 0) w;
     Some (h, w)
   }"

definition curl_new :: "(reply \<Rightarrow> mem_op list) \<Rightarrow> string \<Rightarrow> holdings \<Rightarrow> world \<Rightarrow> ((int \<times> holdings) \<times> world) option" where
  "curl_new memory_use name h w = do {
     ((r, h), w) \<leftarrow> curl memory_use name h w;
     (_, w) \<leftarrow> assert (r_ret r \<noteq> 0) w;
     Some ((r_ret r, h), w)
   }"

definition transport_options :: "string list" where
  "transport_options = [''URL'', ''HTTPHEADER'', ''POST'', ''POSTFIELDSIZE_LARGE'', ''READFUNCTION'', ''READDATA'',
     ''HEADERFUNCTION'', ''WRITEFUNCTION'', ''WRITEDATA'', ''PROXY'', ''TIMEOUT_MS'']"

text \<open>The end of a transfer; the handle is looked at, a shell or an edit has none.\<close>

definition transport_done :: "(reply \<Rightarrow> mem_op list) \<Rightarrow> bool \<Rightarrow> effect \<Rightarrow> holdings \<Rightarrow> world \<Rightarrow> ((effect \<times> holdings) \<times> world) option" where
  "transport_done mu pending e h w = do {
     (_, w) \<leftarrow> assert (\<not> pending) w;
     ((e, h), w) \<leftarrow> (if ef_easy e \<noteq> 0 then do {
         (h, w) \<leftarrow> curl_ok mu ''multi_remove_handle'' h w;
         ((_, h), w) \<leftarrow> curl mu ''easy_cleanup'' h w;
         ((_, h), w) \<leftarrow> curl mu ''slist_free_all'' h w;
         Some ((e\<lparr>ef_easy := 0, ef_headers := 0\<rparr>, h), w)
       }
       else Some ((e, h), w));
     (h, w) \<leftarrow> shut (ef_request e) h w;
     Some ((e\<lparr>ef_request := -1\<rparr>, h), w)
   }"

section \<open>Setting a slot up\<close>

definition new_block :: "u64 \<Rightarrow> holdings \<Rightarrow> world \<Rightarrow> ((nat \<times> holdings) \<times> world) option" where
  "new_block n h w = do {
     ((p, m), w) \<leftarrow> allocate n 0 (ho_memory h) w;
     (_, w) \<leftarrow> assert (p \<noteq> 0) w;
     Some ((p, h\<lparr>ho_memory := m\<rparr>), w)
   }"

definition free_block :: "nat \<Rightarrow> holdings \<Rightarrow> world \<Rightarrow> (holdings \<times> world) option" where
  "free_block p h w = do { (m, w) \<leftarrow> release p (ho_memory h) w; Some (h\<lparr>ho_memory := m\<rparr>, w) }"

definition setup_model :: "(reply \<Rightarrow> mem_op list) \<Rightarrow> effect \<Rightarrow> holdings \<Rightarrow> world \<Rightarrow> ((effect \<times> holdings) \<times> world) option" where
  "setup_model mu e h w = do {
     ((f, h), w) \<leftarrow> scratch h w;
     (_, w) \<leftarrow> fill f 128 w;
     ((easy, h), w) \<leftarrow> curl_new mu ''easy_init'' h w;
     ((headers, h), w) \<leftarrow> curl_new mu ''slist_append'' h w;
     (h, w) \<leftarrow> each (curl_ok mu) transport_options h w;
     (h, w) \<leftarrow> curl_ok mu ''multi_add_handle'' h w;
     Some ((e\<lparr>ef_request := f, ef_easy := easy, ef_headers := headers\<rparr>, h), w)
   }"

definition setup_edit :: "fixture \<Rightarrow> effect \<Rightarrow> holdings \<Rightarrow> world \<Rightarrow> ((effect \<times> holdings) \<times> world) option" where
  "setup_edit fx e h w = do {
     ((f, h), w) \<leftarrow> scratch h w;
     (_, w) \<leftarrow> fill f (fx_bytes fx) w;
     Some ((e\<lparr>ef_target := f\<rparr>, h), w)
   }"

definition make_pipe :: "world \<Rightarrow> ((int \<times> int) \<times> world) option" where
  "make_pipe w = do {
     (p, w) \<leftarrow> sys (Fd Pipe) w;
     (_, w) \<leftarrow> assert (r_ret p = 0) w;
     Some ((out 0 p, out 1 p), w)
   }"

definition set_flag_ok :: "(int \<Rightarrow> fd_call) \<Rightarrow> int \<Rightarrow> unit \<Rightarrow> world \<Rightarrow> (unit \<times> world) option" where
  "set_flag_ok c fd u w = do { (r, w) \<leftarrow> sys (Fd (c fd)) w; assert (r_ret r = 0) w }"

text \<open>The file actions and the start of the shell; its pid.\<close>

definition spawn_shell :: "int \<times> int \<Rightarrow> int \<times> int \<Rightarrow> int \<times> int \<Rightarrow> world \<Rightarrow> (int \<times> world) option" where
  "spawn_shell a b er w = do {
     (i, w) \<leftarrow> sys (Spawn Actions_init) w;
     (_, w) \<leftarrow> assert (r_ret i = 0) w;
     (_, w) \<leftarrow> sys (Spawn (Actions_add (Add_dup2 (fst a) 0))) w;
     (_, w) \<leftarrow> sys (Spawn (Actions_add (Add_dup2 (snd b) 1))) w;
     (_, w) \<leftarrow> sys (Spawn (Actions_add (Add_dup2 (snd er) 2))) w;
     (_, w) \<leftarrow> sys (Spawn (Actions_add (Add_close (snd a)))) w;
     (_, w) \<leftarrow> sys (Spawn (Actions_add (Add_close (fst b)))) w;
     (_, w) \<leftarrow> each (set_flag_ok Set_cloexec) [fst a, snd a, fst b, snd b, fst er, snd er] () w;
     (p, w) \<leftarrow> sys (Spawn (Posix_spawn ''/bin/bash'')) w;
     (_, w) \<leftarrow> assert (r_ret p = 0) w;
     (_, w) \<leftarrow> sys (Spawn Actions_destroy) w;
     (_, w) \<leftarrow> sys (Fd (Close (fst a))) w;
     (_, w) \<leftarrow> sys (Fd (Close (snd b))) w;
     (_, w) \<leftarrow> sys (Fd (Close (snd er))) w;
     Some (out 0 p, w)
   }"

definition setup_bash :: "effect \<Rightarrow> holdings \<Rightarrow> world \<Rightarrow> ((effect \<times> holdings) \<times> world) option" where
  "setup_bash e h w = do {
     (a, w) \<leftarrow> make_pipe w;
     (b, w) \<leftarrow> make_pipe w;
     (er, w) \<leftarrow> make_pipe w;
     ((f, h), w) \<leftarrow> scratch h w;
     (pid, w) \<leftarrow> spawn_shell a b er w;
     let h = h\<lparr>ho_owned_fds := ho_owned_fds h + 3\<rparr>;
     (_, w) \<leftarrow> each (set_flag_ok Set_nonblock) [fst er, fst b] () w;
     Some ((e\<lparr>ef_error_source := f, ef_pid := pid, ef_in := snd a, ef_out := fst b, ef_error_pipe := fst er\<rparr>, h), w)
   }"

definition setup_window :: "fixture \<Rightarrow> effect \<Rightarrow> holdings \<Rightarrow> world \<Rightarrow> ((effect \<times> holdings) \<times> world) option" where
  "setup_window fx e h w =
     (if fx_kind fx \<noteq> Model \<and> \<not> fx_early fx then do {
        ((p, h), w) \<leftarrow> new_block (of_nat WINDOW) h w;
        Some ((e\<lparr>ef_window := p\<rparr>, h), w)
      }
      else Some ((e, h), w))"

definition setup_effect :: "(reply \<Rightarrow> mem_op list) \<Rightarrow> fixture \<Rightarrow> effect \<Rightarrow> holdings \<Rightarrow> world \<Rightarrow> ((effect \<times> holdings) \<times> world) option" where
  "setup_effect mu fx e h w =
     (case fx_kind fx of
        Model \<Rightarrow> setup_model mu e h w
      | Edit \<Rightarrow> setup_edit fx e h w
      | Bash \<Rightarrow> setup_bash e h w)"

definition setup_slot :: "(reply \<Rightarrow> mem_op list) \<Rightarrow> fixture \<Rightarrow> nat \<Rightarrow> custody \<Rightarrow> holdings \<Rightarrow> world \<Rightarrow> ((custody \<times> holdings) \<times> world) option" where
  "setup_slot mu fx i c h w = do {
     ((source, h), w) \<leftarrow> scratch h w;
     ((p, h), w) \<leftarrow> new_block EFFECT_BYTES h w;
     ((e, h), w) \<leftarrow> setup_window fx blank_effect h w;
     ((e, h), w) \<leftarrow> setup_effect mu fx e h w;
     Some ((c\<lparr>cu_operation := of_nat i + 10001, cu_attempt := of_nat i + 1, cu_occupied := True, cu_source := source,
       cu_effect := Some (p, e)\<rparr>, h), w)
   }"

section \<open>Work on the slots\<close>

text \<open>The holdings and the slots; a step on slot \<open>i\<close>.\<close>

type_synonym table = "holdings \<times> custody list"

definition at_slot :: "(custody \<Rightarrow> holdings \<Rightarrow> world \<Rightarrow> ((custody \<times> holdings) \<times> world) option) \<Rightarrow> nat \<Rightarrow> table \<Rightarrow> world \<Rightarrow>
    (table \<times> world) option" where
  "at_slot f i t w = (case t of (h, us) \<Rightarrow>
     if i < length us then do { ((c, h), w) \<leftarrow> f (us ! i) h w; Some ((h, us[i := c]), w) } else None)"

text \<open>A step on the effect of a slot; a slot without an effect is never worked on.\<close>

definition with_effect :: "(custody \<Rightarrow> effect \<Rightarrow> holdings \<Rightarrow> world \<Rightarrow> ((custody \<times> effect \<times> holdings) \<times> world) option) \<Rightarrow>
    custody \<Rightarrow> holdings \<Rightarrow> world \<Rightarrow> ((custody \<times> holdings) \<times> world) option" where
  "with_effect f c h w =
     (case cu_effect c of
        None \<Rightarrow> None
      | Some (p, e) \<Rightarrow> do { ((c, e, h), w) \<leftarrow> f c e h w; Some ((c\<lparr>cu_effect := Some (p, e)\<rparr>, h), w) })"

text \<open>
  The write callback.  A slot is pending from before its write to after it; a write that fails ends
  the run there, so no other operation finds the slot so.
\<close>

definition capture :: "byte list \<Rightarrow> custody \<Rightarrow> holdings \<Rightarrow> world \<Rightarrow> ((custody \<times> holdings) \<times> world) option" where
  "capture bs c h w = do {
     (_, w) \<leftarrow> assert (cu_occupied c \<and> \<not> cu_sealed c) w;
     let c = c\<lparr>cu_pending := True\<rparr>;
     (_, w) \<leftarrow> allwrite (cu_source c) bs w;
     let c = c\<lparr>cu_bytes := cu_bytes c + of_nat (length bs)\<rparr>;
     Some ((c\<lparr>cu_pending := False\<rparr>, h), w)
   }"

text \<open>The read callback: the bytes, or the abort of the transfer.\<close>

definition upload :: "nat \<Rightarrow> effect \<Rightarrow> world \<Rightarrow> (byte list option \<times> world) option" where
  "upload n e w = do {
     (r, w) \<leftarrow> sys (Io (Read (ef_request e) n)) w;
     Some (if r_ret r < 0 then None else Some (r_data r), w)
   }"

text \<open>One read of one stream of a shell, and what is left to do.\<close>

definition read_stream :: "fixture \<Rightarrow> bool \<Rightarrow> custody \<Rightarrow> effect \<Rightarrow> holdings \<Rightarrow> world \<Rightarrow> ((custody \<times> effect \<times> holdings) \<times> world) option" where
  "read_stream fx err_stream c e h w = do {
     (r, w) \<leftarrow> sys (Io (Read (if err_stream then ef_error_pipe e else ef_out e) WINDOW)) w;
     if r_ret r < 0 then do {
       (_, w) \<leftarrow> assert (r_errno r = EAGAIN \<or> r_errno r = EINTR) w;
       Some ((c, e, h), w)
     }
     else do {
       (_, w) \<leftarrow> assert (r_ret r > 0) w;
       (_, w) \<leftarrow> allwrite (if err_stream then ef_error_source e else cu_source c) (r_data r) w;
       Some (if err_stream then (c, e\<lparr>ef_error_bytes := ef_error_bytes e + word_of_int (r_ret r)\<rparr>, h)
         else (c\<lparr>cu_bytes := cu_bytes c + word_of_int (r_ret r)\<rparr>, e, h), w)
     }
   }"

definition stream_bytes :: "bool \<Rightarrow> custody \<Rightarrow> u64" where
  "stream_bytes err_stream c =
     (if err_stream then (case cu_effect c of None \<Rightarrow> 0 | Some (_, e) \<Rightarrow> ef_error_bytes e) else cu_bytes c)"

text \<open>One look at a stream; the number counts those that were not complete.\<close>

definition look_stream :: "fixture \<Rightarrow> nat \<times> bool \<Rightarrow> nat \<times> table \<Rightarrow> world \<Rightarrow> ((nat \<times> table) \<times> world) option" where
  "look_stream fx x s w = (case x of (i, err_stream) \<Rightarrow> case s of (left, t) \<Rightarrow>
     if stream_bytes err_stream (snd t ! i) < of_nat (fx_bytes fx) then do {
       (t, w) \<leftarrow> at_slot (with_effect (read_stream fx err_stream)) i t w;
       Some ((left + 1, t), w)
     }
     else Some ((left, t), w))"

definition streams :: "nat \<Rightarrow> (nat \<times> bool) list" where
  "streams n = concat (map (\<lambda>i. [(i, False), (i, True)]) [0..<n])"

definition bash_round :: "fixture \<Rightarrow> table \<Rightarrow> world \<Rightarrow> ((table + table) \<times> world) option" where
  "bash_round fx t w = do {
     ((left, t), w) \<leftarrow> each (look_stream fx) (streams (fx_count fx)) (0, t) w;
     if left = 0 then Some (Inr t, w)
     else do { (_, w) \<leftarrow> sys (Env (Usleep 100)) w; Some (Inl t, w) }
   }"

text \<open>One window of the edit of one slot.\<close>

definition edit_window :: "nat \<Rightarrow> nat \<Rightarrow> custody \<Rightarrow> effect \<Rightarrow> holdings \<Rightarrow> world \<Rightarrow> ((custody \<times> effect \<times> holdings) \<times> world) option" where
  "edit_window n offset c e h w = do {
     (r, w) \<leftarrow> sys (Io (Read (ef_target e) n)) w;
     (_, w) \<leftarrow> assert (r_ret r = int n) w;
     (_, w) \<leftarrow> assert (offset = 0 \<longrightarrow> r_data r ! 0 = 97 \<and> r_data r ! 1 = 10) w;
     (_, w) \<leftarrow> allwrite (cu_source c) (if offset = 0 then (r_data r)[0 := 98] else r_data r) w;
     Some ((c\<lparr>cu_bytes := cu_bytes c + of_nat n\<rparr>, e, h), w)
   }"

text \<open>The offsets of the windows, each over all slots.\<close>

definition edit_steps :: "fixture \<Rightarrow> (nat \<times> nat) list" where
  "edit_steps fx = concat (map (\<lambda>k. map (Pair (k * WINDOW)) [0..<fx_count fx]) [0..<(fx_bytes fx + WINDOW - 1) div WINDOW])"

definition edit_step :: "fixture \<Rightarrow> nat \<times> nat \<Rightarrow> table \<Rightarrow> world \<Rightarrow> (table \<times> world) option" where
  "edit_step fx x t w = (case x of (offset, i) \<Rightarrow>
     at_slot (with_effect (edit_window (min (fx_bytes fx - offset) WINDOW) offset)) i t w)"

section \<open>Observation\<close>

record reading =
  rd_child_physical :: u64
  rd_child_rss :: u64
  rd_children :: nat
  rd_occupied :: nat
  rd_scratch_bytes :: u64
  rd_scratch_blocks :: u64

definition see_child :: "custody \<Rightarrow> reading \<Rightarrow> world \<Rightarrow> (reading \<times> world) option" where
  "see_child c rd w = do {
     let rd = rd\<lparr>rd_occupied := rd_occupied rd + of_bool (cu_occupied c)\<rparr>;
     case cu_effect c of
       None \<Rightarrow> Some (rd, w)
     | Some (_, e) \<Rightarrow>
         if ef_pid e > 0 then do {
           (r, w) \<leftarrow> sys (Env (Query ''proc_pid_rusage'')) w;
           Some (if r_ret r = 0 then rd\<lparr>rd_child_physical := rd_child_physical rd + word_of_int (out 0 r),
             rd_child_rss := rd_child_rss rd + word_of_int (out 1 r), rd_children := rd_children rd + 1\<rparr> else rd, w)
         }
         else Some (rd, w)
   }"

definition see_file :: "int \<Rightarrow> reading \<Rightarrow> world \<Rightarrow> (reading \<times> world) option" where
  "see_file fd rd w =
     (if fd \<ge> 0 then do {
        (r, w) \<leftarrow> sys (Io (Fstat fd)) w;
        (_, w) \<leftarrow> assert (r_ret r = 0) w;
        Some (rd\<lparr>rd_scratch_bytes := rd_scratch_bytes rd + word_of_int (out 1 r),
          rd_scratch_blocks := rd_scratch_blocks rd + word_of_int (out 0 r) * 512\<rparr>, w)
      }
      else Some (rd, w))"

definition see_files :: "custody \<Rightarrow> reading \<Rightarrow> world \<Rightarrow> (reading \<times> world) option" where
  "see_files c rd w =
     (case cu_effect c of
        None \<Rightarrow> Some (rd, w)
      | Some (_, e) \<Rightarrow> each see_file [cu_source c, ef_request e, ef_target e, ef_error_source e] rd w)"

definition snapshot :: "custody list \<Rightarrow> world \<Rightarrow> (reading \<times> world) option" where
  "snapshot us w = do {
     (r, w) \<leftarrow> sys (Env (Query ''proc_pid_rusage'')) w;
     (_, w) \<leftarrow> assert (r_ret r = 0) w;
     (_, w) \<leftarrow> sys (Env (Query ''malloc_zone_statistics'')) w;
     (rd, w) \<leftarrow> each see_child us \<lparr>rd_child_physical = 0, rd_child_rss = 0, rd_children = 0, rd_occupied = 0,
       rd_scratch_bytes = 0, rd_scratch_blocks = 0\<rparr> w;
     (rd, w) \<leftarrow> each see_files us rd w;
     (r, w) \<leftarrow> sys (Env (Query ''PROC_PIDLISTFDS'')) w;
     (_, w) \<leftarrow> assert (r_ret r \<ge> 0) w;
     Some (rd, w)
   }"

section \<open>The transfers\<close>

text \<open>What libcurl hands back during a call, with the slot whose callback data it is.\<close>

datatype curl_callback = Header nat "byte list" | Upload nat nat | Capture nat "byte list"

definition curl_callback_step :: "fixture \<Rightarrow> curl_callback \<Rightarrow> nat \<times> table \<Rightarrow> world \<Rightarrow> ((nat \<times> table) \<times> world) option" where
  "curl_callback_step fx cb s w = (case s of (headers, t) \<Rightarrow>
     (case cb of
        Header i bs \<Rightarrow>
          if bs = [13, 10] then do {
            (_, w) \<leftarrow> (if headers + 1 = fx_count fx then do { (_, w) \<leftarrow> snapshot (snd t) w; Some ((), w) } else Some ((), w));
            Some ((headers + 1, t), w)
          }
          else Some ((headers, t), w)
      | Upload i n \<Rightarrow> do {
          (t, w) \<leftarrow> at_slot (with_effect (\<lambda>c e h w. do { (_, w) \<leftarrow> upload n e w; Some ((c, e, h), w) })) i t w;
          Some ((headers, t), w)
        }
      | Capture i bs \<Rightarrow> do { (t, w) \<leftarrow> at_slot (capture bs) i t w; Some ((headers, t), w) }))"

definition perform_turn :: "(reply \<Rightarrow> mem_op list) \<Rightarrow> (reply \<Rightarrow> curl_callback list) \<Rightarrow> fixture \<Rightarrow> nat \<times> table \<Rightarrow> world \<Rightarrow>
    ((nat \<times> table + table) \<times> world) option" where
  "perform_turn mu callbacks fx s w = (case s of (headers, h, us) \<Rightarrow> do {
     ((r, h), w) \<leftarrow> curl mu ''multi_perform'' h w;
     ((headers, h, us), w) \<leftarrow> each (curl_callback_step fx) (callbacks r) (headers, h, us) w;
     (_, w) \<leftarrow> assert (r_ret r = 0) w;
     if out 0 r = 0 then Some (Inr (h, us), w)
     else do { (h, w) \<leftarrow> curl_ok mu ''multi_poll'' h w; Some (Inl (headers, h, us), w) }
   })"

text \<open>A message must be of a transfer that is done without an error.\<close>

definition done_turn :: "nat \<Rightarrow> world \<Rightarrow> ((nat + nat) \<times> world) option" where
  "done_turn k w = do {
     (m, w) \<leftarrow> sys (Env (Curl ''multi_info_read'')) w;
     if r_ret m = 0 then Some (Inr k, w)
     else do { (_, w) \<leftarrow> assert (out 0 m = 1 \<and> out 2 m = 0) w; Some (Inl (k + 1), w) }
   }"

definition work :: "(reply \<Rightarrow> mem_op list) \<Rightarrow> (reply \<Rightarrow> curl_callback list) \<Rightarrow> fixture \<Rightarrow> table \<Rightarrow> world \<Rightarrow> (table \<times> world) option" where
  "work mu callbacks fx t w =
     (case fx_kind fx of
        Model \<Rightarrow> do {
          (t, w) \<leftarrow> script_loop (perform_turn mu callbacks fx) (0, t) w;
          (k, w) \<leftarrow> script_loop done_turn 0 w;
          (_, w) \<leftarrow> assert (k = fx_count fx) w;
          Some (t, w)
        }
      | Bash \<Rightarrow> script_loop (bash_round fx) t w
      | Edit \<Rightarrow> each (edit_step fx) (edit_steps fx) t w)"

section \<open>The end of a slot\<close>

definition seal :: "fixture \<Rightarrow> custody \<Rightarrow> holdings \<Rightarrow> world \<Rightarrow> ((custody \<times> holdings) \<times> world) option" where
  "seal fx c h w = do {
     (_, w) \<leftarrow> assert (cu_bytes c = of_nat (fx_bytes fx)) w;
     Some ((c\<lparr>cu_sealed := True\<rparr>, h), w)
   }"

text \<open>The shell is let go and waited for.\<close>

definition finish_child :: "effect \<Rightarrow> world \<Rightarrow> (effect \<times> world) option" where
  "finish_child e w = do {
     (_, w) \<leftarrow> allwrite (ef_in e) [120] w;
     (r, w) \<leftarrow> sys (Proc (Waitpid (ef_pid e) False)) w;
     (_, w) \<leftarrow> assert (r_ret r = ef_pid e \<and> WIFEXITED (out 0 r) \<and> WEXITSTATUS (out 0 r) = 0) w;
     Some (e\<lparr>ef_pid := 0\<rparr>, w)
   }"

definition shut_pipes :: "effect \<Rightarrow> holdings \<Rightarrow> world \<Rightarrow> ((effect \<times> holdings) \<times> world) option" where
  "shut_pipes e h w = do {
     (h, w) \<leftarrow> shut (ef_in e) h w;
     (h, w) \<leftarrow> shut (ef_out e) h w;
     (h, w) \<leftarrow> shut (ef_error_pipe e) h w;
     Some ((e\<lparr>ef_in := -1, ef_out := -1, ef_error_pipe := -1\<rparr>, h), w)
   }"

definition early_end :: "(reply \<Rightarrow> mem_op list) \<Rightarrow> fixture \<Rightarrow> custody \<Rightarrow> effect \<Rightarrow> holdings \<Rightarrow> world \<Rightarrow>
    ((custody \<times> effect \<times> holdings) \<times> world) option" where
  "early_end mu fx c e h w =
     (case fx_kind fx of
        Model \<Rightarrow> do { ((e, h), w) \<leftarrow> transport_done mu (cu_pending c) e h w; Some ((c, e, h), w) }
      | Bash \<Rightarrow> do { (e, w) \<leftarrow> finish_child e w; ((e, h), w) \<leftarrow> shut_pipes e h w; Some ((c, e, h), w) }
      | Edit \<Rightarrow> Some ((c, e, h), w))"

text \<open>The captured edit is copied to its target.\<close>

definition copy_turn :: "fixture \<Rightarrow> int \<Rightarrow> int \<Rightarrow> nat \<Rightarrow> world \<Rightarrow> ((nat + unit) \<times> world) option" where
  "copy_turn fx source target n w =
     (if n \<ge> fx_bytes fx then Some (Inr (), w)
      else do {
        (r, w) \<leftarrow> sys (Io (Read source WINDOW)) w;
        (_, w) \<leftarrow> assert (r_ret r > 0) w;
        (_, w) \<leftarrow> allwrite target (r_data r) w;
        Some (Inl (n + nat (r_ret r)), w)
      })"

definition apply_edit :: "fixture \<Rightarrow> custody \<Rightarrow> effect \<Rightarrow> world \<Rightarrow> (custody \<times> world) option" where
  "apply_edit fx c e w = do {
     (_, w) \<leftarrow> rewind (cu_source c) w;
     (_, w) \<leftarrow> rewind (ef_target e) w;
     (_, w) \<leftarrow> script_loop (copy_turn fx (cu_source c) (ef_target e)) 0 w;
     (t, w) \<leftarrow> sys (Io (Ftruncate (ef_target e))) w;
     (_, w) \<leftarrow> assert (r_ret t = 0) w;
     (f, w) \<leftarrow> sys (Io (Fsync (ef_target e))) w;
     (_, w) \<leftarrow> assert (r_ret f = 0) w;
     validate fx (ef_target e) True c w
   }"

definition check_slot :: "fixture \<Rightarrow> custody \<Rightarrow> effect \<Rightarrow> world \<Rightarrow> (custody \<times> world) option" where
  "check_slot fx c e w = do {
     (c, w) \<leftarrow> validate fx (cu_source c) (fx_kind fx = Edit) c w;
     case fx_kind fx of
       Model \<Rightarrow> Some (c, w)
     | Bash \<Rightarrow> do { (_, w) \<leftarrow> assert (ef_error_bytes e = of_nat (fx_bytes fx)) w; validate fx (ef_error_source e) False c w }
     | Edit \<Rightarrow> apply_edit fx c e w
   }"

definition shut_all :: "custody \<Rightarrow> effect \<Rightarrow> holdings \<Rightarrow> world \<Rightarrow> (holdings \<times> world) option" where
  "shut_all c e h w = do {
     ((e, h), w) \<leftarrow> shut_pipes e h w;
     (h, w) \<leftarrow> shut (ef_target e) h w;
     (h, w) \<leftarrow> shut (ef_error_source e) h w;
     shut (cu_source c) h w
   }"

definition settle_slot :: "(reply \<Rightarrow> mem_op list) \<Rightarrow> fixture \<Rightarrow> custody \<Rightarrow> holdings \<Rightarrow> world \<Rightarrow> ((custody \<times> holdings) \<times> world) option" where
  "settle_slot mu fx c h w =
     (case cu_effect c of
        None \<Rightarrow> None
      | Some (p, e) \<Rightarrow> do {
          (c, w) \<leftarrow> check_slot fx c e w;
          ((e, h), w) \<leftarrow> (if fx_kind fx = Model then transport_done mu (cu_pending c) e h w else Some ((e, h), w));
          (e, w) \<leftarrow> (if ef_pid e \<noteq> 0 then finish_child e w else Some (e, w));
          (h, w) \<leftarrow> shut_all c e h w;
          (h, w) \<leftarrow> free_block (ef_window e) h w;
          (h, w) \<leftarrow> free_block p h w;
          Some ((c\<lparr>cu_effect := None, cu_occupied := False, cu_source := -1\<rparr>, h), w)
        })"

section \<open>The program\<close>

definition start_curl :: "(reply \<Rightarrow> mem_op list) \<Rightarrow> fixture \<Rightarrow> holdings \<Rightarrow> world \<Rightarrow> (holdings \<times> world) option" where
  "start_curl mu fx h w =
     (if fx_kind fx = Model then do {
        (h, w) \<leftarrow> curl_ok mu ''global_init_mem'' h w;
        ((_, h), w) \<leftarrow> curl_new mu ''multi_init'' h w;
        curl_ok mu ''multi_setopt'' h w
      }
      else Some (h, w))"

definition stop_curl :: "(reply \<Rightarrow> mem_op list) \<Rightarrow> fixture \<Rightarrow> holdings \<Rightarrow> world \<Rightarrow> (holdings \<times> world) option" where
  "stop_curl mu fx h w =
     (if fx_kind fx = Model then do {
        (h, w) \<leftarrow> curl_ok mu ''multi_cleanup'' h w;
        ((_, h), w) \<leftarrow> curl mu ''global_cleanup'' h w;
        Some (h, w)
      }
      else Some (h, w))"

text \<open>The life of the slots, between the start of libcurl and its end.\<close>

definition live_slots :: "(reply \<Rightarrow> mem_op list) \<Rightarrow> (reply \<Rightarrow> curl_callback list) \<Rightarrow> fixture \<Rightarrow> holdings \<Rightarrow> world \<Rightarrow>
    (table \<times> world) option" where
  "live_slots mu callbacks fx h w = do {
     let all = [0..<fx_count fx];
     (t, w) \<leftarrow> each (\<lambda>i. at_slot (setup_slot mu fx i) i) all (h, replicate (fx_count fx) blank_custody) w;
     (_, w) \<leftarrow> snapshot (snd t) w;
     (t, w) \<leftarrow> work mu callbacks fx t w;
     (t, w) \<leftarrow> each (at_slot (seal fx)) all t w;
     (_, w) \<leftarrow> snapshot (snd t) w;
     (t, w) \<leftarrow> (if fx_early fx then each (at_slot (with_effect (early_end mu fx))) all t w else Some (t, w));
     (_, w) \<leftarrow> snapshot (snd t) w;
     (t, w) \<leftarrow> each (at_slot (settle_slot mu fx)) all t w;
     (_, w) \<leftarrow> snapshot (snd t) w;
     Some (t, w)
   }"

text \<open>The run in its two blocks of memory, the slots and the shared window.\<close>

definition use_memory :: "(reply \<Rightarrow> mem_op list) \<Rightarrow> (reply \<Rightarrow> curl_callback list) \<Rightarrow> fixture \<Rightarrow> nat \<Rightarrow> nat \<Rightarrow> holdings \<Rightarrow> world \<Rightarrow>
    (holdings \<times> world) option" where
  "use_memory mu callbacks fx slots shared h w = do {
     (h, w) \<leftarrow> start_curl mu fx h w;
     ((h, _), w) \<leftarrow> live_slots mu callbacks fx h w;
     (h, w) \<leftarrow> stop_curl mu fx h w;
     (h, w) \<leftarrow> free_block shared h w;
     (h, w) \<leftarrow> free_block slots h w;
     (_, w) \<leftarrow> snapshot [] w;
     Some (h, w)
   }"

text \<open>What the program holds when it comes to its last assertion.\<close>

definition lifetimes_body :: "(reply \<Rightarrow> mem_op list) \<Rightarrow> (reply \<Rightarrow> curl_callback list) \<Rightarrow> fixture \<Rightarrow> world \<Rightarrow> (holdings \<times> world) option" where
  "lifetimes_body mu callbacks fx w = do {
     (_, w) \<leftarrow> snapshot [] w;
     ((slots, h), w) \<leftarrow> new_block (of_nat CAP * CUSTODY_BYTES) \<lparr>ho_memory = no_memory, ho_owned_fds = 0\<rparr> w;
     (_, w) \<leftarrow> snapshot [] w;
     ((shared, h), w) \<leftarrow> new_block (of_nat WINDOW) h w;
     use_memory mu callbacks fx slots shared h w
   }"

text \<open>The child writes the pattern to both streams and waits for a byte.\<close>

definition child_main :: "nat \<Rightarrow> world \<Rightarrow> (int \<times> world) option" where
  "child_main n w = do {
     (_, w) \<leftarrow> each (\<lambda>k u w. do { (_, w) \<leftarrow> allwrite 1 (pattern k) w; allwrite 2 (pattern k) w }) (chunks n) () w;
     (r, w) \<leftarrow> sys (Io (Read 0 1)) w;
     (_, w) \<leftarrow> assert (r_ret r = 1) w;
     Some (0, w)
   }"

definition kind_named :: "string \<Rightarrow> kind option" where
  "kind_named s = (if s = ''model'' then Some Model else if s = ''bash'' then Some Bash else if s = ''edit'' then Some Edit else None)"

definition plan_fixture :: "string list \<Rightarrow> fixture option" where
  "plan_fixture argv = do {
     k \<leftarrow> (if length argv = 6 then kind_named (argv ! 1) else None);
     let count = atoi (argv ! 3);
     let bytes = unat (strtoull (argv ! 4));
     if count > 0 \<and> count \<le> int CAP \<and> bytes \<ge> 2 \<and> bytes \<le> 1048576
     then Some \<lparr>fx_kind = k, fx_early = (argv ! 2 = ''early''), fx_count = nat count, fx_bytes = bytes\<rparr> else None
   }"

definition lifetimes_main :: "(reply \<Rightarrow> mem_op list) \<Rightarrow> (reply \<Rightarrow> curl_callback list) \<Rightarrow> string list \<Rightarrow> world \<Rightarrow> (int \<times> world) option" where
  "lifetimes_main mu callbacks argv w =
     (if length argv = 3 \<and> argv ! 1 = ''--child'' then child_main (unat (strtoull (argv ! 2))) w
      else (case plan_fixture argv of
          None \<Rightarrow> None
        | Some fx \<Rightarrow> do {
            (g, w) \<leftarrow> sys (Env Getrlimit) w;
            (_, w) \<leftarrow> assert (r_ret g = 0) w;
            (s, w) \<leftarrow> sys (Env (Setrlimit (if word_of_int (out 1 g) < (10000 :: u64) then word_of_int (out 1 g) else 10000))) w;
            (_, w) \<leftarrow> assert (r_ret s = 0) w;
            (h, w) \<leftarrow> lifetimes_body mu callbacks fx w;
            (_, w) \<leftarrow> assert (mm_live (ho_memory h) = [0, 0] \<and> ho_owned_fds h = 0) w;
            Some (0, w)
          }))"

end
