(* ===== verification/Lifetimes_Laws.thy ===== *)
theory Lifetimes_Laws
  imports Lifetimes "HOL-Library.Code_Target_Nat"
begin

text \<open>
  What the lifetime fixture owns: every step adds to the open descriptors, to \<open>owned_fds\<close> and to
  the fixture's blocks exactly what it adds to the slot it works on, so a run that comes to its last
  assertion owns nothing of its own.  And the check of a captured file is exact.
\<close>

section \<open>The books\<close>

definition held :: "int \<Rightarrow> int \<Rightarrow> int" where
  "held f fd = of_bool (0 \<le> f \<and> f = fd)"

definition owns :: "nat \<Rightarrow> nat \<Rightarrow> int" where
  "owns q p = of_bool (q \<noteq> 0 \<and> q = p)"

definition own_blocks :: "holdings \<Rightarrow> nat \<Rightarrow> int" where
  "own_blocks h p = int (count (handles_in 0 (ho_memory h)) p)"

abbreviation sane :: "holdings \<Rightarrow> bool" where
  "sane h \<equiv> memory_ok (ho_memory h)"

text \<open>From \<open>h\<close> to \<open>h'\<close> with the calls \<open>es\<close>: descriptors, their number and blocks gained.\<close>

definition books :: "holdings \<Rightarrow> holdings \<Rightarrow> (call \<times> reply) list \<Rightarrow> (int \<Rightarrow> int) \<Rightarrow> int \<Rightarrow> (nat \<Rightarrow> int) \<Rightarrow> bool" where
  "books h h' es dF n dB \<longleftrightarrow> sane h' \<and> (\<forall>p. own_blocks h' p = own_blocks h p + dB p) \<and>
     ho_owned_fds h' = ho_owned_fds h + n \<and> (\<forall>fd. fd_net es fd = dF fd)"

definition even_books :: "holdings \<Rightarrow> holdings \<Rightarrow> (call \<times> reply) list \<Rightarrow> bool" where
  "even_books h h' es \<longleftrightarrow> books h h' es (\<lambda>_. 0) 0 (\<lambda>_. 0)"

lemmas books_defs = books_def even_books_def no_descriptors_def held_def owns_def

lemma even_books_refl: "sane h \<Longrightarrow> even_books h h []"
  by (simp add: books_defs)

lemma even_books_trans: "even_books h h' es \<Longrightarrow> even_books h' h'' fs \<Longrightarrow> even_books h h'' (es @ fs)"
  by (simp add: books_defs)

lemma own_blocks_owned [simp]: "own_blocks (h\<lparr>ho_owned_fds := k\<rparr>) = own_blocks h"
  by (rule ext) (simp add: own_blocks_def)

lemma runs_scratch:
  "sane h \<Longrightarrow> runs (scratch h) (\<lambda>(f, h') es. 0 \<le> f \<and> books h h' es (held f) 1 (\<lambda>_. 0))"
  unfolding scratch_def by (intro runs_bind_assert runs_rules) (auto simp: books_defs)

lemma runs_shut:
  "sane h \<Longrightarrow> runs (shut fd h) (\<lambda>h' es. books h h' es (\<lambda>x. - held fd x) (- of_bool (0 \<le> fd)) (\<lambda>_. 0))"
  unfolding shut_def by (intro runs_bind_assert runs_rules) (auto simp: books_defs)

lemma runs_new_block:
  "sane h \<Longrightarrow> runs (new_block n h) (\<lambda>(p, h') es. p \<noteq> 0 \<and> books h h' es (\<lambda>_. 0) 0 (owns p))"
  unfolding new_block_def
  by (intro runs_bind [OF runs_allocate] runs_bind_assert runs_rules)
    (auto simp: books_defs gives_def own_blocks_def)

lemma own_category:
  assumes "memory_ok m" and "p \<in># handles_in 0 m"
  shows "map_option bk_category (map_of (mm_blocks m) p) = Some 0"
proof -
  from assms(2) obtain b where "(p, b) \<in> set (mm_blocks m)" "bk_category b = 0" by (auto simp: handles_in_def)
  moreover from assms(1) have "distinct (map fst (mm_blocks m))" by (simp add: memory_ok_def)
  ultimately show ?thesis by simp
qed

lemma runs_free_block:
  assumes "sane h" and "p \<noteq> 0 \<Longrightarrow> 0 < own_blocks h p"
  shows "runs (free_block p h) (\<lambda>h' es. books h h' es (\<lambda>_. 0) 0 (\<lambda>x. - owns p x))"
proof -
  have "p \<noteq> 0 \<Longrightarrow> map_option bk_category (map_of (mm_blocks (ho_memory h)) p) = Some 0"
    using own_category [OF assms(1)] assms(2) by (simp add: own_blocks_def)
  then show ?thesis unfolding free_block_def
    by (intro runs_bind [OF runs_release [OF assms(1), where cat = 0]] runs_ret) (auto simp: books_defs own_blocks_def)
qed

lemma runs_curl: "sane h \<Longrightarrow> runs (curl mu name h) (\<lambda>(_, h') es. even_books h h' es)"
  unfolding curl_def by (intro runs_bind_sys runs_bind [OF runs_mem_ops] runs_ret) (auto simp: books_defs own_blocks_def)

lemma runs_curl_ok: "sane h \<Longrightarrow> runs (curl_ok mu name h) (\<lambda>h' es. even_books h h' es)"
  unfolding curl_ok_def by (intro runs_bind [OF runs_curl] runs_pair runs_bind_assert runs_ret) auto

lemma runs_curl_new: "sane h \<Longrightarrow> runs (curl_new mu name h) (\<lambda>(x, h') es. x \<noteq> 0 \<and> even_books h h' es)"
  unfolding curl_new_def by (intro runs_bind [OF runs_curl] runs_pair runs_bind_assert runs_ret) auto

lemma runs_options: "sane h \<Longrightarrow> runs (each (curl_ok mu) xs h) (\<lambda>h' es. even_books h h' es)"
  by (rule runs_each [where I = "\<lambda>_ h' es. even_books h h' es"])
    (auto intro: even_books_refl runs_weaken [OF runs_curl_ok] even_books_trans simp: books_defs)

lemma runs_split_pair:
  "(\<And>a b. p = (a, b) \<Longrightarrow> runs (f a b) \<Phi>) \<Longrightarrow> runs (\<lambda>w. case p of (a, b) \<Rightarrow> f a b w) \<Phi>"
  by (cases p) simp

section \<open>What touches no descriptor\<close>

lemma runs_allwrite: "runs (allwrite fd bs) (\<lambda>_ es. no_descriptors es)"
  unfolding allwrite_def
  by (rule runs_bind [OF wl.neutral]) (auto intro!: runs_assert simp: acquires_def no_descriptors_def)

lemma runs_each_quiet:
  assumes "\<And>x s. runs (f x s) (\<lambda>_ es. no_descriptors es)"
  shows "runs (each f xs s) (\<lambda>_ es. no_descriptors es)"
  by (rule runs_each [where I = "\<lambda>_ _ es. no_descriptors es"])
    (auto intro: runs_weaken [OF assms] no_descriptors_append)

lemma runs_loop_quiet:
  assumes "\<And>s. runs (f s) (\<lambda>_ es. no_descriptors es)"
  shows "runs (script_loop f s) (\<lambda>_ es. no_descriptors es)"
  by (rule runs_script_loop [where I = "\<lambda>_. True" and P = "\<lambda>_ _ es. no_descriptors es" and Q = "\<lambda>_ _ es. no_descriptors es"])
    (auto intro: runs_weaken [OF assms] no_descriptors_append split: sum.splits)

lemma runs_rewind: "runs (rewind fd) (\<lambda>_ es. no_descriptors es)"
  unfolding rewind_def by (intro runs_bind_sys runs_assert) simp

lemma runs_fill: "runs (fill fd n) (\<lambda>_ es. no_descriptors es)"
  unfolding fill_def
  by (intro runs_bind [OF runs_each_quiet] runs_weaken [OF runs_rewind] runs_allwrite) (auto simp: no_descriptors_def)

lemma runs_captured: 
  "runs (validate fx fd edit c) (\<lambda>c' es. no_descriptors es \<and> c' = c\<lparr>cu_published := True\<rparr>)"
proof -
  have turn: "runs (validate_turn fd edit pos) (\<lambda>_ es. no_descriptors es)" for pos
    unfolding validate_turn_def by (intro runs_bind_sys runs_bind_assert runs_if runs_ret) simp_all
  show ?thesis unfolding validate_def
    by (intro runs_bind_assert runs_bind [OF runs_rewind] runs_bind [OF runs_loop_quiet [OF turn]] runs_ret) (auto simp: no_descriptors_def)
qed

lemma runs_set_flags:
  assumes "\<And>f r fd. fd_delta (Fd (c f), r) fd = 0"
  shows "runs (each (set_flag_ok c) xs u) (\<lambda>_ es. no_descriptors es)"
  by (rule runs_each_quiet) (unfold set_flag_ok_def, intro runs_bind_sys runs_assert, simp add: assms)

lemma runs_finish_child: "runs (finish_child e) (\<lambda>e' es. no_descriptors es \<and> e' = e\<lparr>ef_pid := 0\<rparr>)"
  unfolding finish_child_def
  by (intro runs_bind [OF runs_allwrite] runs_bind_sys runs_bind_assert runs_ret) (auto simp: no_descriptors_def)

lemma runs_copy: "runs (script_loop (copy_turn fx a b) n) (\<lambda>_ es. no_descriptors es)"
  by (rule runs_loop_quiet) (unfold copy_turn_def,
    intro runs_if runs_ret runs_bind_sys runs_bind_assert runs_bind [OF runs_allwrite], auto simp: no_descriptors_def)

lemma runs_apply_edit: "runs (apply_edit fx c e) (\<lambda>c' es. no_descriptors es \<and> c' = c\<lparr>cu_published := True\<rparr>)"
  unfolding apply_edit_def
  by (intro runs_bind [OF runs_rewind] runs_bind [OF runs_copy] runs_bind_sys runs_bind_assert runs_weaken [OF runs_captured])
    (auto simp: no_descriptors_def)

lemma runs_case_kind:
  "(k = Model \<Longrightarrow> runs f \<Phi>) \<Longrightarrow> (k = Bash \<Longrightarrow> runs g \<Phi>) \<Longrightarrow> (k = Edit \<Longrightarrow> runs e \<Phi>) \<Longrightarrow>
     runs (\<lambda>w. case k of Model \<Rightarrow> f w | Bash \<Rightarrow> g w | Edit \<Rightarrow> e w) \<Phi>"
  by (cases k) simp_all

lemma runs_check_slot: "runs (check_slot fx c e) (\<lambda>c' es. no_descriptors es \<and> c' = c\<lparr>cu_published := True\<rparr>)"
  unfolding check_slot_def
  by (intro runs_bind [OF runs_captured] runs_case_kind runs_bind_assert runs_ret
      runs_weaken [OF runs_captured] runs_weaken [OF runs_apply_edit])
    (auto simp: no_descriptors_def)

lemma runs_see: "runs (each see_child us rd) (\<lambda>_ es. no_descriptors es)" "runs (each see_files us rd) (\<lambda>_ es. no_descriptors es)"
proof -
  have one: "runs (see_file fd rd) (\<lambda>_ es. no_descriptors es)" for fd rd
    unfolding see_file_def by (intro runs_if runs_ret runs_bind_sys runs_bind_assert) simp_all
  have files: "runs (see_files c rd) (\<lambda>_ es. no_descriptors es)" for c rd
    unfolding see_files_def by (intro runs_case_option runs_ret runs_split_pair runs_each_quiet one) simp
  have child: "runs (see_child c rd) (\<lambda>_ es. no_descriptors es)" for c rd
    unfolding see_child_def Let_def
    by (intro runs_case_option runs_split_pair runs_if runs_ret runs_bind_sys) simp_all
  show "runs (each see_child us rd) (\<lambda>_ es. no_descriptors es)" "runs (each see_files us rd) (\<lambda>_ es. no_descriptors es)"
    by (rule runs_each_quiet, rule child) (rule runs_each_quiet, rule files)
qed

lemma runs_snapshot: "runs (snapshot us) (\<lambda>_ es. no_descriptors es)"
  unfolding snapshot_def
  by (intro runs_bind_sys runs_bind_assert runs_bind [OF runs_see(1)] runs_bind [OF runs_see(2)] runs_ret)
    (auto simp: no_descriptors_def)

section \<open>One effect\<close>

definition effect_fds :: "effect \<Rightarrow> int \<Rightarrow> int" where
  "effect_fds e fd = held (ef_request e) fd + held (ef_target e) fd + held (ef_in e) fd + held (ef_out e) fd +
     held (ef_error_source e) fd + held (ef_error_pipe e) fd"

definition effect_open :: "effect \<Rightarrow> int" where
  "effect_open e = of_bool (0 \<le> ef_request e) + of_bool (0 \<le> ef_target e) + of_bool (0 \<le> ef_in e) + of_bool (0 \<le> ef_out e) +
     of_bool (0 \<le> ef_error_source e) + of_bool (0 \<le> ef_error_pipe e)"

text \<open>The books move with the effect.\<close>

definition effect_books :: "effect \<Rightarrow> holdings \<Rightarrow> effect \<Rightarrow> holdings \<Rightarrow> (call \<times> reply) list \<Rightarrow> bool" where
  "effect_books e h e' h' es \<longleftrightarrow> books h h' es (\<lambda>fd. effect_fds e' fd - effect_fds e fd) (effect_open e' - effect_open e)
     (\<lambda>p. owns (ef_window e') p - owns (ef_window e) p)"

lemmas effect_defs = effect_books_def books_def even_books_def no_descriptors_def

lemma held_closed [simp]: "held (-1) = (\<lambda>_. 0)"
  by (rule ext) (simp add: held_def)

lemma effect_fds_update [simp]:
  "effect_fds (e\<lparr>ef_request := f\<rparr>) fd = effect_fds e fd - held (ef_request e) fd + held f fd"
  "effect_fds (e\<lparr>ef_target := f\<rparr>) fd = effect_fds e fd - held (ef_target e) fd + held f fd"
  "effect_fds (e\<lparr>ef_in := f\<rparr>) fd = effect_fds e fd - held (ef_in e) fd + held f fd"
  "effect_fds (e\<lparr>ef_out := f\<rparr>) fd = effect_fds e fd - held (ef_out e) fd + held f fd"
  "effect_fds (e\<lparr>ef_error_source := f\<rparr>) fd = effect_fds e fd - held (ef_error_source e) fd + held f fd"
  "effect_fds (e\<lparr>ef_error_pipe := f\<rparr>) fd = effect_fds e fd - held (ef_error_pipe e) fd + held f fd"
  "effect_fds (e\<lparr>ef_easy := x\<rparr>) fd = effect_fds e fd" "effect_fds (e\<lparr>ef_headers := x\<rparr>) fd = effect_fds e fd"
  "effect_fds (e\<lparr>ef_window := q\<rparr>) fd = effect_fds e fd" "effect_fds (e\<lparr>ef_pid := x\<rparr>) fd = effect_fds e fd"
  "effect_fds (e\<lparr>ef_error_bytes := n\<rparr>) fd = effect_fds e fd"
  by (simp_all add: effect_fds_def)

lemma effect_open_update [simp]:
  "effect_open (e\<lparr>ef_request := f\<rparr>) = effect_open e - of_bool (0 \<le> ef_request e) + of_bool (0 \<le> f)"
  "effect_open (e\<lparr>ef_target := f\<rparr>) = effect_open e - of_bool (0 \<le> ef_target e) + of_bool (0 \<le> f)"
  "effect_open (e\<lparr>ef_in := f\<rparr>) = effect_open e - of_bool (0 \<le> ef_in e) + of_bool (0 \<le> f)"
  "effect_open (e\<lparr>ef_out := f\<rparr>) = effect_open e - of_bool (0 \<le> ef_out e) + of_bool (0 \<le> f)"
  "effect_open (e\<lparr>ef_error_source := f\<rparr>) = effect_open e - of_bool (0 \<le> ef_error_source e) + of_bool (0 \<le> f)"
  "effect_open (e\<lparr>ef_error_pipe := f\<rparr>) = effect_open e - of_bool (0 \<le> ef_error_pipe e) + of_bool (0 \<le> f)"
  "effect_open (e\<lparr>ef_easy := x\<rparr>) = effect_open e" "effect_open (e\<lparr>ef_headers := x\<rparr>) = effect_open e"
  "effect_open (e\<lparr>ef_window := q\<rparr>) = effect_open e" "effect_open (e\<lparr>ef_pid := x\<rparr>) = effect_open e"
  "effect_open (e\<lparr>ef_error_bytes := n\<rparr>) = effect_open e"
  by (simp_all add: effect_open_def)

lemma runs_transport_done:
  "sane h \<Longrightarrow> runs (transport_done mu b e h) (\<lambda>(e', h') es. effect_books e h e' h' es \<and> ef_window e' = ef_window e \<and>
     ef_request e' = -1 \<and> ef_pid e' = ef_pid e)"
proof -
  assume h: "sane h"
  have stop: "runs (\<lambda>w. if ef_easy e \<noteq> 0 then do {
         (h, w) \<leftarrow> curl_ok mu ''multi_remove_handle'' h w;
         ((_, h), w) \<leftarrow> curl mu ''easy_cleanup'' h w;
         ((_, h), w) \<leftarrow> curl mu ''slist_free_all'' h w;
         Some ((e\<lparr>ef_easy := 0, ef_headers := 0\<rparr>, h), w)
       }
       else Some ((e, h), w))
     (\<lambda>(e', h') es. even_books h h' es \<and> (e' = e \<or> e' = e\<lparr>ef_easy := 0, ef_headers := 0\<rparr>))"
    by (intro runs_if runs_bind [OF runs_curl_ok] runs_bind [OF runs_curl] runs_pair runs_ret)
      (use h in \<open>auto simp: books_def even_books_def\<close>)
  show ?thesis unfolding transport_done_def
    by (intro runs_bind_assert runs_bind [OF stop] runs_pair runs_bind [OF runs_shut] runs_ret)
      (auto simp: effect_defs)
qed

lemma runs_setup_model:
  "sane h \<Longrightarrow> ef_request e = -1 \<Longrightarrow> runs (setup_model mu e h) (\<lambda>(e', h') es. effect_books e h e' h' es)"
  unfolding setup_model_def
  by (intro runs_bind [OF runs_scratch] runs_pair runs_bind [OF runs_fill] runs_bind [OF runs_curl_new] runs_bind [OF runs_options]
      runs_bind [OF runs_curl_ok] runs_ret)
    (auto simp: effect_defs)

lemma runs_setup_edit:
  "sane h \<Longrightarrow> ef_target e = -1 \<Longrightarrow>
     runs (setup_edit fx e h) (\<lambda>(e', h') es. effect_books e h e' h' es \<and> ef_request e' = ef_request e)"
  unfolding setup_edit_def
  by (intro runs_bind [OF runs_scratch] runs_pair runs_bind [OF runs_fill] runs_ret) (auto simp: effect_defs)

lemma runs_make_pipe:
  "runs make_pipe (\<lambda>(a, b) es. 0 \<le> a \<and> 0 \<le> b \<and> (\<forall>fd. fd_net es fd = held a fd + held b fd))"
  unfolding make_pipe_def by (intro runs_bind_sys runs_bind_assert runs_ret) (auto simp: held_def fails_def)

lemma runs_spawn_shell:
  "runs (spawn_shell a b er) (\<lambda>_ es. \<forall>fd. fd_net es fd = - of_bool (fst a = fd) - of_bool (snd b = fd) - of_bool (snd er = fd))"
  unfolding spawn_shell_def
  by (intro runs_bind_sys runs_bind_assert runs_bind [OF runs_set_flags] runs_ret) (auto simp: no_descriptors_def)

lemma runs_setup_bash:
  "sane h \<Longrightarrow> ef_in e = -1 \<Longrightarrow> ef_out e = -1 \<Longrightarrow> ef_error_pipe e = -1 \<Longrightarrow> ef_error_source e = -1 \<Longrightarrow>
     runs (setup_bash e h) (\<lambda>(e', h') es. effect_books e h e' h' es \<and> ef_request e' = ef_request e)"
  unfolding setup_bash_def Let_def
  by (intro runs_bind [OF runs_make_pipe] runs_pair runs_bind [OF runs_scratch] runs_bind [OF runs_spawn_shell]
      runs_bind [OF runs_set_flags] runs_ret)
    (auto simp: effect_defs, auto simp: held_def)

lemma effect_books_trans:
  "effect_books e h e' h' es \<Longrightarrow> effect_books e' h' e'' h'' fs \<Longrightarrow> effect_books e h e'' h'' (es @ fs)"
  by (simp add: effect_books_def books_def)

lemma runs_setup_window:
  "sane h \<Longrightarrow> ef_window e = 0 \<Longrightarrow>
     runs (setup_window fx e h) (\<lambda>(e', h') es. effect_books e h e' h' es \<and> (\<exists>p. e' = e\<lparr>ef_window := p\<rparr>))"
  unfolding setup_window_def
  by (intro runs_if runs_bind [OF runs_new_block] runs_pair runs_ret)
    (auto simp: effect_defs owns_def intro: exI [of _ 0])

lemma runs_setup_effect:
  assumes "sane h" and "ef_request e = -1" "ef_target e = -1" "ef_in e = -1" "ef_out e = -1" "ef_error_pipe e = -1"
    "ef_error_source e = -1"
  shows "runs (setup_effect mu fx e h) (\<lambda>(e', h') es. effect_books e h e' h' es \<and> (fx_kind fx = Model \<or> ef_request e' = -1))"
  unfolding setup_effect_def
  by (intro runs_case_kind runs_weaken [OF runs_setup_model] runs_weaken [OF runs_setup_edit] runs_weaken [OF runs_setup_bash])
    (use assms in auto)

section \<open>One slot\<close>

definition slot_fds :: "custody \<Rightarrow> int \<Rightarrow> int" where
  "slot_fds c fd = (if cu_occupied c then held (cu_source c) fd +
     (case cu_effect c of None \<Rightarrow> 0 | Some (_, e) \<Rightarrow> effect_fds e fd) else 0)"

definition slot_open :: "custody \<Rightarrow> int" where
  "slot_open c = (if cu_occupied c then of_bool (0 \<le> cu_source c) +
     (case cu_effect c of None \<Rightarrow> 0 | Some (_, e) \<Rightarrow> effect_open e) else 0)"

definition slot_blocks :: "custody \<Rightarrow> nat \<Rightarrow> int" where
  "slot_blocks c p = (case cu_effect c of None \<Rightarrow> 0 | Some (q, e) \<Rightarrow> owns q p + owns (ef_window e) p)"

definition slot_books :: "custody \<Rightarrow> holdings \<Rightarrow> custody \<Rightarrow> holdings \<Rightarrow> (call \<times> reply) list \<Rightarrow> bool" where
  "slot_books c h c' h' es \<longleftrightarrow> books h h' es (\<lambda>fd. slot_fds c' fd - slot_fds c fd) (slot_open c' - slot_open c)
     (\<lambda>p. slot_blocks c' p - slot_blocks c p)"

lemmas slot_defs = slot_fds_def slot_open_def slot_blocks_def

text \<open>A step on the effect of an occupied slot.\<close>

definition stays :: "custody \<Rightarrow> effect \<Rightarrow> custody \<Rightarrow> effect \<Rightarrow> bool" where
  "stays c e c' e' \<longleftrightarrow> cu_occupied c' \<and> cu_source c' = cu_source c \<and> (ef_request e = -1 \<longrightarrow> ef_request e' = -1)"

text \<open>Only a model slot has a request.\<close>

definition plain :: "fixture \<Rightarrow> custody \<Rightarrow> bool" where
  "plain fx c \<longleftrightarrow> (fx_kind fx = Model \<or> (case cu_effect c of None \<Rightarrow> True | Some (_, e) \<Rightarrow> ef_request e = -1))"

lemma runs_setup_slot:
  assumes "sane h" and "\<not> cu_occupied c" and "cu_effect c = None"
  shows "runs (setup_slot mu fx i c h) (\<lambda>(c', h') es. slot_books c h c' h' es \<and> cu_occupied c' \<and> plain fx c')"
  unfolding setup_slot_def
  by (intro runs_bind [OF runs_scratch] runs_pair runs_bind [OF runs_new_block] runs_bind [OF runs_setup_window]
      runs_bind [OF runs_setup_effect] runs_ret)
    (use assms in \<open>auto simp: effect_defs slot_books_def slot_defs blank_effect_def owns_def effect_fds_def effect_open_def plain_def\<close>)

lemma runs_with_effect:
  assumes "sane h" and "cu_occupied c" and "plain fx c"
    and "\<And>e. runs (f c e h) (\<lambda>(c', e', h') es. effect_books e h e' h' es \<and> stays c e c' e')"
  shows "runs (with_effect f c h) (\<lambda>(c', h') es. slot_books c h c' h' es \<and> cu_occupied c' \<and> plain fx c')"
  unfolding with_effect_def
  by (intro runs_case_option runs_none runs_split_pair runs_bind [OF assms(4)] runs_pair runs_ret)
    (use assms(2,3) in \<open>auto simp: effect_books_def slot_books_def slot_defs books_def stays_def plain_def\<close>)

lemma runs_capture:
  "sane h \<Longrightarrow> plain fx c \<Longrightarrow> runs (capture bs c h) (\<lambda>(c', h') es. slot_books c h c' h' es \<and> cu_occupied c' \<and> plain fx c')"
  unfolding capture_def Let_def
  by (intro runs_bind_assert runs_bind [OF runs_allwrite] runs_ret)
    (auto simp: slot_books_def slot_defs books_def no_descriptors_def plain_def)

lemma runs_read_stream:
  "sane h \<Longrightarrow> cu_occupied c \<Longrightarrow> runs (read_stream fx b c e h) (\<lambda>(c', e', h') es. effect_books e h e' h' es \<and> stays c e c' e')"
  unfolding read_stream_def
  by (intro runs_bind_sys runs_if runs_bind_assert runs_bind [OF runs_allwrite] runs_ret)
    (auto simp: effect_defs stays_def)

lemma runs_edit_window:
  "sane h \<Longrightarrow> cu_occupied c \<Longrightarrow> runs (edit_window n k c e h) (\<lambda>(c', e', h') es. effect_books e h e' h' es \<and> stays c e c' e')"
  unfolding edit_window_def
  by (intro runs_bind_sys runs_if runs_bind_assert runs_bind [OF runs_allwrite] runs_ret)
    (auto simp: effect_defs stays_def)

lemma runs_shut_pipes:
  "sane h \<Longrightarrow> runs (shut_pipes e h) (\<lambda>(e', h') es. effect_books e h e' h' es \<and>
     e' = e\<lparr>ef_in := -1, ef_out := -1, ef_error_pipe := -1\<rparr>)"
  unfolding shut_pipes_def
  by (intro runs_bind [OF runs_shut] runs_ret) (auto simp: effect_defs)

lemma runs_early_end:
  assumes "sane h" and "cu_occupied c"
  shows "runs (early_end mu fx c e h) (\<lambda>(c', e', h') es. effect_books e h e' h' es \<and> stays c e c' e')"
  unfolding early_end_def
  by (intro runs_case_kind runs_bind [OF runs_transport_done] runs_bind [OF runs_finish_child] runs_bind [OF runs_shut_pipes]
      runs_pair runs_ret)
    (use assms in \<open>auto simp: effect_defs stays_def\<close>)

lemma runs_shut_all:
  "sane h \<Longrightarrow> ef_request e = -1 \<Longrightarrow>
     runs (shut_all c e h) (\<lambda>h' es. books h h' es (\<lambda>fd. - held (cu_source c) fd - effect_fds e fd)
       (- of_bool (0 \<le> cu_source c) - effect_open e) (\<lambda>_. 0))"
  unfolding shut_all_def
  by (intro runs_bind [OF runs_shut_pipes] runs_pair runs_bind [OF runs_shut] runs_weaken [OF runs_shut])
    (auto simp: effect_books_def books_def effect_fds_def effect_open_def)

text \<open>What is left of a settled slot.\<close>

definition cleared :: "custody \<Rightarrow> bool" where
  "cleared c \<longleftrightarrow> \<not> cu_occupied c \<and> cu_effect c = None"

lemma runs_settle_slot:
  assumes "sane h" and "cu_occupied c" and "plain fx c" and "\<And>p. slot_blocks c p \<le> own_blocks h p"
  shows "runs (settle_slot mu fx c h) (\<lambda>(c', h') es. slot_books c h c' h' es \<and> cleared c')"
proof (cases "cu_effect c")
  case None
  then show ?thesis unfolding settle_slot_def by (simp add: runs_none)
next
  case (Some x)
  obtain p e where x: "x = (p, e)" by (cases x)
  note eff = Some [unfolded x]
  have transport: "runs (\<lambda>w. if fx_kind fx = Model then transport_done mu b e h w else Some ((e, h), w))
      (\<lambda>(e', h') es. effect_books e h e' h' es \<and> ef_window e' = ef_window e \<and> ef_request e' = -1)" for b
    by (intro runs_if runs_weaken [OF runs_transport_done] runs_ret)
      (use assms(1,3) eff in \<open>auto simp: plain_def effect_defs\<close>)
  have child: "runs (\<lambda>w. if ef_pid e' \<noteq> 0 then finish_child e' w else Some (e', w))
      (\<lambda>e'' es. no_descriptors es \<and> (\<exists>k. e'' = e'\<lparr>ef_pid := k\<rparr>))" for e'
    by (intro runs_if runs_weaken [OF runs_finish_child] runs_ret) (auto intro: exI [of _ "ef_pid e'"])
  have blocks: "p \<noteq> 0 \<Longrightarrow> 0 < own_blocks h p - owns (ef_window e) p" "ef_window e \<noteq> 0 \<Longrightarrow> 0 < own_blocks h (ef_window e)"
    using assms(4) [of p] assms(4) [of "ef_window e"] eff by (auto simp: slot_blocks_def owns_def of_bool_def split: if_splits)
  show ?thesis unfolding settle_slot_def eff option.case prod.case
    by (intro runs_bind [OF runs_check_slot] runs_bind [OF transport] runs_pair runs_bind [OF child] runs_bind [OF runs_shut_all]
        runs_bind [OF runs_free_block] runs_ret)
      (use assms(2) blocks eff in \<open>auto simp: effect_books_def books_def no_descriptors_def slot_books_def slot_defs cleared_def\<close>)
qed

section \<open>The table\<close>

definition table_sum :: "(custody \<Rightarrow> int) \<Rightarrow> table \<Rightarrow> int" where
  "table_sum f t = sum_list (map f (snd t))"

definition table_books :: "table \<Rightarrow> table \<Rightarrow> (call \<times> reply) list \<Rightarrow> bool" where
  "table_books t t' es \<longleftrightarrow> length (snd t') = length (snd t) \<and> books (fst t) (fst t') es
     (\<lambda>fd. table_sum (\<lambda>c. slot_fds c fd) t' - table_sum (\<lambda>c. slot_fds c fd) t)
     (table_sum slot_open t' - table_sum slot_open t)
     (\<lambda>p. table_sum (\<lambda>c. slot_blocks c p) t' - table_sum (\<lambda>c. slot_blocks c p) t)"

lemma table_books_refl: "sane (fst t) \<Longrightarrow> table_books t t []"
  by (simp add: table_books_def books_def)

lemma table_books_trans: "table_books t t' es \<Longrightarrow> table_books t' t'' fs \<Longrightarrow> table_books t t'' (es @ fs)"
  by (simp add: table_books_def books_def)

lemma table_books_even: "even_books h h' es \<Longrightarrow> table_books (h, us) (h', us) es"
  by (simp add: table_books_def books_def even_books_def table_sum_def)

lemma runs_at_slot:
  assumes "i < length us \<Longrightarrow> runs (f (us ! i) h) (\<lambda>(c', h') es. slot_books (us ! i) h c' h' es \<and> Q c')"
  shows "runs (at_slot f i (h, us)) (\<lambda>t' es. table_books (h, us) t' es \<and> (\<exists>c'. i < length us \<and> snd t' = us[i := c'] \<and> Q c'))"
  unfolding at_slot_def prod.case
  by (intro runs_if runs_bind [OF assms] runs_pair runs_ret runs_none)
    (auto simp: table_books_def table_sum_def slot_books_def books_def sum_list_update_diff)

text \<open>All slots are set up.\<close>

definition ready :: "fixture \<Rightarrow> table \<Rightarrow> bool" where
  "ready fx t \<longleftrightarrow> sane (fst t) \<and> (\<forall>c \<in> set (snd t). cu_occupied c \<and> plain fx c)"

lemma runs_at_ready:
  assumes "ready fx t"
    and "\<And>c h. sane h \<Longrightarrow> cu_occupied c \<Longrightarrow> plain fx c \<Longrightarrow>
      runs (f c h) (\<lambda>(c', h') es. slot_books c h c' h' es \<and> cu_occupied c' \<and> plain fx c')"
  shows "runs (at_slot f i t) (\<lambda>t' es. table_books t t' es \<and> ready fx t')"
proof -
  obtain h us where t: "t = (h, us)" by (cases t)
  let ?Q = "\<lambda>c. cu_occupied c \<and> plain fx c"
  have one: "i < length us \<Longrightarrow> runs (f (us ! i) h) (\<lambda>(c', h') es. slot_books (us ! i) h c' h' es \<and> (cu_occupied c' \<and> plain fx c'))"
    by (rule assms(2)) (use assms(1) in \<open>auto simp: ready_def t\<close>)
  show ?thesis unfolding t
    by (rule runs_weaken [OF runs_at_slot [where f = f and us = us and i = i and h = h and Q = ?Q, OF one]]) (use assms(1) in \<open>auto simp: ready_def t table_books_def books_def dest!: subsetD [OF set_update_subset_insert]\<close>)
qed

lemma runs_each_ready:
  assumes "ready fx t" and "\<And>x t. ready fx t \<Longrightarrow> runs (f x t) (\<lambda>t' es. table_books t t' es \<and> ready fx t')"
  shows "runs (each f xs t) (\<lambda>t' es. table_books t t' es \<and> ready fx t')"
  by (rule runs_each [where I = "\<lambda>_ t' es. table_books t t' es \<and> ready fx t'"])
    (use assms(1) in \<open>auto simp: ready_def intro: table_books_refl runs_weaken [OF assms(2)] table_books_trans\<close>)

lemma runs_look_stream:
  assumes "ready fx (snd s)"
  shows "runs (look_stream fx x s) (\<lambda>s' es. table_books (snd s) (snd s') es \<and> ready fx (snd s'))"
proof -
  have look: "runs (at_slot (with_effect (read_stream fx b)) i (snd s)) (\<lambda>t' es. table_books (snd s) t' es \<and> ready fx t')" for b i
    by (intro runs_at_ready [OF assms] runs_with_effect runs_read_stream)
  obtain i b left t where s: "x = (i, b)" "s = (left, t)" by (cases x, cases s)
  show ?thesis unfolding look_stream_def s prod.case
    by (intro runs_if runs_bind [OF look [unfolded s snd_conv]] runs_ret)
      (use assms in \<open>auto simp: s ready_def intro: table_books_refl\<close>)
qed

lemma runs_bash_round:
  assumes "ready fx t"
  shows "runs (bash_round fx t) (\<lambda>x es. case x of Inl t' \<Rightarrow> ready fx t' \<and> table_books t t' es | Inr t' \<Rightarrow> table_books t t' es \<and> ready fx t')"
proof -
  have round: "runs (each (look_stream fx) xs (0, t)) (\<lambda>s es. table_books t (snd s) es \<and> ready fx (snd s))" for xs
    by (rule runs_each [where I = "\<lambda>_ s es. table_books t (snd s) es \<and> ready fx (snd s)"])
      (use assms in \<open>auto simp: ready_def intro: table_books_refl runs_weaken [OF runs_look_stream] table_books_trans\<close>)
  show ?thesis unfolding bash_round_def
    by (intro runs_bind [OF round] runs_pair runs_if runs_bind_sys runs_ret)
      (auto simp: table_books_def books_def)
qed

lemma runs_edit_step: "ready fx t \<Longrightarrow> runs (edit_step fx x t) (\<lambda>t' es. table_books t t' es \<and> ready fx t')"
  unfolding edit_step_def
  by (cases x, simp) (intro runs_at_ready runs_with_effect runs_edit_window)

lemma runs_upload_step:
  assumes "ready fx t"
  shows "runs (at_slot (with_effect (\<lambda>c e h w. do { (_, w) \<leftarrow> upload n e w; Some ((c, e, h), w) })) i t)
    (\<lambda>t' es. table_books t t' es \<and> ready fx t')"
proof -
  have up: "runs (upload n e) (\<lambda>_ es. no_descriptors es)" for e
    unfolding upload_def by (intro runs_bind_sys runs_ret) simp
  show ?thesis
    by (intro runs_at_ready [OF assms] runs_with_effect runs_bind [OF up] runs_ret) (auto simp: effect_defs stays_def)
qed

lemma runs_curl_callback_step:
  assumes "ready fx (snd s)"
  shows "runs (curl_callback_step fx cb s) (\<lambda>s' es. table_books (snd s) (snd s') es \<and> ready fx (snd s'))"
proof -
  obtain k t where s: "s = (k, t)" by (cases s)
  have seen: "runs (\<lambda>w. if b then do { (_, w) \<leftarrow> snapshot us w; Some ((), w) } else Some ((), w)) (\<lambda>_ es. no_descriptors es)" for b us
    by (intro runs_if runs_bind [OF runs_snapshot] runs_ret) (auto simp: no_descriptors_def)
  have quiet: "no_descriptors es \<Longrightarrow> table_books t t es" for es
    using assms by (simp add: s ready_def table_books_def books_def no_descriptors_def)
  show ?thesis
  proof (cases cb)
    case (Header i bs)
    show ?thesis unfolding curl_callback_step_def s prod.case Header curl_callback.case
      by (intro runs_if runs_bind [OF seen] runs_ret) (use assms quiet in \<open>auto simp: s\<close>)
  next
    case (Upload i n)
    show ?thesis unfolding curl_callback_step_def s prod.case Upload curl_callback.case
      by (rule runs_bind [OF runs_upload_step [OF assms [unfolded s snd_conv]]]) (auto intro: runs_ret)
  next
    case (Capture i bs)
    have one: "runs (at_slot (capture bs) i t) (\<lambda>t' es. table_books t t' es \<and> ready fx t')"
      by (intro runs_at_ready [OF assms [unfolded s snd_conv]] runs_capture)
    show ?thesis unfolding curl_callback_step_def s prod.case Capture curl_callback.case
      by (rule runs_bind [OF one]) (auto intro: runs_ret)
  qed
qed

lemma even_sane: "even_books h h' es \<Longrightarrow> sane h'"
  by (simp add: even_books_def books_def)

lemma table_even_then: "even_books h h' es \<Longrightarrow> table_books (h', us) t fs \<Longrightarrow> table_books (h, us) t (es @ fs)"
  by (rule table_books_trans [OF table_books_even])

lemma table_then_even: "table_books t (h', us) es \<Longrightarrow> even_books h' h'' fs \<Longrightarrow> table_books t (h'', us) (es @ fs)"
  by (rule table_books_trans [OF _ table_books_even])

lemma runs_perform_turn:
  assumes "ready fx (snd s)"
  shows "runs (perform_turn mu callbacks fx s) (\<lambda>x es. case x of Inl s' \<Rightarrow> ready fx (snd s') \<and> table_books (snd s) (snd s') es
    | Inr t' \<Rightarrow> table_books (snd s) t' es \<and> ready fx t')"
proof -
  obtain k h us where s: "s = (k, h, us)" by (cases s)
  have step: "runs (each (curl_callback_step fx) cbs (k, h', us)) (\<lambda>s' es. table_books (h', us) (snd s') es \<and> ready fx (snd s'))"
    if "even_books h h' es" for cbs h' es
    by (rule runs_each [where I = "\<lambda>_ s' es. table_books (h', us) (snd s') es \<and> ready fx (snd s')"])
      (use assms that in \<open>auto simp: s ready_def books_def even_books_def intro: table_books_refl
        runs_weaken [OF runs_curl_callback_step] table_books_trans\<close>)
  have h: "sane h" using assms by (simp add: s ready_def)
  show ?thesis unfolding perform_turn_def s prod.case
    by (intro runs_bind [OF runs_curl [OF h]] runs_pair runs_bind [OF step] runs_bind_assert runs_if runs_ret runs_bind [OF runs_curl_ok])
      (auto simp: ready_def intro: even_sane table_even_then table_then_even)
qed

lemma runs_work:
  assumes "ready fx t"
  shows "runs (work mu callbacks fx t) (\<lambda>t' es. table_books t t' es \<and> ready fx t')"
proof -
  have transfers: "runs (script_loop (perform_turn mu callbacks fx) s) (\<lambda>t' es. table_books (snd s) t' es \<and> ready fx t')"
    if "ready fx (snd s)" for s
    by (rule runs_script_loop [where I = "\<lambda>s. ready fx (snd s)" and P = "\<lambda>s s' es. table_books (snd s) (snd s') es"
          and Q = "\<lambda>s t' es. table_books (snd s) t' es \<and> ready fx t'", OF runs_perform_turn _ that])
      (auto intro: table_books_trans)
  have turn: "runs (done_turn k) (\<lambda>_ es. no_descriptors es)" for k
    unfolding done_turn_def by (intro runs_bind_sys runs_if runs_bind_assert runs_ret) simp_all
  have shells: "runs (script_loop (bash_round fx) t) (\<lambda>t' es. table_books t t' es \<and> ready fx t')" if "ready fx t" for t
    by (rule runs_script_loop [where I = "ready fx" and P = table_books
          and Q = "\<lambda>t t' es. table_books t t' es \<and> ready fx t'", OF runs_bash_round _ that])
      (auto intro: table_books_trans)
  show ?thesis unfolding work_def
    by (intro runs_case_kind runs_bind [OF transfers] runs_bind [OF runs_loop_quiet [OF turn]] runs_bind_assert runs_ret
        shells [OF assms] runs_each_ready [OF assms] runs_edit_step)
      (use assms in \<open>auto simp: table_books_def books_def no_descriptors_def\<close>)
qed

text \<open>Setting up: the slots from \<open>i\<close> on are blank.\<close>

lemma runs_setup_all:
  assumes "sane h"
  shows "runs (each (\<lambda>i. at_slot (setup_slot mu fx i) i) [0..<n] (h, replicate n blank_custody))
    (\<lambda>t' es. table_books (h, replicate n blank_custody) t' es \<and> ready fx t')"
proof -
  let ?t = "(h, replicate n blank_custody)"
  let ?I = "\<lambda>xs t es. \<exists>i \<le> n. xs = [i..<n] \<and> table_books ?t t es \<and> sane (fst t) \<and> length (snd t) = n \<and>
    (\<forall>j < i. cu_occupied (snd t ! j) \<and> plain fx (snd t ! j)) \<and> (\<forall>j. i \<le> j \<longrightarrow> j < n \<longrightarrow> snd t ! j = blank_custody)"
  have "runs (each (\<lambda>i. at_slot (setup_slot mu fx i) i) [0..<n] ?t) (?I [])"
  proof (rule runs_each)
    show "?I [0..<n] ?t []" using assms by (intro exI [of _ 0]) (auto intro: table_books_refl)
  next
    fix x ys t es
    assume "?I (x # ys) t es"
    then obtain i where i: "i \<le> n" "x # ys = [i..<n]" and t: "table_books ?t t es" "sane (fst t)" "length (snd t) = n"
      "\<forall>j < i. cu_occupied (snd t ! j) \<and> plain fx (snd t ! j)" "\<forall>j. i \<le> j \<longrightarrow> j < n \<longrightarrow> snd t ! j = blank_custody" by blast
    from i have x: "x = i" "ys = [Suc i..<n]" "i < n" by (auto dest: upt_eq_Cons_conv [THEN iffD1, OF sym])
    obtain h' us where t': "t = (h', us)" by (cases t)
    have "runs (setup_slot mu fx i (us ! i) h') (\<lambda>(c', h'') es. slot_books (us ! i) h' c' h'' es \<and> (cu_occupied c' \<and> plain fx c'))"
      using t(2,5) x(3) by (intro runs_setup_slot) (auto simp: t' blank_custody_def)
    then have "runs (at_slot (setup_slot mu fx i) i (h', us)) (\<lambda>u fs. table_books (h', us) u fs \<and>
        (\<exists>c'. i < length us \<and> snd u = us[i := c'] \<and> cu_occupied c' \<and> plain fx c'))"
      by (rule runs_at_slot [where Q = "\<lambda>c. cu_occupied c \<and> plain fx c"])
    then show "runs (at_slot (setup_slot mu fx x) x t) (\<lambda>t' fs. ?I ys t' (es @ fs))"
      unfolding t' x(1)
    proof (rule runs_weaken)
      fix u fs
      assume u: "table_books (h', us) u fs \<and> (\<exists>c'. i < length us \<and> snd u = us[i := c'] \<and> cu_occupied c' \<and> plain fx c')"
      then have "table_books ?t u (es @ fs)" by (intro table_books_trans [OF t(1) [unfolded t']]) simp
      moreover from u have "sane (fst u)" by (simp add: table_books_def books_def)
      ultimately have "table_books ?t u (es @ fs)" "sane (fst u)" by simp_all
      with u t x show "?I ys u (es @ fs)"
        by (intro exI [of _ "Suc i"]) (auto simp: t' nth_list_update less_Suc_eq)
    qed
  qed
  then show ?thesis
    by (rule runs_weaken) (auto simp: ready_def in_set_conv_nth dest!: sym [of "[]"])
qed

lemma slot_blocks_nonneg: "0 \<le> slot_blocks c p"
  by (auto simp: slot_blocks_def owns_def split: option.split)

lemma upt_Cons_eq: "x # ys = [i..<n] \<Longrightarrow> x = i \<and> ys = [Suc i..<n] \<and> i < n"
  by (auto dest: upt_eq_Cons_conv [THEN iffD1, OF sym])

text \<open>Settling: the slots before \<open>i\<close> are cleared; a slot's blocks are among those that are owned.\<close>

definition covered :: "table \<Rightarrow> bool" where
  "covered t \<longleftrightarrow> (\<forall>p. table_sum (\<lambda>c. slot_blocks c p) t \<le> own_blocks (fst t) p)"

lemma covered_keeps: "covered t \<Longrightarrow> table_books t t' es \<Longrightarrow> covered t'"
  by (simp add: covered_def table_books_def books_def)

lemma covered_blank: "covered (h, replicate n blank_custody)"
  by (simp add: covered_def table_sum_def slot_blocks_def blank_custody_def sum_list_replicate own_blocks_def)

lemma runs_settle_all:
  assumes "ready fx t" and "covered t" and "length (snd t) = n"
  shows "runs (each (at_slot (settle_slot mu fx)) [0..<n] t) (\<lambda>t' es. table_books t t' es \<and> (\<forall>c \<in> set (snd t'). cleared c))"
proof -
  let ?I = "\<lambda>xs u es. \<exists>i \<le> n. xs = [i..<n] \<and> table_books t u es \<and> sane (fst u) \<and> length (snd u) = n \<and>
    (\<forall>j < i. cleared (snd u ! j)) \<and> (\<forall>j. i \<le> j \<longrightarrow> j < n \<longrightarrow> cu_occupied (snd u ! j) \<and> plain fx (snd u ! j))"
  have "runs (each (at_slot (settle_slot mu fx)) [0..<n] t) (?I [])"
  proof (rule runs_each)
    show "?I [0..<n] t []" using assms by (intro exI [of _ 0]) (auto simp: ready_def intro: table_books_refl)
  next
    fix x ys u es
    assume "?I (x # ys) u es"
    then obtain i where i: "i \<le> n" "x # ys = [i..<n]" and t: "table_books t u es" "sane (fst u)" "length (snd u) = n"
      "\<forall>j < i. cleared (snd u ! j)" "\<forall>j. i \<le> j \<longrightarrow> j < n \<longrightarrow> cu_occupied (snd u ! j) \<and> plain fx (snd u ! j)" by blast
    from upt_Cons_eq [OF i(2)] have x: "x = i" "ys = [Suc i..<n]" "i < n" by simp_all
    obtain h' us where t': "u = (h', us)" by (cases u)
    have "slot_blocks (us ! i) p \<le> own_blocks h' p" for p
    proof -
      have "slot_blocks (us ! i) p \<le> sum_list (map (\<lambda>c. slot_blocks c p) us)"
        by (rule member_le_sum_list_int) (use x(3) t(3) in \<open>auto simp: t' slot_blocks_nonneg\<close>)
      also have "\<dots> \<le> own_blocks h' p"
        using covered_keeps [OF assms(2) t(1)] by (simp add: covered_def t' table_sum_def)
      finally show ?thesis .
    qed
    then have "runs (settle_slot mu fx (us ! i) h') (\<lambda>(c', h'') es. slot_books (us ! i) h' c' h'' es \<and> cleared c')"
      using t(2,5) x(3) by (intro runs_settle_slot) (auto simp: t')
    then have "runs (at_slot (settle_slot mu fx) i (h', us)) (\<lambda>u fs. table_books (h', us) u fs \<and>
        (\<exists>c'. i < length us \<and> snd u = us[i := c'] \<and> cleared c'))"
      by (rule runs_at_slot)
    then show "runs (at_slot (settle_slot mu fx) x u) (\<lambda>t' fs. ?I ys t' (es @ fs))"
      unfolding t' x(1)
    proof (rule runs_weaken)
      fix v fs
      assume v: "table_books (h', us) v fs \<and> (\<exists>c'. i < length us \<and> snd v = us[i := c'] \<and> cleared c')"
      then have "table_books t v (es @ fs)" by (intro table_books_trans [OF t(1) [unfolded t']]) simp
      moreover from v have "sane (fst v)" by (simp add: table_books_def books_def)
      ultimately have "table_books t v (es @ fs)" "sane (fst v)" by simp_all
      with v t x show "?I ys v (es @ fs)"
        by (intro exI [of _ "Suc i"]) (auto simp: t' nth_list_update less_Suc_eq)
    qed
  qed
  then show ?thesis
    by (rule runs_weaken) (auto simp: in_set_conv_nth dest!: sym [of "[]"])
qed

lemma cleared_books:
  assumes "table_books (h, replicate n blank_custody) t es" and "\<forall>c \<in> set (snd t). cleared c"
  shows "even_books h (fst t) es"
proof -
  have "\<forall>c \<in> set us. cleared c \<Longrightarrow> sum_list (map (\<lambda>c. slot_fds c fd) us) = 0 \<and> sum_list (map slot_open us) = 0 \<and>
      sum_list (map (\<lambda>c. slot_blocks c p) us) = 0" for us fd p
    by (induction us) (auto simp: cleared_def slot_defs)
  from this [OF assms(2)] this [of "replicate n blank_custody"] assms(1) show ?thesis
    by (simp add: table_books_def table_sum_def even_books_def books_def cleared_def blank_custody_def)
qed

lemma runs_seal:
  "sane h \<Longrightarrow> cu_occupied c \<Longrightarrow> plain fx c \<Longrightarrow>
     runs (seal fx c h) (\<lambda>(c', h') es. slot_books c h c' h' es \<and> cu_occupied c' \<and> plain fx c')"
  unfolding seal_def
  by (intro runs_bind_assert runs_ret) (auto simp: slot_books_def slot_defs books_def plain_def)

lemma length_keeps: "table_books t t' es \<Longrightarrow> length (snd t) = n \<Longrightarrow> length (snd t') = n"
  by (simp add: table_books_def)

lemma table_quiet_then: "no_descriptors fs \<Longrightarrow> table_books t t' es \<Longrightarrow> table_books t t' (fs @ es)"
  by (simp add: table_books_def books_def no_descriptors_def)

lemma table_sane: "table_books t t' es \<Longrightarrow> sane (fst t')"
  by (simp add: table_books_def books_def)

lemma runs_live_slots:
  assumes "sane h"
  shows "runs (live_slots mu callbacks fx h) (\<lambda>t es. even_books h (fst t) es)"
proof -
  let ?b = "(h, replicate (fx_count fx) blank_custody)"
  have sealing: "runs (each (at_slot (seal fx)) xs t) (\<lambda>t' es. table_books t t' es \<and> ready fx t')" if "ready fx t" for xs t
    by (intro runs_each_ready that runs_at_ready runs_seal)
  have early: "runs (\<lambda>w. if b then each (at_slot (with_effect (early_end mu fx))) xs t w else Some (t, w))
      (\<lambda>t' es. table_books t t' es \<and> ready fx t')" if "ready fx t" for b xs t
    by (intro runs_if runs_each_ready that runs_at_ready runs_with_effect runs_early_end runs_ret)
      (use that in \<open>auto simp: ready_def intro: table_books_refl\<close>)
  show ?thesis unfolding live_slots_def Let_def
  proof (intro runs_bind [OF runs_setup_all [OF assms]] runs_bind [OF runs_snapshot] runs_bind [OF runs_work] runs_bind [OF sealing]
        runs_bind [OF early] runs_bind [OF runs_settle_all] runs_ret; (elim conjE)?)
    fix t0 es0 t1 es1 t2 es2 t3 es3
    assume b: "table_books ?b t0 es0" "table_books t0 t1 es1" "table_books t1 t2 es2" "table_books t2 t3 es3"
    show "covered t3"
      by (rule covered_keeps [OF covered_keeps [OF covered_keeps [OF covered_keeps [OF covered_blank b(1)] b(2)] b(3)] b(4)])
    show "length (snd t3) = fx_count fx"
      by (rule length_keeps [OF b(4) length_keeps [OF b(3) length_keeps [OF b(2) length_keeps [OF b(1)]]]]) simp
  next
    fix t0 es0 n0 t1 es1 t2 es2 n2 t3 es3 n3 t4 es4 n4
    assume b: "table_books ?b t0 es0" "no_descriptors n0" "table_books t0 t1 es1" "table_books t1 t2 es2" "no_descriptors n2"
      "table_books t2 t3 es3" "no_descriptors n3" "table_books t3 t4 es4" "no_descriptors n4"
    have "table_books ?b t4 (es0 @ n0 @ es1 @ es2 @ n2 @ es3 @ n3 @ es4 @ n4 @ [])"
      by (rule table_books_trans [OF b(1) table_quiet_then [OF b(2) table_books_trans [OF b(3) table_books_trans [OF b(4)
        table_quiet_then [OF b(5) table_books_trans [OF b(6) table_quiet_then [OF b(7) table_books_trans [OF b(8)
        table_quiet_then [OF b(9) table_books_refl [OF table_sane [OF b(8)]]]]]]]]]]])
    moreover assume "\<forall>c \<in> set (snd t4). cleared c"
    ultimately show "even_books h (fst t4) (es0 @ n0 @ es1 @ es2 @ n2 @ es3 @ n3 @ es4 @ n4 @ [])"
      by (rule cleared_books)
  qed assumption+
qed

section \<open>The whole run\<close>

lemma runs_start_stop:
  assumes "sane h"
  shows "runs (start_curl mu fx h) (\<lambda>h' es. even_books h h' es)" "runs (stop_curl mu fx h) (\<lambda>h' es. even_books h h' es)"
  unfolding start_curl_def stop_curl_def
  by (intro runs_if runs_bind [OF runs_curl_ok] runs_bind [OF runs_curl_new] runs_bind [OF runs_curl] runs_pair runs_ret
      runs_weaken [OF runs_curl_ok]; use assms in \<open>auto simp: even_books_def books_def\<close>)+

lemma runs_use_memory:
  assumes "sane h" and "\<And>p. own_blocks h p = owns slots p + owns shared p"
  shows "runs (use_memory mu callbacks fx slots shared h) (\<lambda>h' es. sane h' \<and> (\<forall>p. own_blocks h' p = 0) \<and>
    ho_owned_fds h' = ho_owned_fds h \<and> (\<forall>fd. fd_net es fd = 0))"
  unfolding use_memory_def
  by (intro runs_bind [OF runs_start_stop(1)] runs_bind [OF runs_live_slots] runs_pair runs_bind [OF runs_start_stop(2)]
      runs_bind [OF runs_free_block] runs_bind [OF runs_snapshot] runs_ret)
    (use assms in \<open>auto simp: even_books_def books_def no_descriptors_def owns_def\<close>)

lemma own_no_memory [simp]: "own_blocks \<lparr>ho_memory = no_memory, ho_owned_fds = k\<rparr> p = 0"
  by (simp add: own_blocks_def handles_in_def no_memory_def)

lemma runs_lifetimes_body:
  "runs (lifetimes_body mu callbacks fx) (\<lambda>h es. sane h \<and> (\<forall>p. own_blocks h p = 0) \<and> ho_owned_fds h = 0 \<and> (\<forall>fd. fd_net es fd = 0))"
  unfolding lifetimes_body_def
  by (intro runs_bind [OF runs_snapshot] runs_bind [OF runs_new_block] runs_pair runs_weaken [OF runs_use_memory])
    (auto simp: books_def no_descriptors_def no_memory_ok)

text \<open>
  C37. A run of the lifetime fixture that comes to its last assertion owns nothing: every descriptor
  it opened was closed exactly once, \<open>owned_fds\<close> is 0 and so are the live bytes of its own blocks,
  whatever libcurl did with its memory and its callbacks.  The last assertion can only fail by
  what libcurl did not give back.
\<close>

theorem lifetimes_own_nothing:
  assumes "lifetimes_body mu callbacks fx w = Some (h, w')"
  shows "\<exists>es. emits w w' es \<and> (\<forall>fd. fd_net es fd = 0) \<and> ho_owned_fds h = 0 \<and> mm_live (ho_memory h) ! 0 = 0"
proof -
  from runsD [OF runs_lifetimes_body assms] obtain es where es: "emits w w' es" "sane h" "\<forall>p. own_blocks h p = 0"
    "ho_owned_fds h = 0" "\<forall>fd. fd_net es fd = 0" by metis
  from es(3) have "handles_in 0 (ho_memory h) = {#}" by (simp add: own_blocks_def multiset_eq_iff)
  with es(2) have "mm_live (ho_memory h) ! 0 = 0" by (intro no_blocks_none_live) simp_all
  with es show ?thesis by blast
qed

text \<open>One edit of two bytes, released early.\<close>

definition edit_fixture :: fixture where
  "edit_fixture = \<lparr>fx_kind = Edit, fx_early = True, fx_count = 1, fx_bytes = 2\<rparr>"

definition ok_data :: "byte list \<Rightarrow> reply" where
  "ok_data bs = \<lparr>r_ret = int (length bs), r_errno = 0, r_out = [], r_data = bs\<rparr>"

definition edit_script :: "reply list" where
  "edit_script = [ok 5, ok 0, ok 0, ok_data (replicate 80 0), ok 6, ok 0, ok 0, ok 2, ok 0] @
     replicate 4 (ok 0) @ [ok 0] @ [ok_data [97, 10], ok 2] @ replicate 5 (ok 0) @ replicate 5 (ok 0) @
     [ok 0, ok_data [98, 10], ok 0, ok 0, ok 0, ok_data [98, 10], ok 2, ok 0, ok 0, ok 0, ok_data [98, 10], ok 0] @
     replicate 2 (ok 0) @ [ok 1] @ replicate 3 (ok 0) @ replicate 2 (ok 0) @ replicate 3 (ok 0)"


lemma run_edit:
  "map_option (\<lambda>x. (ho_owned_fds (fst x), mm_live (ho_memory (fst x)), w_script (snd x)))
     (use_memory (\<lambda>_. []) (\<lambda>_. []) edit_fixture 1 2
       \<lparr>ho_memory = \<lparr>mm_live = [80384, 0], mm_peak = [80384, 0],
          mm_blocks = [(2, \<lparr>bk_size = 16384, bk_category = 0, bk_bytes = X\<rparr>), (1, \<lparr>bk_size = 64000, bk_category = 0, bk_bytes = Y\<rparr>)],
          mm_next = 3\<rparr>, ho_owned_fds = 0\<rparr> \<lparr>w_script = edit_script, w_trace = T\<rparr>) = Some (0, [0, 0], [])"
  by code_simp

definition block_reply :: "nat \<Rightarrow> reply" where
  "block_reply n = \<lparr>r_ret = 1, r_errno = 0, r_out = [], r_data = replicate n 0\<rparr>"

definition body_script :: "reply list" where
  "body_script = [ok 0, ok 0, ok 0, block_reply 64016, ok 0, ok 0, ok 0, block_reply 16400] @ edit_script"

lemma snapshot_replies:
  "\<exists>rd es. snapshot [] \<lparr>w_script = ok 0 # ok 0 # ok 0 # rs, w_trace = T\<rparr> = Some (rd, \<lparr>w_script = rs, w_trace = T @ es\<rparr>)"
  by (simp add: snapshot_def sys_def assert_def fails_def)

lemma new_block_reply:
  "mm_next (ho_memory h) \<noteq> 0 \<Longrightarrow> k = unat (HEADER + n) \<Longrightarrow>
     \<exists>es. new_block n h \<lparr>w_script = block_reply k # rs, w_trace = T\<rparr> =
       Some ((mm_next (ho_memory h), h\<lparr>ho_memory := add_block n 0 (drop (unat HEADER) (replicate k 0)) (ho_memory h)\<rparr>),
         \<lparr>w_script = rs, w_trace = T @ es\<rparr>)"
  by (simp add: new_block_def allocate_def sys_def assert_def block_reply_def)

lemma run_body: "\<exists>h w'. lifetimes_body (\<lambda>_. []) (\<lambda>_. []) edit_fixture (boot body_script) = Some (h, w')"
proof -
  let ?h = "\<lparr>ho_memory = no_memory, ho_owned_fds = 0\<rparr>"
  let ?X = "drop (unat HEADER) (replicate 16400 0)" and ?Y = "drop (unat HEADER) (replicate 64016 0)"
  let ?h1 = "?h\<lparr>ho_memory := add_block 64000 0 ?Y no_memory\<rparr>"
  let ?h2 = "?h1\<lparr>ho_memory := add_block 16384 0 ?X (ho_memory ?h1)\<rparr>"
  have h2: "?h2 = \<lparr>ho_memory = \<lparr>mm_live = [80384, 0], mm_peak = [80384, 0],
      mm_blocks = [(2, \<lparr>bk_size = 16384, bk_category = 0, bk_bytes = ?X\<rparr>), (1, \<lparr>bk_size = 64000, bk_category = 0, bk_bytes = ?Y\<rparr>)],
      mm_next = 3\<rparr>, ho_owned_fds = 0\<rparr>"
    by (simp add: add_block_def no_memory_def Let_def del: drop_replicate)
  obtain rd1 T1 where 1: "snapshot [] (boot body_script) = Some (rd1, \<lparr>w_script = block_reply 64016 # [ok 0, ok 0, ok 0, block_reply 16400] @ edit_script, w_trace = T1\<rparr>)"
    using snapshot_replies by (fastforce simp: body_script_def boot_def)
  have nexts: "mm_next no_memory = 1" "mm_next (ho_memory ?h1) = 2" by (simp_all add: no_memory_def add_block_def Let_def)
  have p: "mm_next (ho_memory ?h) \<noteq> 0" "mm_next (ho_memory ?h1) \<noteq> 0" "64016 = unat (HEADER + 64000)" "16400 = unat (HEADER + 16384)"
    by (simp_all add: no_memory_def add_block_def Let_def)
  from new_block_reply [OF p(1,3)] obtain T2 where
    2: "new_block 64000 ?h \<lparr>w_script = block_reply 64016 # [ok 0, ok 0, ok 0, block_reply 16400] @ edit_script, w_trace = T1\<rparr> =
      Some ((mm_next no_memory, ?h1), \<lparr>w_script = [ok 0, ok 0, ok 0, block_reply 16400] @ edit_script, w_trace = T2\<rparr>)"
    unfolding holdings.simps by blast
  obtain rd3 T3 where 3: "snapshot [] \<lparr>w_script = [ok 0, ok 0, ok 0, block_reply 16400] @ edit_script, w_trace = T2\<rparr> =
      Some (rd3, \<lparr>w_script = block_reply 16400 # edit_script, w_trace = T3\<rparr>)"
    using snapshot_replies by fastforce
  from new_block_reply [OF p(2,4)] obtain T4 where
    4: "new_block 16384 ?h1 \<lparr>w_script = block_reply 16400 # edit_script, w_trace = T3\<rparr> =
      Some ((mm_next (ho_memory ?h1), ?h2), \<lparr>w_script = edit_script, w_trace = T4\<rparr>)" by blast
  have sizes: "of_nat CAP * CUSTODY_BYTES = 64000" "(of_nat WINDOW :: u64) = 16384" by simp_all
  have "lifetimes_body (\<lambda>_. []) (\<lambda>_. []) edit_fixture (boot body_script) =
      use_memory (\<lambda>_. []) (\<lambda>_. []) edit_fixture 1 2 ?h2 \<lparr>w_script = edit_script, w_trace = T4\<rparr>"
    by (simp only: lifetimes_body_def sizes 1 2 3 4 nexts Option.bind.simps prod.case)
  with run_edit [of ?X ?Y T4] show ?thesis unfolding h2 by auto
qed

lemma lifetimes_own_nothing_witness:
  "\<exists>h w' es. lifetimes_body (\<lambda>_. []) (\<lambda>_. []) edit_fixture (boot body_script) = Some (h, w') \<and>
    emits (boot body_script) w' es \<and> (\<forall>fd. fd_net es fd = 0) \<and> ho_owned_fds h = 0 \<and> mm_live (ho_memory h) ! 0 = 0"
proof -
  from run_body obtain h w' where run: "lifetimes_body (\<lambda>_. []) (\<lambda>_. []) edit_fixture (boot body_script) = Some (h, w')" by blast
  from lifetimes_own_nothing [OF run] run show ?thesis by blast
qed

section \<open>The check of a captured file\<close>

text \<open>The bytes read from a descriptor.\<close>

definition read_bytes :: "int \<Rightarrow> (call \<times> reply) list \<Rightarrow> byte list" where
  "read_bytes fd es = concat (map (\<lambda>e. case e of (Io (Read f _), r) \<Rightarrow> if f = fd \<and> 0 < r_ret r then r_data r else [] | _ \<Rightarrow> []) es)"

lemma read_bytes_simps [simp]:
  "read_bytes fd [] = []" "read_bytes fd ((Io (Read fd n), r) # es) = (if 0 < r_ret r then r_data r else []) @ read_bytes fd es"
  "read_bytes fd ((Io (Lseek_start f), r) # es) = read_bytes fd es" "read_bytes fd (es @ fs) = read_bytes fd es @ read_bytes fd fs"
  by (simp_all add: read_bytes_def)

lemma map_expected:
  "length bs = n \<Longrightarrow> \<forall>j < n. bs ! j = expected edit (pos + j) \<Longrightarrow> bs = map (expected edit) [pos..<pos + n]"
  by (rule nth_equalityI) simp_all

lemma upt_split: "i \<le> j \<Longrightarrow> j \<le> k \<Longrightarrow> [i..<j] @ [j..<k] = [i..<k]"
  by (metis le_Suc_ex upt_add_eq_append le_add1 le_trans)

lemma runs_validate_loop:
  "runs (script_loop (validate_turn fd edit) pos) (\<lambda>n es. pos \<le> n \<and> read_bytes fd es = map (expected edit) [pos..<n])"
proof (rule runs_script_loop [where I = "\<lambda>_. True" and P = "\<lambda>pos n es. pos \<le> n \<and> read_bytes fd es = map (expected edit) [pos..<n]"])
  fix pos
  show "runs (validate_turn fd edit pos) (\<lambda>x es. case x of
      Inl n \<Rightarrow> True \<and> (pos \<le> n \<and> read_bytes fd es = map (expected edit) [pos..<n])
    | Inr n \<Rightarrow> pos \<le> n \<and> read_bytes fd es = map (expected edit) [pos..<n])"
    unfolding validate_turn_def
    by (intro runs_bind_sys runs_bind_assert runs_if runs_ret) (auto intro!: map_expected simp: fails_def)
qed (auto simp: map_append [symmetric] upt_split simp del: map_append)

text \<open>
  C38. A captured file is accepted only when the bytes read from it are exactly the expected pattern
  of the expected length, for an occupied, sealed slot whose operation is its attempt's.
\<close>

theorem validate_exact:
  assumes "validate fx fd edit c w = Some (c', w')"
  shows "c' = c\<lparr>cu_published := True\<rparr> \<and> cu_occupied c \<and> cu_sealed c \<and> cu_operation c = cu_attempt c + 10000 \<and>
    (\<exists>es. emits w w' es \<and> read_bytes fd es = map (expected edit) [0..<fx_bytes fx])"
proof -
  have rewound: "runs (rewind fd) (\<lambda>_ es. \<exists>r. es = [(Io (Lseek_start fd), r)])"
    unfolding rewind_def by (intro runs_bind_sys runs_assert) simp
  have "runs (validate fx fd edit c) (\<lambda>c' es. c' = c\<lparr>cu_published := True\<rparr> \<and> cu_occupied c \<and> cu_sealed c \<and>
      cu_operation c = cu_attempt c + 10000 \<and> read_bytes fd es = map (expected edit) [0..<fx_bytes fx])"
    unfolding validate_def
    by (intro runs_bind_assert runs_bind [OF rewound] runs_bind [OF runs_validate_loop] runs_ret) auto
  from runsD [OF this assms] show ?thesis by blast
qed

lemma validate_exact_witness:
  "\<exists>w' es. validate edit_fixture 3 True (blank_custody\<lparr>cu_occupied := True, cu_sealed := True, cu_operation := 10001, cu_attempt := 1\<rparr>)
      (boot [ok 0, ok_data [98, 10], ok 0]) =
    Some (blank_custody\<lparr>cu_occupied := True, cu_sealed := True, cu_operation := 10001, cu_attempt := 1, cu_published := True\<rparr>, w') \<and>
    emits (boot [ok 0, ok_data [98, 10], ok 0]) w' es \<and> read_bytes 3 es = [98, 10]"
proof -
  let ?c = "blank_custody\<lparr>cu_occupied := True, cu_sealed := True, cu_operation := 10001, cu_attempt := 1\<rparr>"
  let ?w = "boot [ok 0, ok_data [98, 10], ok 0]"
  have "validate edit_fixture 3 True ?c ?w \<noteq> None" by code_simp
  then obtain c' w' where run: "validate edit_fixture 3 True ?c ?w = Some (c', w')" by auto
  have "map (expected True) [0..<fx_bytes edit_fixture] = [98, 10]" by code_simp
  with validate_exact [OF run] run show ?thesis by auto
qed

end
