(* ===== verification/Cache_Restat.thy ===== *)
theory Cache_Restat
  imports Prelude
begin

text \<open>
  The tool \<open>zig_cache_restat.c\<close> of the build: it walks the manifests of a restored cache and, for
  every input whose bytes still hash to the recorded digest, records the current size, inode and
  time of the file.  The file system is a parameter: what a path holds, and the manifests of a
  directory.  Integers are stored little-endian, as on the machines of the build.
\<close>

section \<open>The hash\<close>

definition load64 :: "byte list \<Rightarrow> u64" where
  "load64 bs = foldr (\<lambda>b acc. push_bit 8 acc OR ucast b) (take 8 bs) 0"

definition store64 :: "u64 \<Rightarrow> byte list" where
  "store64 v = map (\<lambda>i. ucast (drop_bit (8 * i) v)) [0..<8]"

definition ROTL :: "u64 \<Rightarrow> nat \<Rightarrow> u64" where
  "ROTL x b = push_bit b x OR drop_bit (64 - b) x"

type_synonym sip = "u64 \<times> u64 \<times> u64 \<times> u64"

definition round1 :: "sip \<Rightarrow> sip" where
  "round1 v = (case v of (v0, v1, v2, v3) \<Rightarrow>
     let v0 = v0 + v1; v1 = ROTL v1 13; v1 = v1 XOR v0; v0 = ROTL v0 32;
         v2 = v2 + v3; v3 = ROTL v3 16; v3 = v3 XOR v2;
         v0 = v0 + v3; v3 = ROTL v3 21; v3 = v3 XOR v0;
         v2 = v2 + v1; v1 = ROTL v1 17; v1 = v1 XOR v2; v2 = ROTL v2 32
     in (v0, v1, v2, v3))"

definition sip_key :: "byte list" where
  "sip_key = [0x02, 0xe9, 0xfa, 0xfe, 0xe0, 0x95, 0x81, 0x55, 0xf5, 0x5a, 0x15, 0xcb, 0x4a, 0xf4, 0x00, 0x09]"

definition sip_start :: sip where
  "sip_start = (let k0 = load64 sip_key; k1 = load64 (drop 8 sip_key)
     in (k0 XOR 0x736f6d6570736575, (k1 XOR 0x646f72616e646f6d) XOR 0xee, k0 XOR 0x6c7967656e657261, k1 XOR 0x7465646279746573))"

text \<open>One word goes in.\<close>

definition absorb :: "u64 \<Rightarrow> sip \<Rightarrow> sip" where
  "absorb m v = (case v of (v0, v1, v2, v3) \<Rightarrow> case round1 (v0, v1, v2, v3 XOR m) of (v0, v1, v2, v3) \<Rightarrow> (v0 XOR m, v1, v2, v3))"

text \<open>The whole words of the input, in order.\<close>

function absorb_words :: "byte list \<Rightarrow> sip \<Rightarrow> sip" where
  "absorb_words bs v = (if length bs < 8 then v else absorb_words (drop 8 bs) (absorb (load64 bs) v))"
  by pat_completeness auto
termination by (relation "measure (\<lambda>(bs, _). length bs)") auto

declare absorb_words.simps [simp del]

text \<open>The last word: the length and the bytes that are left.\<close>

fun last_word :: "nat \<Rightarrow> byte list \<Rightarrow> u64 \<Rightarrow> u64" where
  "last_word i [] b = b"
| "last_word i (x # xs) b = last_word (i + 1) xs (b OR push_bit (8 * i) (ucast x))"

definition fold4 :: "sip \<Rightarrow> u64" where
  "fold4 v = (case v of (v0, v1, v2, v3) \<Rightarrow> v0 XOR v1 XOR v2 XOR v3)"

definition siphash :: "byte list \<Rightarrow> byte list" where
  "siphash bs =
     (let v = absorb_words bs sip_start;
          b = last_word 0 (drop (length bs - length bs mod 8) bs) (push_bit 56 (of_nat (length bs)));
          v = (case absorb b v of (v0, v1, v2, v3) \<Rightarrow> (v0, v1, v2 XOR 0xee, v3));
          v = round1 (round1 (round1 v));
          lo = fold4 v;
          v = (case v of (v0, v1, v2, v3) \<Rightarrow> (v0, v1 XOR 0xdd, v2, v3));
          v = round1 (round1 (round1 v));
          hi = fold4 v
      in store64 lo @ store64 hi)"

section \<open>Manifests\<close>

record regular =
  rg_inode :: u64
  rg_seconds :: u64
  rg_nanoseconds :: u64
  rg_bytes :: "byte list"

text \<open>What a path holds if it can be opened and is a regular file.\<close>

type_synonym files = "byte list \<Rightarrow> regular option"

definition hash_file :: "files \<Rightarrow> byte list \<Rightarrow> (regular \<times> byte list) option" where
  "hash_file files path = map_option (\<lambda>st. (st, siphash (rg_bytes st))) (files path)"

abbreviation HEADER :: nat where "HEADER \<equiv> 41"

text \<open>Size, inode and time, as they are recorded.\<close>

definition stat_fields :: "regular \<Rightarrow> byte list" where
  "stat_fields st = store64 (of_nat (length (rg_bytes st))) @ store64 (rg_inode st) @
     store64 (rg_seconds st * 1000000000 + rg_nanoseconds st)"

text \<open>The paths a name stands for, cut to the buffer.\<close>

definition full_paths :: "byte list list \<Rightarrow> byte list \<Rightarrow> byte list list" where
  "full_paths bases name = map (take 8191)
     (if bases = [] then [] else if name ! 0 = 47 then [name] else map (\<lambda>b. b @ [47] @ name) bases)"

fun first_match :: "files \<Rightarrow> byte list \<Rightarrow> byte list list \<Rightarrow> regular option" where
  "first_match files digest [] = None"
| "first_match files digest (p # ps) =
     (case hash_file files p of
        None \<Rightarrow> first_match files digest ps
      | Some (st, d) \<Rightarrow> if d = digest then Some st else first_match files digest ps)"

record tally =
  ta_updated :: nat
  ta_kept :: nat
  ta_unmatched :: nat

definition no_tally :: tally where
  "no_tally = \<lparr>ta_updated = 0, ta_kept = 0, ta_unmatched = 0\<rparr>"

definition add_tally :: "tally \<Rightarrow> tally \<Rightarrow> tally" where
  "add_tally a b = \<lparr>ta_updated = ta_updated a + ta_updated b, ta_kept = ta_kept a + ta_kept b,
     ta_unmatched = ta_unmatched a + ta_unmatched b\<rparr>"

text \<open>One record with its name; directories and metadata-only inputs are left alone.\<close>

definition restat_record :: "files \<Rightarrow> byte list list \<Rightarrow> byte list \<Rightarrow> byte list \<Rightarrow> byte list \<times> tally" where
  "restat_record files bases name r =
     (if r ! 40 AND 3 \<noteq> 0 then (r, no_tally)
      else (case first_match files (take 16 (drop 24 r)) (full_paths bases name) of
          None \<Rightarrow> (r, no_tally\<lparr>ta_unmatched := 1\<rparr>)
        | Some st \<Rightarrow> if take 24 r = stat_fields st then (r, no_tally\<lparr>ta_kept := 1\<rparr>)
            else (stat_fields st @ drop 24 r, no_tally\<lparr>ta_updated := 1\<rparr>)))"

text \<open>The walk over what is left of the manifest; the offset is what was dropped.\<close>

definition name_at :: "byte list \<Rightarrow> byte list" where
  "name_at m = takeWhile (\<lambda>b. b \<noteq> 0) (drop HEADER m)"

definition no_record :: "byte list \<Rightarrow> bool" where
  "no_record m \<longleftrightarrow> \<not> HEADER + 1 < length m \<or> name_at m = [] \<or> HEADER + length (name_at m) \<ge> length m"

function restat_records :: "files \<Rightarrow> byte list list \<Rightarrow> byte list \<Rightarrow> byte list \<times> tally" where
  "restat_records files bases m =
     (if no_record m then (m, no_tally)
      else let stop = HEADER + length (name_at m);
               (r, a) = restat_record files bases (name_at m) (take (stop + 1) m);
               (rest, b) = restat_records files bases (drop (stop + 1) m)
           in (r @ rest, add_tally a b))"
  by pat_completeness auto
termination by (relation "measure (\<lambda>(_, _, m). length m)") (auto simp: no_record_def)

declare restat_records.simps [simp del]

definition restat_manifest :: "files \<Rightarrow> byte list list \<Rightarrow> byte list \<Rightarrow> byte list \<times> tally" where
  "restat_manifest files bases m = (if length m < 2 then (m, no_tally) else restat_records files bases m)"

text \<open>The entries of a directory, each a manifest that could be opened or not.\<close>

fun restat_dir :: "files \<Rightarrow> byte list list \<Rightarrow> (string \<times> byte list option) list \<Rightarrow> (string \<times> byte list option) list \<times> tally" where
  "restat_dir files bases [] = ([], no_tally)"
| "restat_dir files bases ((name, m) # es) =
     (let (es', b) = restat_dir files bases es in
      case m of
        None \<Rightarrow> ((name, m) # es', b)
      | Some bs \<Rightarrow>
          if (name \<noteq> [] \<and> name ! 0 = CHR ''.'') \<or> name = ''timestamp'' then ((name, m) # es', b)
          else let (bs', a) = restat_manifest files bases bs in ((name, Some bs') # es', add_tally a b))"

text \<open>The directories before the dashes, the first eight bases after them.\<close>

definition split_arguments :: "string list \<Rightarrow> string list \<times> string list" where
  "split_arguments argv = (let split = 1 + length (takeWhile (\<lambda>a. a \<noteq> ''--'') (drop 1 argv))
     in (take (split - 1) (drop 1 argv), take 8 (drop (split + 1) argv)))"

type_synonym cache = "string \<Rightarrow> (string \<times> byte list option) list option"

fun restat_dirs :: "files \<Rightarrow> byte list list \<Rightarrow> cache \<Rightarrow> string list \<Rightarrow> cache \<times> tally" where
  "restat_dirs files bases dirs [] = (dirs, no_tally)"
| "restat_dirs files bases dirs (d # ds) =
     (let (dirs, a) = (case dirs d of None \<Rightarrow> (dirs, no_tally)
            | Some es \<Rightarrow> (let (es, a) = restat_dir files bases es in (dirs(d := Some es), a)));
          (dirs, b) = restat_dirs files bases dirs ds
      in (dirs, add_tally a b))"

definition restat_main :: "files \<Rightarrow> cache \<Rightarrow> string list \<Rightarrow> cache \<times> tally" where
  "restat_main files dirs argv =
     (case split_arguments argv of (ds, bases) \<Rightarrow> restat_dirs files (map bytes_of bases) dirs ds)"

section \<open>The records of a manifest\<close>

text \<open>The records, each with its name and the zero after it, and what is left.\<close>

function split_records :: "byte list \<Rightarrow> byte list list \<times> byte list" where
  "split_records m =
     (if no_record m then ([], m)
      else let stop = HEADER + length (name_at m); (rs, rest) = split_records (drop (stop + 1) m)
           in (take (stop + 1) m # rs, rest))"
  by pat_completeness auto
termination by (relation "measure length") (auto simp: no_record_def)

declare split_records.simps [simp del]

text \<open>A record that the walk finds.\<close>

definition is_record :: "byte list \<Rightarrow> bool" where
  "is_record r \<longleftrightarrow> (\<exists>head name. r = head @ name @ [0] \<and> length head = HEADER \<and> name \<noteq> [] \<and> 0 \<notin> set name)"

definition record_name :: "byte list \<Rightarrow> byte list" where
  "record_name r = butlast (drop HEADER r)"

lemma length_store64 [simp]: "length (store64 v) = 8"
  by (simp add: store64_def)

lemma length_stat_fields [simp]: "length (stat_fields st) = 24"
  by (simp add: stat_fields_def)

lemma takeWhile_nonzero: "0 \<notin> set name \<Longrightarrow> takeWhile (\<lambda>b. b \<noteq> 0) (name @ 0 # rest) = (name :: byte list)"
  by (induction name) auto

lemma record_found:
  assumes "is_record r"
  shows "\<not> no_record (r @ rest)" and "HEADER + length (name_at (r @ rest)) + 1 = length r" and "name_at (r @ rest) = record_name r"
proof -
  from assms obtain head name where r: "r = head @ name @ [0]" "length head = HEADER" "name \<noteq> []" "0 \<notin> set name"
    by (auto simp: is_record_def)
  have n: "name_at (r @ rest) = name" using r(2) takeWhile_nonzero [OF r(4)] by (simp add: name_at_def r(1))
  have "length name > 0" using r(3) by simp
  with n r show "\<not> no_record (r @ rest)" by (simp add: no_record_def)
  show "HEADER + length (name_at (r @ rest)) + 1 = length r" using n r by simp
  show "name_at (r @ rest) = record_name r" using n r(2) by (simp add: record_name_def r(1) butlast_append)
qed

lemma split_records_parts:
  "split_records m = (rs, rest) \<Longrightarrow> m = concat rs @ rest \<and> (\<forall>r \<in> set rs. is_record r) \<and> no_record rest"
proof (induction m arbitrary: rs rest rule: split_records.induct)
  case (1 m)
  show ?case
  proof (cases "no_record m")
    case True
    with "1.prems" show ?thesis by (simp add: split_records.simps [of m])
  next
    case False
    let ?stop = "HEADER + length (name_at m)"
    obtain rs' rest' where tail: "split_records (drop (?stop + 1) m) = (rs', rest')" by (cases "split_records (drop (?stop + 1) m)")
    with "1.prems" False have rs: "rs = take (?stop + 1) m # rs'" "rest = rest'"
      by (simp_all add: split_records.simps [of m] Let_def)
    from False have len: "?stop < length m" "name_at m \<noteq> []" by (simp_all add: no_record_def)
    have "m ! ?stop = 0"
    proof -
      have "drop HEADER m ! length (name_at m) = 0"
        using len nth_length_takeWhile [of "\<lambda>b. b \<noteq> 0" "drop HEADER m"] by (simp add: name_at_def)
      with len show ?thesis by (simp add: nth_drop)
    qed
    moreover have "take ?stop m = take HEADER m @ name_at m"
      by (simp add: take_add name_at_def takeWhile_eq_take [symmetric])
    ultimately have "take (?stop + 1) m = take HEADER m @ name_at m @ [0]"
      unfolding Suc_eq_plus1 [symmetric] take_Suc_conv_app_nth [OF len(1)] by simp
    moreover have "0 \<notin> set (name_at m)" by (auto simp: name_at_def dest: set_takeWhileD)
    moreover have "length (take HEADER m) = HEADER" using len by simp
    ultimately have "is_record (take (?stop + 1) m)" using len unfolding is_record_def by blast
    moreover have "m = take (?stop + 1) m @ concat rs' @ rest'" "\<forall>r \<in> set rs'. is_record r" "no_record rest'"
      using "1.IH" [OF False refl tail] append_take_drop_id [of "?stop + 1" m] by simp_all
    ultimately show ?thesis using rs by simp
  qed
qed

lemma split_records_Cons: "is_record r \<Longrightarrow> split_records (r @ rest) = (r # fst (split_records rest), snd (split_records rest))"
  using record_found [of r rest] by (subst split_records.simps) (simp add: Let_def case_prod_beta)

lemma split_records_concat:
  "\<forall>r \<in> set rs. is_record r \<Longrightarrow> no_record rest \<Longrightarrow> split_records (concat rs @ rest) = (rs, rest)"
proof (induction rs)
  case Nil
  then show ?case by (simp add: split_records.simps [of rest])
next
  case (Cons r rs)
  then show ?case using split_records_Cons [of r "concat rs @ rest"] by simp
qed

section \<open>What the walk does to them\<close>

definition patch :: "files \<Rightarrow> byte list list \<Rightarrow> byte list \<Rightarrow> byte list \<times> tally" where
  "patch files bases r = restat_record files bases (record_name r) r"

fun tallies :: "tally list \<Rightarrow> tally" where
  "tallies [] = no_tally"
| "tallies (a # as) = add_tally a (tallies as)"

lemma restat_records_map:
  "split_records m = (rs, rest) \<Longrightarrow>
     restat_records files bases m = (concat (map (fst \<circ> patch files bases) rs) @ rest, tallies (map (snd \<circ> patch files bases) rs))"
proof (induction m arbitrary: rs rest rule: split_records.induct)
  case (1 m)
  show ?case
  proof (cases "no_record m")
    case True
    with "1.prems" have "rs = []" "rest = m" by (simp_all add: split_records.simps [of m])
    with True show ?thesis by (simp add: restat_records.simps [of _ _ m])
  next
    case False
    let ?stop = "HEADER + length (name_at m)"
    obtain rs' rest' where tail: "split_records (drop (?stop + 1) m) = (rs', rest')" by (cases "split_records (drop (?stop + 1) m)")
    with "1.prems" False have rs: "rs = take (?stop + 1) m # rs'" "rest = rest'"
      by (simp_all add: split_records.simps [of m] Let_def)
    have "is_record (take (?stop + 1) m)" using split_records_parts [OF "1.prems"] rs(1) by simp
    from record_found(3) [OF this, of "drop (?stop + 1) m"] have "record_name (take (?stop + 1) m) = name_at m" by simp
    with "1.IH" [OF False refl tail] False rs show ?thesis
      by (simp add: restat_records.simps [of _ _ m] Let_def case_prod_beta patch_def)
  qed
qed

lemma restat_manifest_records: "restat_manifest files bases m = restat_records files bases m"
  by (simp add: restat_manifest_def restat_records.simps [of _ _ m] no_record_def)

text \<open>How a record can change.\<close>

lemma first_match_Some:
  "first_match files digest ps = Some st \<Longrightarrow> \<exists>p \<in> set ps. files p = Some st \<and> siphash (rg_bytes st) = digest"
  by (induction ps) (auto simp: hash_file_def split: option.splits if_splits)

definition patched_by :: "files \<Rightarrow> byte list list \<Rightarrow> byte list \<Rightarrow> regular \<Rightarrow> bool" where
  "patched_by files bases r st \<longleftrightarrow> r ! 40 AND 3 = 0 \<and>
     (\<exists>p \<in> set (full_paths bases (record_name r)). files p = Some st) \<and> siphash (rg_bytes st) = take 16 (drop 24 r)"

lemma patch_cases:
  "fst (patch files bases r) = r \<and> ta_updated (snd (patch files bases r)) = 0 \<or>
   (\<exists>st. patched_by files bases r st \<and> fst (patch files bases r) = stat_fields st @ drop 24 r)"
  by (auto simp: patch_def restat_record_def patched_by_def no_tally_def split: option.splits dest!: first_match_Some)

lemma patch_shape:
  assumes "is_record r"
  shows "is_record (fst (patch files bases r)) \<and> drop 24 (fst (patch files bases r)) = drop 24 r"
proof (cases "fst (patch files bases r) = r")
  case True
  with assms show ?thesis by simp
next
  case False
  then obtain st where p: "fst (patch files bases r) = stat_fields st @ drop 24 r" using patch_cases by blast
  from assms obtain head name where r: "r = head @ name @ [0]" "length head = HEADER" "name \<noteq> []" "0 \<notin> set name"
    by (auto simp: is_record_def)
  then have "stat_fields st @ drop 24 r = (stat_fields st @ drop 24 head) @ name @ [0]" "length (stat_fields st @ drop 24 head) = HEADER"
    by simp_all
  with r(3,4) p have "is_record (fst (patch files bases r))" unfolding is_record_def by metis
  with p show ?thesis by simp
qed

text \<open>A second look finds the same file, and its stat as it was recorded.\<close>

lemma patch_again:
  assumes "is_record r"
  shows "patch files bases (fst (patch files bases r)) = (fst (patch files bases r),
    \<lparr>ta_updated = 0, ta_kept = ta_kept (snd (patch files bases r)) + ta_updated (snd (patch files bases r)),
     ta_unmatched = ta_unmatched (snd (patch files bases r))\<rparr>)"
proof -
  let ?r = "fst (patch files bases r)"
  have d: "drop 24 ?r = drop 24 r" "is_record ?r" using patch_shape [OF assms] by simp_all
  have len: "40 < length r" "40 < length ?r" using assms d(2) by (auto simp: is_record_def)
  have "?r ! 40 = r ! 40"
    using d(1) len nth_drop [of 24 r 16] nth_drop [of 24 ?r 16] by simp
  moreover have "record_name ?r = record_name r"
    using d(1) drop_drop [of 17 24 r] drop_drop [of 17 24 ?r] by (simp add: record_name_def)
  ultimately show ?thesis using d(1)
    by (auto simp: patch_def restat_record_def no_tally_def split: option.splits)
qed

text \<open>
  C39. A manifest keeps its records and what follows them; a record changes only in its size, inode
  and time, only when it records a content digest, and only to those of a file of its name, under
  one of the bases, whose bytes hash to that digest.
\<close>

theorem restat_touches_only_stats:
  "\<exists>rs rs' rest. split_records m = (rs, rest) \<and> split_records (fst (restat_manifest files bases m)) = (rs', rest) \<and>
    list_all2 (\<lambda>r r'. r' = r \<or> (\<exists>st. patched_by files bases r st \<and> r' = stat_fields st @ drop 24 r)) rs rs'"
proof -
  obtain rs rest where split: "split_records m = (rs, rest)" by (cases "split_records m")
  let ?rs = "map (fst \<circ> patch files bases) rs"
  note parts = split_records_parts [OF split]
  have "\<forall>r \<in> set ?rs. is_record r" using parts patch_shape by auto
  with parts have "split_records (concat ?rs @ rest) = (?rs, rest)" by (intro split_records_concat) simp_all
  moreover have "list_all2 (\<lambda>r r'. r' = r \<or> (\<exists>st. patched_by files bases r st \<and> r' = stat_fields st @ drop 24 r)) rs ?rs"
    using patch_cases by (fastforce simp: list_all2_conv_all_nth)
  ultimately show ?thesis using split by (auto simp: restat_manifest_records restat_records_map [OF split])
qed

lemma tallies_again:
  "\<forall>r \<in> set rs. is_record r \<Longrightarrow> tallies (map (\<lambda>r. snd (patch files bases (fst (patch files bases r)))) rs) =
     (let a = tallies (map (snd \<circ> patch files bases) rs)
      in \<lparr>ta_updated = 0, ta_kept = ta_kept a + ta_updated a, ta_unmatched = ta_unmatched a\<rparr>)"
  by (induction rs) (simp_all add: patch_again add_tally_def no_tally_def Let_def)

text \<open>
  C40. A second run changes nothing: what the first one updated is unchanged now, and what had no
  matching bytes has none still.
\<close>

theorem restat_settles:
  "case restat_manifest files bases m of (m', a) \<Rightarrow>
     restat_manifest files bases m' = (m', \<lparr>ta_updated = 0, ta_kept = ta_kept a + ta_updated a, ta_unmatched = ta_unmatched a\<rparr>)"
proof -
  obtain rs rest where split: "split_records m = (rs, rest)" by (cases "split_records m")
  let ?rs = "map (fst \<circ> patch files bases) rs"
  note parts = split_records_parts [OF split]
  have "\<forall>r \<in> set ?rs. is_record r" using parts patch_shape by auto
  with parts have again: "split_records (concat ?rs @ rest) = (?rs, rest)" by (intro split_records_concat) simp_all
  have "map (fst \<circ> patch files bases) ?rs = ?rs" using parts patch_again by simp
  moreover have "tallies (map (snd \<circ> patch files bases) ?rs) =
      (let a = tallies (map (snd \<circ> patch files bases) rs)
       in \<lparr>ta_updated = 0, ta_kept = ta_kept a + ta_updated a, ta_unmatched = ta_unmatched a\<rparr>)"
    using tallies_again [of rs files bases] parts by (simp add: comp_def)
  ultimately have "restat_records files bases (concat ?rs @ rest) = (concat ?rs @ rest,
      let a = tallies (map (snd \<circ> patch files bases) rs)
       in \<lparr>ta_updated = 0, ta_kept = ta_kept a + ta_updated a, ta_unmatched = ta_unmatched a\<rparr>)"
    using restat_records_map [OF again, of files bases] by (simp only:)
  then show ?thesis unfolding restat_manifest_records restat_records_map [OF split] by (simp add: Let_def)
qed

end
