(* ===== verification/String_Reader.thy ===== *)
theory String_Reader
  imports Prelude
begin

text \<open>
  The string extension \<open>rui_string_reader.inc\<close> of the evaluator: it makes one string of the engine
  from UTF-8 bytes that it reads twice through a small window, and, for comparison, the same string
  from parts that the engine joins.  A result \<open>None\<close> of a model is a fault: an access out of
  bounds, a failed assertion, or a loop that ran out of fuel.

  The engine is a parameter, a record of the functions the code calls; a value is a handle whose
  content after a call is the handle the call gives.  The state \<open>'s\<close> is whatever the callback and
  the engine keep.  The exceptions left pending in the engine are not modelled.
\<close>

section \<open>The engine and the callback\<close>

type_synonym u16 = "16 word"

text \<open>The storage of a string: one byte or two for a unit.\<close>

datatype storage = Narrow "byte list" | Wide "u16 list"

record ('v, 's) js_engine =
  js_string_len_max :: nat
  js_alloc_string :: "nat \<Rightarrow> bool \<Rightarrow> 's \<Rightarrow> storage option \<times> 's"
  js_mk_string :: "storage \<Rightarrow> 'v"
  js_free_value :: "'v \<Rightarrow> 's \<Rightarrow> 's"
  js_new_string_len :: "byte list \<Rightarrow> 's \<Rightarrow> 'v option \<times> 's"
  js_new_array :: "'s \<Rightarrow> 'v option \<times> 's"
  js_define_index :: "'v \<Rightarrow> u32 \<Rightarrow> 'v \<Rightarrow> 's \<Rightarrow> 'v option \<times> 's"
  js_call_join :: "'v \<Rightarrow> 'v \<Rightarrow> 'v \<Rightarrow> 's \<Rightarrow> 'v option \<times> 's"

text \<open>The callback is asked for so many bytes at an offset; what it writes when it fails counts for nothing.\<close>

type_synonym 's string_read = "'s \<Rightarrow> nat \<Rightarrow> nat \<Rightarrow> byte list option \<times> 's"

datatype status = OP_STRING_OK | OP_STRING_READ_FAILED | OP_STRING_INVALID_UTF8
  | OP_STRING_UNREPRESENTABLE | OP_STRING_ENGINE_MEMORY | OP_STRING_INPUT_CHANGED

section \<open>The cursor\<close>

record cursor =
  cu_window :: "byte list"
  cu_capacity :: nat
  cu_cursor :: nat
  cu_available :: nat
  cu_length :: nat
  cu_next :: nat
  cu_status :: status

text \<open>What \<open>op_byte\<close> and \<open>op_scalar\<close> return: 0, a negative number, or 1 with the result.\<close>

datatype 'a step = Stop | Failed | Got 'a

definition op_refill :: "'s string_read \<Rightarrow> cursor \<Rightarrow> 's \<Rightarrow> bool \<times> cursor \<times> 's" where
  "op_refill rd r s =
     (let size = min (cu_length r - cu_next r) (cu_capacity r) in
      case rd s (cu_next r) size of
        (None, s) \<Rightarrow> (False, r\<lparr>cu_status := OP_STRING_READ_FAILED\<rparr>, s)
      | (Some bs, s) \<Rightarrow> (True, r\<lparr>cu_window := bs @ drop (length bs) (cu_window r), cu_next := cu_next r + size,
          cu_cursor := 0, cu_available := size\<rparr>, s))"

definition op_byte :: "'s string_read \<Rightarrow> cursor \<Rightarrow> 's \<Rightarrow> (byte step \<times> cursor \<times> 's) option" where
  "op_byte rd r s =
     (if cu_cursor r = cu_available r \<and> cu_next r = cu_length r then Some (Stop, r, s)
      else
        let (good, r, s) = (if cu_cursor r = cu_available r then op_refill rd r s else (True, r, s)) in
        if \<not> good then Some (Failed, r, s)
        else if cu_cursor r < length (cu_window r)
          then Some (Got (cu_window r ! cu_cursor r), r\<lparr>cu_cursor := cu_cursor r + 1\<rparr>, s)
          else None)"

section \<open>Scalars\<close>

text \<open>How many bytes follow a lead byte, what it contributes, and the least scalar of that length.\<close>

definition op_lead :: "byte \<Rightarrow> (nat \<times> u32 \<times> u32) option" where
  "op_lead lead =
     (if lead \<ge> 0xc2 \<and> lead \<le> 0xdf then Some (1, ucast (lead AND 0x1f), 0x80)
      else if lead \<ge> 0xe0 \<and> lead \<le> 0xef then Some (2, ucast (lead AND 0x0f), 0x800)
      else if lead \<ge> 0xf0 \<and> lead \<le> 0xf4 then Some (3, ucast (lead AND 7), 0x10000)
      else None)"

definition op_invalid :: "cursor \<Rightarrow> 's \<Rightarrow> ('a step \<times> cursor \<times> 's) option" where
  "op_invalid r s = Some (Failed, r\<lparr>cu_status := OP_STRING_INVALID_UTF8\<rparr>, s)"

fun op_continue :: "'s string_read \<Rightarrow> nat \<Rightarrow> u32 \<Rightarrow> cursor \<Rightarrow> 's \<Rightarrow> (u32 step \<times> cursor \<times> 's) option" where
  "op_continue rd 0 acc r s = Some (Got acc, r, s)"
| "op_continue rd (Suc n) acc r s = do {
     (result, r, s) \<leftarrow> op_byte rd r s;
     case result of
       Failed \<Rightarrow> Some (Failed, r, s)
     | Stop \<Rightarrow> op_invalid r s
     | Got b \<Rightarrow> if b AND 0xc0 \<noteq> 0x80 then op_invalid r s
         else op_continue rd n (push_bit 6 acc OR ucast (b AND 0x3f)) r s }"

definition refused :: "u32 \<Rightarrow> u32 \<Rightarrow> bool" where
  "refused minimum v \<longleftrightarrow> v < minimum \<or> v > 0x10ffff \<or> (v \<ge> 0xd800 \<and> v \<le> 0xdfff)"

definition op_scalar :: "'s string_read \<Rightarrow> cursor \<Rightarrow> 's \<Rightarrow> (u32 step \<times> cursor \<times> 's) option" where
  "op_scalar rd r s = do {
     (present, r, s) \<leftarrow> op_byte rd r s;
     case present of
       Stop \<Rightarrow> Some (Stop, r, s)
     | Failed \<Rightarrow> Some (Failed, r, s)
     | Got lead \<Rightarrow>
         if lead < 0x80 then Some (Got (ucast lead), r, s)
         else (case op_lead lead of
             None \<Rightarrow> op_invalid r s
           | Some (count, acc, minimum) \<Rightarrow> do {
               (result, r, s) \<leftarrow> op_continue rd count acc r s;
               case result of
                 Got v \<Rightarrow> if refused minimum v then op_invalid r s else Some (Got v, r, s)
               | Stop \<Rightarrow> Some (Stop, r, s)
               | Failed \<Rightarrow> Some (Failed, r, s) }) }"

section \<open>The reader\<close>

definition units_of :: "u32 \<Rightarrow> nat" where
  "units_of scalar = (if scalar > 0xffff then 2 else 1)"

text \<open>The first pass counts the units; it stops in a scalar when they are too many.\<close>

fun op_measure :: "'s string_read \<Rightarrow> nat \<Rightarrow> nat \<Rightarrow> nat \<Rightarrow> bool \<Rightarrow> cursor \<Rightarrow> 's \<Rightarrow> (u32 step \<times> nat \<times> bool \<times> cursor \<times> 's) option" where
  "op_measure rd limit 0 units wide r s = None"
| "op_measure rd limit (Suc fuel) units wide r s = do {
     (step, r, s) \<leftarrow> op_scalar rd r s;
     case step of
       Got scalar \<Rightarrow>
         (let units = units + units_of scalar; wide = (wide \<or> scalar > 0xff)
          in if units > limit then Some (Got scalar, units, wide, r, s)
             else op_measure rd limit fuel units wide r s)
     | _ \<Rightarrow> Some (step, units, wide, r, s) }"

definition op_allocate_string :: "('v, 's) js_engine \<Rightarrow> nat \<Rightarrow> bool \<Rightarrow> 's \<Rightarrow> (storage option \<times> 's) option" where
  "op_allocate_string e units wide s =
     (case js_alloc_string e units wide s of
        (None, s) \<Rightarrow> Some (None, s)
      | (Some (Wide us), s) \<Rightarrow> Some (Some (Wide us), s)
      | (Some (Narrow bs), s) \<Rightarrow> if units < length bs then Some (Some (Narrow (bs[units := 0])), s) else None)"

definition put_narrow :: "byte \<Rightarrow> nat \<Rightarrow> storage \<Rightarrow> storage option" where
  "put_narrow b i st = (case st of Narrow bs \<Rightarrow> if i < length bs then Some (Narrow (bs[i := b])) else None | Wide _ \<Rightarrow> None)"

definition put_wide :: "u16 \<Rightarrow> nat \<Rightarrow> storage \<Rightarrow> storage option" where
  "put_wide u i st = (case st of Wide us \<Rightarrow> if i < length us then Some (Wide (us[i := u])) else None | Narrow _ \<Rightarrow> None)"

definition op_store :: "bool \<Rightarrow> u32 \<Rightarrow> nat \<Rightarrow> storage \<Rightarrow> (nat \<times> storage) option" where
  "op_store wide scalar i st =
     (if \<not> wide then do { st \<leftarrow> put_narrow (ucast scalar) i st; Some (i + 1, st) }
      else if scalar \<le> 0xffff then do { st \<leftarrow> put_wide (ucast scalar) i st; Some (i + 1, st) }
      else do {
        let scalar = scalar - 0x10000;
        st \<leftarrow> put_wide (ucast (0xd800 OR drop_bit 10 scalar)) i st;
        st \<leftarrow> put_wide (ucast (0xdc00 OR (scalar AND 0x3ff))) (i + 1) st;
        Some (i + 2, st) })"

text \<open>The second pass fills them in: whether it failed, and how many.\<close>

fun op_fill :: "'s string_read \<Rightarrow> nat \<Rightarrow> bool \<Rightarrow> nat \<Rightarrow> nat \<Rightarrow> storage \<Rightarrow> cursor \<Rightarrow> 's \<Rightarrow> (bool \<times> nat \<times> storage \<times> cursor \<times> 's) option" where
  "op_fill rd units wide 0 i st r s = None"
| "op_fill rd units wide (Suc fuel) i st r s = do {
     (step, r, s) \<leftarrow> op_scalar rd r s;
     case step of
       Stop \<Rightarrow> Some (False, i, st, r, s)
     | Failed \<Rightarrow> Some (True, i, st, r, s)
     | Got scalar \<Rightarrow>
         if units_of scalar > units - i \<or> (\<not> wide \<and> scalar > 0xff)
         then Some (True, i, st, r\<lparr>cu_status := OP_STRING_INPUT_CHANGED\<rparr>, s)
         else do { (i, st) \<leftarrow> op_store wide scalar i st; op_fill rd units wide fuel i st r s } }"

definition op_start :: "byte list \<Rightarrow> nat \<Rightarrow> cursor" where
  "op_start workspace n = \<lparr>cu_window = workspace, cu_capacity = length workspace, cu_cursor = 0, cu_available = 0,
     cu_length = n, cu_next = 0, cu_status = OP_STRING_OK\<rparr>"

text \<open>The value, the status, the workspace as it is left, and the state.\<close>

definition OP_NewStringUTF8Reader ::
    "('v, 's) js_engine \<Rightarrow> nat \<Rightarrow> 's string_read \<Rightarrow> byte list \<Rightarrow> 's \<Rightarrow> ('v option \<times> status \<times> byte list \<times> 's) option" where
  "OP_NewStringUTF8Reader e n rd workspace s =
     (if workspace = [] then None
      else do {
        (step, units, wide, r, s) \<leftarrow> op_measure rd (js_string_len_max e) (n + 1) 0 False (op_start workspace n) s;
        case step of
          Got _ \<Rightarrow> Some (None, OP_STRING_UNREPRESENTABLE, cu_window r, s)
        | Failed \<Rightarrow> Some (None, cu_status r, cu_window r, s)
        | Stop \<Rightarrow> do {
            (allocated, s) \<leftarrow> op_allocate_string e units wide s;
            case allocated of
              None \<Rightarrow> Some (None, OP_STRING_ENGINE_MEMORY, cu_window r, s)
            | Some st \<Rightarrow> do {
                (failed, index, st, r, s) \<leftarrow> op_fill rd units wide (n + 1) 0 st (r\<lparr>cu_cursor := 0, cu_available := 0, cu_next := 0\<rparr>) s;
                if failed \<or> index \<noteq> units then
                  (let s = js_free_value e (js_mk_string e st) s
                   in Some (None, if failed then cu_status r else OP_STRING_INPUT_CHANGED, cu_window r, s))
                else Some (Some (js_mk_string e st), OP_STRING_OK, cu_window r, s) } } })"

section \<open>The comparison\<close>

definition op_public_part :: "('v, 's) js_engine \<Rightarrow> 'v \<Rightarrow> u32 \<Rightarrow> byte list \<Rightarrow> 's \<Rightarrow> 'v option \<times> 's" where
  "op_public_part e parts i bs s =
     (case js_new_string_len e bs s of
        (None, s) \<Rightarrow> (None, s)
      | (Some part, s) \<Rightarrow> js_define_index e parts i part s)"

definition encode_utf8 :: "u32 \<Rightarrow> byte list" where
  "encode_utf8 scalar =
     (if scalar < 0x80 then [ucast scalar]
      else if scalar < 0x800 then [ucast (0xc0 OR drop_bit 6 scalar), ucast (0x80 OR (scalar AND 63))]
      else if scalar < 0x10000 then
        [ucast (0xe0 OR drop_bit 12 scalar), ucast (0x80 OR (drop_bit 6 scalar AND 63)), ucast (0x80 OR (scalar AND 63))]
      else [ucast (0xf0 OR drop_bit 18 scalar), ucast (0x80 OR (drop_bit 12 scalar AND 63)),
            ucast (0x80 OR (drop_bit 6 scalar AND 63)), ucast (0x80 OR (scalar AND 63))])"

text \<open>The bytes of a part are collected in 4096 bytes on the stack.\<close>

definition put_bytes :: "byte list \<Rightarrow> byte list \<Rightarrow> byte list option" where
  "put_bytes bs new = (if length bs + length new \<le> 4096 then Some (bs @ new) else None)"

text \<open>
  The loop that collects the bytes of a part: a part that could not be made, or how the input ended
  with the parts, their number and the bytes of the last one.
\<close>

fun op_collect :: "('v, 's) js_engine \<Rightarrow> 's string_read \<Rightarrow> nat \<Rightarrow> 'v \<Rightarrow> u32 \<Rightarrow> byte list \<Rightarrow> cursor \<Rightarrow> 's \<Rightarrow>
    ((bool \<times> byte list) option \<times> 'v \<times> u32 \<times> cursor \<times> 's) option" where
  "op_collect e rd 0 parts i bs r s = None"
| "op_collect e rd (Suc fuel) parts i bs r s = do {
     (step, r, s) \<leftarrow> op_scalar rd r s;
     case step of
       Stop \<Rightarrow> Some (Some (False, bs), parts, i, r, s)
     | Failed \<Rightarrow> Some (Some (True, bs), parts, i, r, s)
     | Got scalar \<Rightarrow>
         if length bs > 4096 - 4 then
           (case op_public_part e parts i bs s of
              (None, s) \<Rightarrow> Some (None, parts, i + 1, r, s)
            | (Some parts, s) \<Rightarrow> do { bs \<leftarrow> put_bytes [] (encode_utf8 scalar); op_collect e rd fuel parts (i + 1) bs r s })
         else do { bs \<leftarrow> put_bytes bs (encode_utf8 scalar); op_collect e rd fuel parts i bs r s } }"

definition memory_error :: "('v, 's) js_engine \<Rightarrow> 'v \<Rightarrow> cursor \<Rightarrow> 's \<Rightarrow> ('v option \<times> status \<times> byte list \<times> 's) option" where
  "memory_error e parts r s = Some (None, OP_STRING_ENGINE_MEMORY, cu_window r, js_free_value e parts s)"

text \<open>After the loop: the last part, the separator and the join.\<close>

definition op_join :: "('v, 's) js_engine \<Rightarrow> 'v \<Rightarrow> 'v \<Rightarrow> cursor \<Rightarrow> 's \<Rightarrow> ('v option \<times> status \<times> byte list \<times> 's) option" where
  "op_join e join parts r s =
     (case js_new_string_len e [] s of
        (None, s) \<Rightarrow> memory_error e parts r s
      | (Some separator, s) \<Rightarrow>
          (let (result, s) = js_call_join e join parts separator s;
               s = js_free_value e parts (js_free_value e separator s)
           in Some (result, if result = None then OP_STRING_ENGINE_MEMORY else OP_STRING_OK, cu_window r, s)))"

definition op_last_part :: "('v, 's) js_engine \<Rightarrow> 'v \<Rightarrow> 'v \<Rightarrow> u32 \<Rightarrow> byte list \<Rightarrow> cursor \<Rightarrow> 's \<Rightarrow> ('v option \<times> status \<times> byte list \<times> 's) option" where
  "op_last_part e join parts i bs r s =
     (if bs = [] then op_join e join parts r s
      else (case op_public_part e parts i bs s of
          (None, s) \<Rightarrow> memory_error e parts r s
        | (Some parts, s) \<Rightarrow> op_join e join parts r s))"

definition OP_NewStringUTF8Public ::
    "('v, 's) js_engine \<Rightarrow> nat \<Rightarrow> 's string_read \<Rightarrow> byte list \<Rightarrow> 'v \<Rightarrow> 's \<Rightarrow> ('v option \<times> status \<times> byte list \<times> 's) option" where
  "OP_NewStringUTF8Public e n rd workspace join s =
     (if workspace = [] then None
      else do {
        (step, units, wide, r, s) \<leftarrow> op_measure rd (js_string_len_max e) (n + 1) 0 False (op_start workspace n) s;
        case step of
          Got _ \<Rightarrow> Some (None, OP_STRING_UNREPRESENTABLE, cu_window r, s)
        | Failed \<Rightarrow> Some (None, cu_status r, cu_window r, s)
        | Stop \<Rightarrow>
            (case js_new_array e s of
               (None, s) \<Rightarrow> Some (None, OP_STRING_ENGINE_MEMORY, cu_window r, s)
             | (Some parts, s) \<Rightarrow> do {
                 (ended, parts, i, r, s) \<leftarrow> op_collect e rd (n + 1) parts 0 [] (r\<lparr>cu_cursor := 0, cu_available := 0, cu_next := 0\<rparr>) s;
                 case ended of
                   None \<Rightarrow> memory_error e parts r s
                 | Some (True, _) \<Rightarrow> Some (None, cu_status r, cu_window r, js_free_value e parts s)
                 | Some (False, bs) \<Rightarrow> op_last_part e join parts i bs r s }) })"

end
