(* ===== verification/Fixture_Memory.thy ===== *)
theory Fixture_Memory
  imports Prelude
begin

text \<open>
  The allocator of the decoder fixture, \<open>allocation_tracker.h\<close>: two populations of blocks, those of
  the engine and those of the native decoder, each with its counters, the failure it injects and,
  for the native one, a ceiling.  Addresses are handles in the order of the calls to \<open>malloc\<close>; what
  \<open>malloc\<close> gives for the n-th call is a parameter, as is the size of the header.
\<close>

section \<open>The tracker\<close>

datatype owner = Engine | Native

record population =
  po_requested :: u64
  po_live :: u64
  po_peak :: u64
  po_attempts :: u64
  po_fail_at :: u64
  po_injected :: u64

definition no_population :: population where
  "no_population = \<lparr>po_requested = 0, po_live = 0, po_peak = 0, po_attempts = 0, po_fail_at = 0, po_injected = 0\<rparr>"

record tracked =
  tb_owner :: owner
  tb_requested :: u64
  tb_usable :: u64
  tb_bytes :: "byte list"

record tracker =
  tk_engine :: population
  tk_native :: population
  tk_overlap_peak :: u64
  tk_decode_peak :: u64
  tk_decode_native_peak :: u64
  tk_decode_engine_peak :: u64
  tk_in_decode :: bool
  tk_blocks :: "(nat \<times> tracked) list"
  tk_calls :: nat

text \<open>The C library: the header, and the usable size and the bytes of a new block, or nothing.\<close>

record c_library =
  lib_header :: u64
  lib_malloc :: "nat \<Rightarrow> u64 \<Rightarrow> (u64 \<times> byte list) option"

definition owned_by :: "owner \<Rightarrow> tracker \<Rightarrow> population" where
  "owned_by who t = (case who of Engine \<Rightarrow> tk_engine t | Native \<Rightarrow> tk_native t)"

definition set_owned :: "owner \<Rightarrow> population \<Rightarrow> tracker \<Rightarrow> tracker" where
  "set_owned who p t = (case who of Engine \<Rightarrow> t\<lparr>tk_engine := p\<rparr> | Native \<Rightarrow> t\<lparr>tk_native := p\<rparr>)"

definition allocation_sample :: "tracker \<Rightarrow> tracker" where
  "allocation_sample t =
     (let engine = tk_engine t; native = tk_native t; total = po_live engine + po_live native;
          t = t\<lparr>tk_overlap_peak := max total (tk_overlap_peak t),
            tk_engine := engine\<lparr>po_peak := max (po_live engine) (po_peak engine)\<rparr>,
            tk_native := native\<lparr>po_peak := max (po_live native) (po_peak native)\<rparr>\<rparr>
      in if tk_in_decode t then
           t\<lparr>tk_decode_peak := max total (tk_decode_peak t),
             tk_decode_native_peak := max (po_live native) (tk_decode_native_peak t),
             tk_decode_engine_peak := max (po_live engine) (tk_decode_engine_peak t)\<rparr>
         else t)"

abbreviation NATIVE_LIMIT :: u64 where "NATIVE_LIMIT \<equiv> 8388608"

text \<open>The bytes of a new block, as many as were asked for.\<close>

definition fresh_bytes :: "u64 \<Rightarrow> byte list \<Rightarrow> byte list" where
  "fresh_bytes sz bs = take (unat sz) (bs @ replicate (unat sz) 0)"

definition tracked_malloc :: "c_library \<Rightarrow> owner \<Rightarrow> u64 \<Rightarrow> tracker \<Rightarrow> nat option \<times> tracker" where
  "tracked_malloc c who sz t =
     (let p = owned_by who t; p = p\<lparr>po_attempts := po_attempts p + 1\<rparr>; t = set_owned who p t in
      if po_fail_at p \<noteq> 0 \<and> po_attempts p = po_fail_at p
      then (None, set_owned who (p\<lparr>po_injected := po_injected p + 1\<rparr>) t)
      else if who = Native \<and> (sz > NATIVE_LIMIT \<or> po_requested p > NATIVE_LIMIT - sz) then (None, t)
      else if sz > - 1 - lib_header c then (None, t)
      else
        let n = tk_calls t; t = t\<lparr>tk_calls := n + 1\<rparr> in
        case lib_malloc c n (lib_header c + sz) of
          None \<Rightarrow> (None, t)
        | Some (usable, bs) \<Rightarrow>
            let b = \<lparr>tb_owner = who, tb_requested = sz, tb_usable = usable, tb_bytes = fresh_bytes sz bs\<rparr>;
                t = set_owned who (p\<lparr>po_live := po_live p + usable, po_requested := po_requested p + sz\<rparr>) t
            in (Some n, allocation_sample (t\<lparr>tk_blocks := (n, b) # tk_blocks t\<rparr>)))"

definition tracked_free :: "owner \<Rightarrow> nat option \<Rightarrow> tracker \<Rightarrow> tracker option" where
  "tracked_free who ptr t =
     (case ptr of
        None \<Rightarrow> Some t
      | Some q \<Rightarrow> (case map_of (tk_blocks t) q of
            None \<Rightarrow> None
          | Some b \<Rightarrow>
              let p = owned_by who t;
                  t = set_owned who (p\<lparr>po_live := po_live p - tb_usable b, po_requested := po_requested p - tb_requested b\<rparr>) t
              in Some (t\<lparr>tk_blocks := filter (\<lambda>(r, _). r \<noteq> q) (tk_blocks t)\<rparr>)))"

text \<open>Bytes at the start of a block.\<close>

definition write_block :: "nat \<Rightarrow> byte list \<Rightarrow> tracker \<Rightarrow> tracker" where
  "write_block q bs t = t\<lparr>tk_blocks := map (\<lambda>(r, b).
     (r, if r = q then b\<lparr>tb_bytes := bs @ drop (length bs) (tb_bytes b)\<rparr> else b)) (tk_blocks t)\<rparr>"

definition engine_malloc :: "c_library \<Rightarrow> u64 \<Rightarrow> tracker \<Rightarrow> nat option \<times> tracker" where
  "engine_malloc c sz t = tracked_malloc c Engine sz t"

definition engine_free :: "nat option \<Rightarrow> tracker \<Rightarrow> tracker option" where
  "engine_free ptr t = tracked_free Engine ptr t"

definition engine_calloc :: "c_library \<Rightarrow> u64 \<Rightarrow> u64 \<Rightarrow> tracker \<Rightarrow> nat option \<times> tracker" where
  "engine_calloc c count sz t =
     (if sz \<noteq> 0 \<and> count > - 1 div sz then (None, t)
      else (case engine_malloc c (count * sz) t of
          (None, t) \<Rightarrow> (None, t)
        | (Some q, t) \<Rightarrow> (Some q, write_block q (replicate (unat (count * sz)) 0) t)))"

definition engine_usable :: "c_library \<Rightarrow> nat option \<Rightarrow> tracker \<Rightarrow> u64 option" where
  "engine_usable c ptr t = (case ptr of None \<Rightarrow> Some 0
     | Some q \<Rightarrow> map_option (\<lambda>b. tb_usable b - lib_header c) (map_of (tk_blocks t) q))"

definition engine_realloc :: "c_library \<Rightarrow> nat option \<Rightarrow> u64 \<Rightarrow> tracker \<Rightarrow> (nat option \<times> tracker) option" where
  "engine_realloc c ptr sz t =
     (if sz = 0 then map_option (\<lambda>t. (None, t)) (engine_free ptr t)
      else (case engine_malloc c sz t of
          (None, t) \<Rightarrow> Some (None, t)
        | (Some q, t) \<Rightarrow>
            (case ptr of
               None \<Rightarrow> Some (Some q, t)
             | Some r \<Rightarrow> (case map_of (tk_blocks t) r of
                   None \<Rightarrow> None
                 | Some b \<Rightarrow>
                     let n = (if tb_requested b < sz then tb_requested b else sz) in
                     map_option (\<lambda>t. (Some q, t)) (engine_free (Some r) (write_block q (take (unat n) (tb_bytes b)) t))))))"

section \<open>The accounts\<close>

definition blocks_of :: "owner \<Rightarrow> tracker \<Rightarrow> (nat \<times> tracked) list" where
  "blocks_of who t = filter (\<lambda>(_, b). tb_owner b = who) (tk_blocks t)"

definition accounted_for :: "owner \<Rightarrow> tracker \<Rightarrow> bool" where
  "accounted_for who t \<longleftrightarrow>
     po_live (owned_by who t) = sum_list (map (tb_usable \<circ> snd) (blocks_of who t)) \<and>
     po_requested (owned_by who t) = sum_list (map (tb_requested \<circ> snd) (blocks_of who t))"

definition accounted :: "tracker \<Rightarrow> bool" where
  "accounted t \<longleftrightarrow> accounted_for Engine t \<and> accounted_for Native t \<and>
     distinct (map fst (tk_blocks t)) \<and> (\<forall>q \<in> set (map fst (tk_blocks t)). q < tk_calls t) \<and>
     po_requested (tk_native t) \<le> NATIVE_LIMIT \<and>
     unat (po_requested (tk_native t)) = sum_list (map (unat \<circ> tb_requested \<circ> snd) (blocks_of Native t))"

lemma owned_set [simp]: "owned_by who (set_owned who p t) = p"
  "who \<noteq> who' \<Longrightarrow> owned_by who (set_owned who' p t) = owned_by who t"
  by (cases who; cases who'; simp add: owned_by_def set_owned_def)+

lemma set_owned_parts [simp]: "tk_blocks (set_owned who p t) = tk_blocks t" "tk_calls (set_owned who p t) = tk_calls t"
  "tk_in_decode (set_owned who p t) = tk_in_decode t"
  by (cases who; simp add: set_owned_def)+

lemma owned_update [simp]: "owned_by who (t\<lparr>tk_blocks := bs\<rparr>) = owned_by who t" "owned_by who (t\<lparr>tk_calls := n\<rparr>) = owned_by who t"
  by (cases who; simp add: owned_by_def)+

lemma sample_parts [simp]:
  "tk_blocks (allocation_sample t) = tk_blocks t" "tk_calls (allocation_sample t) = tk_calls t" "tk_in_decode (allocation_sample t) = tk_in_decode t"
  "po_live (owned_by who (allocation_sample t)) = po_live (owned_by who t)"
  "po_requested (owned_by who (allocation_sample t)) = po_requested (owned_by who t)"
  "po_fail_at (owned_by who (allocation_sample t)) = po_fail_at (owned_by who t)"
  by (cases who; simp add: allocation_sample_def Let_def owned_by_def)+

text \<open>What an operation on one population leaves of the other, and of the rest.\<close>

definition books :: "owner \<Rightarrow> tracker \<Rightarrow> u64 \<times> u64 \<times> (nat \<times> tracked) list" where
  "books who t = (po_live (owned_by who t), po_requested (owned_by who t), blocks_of who t)"

lemma accounted_for_books: "books who t' = books who t \<Longrightarrow> accounted_for who t' = accounted_for who t"
  by (simp add: books_def accounted_for_def)

lemma blocks_of_same: "tk_blocks t' = tk_blocks t \<Longrightarrow> blocks_of who t' = blocks_of who t"
  by (simp add: blocks_of_def)

text \<open>The result of an allocation.\<close>

definition took :: "owner \<Rightarrow> u64 \<Rightarrow> tracker \<Rightarrow> nat option \<Rightarrow> tracker \<Rightarrow> bool" where
  "took who sz t r t' \<longleftrightarrow>
     (\<forall>other. other \<noteq> who \<longrightarrow> books other t' = books other t) \<and> tk_in_decode t' = tk_in_decode t \<and>
     (\<forall>other. po_fail_at (owned_by other t') = po_fail_at (owned_by other t)) \<and>
     (case r of
        None \<Rightarrow> tk_blocks t' = tk_blocks t \<and> tk_calls t \<le> tk_calls t' \<and> books who t' = books who t
      | Some q \<Rightarrow> q = tk_calls t \<and> tk_calls t' = tk_calls t + 1 \<and>
          (\<exists>b. tk_blocks t' = (q, b) # tk_blocks t \<and> tb_owner b = who \<and> tb_requested b = sz \<and> length (tb_bytes b) = unat sz \<and>
             po_live (owned_by who t') = po_live (owned_by who t) + tb_usable b \<and>
             po_requested (owned_by who t') = po_requested (owned_by who t) + sz) \<and>
          (who = Native \<longrightarrow> sz \<le> NATIVE_LIMIT \<and> po_requested (owned_by who t) \<le> NATIVE_LIMIT - sz))"

lemma blocks_of_parts [simp]: "blocks_of who (set_owned w p t) = blocks_of who t" "blocks_of who (t\<lparr>tk_calls := n\<rparr>) = blocks_of who t"
  "blocks_of who (allocation_sample t) = blocks_of who t"
  by (simp_all add: blocks_of_def)

lemma fail_at_set: "po_fail_at p = po_fail_at (owned_by who t) \<Longrightarrow>
    po_fail_at (owned_by other (set_owned who p t)) = po_fail_at (owned_by other t)"
  by (cases "other = who") simp_all

lemma length_fresh_bytes [simp]: "length (fresh_bytes sz bs) = unat sz"
  by (simp add: fresh_bytes_def)

lemma tracked_malloc_took:
  assumes "tracked_malloc c who sz t = (r, t')"
  shows "took who sz t r t'"
proof -
  let ?p = "(owned_by who t)\<lparr>po_attempts := po_attempts (owned_by who t) + 1\<rparr>"
  let ?t = "set_owned who ?p t"
  consider (injected) "r = None" "t' = set_owned who (?p\<lparr>po_injected := po_injected ?p + 1\<rparr>) ?t"
    | (refused) "r = None" "t' = ?t \<or> t' = ?t\<lparr>tk_calls := tk_calls t + 1\<rparr>"
    | (made) usable bs where "r = Some (tk_calls t)" "who = Native \<longrightarrow> sz \<le> NATIVE_LIMIT \<and> po_requested (owned_by who t) \<le> NATIVE_LIMIT - sz"
        "t' = allocation_sample ((set_owned who (?p\<lparr>po_live := po_live ?p + usable, po_requested := po_requested ?p + sz\<rparr>) (?t\<lparr>tk_calls := tk_calls t + 1\<rparr>))
          \<lparr>tk_blocks := (tk_calls t, \<lparr>tb_owner = who, tb_requested = sz, tb_usable = usable, tb_bytes = fresh_bytes sz bs\<rparr>) # tk_blocks t\<rparr>)"
    using assms by (simp add: tracked_malloc_def Let_def not_less split: if_splits option.splits prod.splits) blast+
  then show ?thesis
  proof cases
    case injected
    then show ?thesis by (auto simp: took_def books_def fail_at_set)
  next
    case refused
    then show ?thesis by (auto simp: took_def books_def fail_at_set)
  next
    case made
    then show ?thesis by (auto simp: took_def books_def blocks_of_def fail_at_set)
  qed
qed

lemma sum_list_remove:
  fixes f :: "'b \<Rightarrow> 'c::ab_group_add"
  shows "distinct (map fst bs) \<Longrightarrow> map_of bs q = Some b \<Longrightarrow> P b \<Longrightarrow>
    sum_list (map (f \<circ> snd) (filter (\<lambda>(_, b). P b) bs)) =
      f b + sum_list (map (f \<circ> snd) (filter (\<lambda>(_, b). P b) (filter (\<lambda>(r, _). r \<noteq> q) bs)))"
proof (induction bs)
  case (Cons x bs)
  obtain r c where x: "x = (r, c)" by fastforce
  show ?case
  proof (cases "r = q")
    case True
    with Cons.prems(1) x have "filter (\<lambda>(s, _). s \<noteq> q) bs = bs" by (auto simp: filter_id_conv image_iff)
    with Cons.prems x True show ?thesis by (simp add: comp_def)
  next
    case False
    with Cons x show ?thesis by (simp add: algebra_simps)
  qed
qed simp

lemma sum_list_remove_nat:
  fixes f :: "'b \<Rightarrow> nat"
  shows "distinct (map fst bs) \<Longrightarrow> map_of bs q = Some b \<Longrightarrow> P b \<Longrightarrow>
    sum_list (map (f \<circ> snd) (filter (\<lambda>(_, b). P b) bs)) =
      f b + sum_list (map (f \<circ> snd) (filter (\<lambda>(_, b). P b) (filter (\<lambda>(r, _). r \<noteq> q) bs)))"
proof (induction bs)
  case (Cons x bs)
  obtain r c where x: "x = (r, c)" by fastforce
  show ?case
  proof (cases "r = q")
    case True
    with Cons.prems(1) x have "filter (\<lambda>(s, _). s \<noteq> q) bs = bs" by (auto simp: filter_id_conv image_iff)
    with Cons.prems x True show ?thesis by (simp add: comp_def)
  next
    case False
    with Cons x show ?thesis by simp
  qed
qed simp

lemma filter_remove_other:
  "distinct (map fst bs) \<Longrightarrow> map_of bs q = Some b \<Longrightarrow> \<not> P b \<Longrightarrow>
    filter (\<lambda>(_, b). P b) (filter (\<lambda>(r, _). r \<noteq> q) bs) = filter (\<lambda>(_, b). P b) bs"
proof (induction bs)
  case (Cons x bs)
  obtain r c where x: "x = (r, c)" by fastforce
  show ?case
  proof (cases "r = q")
    case True
    with Cons.prems(1) x have "filter (\<lambda>(s, _). s \<noteq> q) bs = bs" by (auto simp: filter_id_conv image_iff)
    with Cons.prems x True show ?thesis by simp
  next
    case False
    with Cons x show ?thesis by simp
  qed
qed simp

text \<open>The accounts are kept by every operation.\<close>

lemma took_accounted:
  assumes "took who sz t r t'" and "accounted t"
  shows "accounted t'"
proof (cases r)
  case None
  with assms(1) have same: "books other t' = books other t" for other
    by (cases "other = who") (auto simp: took_def)
  have "accounted_for other t' = accounted_for other t" for other using same by (rule accounted_for_books)
  moreover have "tk_blocks t' = tk_blocks t" "tk_calls t \<le> tk_calls t'" using assms(1) None by (auto simp: took_def)
  moreover have "po_requested (tk_native t') = po_requested (tk_native t)" "blocks_of Native t' = blocks_of Native t"
    using same [of Native] by (simp_all add: books_def owned_by_def)
  ultimately show ?thesis using assms(2) by (fastforce simp: accounted_def)
next
  case (Some q)
  with assms(1) obtain b where b: "q = tk_calls t" "tk_calls t' = tk_calls t + 1" "tk_blocks t' = (q, b) # tk_blocks t" "tb_owner b = who"
    "tb_requested b = sz" "po_live (owned_by who t') = po_live (owned_by who t) + tb_usable b"
    "po_requested (owned_by who t') = po_requested (owned_by who t) + sz"
    "who = Native \<longrightarrow> sz \<le> NATIVE_LIMIT \<and> po_requested (owned_by who t) \<le> NATIVE_LIMIT - sz"
    "\<And>other. other \<noteq> who \<Longrightarrow> books other t' = books other t" by (auto simp: took_def)
  have "accounted_for other t'" for other
  proof (cases "other = who")
    case True
    have "accounted_for who t" using assms(2) by (cases who) (simp_all add: accounted_def)
    with b True show ?thesis by (simp add: accounted_for_def blocks_of_def)
  next
    case False
    with accounted_for_books [OF b(9) [OF False]] assms(2) show ?thesis by (cases other) (simp_all add: accounted_def)
  qed
  moreover have "po_requested (tk_native t') \<le> NATIVE_LIMIT \<and>
      unat (po_requested (tk_native t')) = sum_list (map (unat \<circ> tb_requested \<circ> snd) (blocks_of Native t'))"
  proof (cases "who = Native")
    case True
    with b(8) have le: "sz \<le> NATIVE_LIMIT" "po_requested (tk_native t) \<le> NATIVE_LIMIT - sz" by (simp_all add: owned_by_def)
    then have "unat (NATIVE_LIMIT - sz) = 8388608 - unat sz" by (simp add: unat_sub)
    with le have nat: "unat (po_requested (tk_native t)) + unat sz \<le> 8388608" by (simp add: word_le_nat_alt)
    then have "unat (po_requested (tk_native t) + sz) = unat (po_requested (tk_native t)) + unat sz"
      by (intro unat_add_lem [THEN iffD1]) simp
    with nat b(3-7) True assms(2) show ?thesis by (simp add: accounted_def owned_by_def blocks_of_def word_le_nat_alt)
  next
    case False
    then have "books Native t' = books Native t" using b(9) by simp
    with assms(2) show ?thesis by (simp add: books_def accounted_def owned_by_def)
  qed
  ultimately show ?thesis using assms(2) b(1-3) by (fastforce simp: accounted_def)
qed

text \<open>The result of a release by the owner of the block.\<close>

lemma tracked_free_gave:
  assumes "tracked_free who (Some q) t = Some t'"
  obtains b where "map_of (tk_blocks t) q = Some b" "tk_blocks t' = filter (\<lambda>(r, _). r \<noteq> q) (tk_blocks t)" "tk_calls t' = tk_calls t"
    "tk_in_decode t' = tk_in_decode t" "\<And>other. po_fail_at (owned_by other t') = po_fail_at (owned_by other t)"
    "po_live (owned_by who t') = po_live (owned_by who t) - tb_usable b" "po_requested (owned_by who t') = po_requested (owned_by who t) - tb_requested b"
    "\<And>other. other \<noteq> who \<Longrightarrow> owned_by other t' = owned_by other t"
  using assms by (auto simp: tracked_free_def Let_def fail_at_set split: option.splits)

lemma free_accounted:
  assumes "accounted t" and "tracked_free who (Some q) t = Some t'" and "map_of (tk_blocks t) q = Some b" and "tb_owner b = who"
  shows "accounted t'"
proof -
  from tracked_free_gave [OF assms(2)] assms(3) have f: "tk_blocks t' = filter (\<lambda>(r, _). r \<noteq> q) (tk_blocks t)" "tk_calls t' = tk_calls t"
    "po_live (owned_by who t') = po_live (owned_by who t) - tb_usable b" "po_requested (owned_by who t') = po_requested (owned_by who t) - tb_requested b"
    "\<And>other. other \<noteq> who \<Longrightarrow> owned_by other t' = owned_by other t" by (metis option.inject)+
  have d: "distinct (map fst (tk_blocks t))" using assms(1) by (simp add: accounted_def)
  have own: "accounted_for other t" for other using assms(1) by (cases other) (simp_all add: accounted_def)
  have other: "blocks_of other t' = blocks_of other t" if "other \<noteq> who" for other
    using filter_remove_other [OF d assms(3), of "\<lambda>b. tb_owner b = other"] that assms(4) by (simp add: blocks_of_def f(1))
  have "accounted_for other t'" for other
  proof (cases "other = who")
    case True
    note r = sum_list_remove [OF d assms(3), of "\<lambda>b. tb_owner b = who", OF assms(4), of tb_usable]
      sum_list_remove [OF d assms(3), of "\<lambda>b. tb_owner b = who", OF assms(4), of tb_requested]
    from own [of who] r f(3,4) True show ?thesis by (simp add: accounted_for_def blocks_of_def f(1))
  next
    case False
    with own [of other] f(5) [OF False] other [OF False] show ?thesis by (simp add: accounted_for_def)
  qed
  moreover have "po_requested (tk_native t') \<le> NATIVE_LIMIT \<and>
      unat (po_requested (tk_native t')) = sum_list (map (unat \<circ> tb_requested \<circ> snd) (blocks_of Native t'))"
  proof (cases "who = Native")
    case True
    note r = sum_list_remove_nat [OF d assms(3), of "\<lambda>b. tb_owner b = who", OF assms(4), of "unat \<circ> tb_requested"]
    let ?rest = "sum_list (map (unat \<circ> tb_requested \<circ> snd) (blocks_of Native t'))"
    have n: "unat (po_requested (tk_native t)) = unat (tb_requested b) + ?rest" "po_requested (tk_native t) \<le> NATIVE_LIMIT"
      using assms(1) r True by (simp_all add: accounted_def blocks_of_def f(1) comp_def)
    then have "unat (po_requested (tk_native t) - tb_requested b) = ?rest"
      by (subst unat_sub) (simp_all add: word_le_nat_alt)
    with n f(4) True show ?thesis by (simp add: owned_by_def word_le_nat_alt)
  next
    case False
    then have "tk_native t' = tk_native t" "blocks_of Native t' = blocks_of Native t" using f(5) [of Native] other by (simp_all add: owned_by_def)
    with assms(1) show ?thesis by (simp add: accounted_def)
  qed
  moreover have "distinct (map fst (tk_blocks t'))" using d by (simp add: f(1) distinct_map_filter)
  ultimately show ?thesis using assms(1) f(1,2) by (auto simp: accounted_def)
qed

section \<open>The engine's calls\<close>

text \<open>The functions that are given to the engine; it passes only addresses of its own.\<close>

datatype engine_call = Malloc u64 | Calloc u64 u64 | Free "nat option" | Realloc "nat option" u64

definition engine_step :: "c_library \<Rightarrow> engine_call \<Rightarrow> tracker \<Rightarrow> tracker option" where
  "engine_step c call t = (case call of
       Malloc sz \<Rightarrow> Some (snd (engine_malloc c sz t))
     | Calloc n sz \<Rightarrow> Some (snd (engine_calloc c n sz t))
     | Free p \<Rightarrow> engine_free p t
     | Realloc p sz \<Rightarrow> map_option snd (engine_realloc c p sz t))"

definition engine_owns :: "nat option \<Rightarrow> tracker \<Rightarrow> bool" where
  "engine_owns p t \<longleftrightarrow> (\<forall>q. p = Some q \<longrightarrow> (\<exists>b. map_of (tk_blocks t) q = Some b \<and> tb_owner b = Engine))"

definition engine_may :: "engine_call \<Rightarrow> tracker \<Rightarrow> bool" where
  "engine_may call t = (case call of Free p \<Rightarrow> engine_owns p t | Realloc p _ \<Rightarrow> engine_owns p t | _ \<Rightarrow> True)"

inductive engine_reach :: "c_library \<Rightarrow> tracker \<Rightarrow> tracker \<Rightarrow> bool" for c where
  stay: "engine_reach c t t"
| call: "engine_reach c t u \<Longrightarrow> engine_may k u \<Longrightarrow> engine_step c k u = Some v \<Longrightarrow> engine_reach c t v"

text \<open>What is native stays as it is.\<close>

definition native_kept :: "tracker \<Rightarrow> tracker \<Rightarrow> bool" where
  "native_kept t t' \<longleftrightarrow> books Native t' = books Native t \<and> tk_in_decode t' = tk_in_decode t \<and>
     (\<forall>w. po_fail_at (owned_by w t') = po_fail_at (owned_by w t)) \<and> tk_calls t \<le> tk_calls t'"

lemma native_kept_refl [simp]: "native_kept t t"
  by (simp add: native_kept_def)

lemma native_kept_trans: "native_kept t u \<Longrightarrow> native_kept u v \<Longrightarrow> native_kept t v"
  by (auto simp: native_kept_def)

lemma took_native_kept: "took Engine sz t r t' \<Longrightarrow> native_kept t t'"
  by (cases r) (auto simp: took_def native_kept_def)

lemma malloc_kept: "accounted t \<Longrightarrow> engine_malloc c sz t = (r, t') \<Longrightarrow> accounted t' \<and> native_kept t t' \<and> took Engine sz t r t'"
  using tracked_malloc_took [of c Engine sz t r t'] took_accounted took_native_kept by (auto simp: engine_malloc_def)

lemma free_kept:
  assumes "accounted t" and "engine_owns p t"
  shows "\<exists>t'. engine_free p t = Some t' \<and> accounted t' \<and> native_kept t t'"
proof (cases p)
  case None
  with assms(1) show ?thesis by (simp add: engine_free_def tracked_free_def)
next
  case (Some q)
  with assms(2) obtain b where b: "map_of (tk_blocks t) q = Some b" "tb_owner b = Engine" by (auto simp: engine_owns_def)
  then obtain t' where t': "tracked_free Engine (Some q) t = Some t'" by (simp add: tracked_free_def Let_def)
  from tracked_free_gave [OF t'] obtain b' where f: "tk_blocks t' = filter (\<lambda>(r, _). r \<noteq> q) (tk_blocks t)" "tk_calls t' = tk_calls t"
    "tk_in_decode t' = tk_in_decode t" "\<And>other. po_fail_at (owned_by other t') = po_fail_at (owned_by other t)"
    "\<And>other. other \<noteq> Engine \<Longrightarrow> owned_by other t' = owned_by other t" by metis
  have "blocks_of Native t' = blocks_of Native t"
    using filter_remove_other [of "tk_blocks t" q b "\<lambda>b. tb_owner b = Native"] assms(1) b by (simp add: blocks_of_def f(1) accounted_def)
  with f free_accounted [OF assms(1) t' b] t' Some show ?thesis by (auto simp: engine_free_def native_kept_def books_def)
qed

lemma map_of_write_block: "map_of (tk_blocks (write_block q bs t)) r =
    map_option (\<lambda>b. if r = q then b\<lparr>tb_bytes := bs @ drop (length bs) (tb_bytes b)\<rparr> else b) (map_of (tk_blocks t) r)"
proof -
  have "map_of (map (\<lambda>(r, b). (r, if r = q then f b else b)) xs) r = map_option (\<lambda>b. if r = q then f b else b) (map_of xs r)"
    for f :: "tracked \<Rightarrow> tracked" and xs
    by (induction xs) auto
  then show ?thesis by (simp add: write_block_def)
qed

lemma write_block_blocks:
  "map (f \<circ> snd) (blocks_of who (write_block q bs t)) = map (f \<circ> snd) (blocks_of who t)" if "\<And>b x. f (b\<lparr>tb_bytes := x\<rparr>) = f b"
proof -
  have "map (f \<circ> snd) (filter (\<lambda>(_, b). tb_owner b = who) (map (\<lambda>(r, b). (r, if r = q then b\<lparr>tb_bytes := g b\<rparr> else b)) xs)) =
      map (f \<circ> snd) (filter (\<lambda>(_, b). tb_owner b = who) xs)" for xs g
  proof (induction xs)
    case (Cons x xs)
    obtain r b where "x = (r, b)" by fastforce
    with Cons show ?case by (cases "r = q"; simp add: that)
  qed simp
  then show ?thesis by (simp add: write_block_def blocks_of_def)
qed

lemma owned_write [simp]: "owned_by who (write_block q bs t) = owned_by who t" "tk_calls (write_block q bs t) = tk_calls t"
  "tk_in_decode (write_block q bs t) = tk_in_decode t" "map fst (tk_blocks (write_block q bs t)) = map fst (tk_blocks t)"
  by (cases who; simp add: write_block_def owned_by_def comp_def case_prod_beta)+

lemma owned_native: "tk_native t = owned_by Native t"
  by (simp add: owned_by_def)

lemma write_accounted: "accounted (write_block q bs t) = accounted t"
proof -
  have "map (tb_usable \<circ> snd) (blocks_of who (write_block q bs t)) = map (tb_usable \<circ> snd) (blocks_of who t)" for who
    by (rule write_block_blocks) simp
  moreover have "map (tb_requested \<circ> snd) (blocks_of who (write_block q bs t)) = map (tb_requested \<circ> snd) (blocks_of who t)" for who
    by (rule write_block_blocks) simp
  moreover have "map (unat \<circ> tb_requested \<circ> snd) (blocks_of who (write_block q bs t)) = map (unat \<circ> tb_requested \<circ> snd) (blocks_of who t)" for who
    by (rule write_block_blocks) simp
  ultimately show ?thesis
    unfolding accounted_def accounted_for_def owned_native by (simp only: owned_write)
qed

lemma write_kept:
  assumes "accounted t" and "map_of (tk_blocks t) q = Some b" and "tb_owner b = Engine"
  shows "native_kept t (write_block q bs t)"
proof -
  have "filter (\<lambda>(_, b). tb_owner b = Native) (map (\<lambda>(r, b). (r, if r = q then f b else b)) xs) = filter (\<lambda>(_, b). tb_owner b = Native) xs"
    if "\<forall>(r, c) \<in> set xs. r = q \<longrightarrow> tb_owner c = Engine" "\<And>c. tb_owner (f c) = tb_owner c" for xs and f :: "tracked \<Rightarrow> tracked"
    using that by (induction xs) (auto split: if_splits)
  moreover have "\<forall>(r, c) \<in> set (tk_blocks t). r = q \<longrightarrow> tb_owner c = Engine"
  proof (clarify)
    fix c
    assume "(q, c) \<in> set (tk_blocks t)"
    moreover have "distinct (map fst (tk_blocks t))" using assms(1) by (simp add: accounted_def)
    ultimately have "map_of (tk_blocks t) q = Some c" by (simp only: map_of_is_SomeI)
    with assms(2,3) show "tb_owner c = Engine" by simp
  qed
  ultimately have "blocks_of Native (write_block q bs t) = blocks_of Native t"
    by (simp add: blocks_of_def write_block_def)
  then show ?thesis by (simp add: native_kept_def books_def)
qed

lemma calloc_kept: "accounted t \<Longrightarrow> engine_calloc c n sz t = (r, t') \<Longrightarrow> accounted t' \<and> native_kept t t'"
proof -
  assume t: "accounted t" and run: "engine_calloc c n sz t = (r, t')"
  obtain p u where m: "engine_malloc c (n * sz) t = (p, u)" by fastforce
  note k = malloc_kept [OF t m]
  show ?thesis
  proof (cases p)
    case None
    with run m k t show ?thesis by (auto simp: engine_calloc_def split: if_splits)
  next
    case (Some q)
    with k obtain b where "map_of (tk_blocks u) q = Some b" "tb_owner b = Engine" by (auto simp: took_def)
    with run m k t Some write_accounted native_kept_trans [OF _ write_kept, of t u q b] show ?thesis
      by (auto simp: engine_calloc_def split: if_splits)
  qed
qed

lemma realloc_kept:
  assumes "accounted t" and "engine_owns p t"
  shows "\<exists>r t'. engine_realloc c p sz t = Some (r, t') \<and> accounted t' \<and> native_kept t t'"
proof (cases "sz = 0")
  case True
  with free_kept [OF assms] show ?thesis by (auto simp: engine_realloc_def)
next
  case False
  obtain o' u where m: "engine_malloc c sz t = (o', u)" by fastforce
  note k = malloc_kept [OF assms(1) m]
  show ?thesis
  proof (cases "o' = None \<or> p = None")
    case True
    with False m k show ?thesis by (auto simp: engine_realloc_def split: option.splits)
  next
    case both: False
    then obtain q r where q: "o' = Some q" "p = Some r" by auto
    with assms(2) obtain b where b: "map_of (tk_blocks t) r = Some b" "tb_owner b = Engine" by (auto simp: engine_owns_def)
    from k q obtain n where n: "tk_blocks u = (q, n) # tk_blocks t" "tb_owner n = Engine" "q = tk_calls t" by (auto simp: took_def)
    have "r \<noteq> q"
    proof -
      have "r \<in> set (map fst (tk_blocks t))" using b(1) by (force dest: map_of_SomeD)
      with assms(1) n(3) show ?thesis by (auto simp: accounted_def)
    qed
    with n b have u: "map_of (tk_blocks u) r = Some b" "map_of (tk_blocks u) q = Some n" by simp_all
    let ?v = "write_block q (take (unat (if tb_requested b < sz then tb_requested b else sz)) (tb_bytes b)) u"
    have "engine_owns (Some r) ?v" using u b(2) by (auto simp: engine_owns_def map_of_write_block)
    from free_kept [OF _ this, unfolded write_accounted] k obtain t' where t': "engine_free (Some r) ?v = Some t'" "accounted t'" "native_kept ?v t'" by blast
    have "native_kept t t'" using k write_kept [of u q n] u n(2) t'(3) native_kept_trans by blast
    with False m q u t' show ?thesis by (auto simp: engine_realloc_def)
  qed
qed

lemma engine_step_kept:
  assumes "accounted t" and "engine_may k t"
  shows "\<exists>t'. engine_step c k t = Some t' \<and> accounted t' \<and> native_kept t t'"
proof (cases k)
  case (Malloc sz)
  with malloc_kept [OF assms(1), of c sz] show ?thesis by (auto simp: engine_step_def) (metis prod.collapse)+
next
  case (Calloc n sz)
  with calloc_kept [OF assms(1), of c n sz] show ?thesis by (auto simp: engine_step_def) (metis prod.collapse)+
next
  case (Free p)
  with free_kept [OF assms(1), of p] assms(2) show ?thesis by (auto simp: engine_step_def engine_may_def)
next
  case (Realloc p sz)
  with realloc_kept [OF assms(1), of p c sz] assms(2) show ?thesis by (auto simp: engine_step_def engine_may_def)
qed

lemma engine_reach_kept: "engine_reach c t t' \<Longrightarrow> accounted t \<Longrightarrow> accounted t' \<and> native_kept t t'"
proof (induction rule: engine_reach.induct)
  case (call t u k v)
  then have "accounted u" "native_kept t u" by simp_all
  with engine_step_kept [of u k c] call.hyps native_kept_trans [of t u v] show ?case by auto
qed simp

end
