(* ===== verification/Fixture_Decoder.thy ===== *)
theory Fixture_Decoder
  imports String_Reader Fixture_Memory
begin

text \<open>
  The decoder fixture \<open>probe.c\<close> of the string reader: it decodes a value from a prepared file, in a
  private tagged format, into a value of the engine, straight from the file or from a copy in native
  memory.  The operations of the engine, its state and the C library are parameters.  The reports and
  the exceptions left pending are not modelled.
\<close>

section \<open>The state\<close>

record ('v, 's) js_runtime = "('v, 's) js_engine" +
  js_null :: 'v
  js_bool :: "bool \<Rightarrow> 'v"
  js_float :: "u64 \<Rightarrow> 'v"
  js_new_object :: "'s \<Rightarrow> 'v option \<times> 's"
  js_to_atom :: "'v \<Rightarrow> 's \<Rightarrow> 'v option \<times> 's"
  js_free_atom :: "'v \<Rightarrow> 's \<Rightarrow> 's"
  js_own_property :: "'v \<Rightarrow> 'v \<Rightarrow> 's \<Rightarrow> int \<times> 's"
  js_define_property :: "'v \<Rightarrow> 'v \<Rightarrow> 'v \<Rightarrow> 's \<Rightarrow> 'v option \<times> 's"
  js_settled_promise :: "'v \<Rightarrow> 's \<Rightarrow> 'v option \<times> 's"
  js_join_intrinsic :: 'v

text \<open>
  A native block is its address and the bytes in it.
\<close>

record decoder =
  de_staged :: int
  de_mutate :: int
  de_size :: nat
  de_position :: nat
  de_bytes_read :: nat
  de_calls :: nat
  de_read_calls :: nat
  de_fail_read_at :: nat
  de_workspace :: "(nat \<times> byte list) option"
  de_whole_input :: "(nat \<times> byte list) option"
  de_window_size :: nat
  de_failure :: string

text \<open>
  What a call of \<open>pread\<close> does: it is interrupted, fails, or gives at most so many bytes.  Calls after
  the last reply give all they are asked for, as far as the file goes.
\<close>

datatype read_reply = Read_interrupted | Read_error | Read_some nat

text \<open>
  The fixture: the decoder, the blocks, the engine, the file and what remains of the script.  The last
  field is not one of the program's: it says that a read has left its block, which is undefined.
\<close>

record 'e fixture =
  fx_decoder :: decoder
  fx_tracker :: tracker
  fx_js :: 'e
  fx_file :: "byte list"
  fx_reads :: "read_reply list"
  fx_starts :: nat
  fx_armed :: nat
  fx_engine_failure :: u64
  fx_native_failure :: u64
  fx_decode_attempts :: u64
  fx_fault :: bool

definition set_decoder :: "(decoder \<Rightarrow> decoder) \<Rightarrow> 'e fixture \<Rightarrow> 'e fixture" where
  "set_decoder f w = w\<lparr>fx_decoder := f (fx_decoder w)\<rparr>"

definition set_tracker :: "(tracker \<Rightarrow> tracker) \<Rightarrow> 'e fixture \<Rightarrow> 'e fixture" where
  "set_tracker f w = w\<lparr>fx_tracker := f (fx_tracker w)\<rparr>"

definition set_failure :: "string \<Rightarrow> 'e fixture \<Rightarrow> 'e fixture" where
  "set_failure why w = set_decoder (\<lambda>d. d\<lparr>de_failure := why\<rparr>) w"

section \<open>Reading\<close>

text \<open>\<open>memcpy\<close> from a block: the bytes, where there are any; a read that leaves the block is a fault.\<close>

definition copy_of :: "byte list \<Rightarrow> nat \<Rightarrow> nat \<Rightarrow> byte list" where
  "copy_of bs off n = map (\<lambda>i. if i < length bs then bs ! i else 0) [off..<off + n]"

text \<open>The loop around \<open>pread\<close>: the bytes, or too few; how many were read; the replies left.\<close>

fun pread_loop :: "byte list \<Rightarrow> nat \<Rightarrow> nat \<Rightarrow> read_reply list \<Rightarrow> byte list option \<times> nat \<times> read_reply list" where
  "pread_loop src off 0 rs = (Some [], 0, rs)"
| "pread_loop src off n [] =
     (let bs = take n (drop off src) in (if length bs = n then Some bs else None, length bs, []))"
| "pread_loop src off n (Read_interrupted # rs) = pread_loop src off n rs"
| "pread_loop src off n (Read_error # rs) = (None, 0, rs)"
| "pread_loop src off n (Read_some k # rs) =
     (let bs = take (min n k) (drop off src) in
      if bs = [] then (None, 0, rs)
      else (case pread_loop src (off + length bs) (n - length bs) rs of
          (None, m, rs) \<Rightarrow> (None, length bs + m, rs)
        | (Some cs, m, rs) \<Rightarrow> (Some (bs @ cs), length bs + m, rs)))"

definition source_read :: "nat \<Rightarrow> nat \<Rightarrow> 'e fixture \<Rightarrow> byte list option \<times> 'e fixture" where
  "source_read off n w =
     (let w = set_decoder (\<lambda>d. d\<lparr>de_read_calls := de_read_calls d + 1\<rparr>) w; d = fx_decoder w in
      if de_fail_read_at d \<noteq> 0 \<and> de_read_calls d = de_fail_read_at d then (None, set_failure ''injected_read_failure'' w)
      else if off > de_size d \<or> n > de_size d - off then (None, set_failure ''invalid_range'' w)
      else case de_whole_input d of
          Some (p, bs) \<Rightarrow> (Some (copy_of bs off n), if length bs < off + n then w\<lparr>fx_fault := True\<rparr> else w)
        | None \<Rightarrow>
            (case pread_loop (fx_file w) off n (fx_reads w) of
               (got, m, rs) \<Rightarrow>
                 (let w = set_decoder (\<lambda>d. d\<lparr>de_bytes_read := de_bytes_read d + m\<rparr>) (w\<lparr>fx_reads := rs\<rparr>)
                  in case got of
                       None \<Rightarrow> (None, set_failure ''short_read'' w)
                     | Some bs \<Rightarrow> (Some bs, w))))"

definition take_bytes :: "nat \<Rightarrow> 'e fixture \<Rightarrow> byte list option \<times> 'e fixture" where
  "take_bytes n w =
     (case source_read (de_position (fx_decoder w)) n w of
        (None, w) \<Rightarrow> (None, w)
      | (Some bs, w) \<Rightarrow> (Some bs, set_decoder (\<lambda>d. d\<lparr>de_position := de_position d + n\<rparr>) w))"

fun little_from :: "nat \<Rightarrow> byte list \<Rightarrow> u64" where
  "little_from i [] = 0"
| "little_from i (b # bs) = push_bit (8 * i) (ucast b) OR little_from (i + 1) bs"

definition little :: "byte list \<Rightarrow> u64" where
  "little bs = little_from 0 bs"

text \<open>The callback of a string that starts at a base; it counts the reads of its start.\<close>

definition string_read :: "nat \<Rightarrow> 'e fixture string_read" where
  "string_read base w off n =
     (case source_read (base + off) n w of
        (None, w) \<Rightarrow> (None, w)
      | (Some bs, w) \<Rightarrow>
          if off = 0 then
            (let w = w\<lparr>fx_starts := fx_starts w + 1\<rparr> in
             if fx_starts w = 2 \<and> de_mutate (fx_decoder w) \<noteq> 0 \<and> n = 2 then (Some [0xc4, 0x80], w) else (Some bs, w))
          else (Some bs, w))"

section \<open>Strings\<close>

definition status_failure :: "status \<Rightarrow> 'e fixture \<Rightarrow> 'e fixture" where
  "status_failure x w = (case x of
       OP_STRING_INVALID_UTF8 \<Rightarrow> set_failure ''invalid_utf8'' w
     | OP_STRING_ENGINE_MEMORY \<Rightarrow> set_failure ''engine_exhaustion'' w
     | OP_STRING_UNREPRESENTABLE \<Rightarrow> set_failure ''unrepresentable'' w
     | OP_STRING_INPUT_CHANGED \<Rightarrow> set_failure ''input_changed'' w
     | _ \<Rightarrow> w)"

definition decode_string :: "('v, 'e fixture) js_runtime \<Rightarrow> 'e fixture \<Rightarrow> ('v option \<times> 'e fixture) option" where
  "decode_string rt w =
     (case take_bytes 8 w of
        (None, w) \<Rightarrow> Some (None, w)
      | (Some header, w) \<Rightarrow>
          let n = unat (little header); d = fx_decoder w; base = de_position d in
          if n > de_size d - de_position d then Some (None, set_failure ''invalid_range'' w)
          else case de_workspace d of
              None \<Rightarrow> None
            | Some (p, workspace) \<Rightarrow> do {
                let w = w\<lparr>fx_starts := 0\<rparr>;
                (v, x, workspace, w) \<leftarrow>
                  (if de_staged d = 2
                   then OP_NewStringUTF8Public (js_engine.truncate rt) n (string_read base) workspace (js_join_intrinsic rt) w
                   else OP_NewStringUTF8Reader (js_engine.truncate rt) n (string_read base) workspace w);
                let w = set_decoder (\<lambda>d. d\<lparr>de_position := de_position d + n, de_workspace := Some (p, workspace)\<rparr>) w;
                Some (v, status_failure x w) })"

section \<open>Values\<close>

text \<open>The two ways out of the loop: an engine that is exhausted, and any failure.\<close>

definition decode_fail :: "('v, 'e fixture) js_runtime \<Rightarrow> 'v \<Rightarrow> 'e fixture \<Rightarrow> ('v option \<times> 'e fixture) option" where
  "decode_fail rt made w = Some (None, js_free_value rt made w)"

definition engine_error :: "('v, 'e fixture) js_runtime \<Rightarrow> 'v \<Rightarrow> 'e fixture \<Rightarrow> ('v option \<times> 'e fixture) option" where
  "engine_error rt made w = decode_fail rt made (set_failure ''engine_exhaustion'' w)"

text \<open>The key of the next property, if it is a new one.\<close>

definition decode_key :: "('v, 'e fixture) js_runtime \<Rightarrow> 'v \<Rightarrow> 'e fixture \<Rightarrow> ('v option \<times> 'e fixture) option" where
  "decode_key rt made w = do {
     (key, w) \<leftarrow> decode_string rt w;
     case key of
       None \<Rightarrow> decode_fail rt made w
     | Some k \<Rightarrow>
         (let (atom, w) = js_to_atom rt k w; w = js_free_value rt k w in
          case atom of
            None \<Rightarrow> engine_error rt made w
          | Some a \<Rightarrow>
              (let (exist, w) = js_own_property rt made a w in
               if exist \<noteq> 0 then
                 (let w = js_free_atom rt a w in
                  if exist < 0 then engine_error rt made w else decode_fail rt made (set_failure ''duplicate_key'' w))
               else Some (Some a, w))) }"

text \<open>The elements of an array.\<close>

fun decode_array :: "('v, 'e fixture) js_runtime \<Rightarrow> ('e fixture \<Rightarrow> ('v option \<times> 'e fixture) option) \<Rightarrow> nat \<Rightarrow> nat \<Rightarrow> 'v \<Rightarrow>
    'e fixture \<Rightarrow> ('v option \<times> 'e fixture) option" where
  "decode_array rt decode 0 i made w = Some (Some made, w)"
| "decode_array rt decode (Suc n) i made w = do {
     (item, w) \<leftarrow> decode w;
     case item of
       None \<Rightarrow> decode_fail rt made w
     | Some v \<Rightarrow>
         (case js_define_index rt made (of_nat i) v w of
            (None, w) \<Rightarrow> engine_error rt made w
          | (Some made, w) \<Rightarrow> decode_array rt decode n (i + 1) made w) }"

text \<open>The properties of an object.\<close>

fun decode_object :: "('v, 'e fixture) js_runtime \<Rightarrow> ('e fixture \<Rightarrow> ('v option \<times> 'e fixture) option) \<Rightarrow> nat \<Rightarrow> 'v \<Rightarrow>
    'e fixture \<Rightarrow> ('v option \<times> 'e fixture) option" where
  "decode_object rt decode 0 made w = Some (Some made, w)"
| "decode_object rt decode (Suc n) made w = do {
     (key, w) \<leftarrow> decode_key rt made w;
     case key of
       None \<Rightarrow> Some (None, w)
     | Some a \<Rightarrow> do {
         (item, w) \<leftarrow> decode w;
         case item of
           None \<Rightarrow> decode_fail rt made (js_free_atom rt a w)
         | Some v \<Rightarrow>
             (case js_define_property rt made a v w of
                (None, w) \<Rightarrow> engine_error rt made (js_free_atom rt a w)
              | (Some made, w) \<Rightarrow> decode_object rt decode n made (js_free_atom rt a w)) } }"

definition finite_double :: "u64 \<Rightarrow> bool" where
  "finite_double bits \<longleftrightarrow> drop_bit 52 bits AND 0x7ff \<noteq> 0x7ff"

definition positive_zero :: "u64 \<Rightarrow> u64" where
  "positive_zero bits = (if bits AND 0x7fffffffffffffff = 0 then 0 else bits)"

definition decode_number :: "('v, 'e fixture) js_runtime \<Rightarrow> 'e fixture \<Rightarrow> ('v option \<times> 'e fixture) option" where
  "decode_number rt w =
     (case take_bytes 8 w of
        (None, w) \<Rightarrow> Some (None, w)
      | (Some header, w) \<Rightarrow>
          let bits = little header in
          if \<not> finite_double bits then Some (None, set_failure ''invalid_number'' w)
          else Some (Some (js_float rt (positive_zero bits)), w))"

text \<open>The levels that are left: 65 at the top, where the depth is 0.\<close>

fun decode_value :: "('v, 'e fixture) js_runtime \<Rightarrow> nat \<Rightarrow> 'e fixture \<Rightarrow> ('v option \<times> 'e fixture) option" where
  "decode_value rt 0 w = Some (None, set_failure ''prototype_depth'' w)"
| "decode_value rt (Suc levels) w =
     (case take_bytes 1 w of
        (None, w) \<Rightarrow> Some (None, w)
      | (Some header, w) \<Rightarrow>
          let tag = header ! 0 in
          if tag = 0 then Some (Some (js_null rt), w)
          else if tag = 1 then Some (Some (js_bool rt False), w)
          else if tag = 2 then Some (Some (js_bool rt True), w)
          else if tag = 3 then decode_number rt w
          else if tag = 4 then decode_string rt w
          else if tag \<noteq> 5 \<and> tag \<noteq> 6 then Some (None, set_failure ''invalid_tag'' w)
          else case take_bytes 4 w of
              (None, w) \<Rightarrow> Some (None, w)
            | (Some header, w) \<Rightarrow>
                let count = unat (little header) in
                (case (if tag = 5 then js_new_array rt w else js_new_object rt w) of
                   (None, w) \<Rightarrow> Some (None, set_failure ''engine_exhaustion'' w)
                 | (Some made, w) \<Rightarrow>
                     if tag = 5 then decode_array rt (decode_value rt levels) count 0 made w
                     else decode_object rt (decode_value rt levels) count made w))"

section \<open>The function the engine calls\<close>

text \<open>The first call arms the failures.\<close>

definition arm :: "'e fixture \<Rightarrow> 'e fixture" where
  "arm w =
     (let w' = w\<lparr>fx_armed := fx_armed w + 1\<rparr> in
      if fx_armed w \<noteq> 0 then w'
      else set_tracker (\<lambda>t. t\<lparr>
          tk_engine := (tk_engine t)\<lparr>po_attempts := 0, po_fail_at := fx_engine_failure w\<rparr>,
          tk_native := (tk_native t)\<lparr>po_attempts := 0, po_fail_at := fx_native_failure w\<rparr>\<rparr>) w')"

definition native_malloc :: "c_library \<Rightarrow> nat \<Rightarrow> 'e fixture \<Rightarrow> (nat \<times> byte list) option \<times> 'e fixture" where
  "native_malloc c n w =
     (case tracked_malloc c Native (of_nat n) (fx_tracker w) of
        (None, t) \<Rightarrow> (None, w\<lparr>fx_tracker := t\<rparr>)
      | (Some p, t) \<Rightarrow> (Some (p, (case map_of (tk_blocks t) p of Some b \<Rightarrow> tb_bytes b | None \<Rightarrow> [])), w\<lparr>fx_tracker := t\<rparr>))"

definition native_free :: "(nat \<times> byte list) option \<Rightarrow> 'e fixture \<Rightarrow> 'e fixture option" where
  "native_free b w = map_option (\<lambda>t. w\<lparr>fx_tracker := t\<rparr>) (tracked_free Native (map_option fst b) (fx_tracker w))"

text \<open>What both ways out of \<open>lookup\<close> do with the native memory and with the failures.\<close>

definition free_scratch :: "'e fixture \<Rightarrow> 'e fixture option" where
  "free_scratch w = do {
     w \<leftarrow> native_free (de_whole_input (fx_decoder w)) w;
     let w = set_decoder (\<lambda>d. d\<lparr>de_whole_input := None\<rparr>) w;
     w \<leftarrow> native_free (de_workspace (fx_decoder w)) w;
     Some (set_decoder (\<lambda>d. d\<lparr>de_workspace := None\<rparr>) w) }"

definition disarm :: "'e fixture \<Rightarrow> 'e fixture" where
  "disarm w = set_tracker (\<lambda>t. t\<lparr>tk_in_decode := False, tk_engine := (tk_engine t)\<lparr>po_fail_at := 0\<rparr>,
     tk_native := (tk_native t)\<lparr>po_fail_at := 0\<rparr>\<rparr>) (w\<lparr>fx_decode_attempts := po_attempts (tk_engine (fx_tracker w))\<rparr>)"

definition lookup_fail :: "('v, 'e fixture) js_runtime \<Rightarrow> 'v option \<Rightarrow> 'e fixture \<Rightarrow> ('v option \<times> 'e fixture) option" where
  "lookup_fail rt v w = do {
     w \<leftarrow> free_scratch (case v of None \<Rightarrow> w | Some v \<Rightarrow> js_free_value rt v w);
     Some (None, disarm w) }"

text \<open>Staging: the whole input in native memory; whether it was possible.  A block too small for it is a fault.\<close>

definition stage_input :: "c_library \<Rightarrow> 'e fixture \<Rightarrow> (bool \<times> 'e fixture) option" where
  "stage_input c w =
     (if de_staged (fx_decoder w) \<noteq> 1 then Some (True, w)
      else (case native_malloc c (de_size (fx_decoder w)) w of
          (None, w) \<Rightarrow> Some (False, set_failure ''native_exhaustion'' w)
        | (Some (p, block), w) \<Rightarrow>
            if length block < de_size (fx_decoder w) then None
            else (case source_read 0 (de_size (fx_decoder w)) w of
               (None, w) \<Rightarrow> map_option (\<lambda>w. (False, w)) (native_free (Some (p, [])) w)
             | (Some bs, w) \<Rightarrow> Some (True, set_decoder (\<lambda>d. d\<lparr>de_whole_input := Some (p, bs)\<rparr>) w))))"

definition lookup_start :: "'e fixture \<Rightarrow> 'e fixture" where
  "lookup_start w =
     (let w = arm (set_decoder (\<lambda>d. d\<lparr>de_calls := de_calls d + 1\<rparr>) w);
          w = set_tracker (\<lambda>t. allocation_sample (t\<lparr>tk_in_decode := True\<rparr>)) w
      in set_decoder (\<lambda>d. d\<lparr>de_position := 0\<rparr>) w)"

definition lookup_body :: "c_library \<Rightarrow> ('v, 'e fixture) js_runtime \<Rightarrow> 'e fixture \<Rightarrow> ('v option \<times> 'e fixture) option" where
  "lookup_body c rt w =
     (let (workspace, w) = native_malloc c (de_window_size (fx_decoder w)) (lookup_start w);
          w = set_decoder (\<lambda>d. d\<lparr>de_workspace := workspace\<rparr>) w in
      if workspace = None then lookup_fail rt None (set_failure ''native_exhaustion'' w)
      else do {
        (staged, w) \<leftarrow> stage_input c w;
        if \<not> staged then lookup_fail rt None w
        else do {
          (value, w) \<leftarrow> decode_value rt 65 w;
          case value of
            None \<Rightarrow> lookup_fail rt None w
          | Some v \<Rightarrow>
              if de_position (fx_decoder w) \<noteq> de_size (fx_decoder w)
              then lookup_fail rt (Some v) (set_failure ''trailing_bytes'' w)
              else do {
                w \<leftarrow> free_scratch w;
                let (promise, w) = js_settled_promise rt v w;
                let w = js_free_value rt v w;
                let w = (if promise = None then set_failure ''engine_exhaustion'' w else w);
                Some (promise, disarm w) } } })"

text \<open>A call comes to its end unless it frees what it may not, or a read of it left its block.\<close>

definition lookup :: "c_library \<Rightarrow> ('v, 'e fixture) js_runtime \<Rightarrow> 'e fixture \<Rightarrow> ('v option \<times> 'e fixture) option" where
  "lookup c rt w =
     (case lookup_body c rt (w\<lparr>fx_fault := False\<rparr>) of
        None \<Rightarrow> None
      | Some (v, w) \<Rightarrow> if fx_fault w then None else Some (v, w))"

end
