(* ===== verification/Utf8.thy ===== *)
theory Utf8
  imports String_Reader
begin

section \<open>Words as numbers\<close>

lemma byte_cases:
  assumes "list_all (\<lambda>n. P (word_of_nat n)) [0..<256]"
  shows "P (b :: byte)"
proof -
  have "unat b \<in> set [0..<256]" using unsigned_less [of b] by simp
  with assms have "P (word_of_nat (unat b))" unfolding list_all_iff by blast
  then show ?thesis by simp
qed

lemma continuation_byte: "(b :: byte) AND 0xc0 = 0x80 \<longleftrightarrow> 128 \<le> unat b \<and> unat b < 192"
  by (rule byte_cases [where P = "\<lambda>b. b AND 0xc0 = 0x80 \<longleftrightarrow> 128 \<le> unat b \<and> unat b < 192"]) code_simp

lemma unat_and_mask:
  fixes x :: "'a::len word"
  shows "unat (x AND mask n) = unat x mod 2 ^ n"
  by (metis take_bit_eq_mask take_bit_eq_mod unsigned_take_bit_eq)

lemma unat_and_63: "unat ((x :: 'a::len word) AND 63) = unat x mod 64"
  using unat_and_mask [of x 6] by (simp add: mask_eq_exp_minus_1)

lemma or_add_nat: "(x :: nat) < 2 ^ n \<Longrightarrow> (q * 2 ^ n) OR x = q * 2 ^ n + x"
proof -
  assume x: "x < 2 ^ n"
  have "bit x m \<Longrightarrow> m < n" for m
    using x by (metis bit_take_bit_iff take_bit_nat_eq_self_iff)
  then have "push_bit n q AND x = 0"
    by (intro bit_eqI) (force simp: bit_and_iff bit_push_bit_iff)
  from disjunctive_add_eq_or [OF this] show ?thesis by (simp add: push_bit_eq_mult)
qed

lemma shift_in:
  assumes "unat (acc :: u32) * 64 < 2 ^ 32"
  shows "unat (push_bit 6 acc OR ucast ((b :: byte) AND 0x3f)) = unat acc * 64 + unat b mod 64"
proof -
  have "unat (push_bit 6 acc) = unat acc * 2 ^ 6"
    using assms unsigned_push_bit_eq [of 6 acc, where ?'a = nat] by (simp add: take_bit_eq_mod push_bit_eq_mult del: push_bit_numeral)
  moreover have "unat (ucast (b AND 63) :: u32) = unat b mod 64"
    using unat_and_63 [of b] unsigned_less [of b] by (simp add: unsigned_ucast_eq take_bit_eq_mod)
  ultimately show ?thesis using or_add_nat [of "unat b mod 64" 6 "unat acc"] by (simp add: unsigned_or_eq)
qed

lemma unat_byte_or:
  assumes "unat x < 2 ^ n" and "unat x + q * 2 ^ n < 256"
  shows "unat (ucast ((word_of_nat (q * 2 ^ n) :: u32) OR x) :: byte) = q * 2 ^ n + unat x"
proof -
  have "unat (word_of_nat (q * 2 ^ n) :: u32) = q * 2 ^ n" unfolding unat_of_nat using assms(2) by simp
  then have "unat ((word_of_nat (q * 2 ^ n) :: u32) OR x) = q * 2 ^ n + unat x"
    using or_add_nat [OF assms(1), of q] by (simp add: unsigned_or_eq)
  with assms(2) show ?thesis by (simp add: unsigned_ucast_eq take_bit_eq_mod add.commute)
qed

section \<open>The encoding\<close>

definition is_scalar :: "u32 \<Rightarrow> bool" where
  "is_scalar c \<longleftrightarrow> c \<le> 0x10ffff \<and> \<not> (c \<ge> 0xd800 \<and> c \<le> 0xdfff)"

lemma unat_drop6: "unat (drop_bit n (c :: u32)) = unat c div 2 ^ n"
  by (metis unat_drop_bit_eq drop_bit_eq_div)

lemma encode_utf8_nat:
  assumes "unat c < 0x110000"
  shows "map unat (encode_utf8 c) =
    (let k = unat c in
     if k < 128 then [k]
     else if k < 2048 then [192 + k div 64, 128 + k mod 64]
     else if k < 65536 then [224 + k div 4096, 128 + k div 64 mod 64, 128 + k mod 64]
     else [240 + k div 262144, 128 + k div 4096 mod 64, 128 + k div 64 mod 64, 128 + k mod 64])"
proof -
  have low: "unat (ucast (0x80 OR (x AND 63)) :: byte) = 128 + unat x mod 64" for x :: u32
    using unat_byte_or [of "x AND 63" 6 2] unat_and_63 [of x] by simp
  have l2: "unat c < 2048 \<Longrightarrow> unat (ucast (0xc0 OR drop_bit 6 c) :: byte) = 192 + unat c div 64"
    using unat_byte_or [of "drop_bit 6 c" 5 6] by (simp add: unat_drop6)
  have l3: "unat c < 65536 \<Longrightarrow> unat (ucast (0xe0 OR drop_bit 12 c) :: byte) = 224 + unat c div 4096"
    using unat_byte_or [of "drop_bit 12 c" 4 14] by (simp add: unat_drop6)
  have l4: "unat (ucast (0xf0 OR drop_bit 18 c) :: byte) = 240 + unat c div 262144"
    using unat_byte_or [of "drop_bit 18 c" 3 30] assms by (simp add: unat_drop6)
  show ?thesis
    using l2 l3 l4 low
    by (simp add: encode_utf8_def Let_def word_less_nat_alt unat_drop6 unsigned_ucast_eq take_bit_eq_mod)
qed

lemma encode_utf8_nonempty [simp]: "encode_utf8 c \<noteq> []"
  by (simp add: encode_utf8_def)

section \<open>Decoding one scalar from a list\<close>

fun continue_bytes :: "nat \<Rightarrow> u32 \<Rightarrow> byte list \<Rightarrow> (u32 \<times> byte list) option" where
  "continue_bytes 0 acc bs = Some (acc, bs)"
| "continue_bytes (Suc n) acc [] = None"
| "continue_bytes (Suc n) acc (b # bs) =
     (if b AND 0xc0 \<noteq> 0x80 then None else continue_bytes n (push_bit 6 acc OR ucast (b AND 0x3f)) bs)"

fun scalar_in :: "byte list \<Rightarrow> (u32 \<times> byte list) option" where
  "scalar_in [] = None"
| "scalar_in (lead # bs) =
     (if lead < 0x80 then Some (ucast lead, bs)
      else (case op_lead lead of
          None \<Rightarrow> None
        | Some (count, acc, minimum) \<Rightarrow>
            (case continue_bytes count acc bs of
               None \<Rightarrow> None
             | Some (v, rest) \<Rightarrow> if refused minimum v then None else Some (v, rest))))"

text \<open>The value of continuation bytes.\<close>

definition continuation :: "byte \<Rightarrow> bool" where
  "continuation b \<longleftrightarrow> 128 \<le> unat b \<and> unat b < 192"

lemma continue_bytes_value:
  assumes "(unat acc + 1) * 64 ^ n \<le> 2 ^ 32"
  shows "continue_bytes n acc bs = Some (v, rest) \<longleftrightarrow>
    (\<exists>ts. bs = ts @ rest \<and> length ts = n \<and> (\<forall>t \<in> set ts. continuation t) \<and>
       unat v = foldl (\<lambda>a t. a * 64 + unat t mod 64) (unat acc) ts)"
  using assms
proof (induction n acc bs rule: continue_bytes.induct)
  case (1 acc bs)
  then show ?case by (auto simp: word_unat_eq_iff)
next
  case (2 n acc)
  then show ?case by auto
next
  case (3 n acc b bs)
  let ?acc = "push_bit 6 acc OR ucast (b AND 0x3f) :: u32"
  have "(unat acc + 1) * 64 \<le> (unat acc + 1) * 64 ^ Suc n" unfolding power_Suc by (intro mult_le_mono) simp_all
  from le_trans [OF this "3.prems"] have "unat acc * 64 < 2 ^ 32" by simp
  from shift_in [OF this] have acc: "unat ?acc = unat acc * 64 + unat b mod 64" by simp
  have "unat acc * 64 + unat b mod 64 + 1 \<le> (unat acc + 1) * 64" by simp
  from mult_le_mono1 [OF this, of "64 ^ n"] have "(unat ?acc + 1) * 64 ^ n \<le> (unat acc + 1) * 64 ^ Suc n"
    unfolding acc power_Suc mult.assoc by simp
  with "3.prems" have small: "(unat ?acc + 1) * 64 ^ n \<le> 2 ^ 32" by linarith
  show ?case
  proof (cases "continuation b")
    case False
    then have "b AND 0xc0 \<noteq> 0x80" by (simp add: continuation_byte continuation_def)
    with False show ?thesis by (auto simp: Cons_eq_append_conv)
  next
    case True
    then have c: "\<not> b AND 0xc0 \<noteq> 0x80" by (simp add: continuation_byte continuation_def)
    have "continue_bytes (Suc n) acc (b # bs) = continue_bytes n ?acc bs" using c by simp
    moreover have "(\<exists>ts. b # bs = ts @ rest \<and> length ts = Suc n \<and> (\<forall>t \<in> set ts. continuation t) \<and>
          unat v = foldl (\<lambda>a t. a * 64 + unat t mod 64) (unat acc) ts) \<longleftrightarrow>
        (\<exists>ts. bs = ts @ rest \<and> length ts = n \<and> (\<forall>t \<in> set ts. continuation t) \<and>
          unat v = foldl (\<lambda>a t. a * 64 + unat t mod 64) (unat ?acc) ts)"
      using True acc by (auto simp: Cons_eq_append_conv)
    ultimately show ?thesis using "3.IH" [OF c small] by simp
  qed
qed

lemma length1: "length ts = Suc 0 \<longleftrightarrow> (\<exists>t. ts = [t])"
  by (auto simp: length_Suc_conv)

lemma length2: "length ts = 2 \<longleftrightarrow> (\<exists>t u. ts = [t, u])"
  by (auto simp: length_Suc_conv numeral_2_eq_2)

lemma length3: "length ts = 3 \<longleftrightarrow> (\<exists>t u v. ts = [t, u, v])"
  by (auto simp: length_Suc_conv numeral_3_eq_3)

text \<open>The lead bytes, as numbers.\<close>

lemma op_lead_number:
  "op_lead lead =
     (if 194 \<le> unat lead \<and> unat lead < 224 then Some (1, word_of_nat (unat lead - 192), 0x80)
      else if 224 \<le> unat lead \<and> unat lead < 240 then Some (2, word_of_nat (unat lead - 224), 0x800)
      else if 240 \<le> unat lead \<and> unat lead < 245 then Some (3, word_of_nat (unat lead - 240), 0x10000)
      else None)"
  by (rule byte_cases [where P = "\<lambda>lead. op_lead lead = (if 194 \<le> unat lead \<and> unat lead < 224 then Some (1, word_of_nat (unat lead - 192), 0x80)
      else if 224 \<le> unat lead \<and> unat lead < 240 then Some (2, word_of_nat (unat lead - 224), 0x800)
      else if 240 \<le> unat lead \<and> unat lead < 245 then Some (3, word_of_nat (unat lead - 240), 0x10000)
      else None)"]) code_simp

lemma op_lead_nat:
  "op_lead lead = Some (n, acc, m) \<longleftrightarrow>
     (194 \<le> unat lead \<and> unat lead < 224 \<and> n = 1 \<and> unat acc = unat lead - 192 \<and> m = 0x80) \<or>
     (224 \<le> unat lead \<and> unat lead < 240 \<and> n = 2 \<and> unat acc = unat lead - 224 \<and> m = 0x800) \<or>
     (240 \<le> unat lead \<and> unat lead < 245 \<and> n = 3 \<and> unat acc = unat lead - 240 \<and> m = 0x10000)"
proof -
  have a: "word_of_nat k = acc \<longleftrightarrow> unat acc = k" if "k < 256" for k
    using that by (auto simp: word_unat_eq_iff unat_of_nat)
  have "unat lead < 256" using unsigned_less [of lead, where ?'a = nat] by simp
  then have b: "word_of_nat (unat lead - d) = acc \<longleftrightarrow> unat acc = unat lead - d" for d using a [of "unat lead - d"] by simp
  show ?thesis unfolding op_lead_number by (auto simp: b simp del: of_nat_diff)
qed

lemma map_unat_eq: "map unat xs = map unat ys \<longleftrightarrow> xs = (ys :: byte list)"
  by (rule inj_map_eq_map) (simp add: inj_def word_unat_eq_iff)

lemma refused_nat:
  "\<not> refused m v \<longleftrightarrow> unat m \<le> unat v \<and> unat v < 0x110000 \<and> \<not> (0xd800 \<le> unat v \<and> unat v \<le> 0xdfff)"
  by (auto simp: refused_def word_le_nat_alt word_less_nat_alt)

lemma is_scalar_nat: "is_scalar c \<longleftrightarrow> unat c < 0x110000 \<and> \<not> (0xd800 \<le> unat c \<and> unat c \<le> 0xdfff)"
  by (auto simp: is_scalar_def word_le_nat_alt)

lemma scalar_in_ascii: "unat (lead :: byte) < 128 \<Longrightarrow> scalar_in (lead # bs) = Some (ucast lead, bs)"
  by (simp add: word_less_nat_alt)

text \<open>What a lead byte and its continuation bytes give.\<close>

lemma scalar_in_long:
  assumes "op_lead lead = Some (n, acc, m)" and "\<not> unat lead < 128"
  shows "scalar_in (lead # bs) = Some (v, rest) \<longleftrightarrow>
    (\<exists>ts. bs = ts @ rest \<and> length ts = n \<and> (\<forall>t \<in> set ts. continuation t) \<and>
       unat v = foldl (\<lambda>a t. a * 64 + unat t mod 64) (unat acc) ts) \<and> \<not> refused m v"
proof -
  from assms(1) have "(unat acc + 1) * 64 ^ n \<le> 2 ^ 32"
    by (auto simp: op_lead_nat)
  note worth = continue_bytes_value [OF this]
  have "scalar_in (lead # bs) = Some (v, rest) \<longleftrightarrow> continue_bytes n acc bs = Some (v, rest) \<and> \<not> refused m v"
    using assms by (auto simp: word_less_nat_alt split: option.splits prod.splits if_splits)
  with worth show ?thesis by simp
qed

lemma continuation_digit:
  assumes "continuation t"
  obtains d where "unat t = 128 + d" "d < 64" "unat t mod 64 = d"
proof -
  from assms have "unat t = 128 + (unat t - 128)" "unat t - 128 < 64" by (auto simp: continuation_def)
  moreover then have "unat t mod 64 = unat t - 128"
    using mod_mult_self1 [of "unat t - 128" 2 64] by simp
  ultimately show ?thesis using that by blast
qed

text \<open>Numbers with digits base 64.\<close>

lemma digits2: "b < 64 \<Longrightarrow> (a * 64 + b) div 64 = (a :: nat)" "b < 64 \<Longrightarrow> (a * 64 + b) mod 64 = (b :: nat)"
  by simp_all

lemma div_4096: "(n :: nat) div 4096 = n div 64 div 64" and div_262144: "(n :: nat) div 262144 = n div 64 div 64 div 64"
  by (simp_all flip: div_mult2_eq)

lemma digits3:
  fixes a b c :: nat
  assumes "b < 64" "c < 64"
  shows "((a * 64 + b) * 64 + c) div 4096 = a" "((a * 64 + b) * 64 + c) div 64 mod 64 = b" "((a * 64 + b) * 64 + c) mod 64 = c"
  unfolding div_4096 digits2 [OF assms(2)] digits2 [OF assms(1)] by simp_all

lemma digits4:
  fixes a b c d :: nat
  assumes "b < 64" "c < 64" "d < 64"
  shows "(((a * 64 + b) * 64 + c) * 64 + d) div 262144 = a" "(((a * 64 + b) * 64 + c) * 64 + d) div 4096 mod 64 = b"
    "(((a * 64 + b) * 64 + c) * 64 + d) div 64 mod 64 = c" "(((a * 64 + b) * 64 + c) * 64 + d) mod 64 = d"
  unfolding div_262144 div_4096 digits2 [OF assms(3)] digits2 [OF assms(2)] digits2 [OF assms(1)] by simp_all

lemma scalar_in_sound:
  assumes "scalar_in bs = Some (c, rest)"
  shows "is_scalar c \<and> bs = encode_utf8 c @ rest"
proof -
  from assms obtain lead bs' where bs: "bs = lead # bs'" by (cases bs) auto
  show ?thesis
  proof (cases "unat lead < 128")
    case True
    with assms bs have c: "c = ucast lead" "bs' = rest" by (simp_all add: word_less_nat_alt)
    with True have k: "unat c = unat lead" by (simp add: unsigned_ucast_eq take_bit_eq_mod)
    with True have "map unat (encode_utf8 c) = map unat [lead]" using encode_utf8_nat [of c] by (simp add: Let_def)
    with k True c bs show ?thesis unfolding map_unat_eq by (simp add: is_scalar_nat)
  next
    case False
    with assms bs obtain n acc m where l: "op_lead lead = Some (n, acc, m)"
      by (auto simp: word_less_nat_alt split: option.splits)
    from assms bs scalar_in_long [OF l False] obtain ts where ts: "bs' = ts @ rest" "length ts = n"
      "\<forall>t \<in> set ts. continuation t" "unat c = foldl (\<lambda>a t. a * 64 + unat t mod 64) (unat acc) ts" "\<not> refused m c"
      by auto
    note r = ts(5) [unfolded refused_nat]
    then have enc: "map unat (encode_utf8 c) = (let k = unat c in if k < 128 then [k] else if k < 2048 then [192 + k div 64, 128 + k mod 64]
        else if k < 65536 then [224 + k div 4096, 128 + k div 64 mod 64, 128 + k mod 64]
        else [240 + k div 262144, 128 + k div 4096 mod 64, 128 + k div 64 mod 64, 128 + k mod 64])"
      by (intro encode_utf8_nat) simp
    have "map unat (encode_utf8 c) = map unat (lead # ts)"
      using l [unfolded op_lead_nat]
    proof (elim disjE conjE)
      assume *: "194 \<le> unat lead" "unat lead < 224" "n = 1" "unat acc = unat lead - 192" "m = 0x80"
      with ts(2) obtain t where t: "ts = [t]" by (auto simp: length1)
      from ts(3) t obtain b where b: "unat t = 128 + b" "b < 64" "unat t mod 64 = b" using continuation_digit by auto
      define a where "a = unat acc"
      have a: "unat lead = 192 + a" using * by (simp add: a_def)
      have k: "unat c = a * 64 + b" using ts(4) t b by (simp add: a_def)
      moreover have "a < 32" using a * by simp
      ultimately have "unat c < 2048" "\<not> unat c < 128" using b(2) r *(5) by simp_all
      with k digits2 [OF b(2)] show ?thesis using enc a b t by (simp add: Let_def)
    next
      assume *: "224 \<le> unat lead" "unat lead < 240" "n = 2" "unat acc = unat lead - 224" "m = 0x800"
      with ts(2) obtain t u where t: "ts = [t, u]" by (auto simp: length2)
      from ts(3) t obtain b where b: "unat t = 128 + b" "b < 64" "unat t mod 64 = b" using continuation_digit by auto
      from ts(3) t obtain d where d: "unat u = 128 + d" "d < 64" "unat u mod 64 = d" using continuation_digit by auto
      define a where "a = unat acc"
      have a: "unat lead = 224 + a" using * by (simp add: a_def)
      have k: "unat c = (a * 64 + b) * 64 + d" using ts(4) t b d by (simp add: a_def)
      moreover have "a < 16" using a * by simp
      ultimately have "unat c < 65536" "\<not> unat c < 2048" using b(2) d(2) r *(5) by simp_all
      with k digits3 [OF b(2) d(2)] show ?thesis using enc a b d t by (simp add: Let_def)
    next
      assume *: "240 \<le> unat lead" "unat lead < 245" "n = 3" "unat acc = unat lead - 240" "m = 0x10000"
      with ts(2) obtain t u w where t: "ts = [t, u, w]" by (auto simp: length3)
      from ts(3) t obtain b where b: "unat t = 128 + b" "b < 64" "unat t mod 64 = b" using continuation_digit by auto
      from ts(3) t obtain d where d: "unat u = 128 + d" "d < 64" "unat u mod 64 = d" using continuation_digit by auto
      from ts(3) t obtain f where f: "unat w = 128 + f" "f < 64" "unat w mod 64 = f" using continuation_digit by auto
      define a where "a = unat acc"
      have a: "unat lead = 240 + a" using * by (simp add: a_def)
      have k: "unat c = ((a * 64 + b) * 64 + d) * 64 + f" using ts(4) t b d f by (simp add: a_def)
      have "\<not> unat c < 65536" using r *(5) by simp
      with k digits4 [OF b(2) d(2) f(2)] show ?thesis using enc a b d f t by (simp add: Let_def)
    qed
    with bs ts(1) r show ?thesis unfolding map_unat_eq by (simp add: is_scalar_nat)
  qed
qed

lemma unat_ucast_byte: "unat (ucast (b :: byte) :: u32) = unat b"
proof -
  have "unat b < 256" using unsigned_less [of b, where ?'a = nat] by simp
  then show ?thesis by (simp add: unsigned_ucast_eq take_bit_eq_mod)
qed

lemma lead_exists:
  "194 \<le> unat lead \<Longrightarrow> unat lead < 224 \<Longrightarrow> \<exists>acc. op_lead lead = Some (1, acc, 0x80) \<and> unat acc = unat lead - 192"
  "224 \<le> unat lead \<Longrightarrow> unat lead < 240 \<Longrightarrow> \<exists>acc. op_lead lead = Some (2, acc, 0x800) \<and> unat acc = unat lead - 224"
  "240 \<le> unat lead \<Longrightarrow> unat lead < 245 \<Longrightarrow> \<exists>acc. op_lead lead = Some (3, acc, 0x10000) \<and> unat acc = unat lead - 240"
  using op_lead_nat [of lead] op_lead_number [of lead] by fastforce+

lemma map_unat_Cons: "map unat xs = n # ns \<longleftrightarrow> (\<exists>x ys. xs = x # ys \<and> unat x = n \<and> map unat ys = ns)"
  by (cases xs) auto

lemma scalar_in_encode:
  assumes "is_scalar c"
  shows "scalar_in (encode_utf8 c @ rest) = Some (c, rest)"
proof -
  define k where "k = unat c"
  have k: "k < 0x110000" "\<not> (0xd800 \<le> k \<and> k \<le> 0xdfff)" using assms by (auto simp: is_scalar_nat k_def)
  note enc = encode_utf8_nat [of c, folded k_def, OF k(1)]
  have cont: "continuation t \<and> unat t mod 64 = j mod 64" if "unat t = 128 + j mod 64" for t j
    using that mod_mult_self1 [of "j mod 64" 2 64] by (auto simp: continuation_def add.commute)
  consider "k < 128" | "128 \<le> k" "k < 2048" | "2048 \<le> k" "k < 65536" | "65536 \<le> k" by linarith
  then show ?thesis
  proof cases
    case 1
    then have "encode_utf8 c = [ucast c]" by (simp add: encode_utf8_def word_less_nat_alt k_def)
    moreover have "unat (ucast c :: byte) = k" using 1 by (simp add: unsigned_ucast_eq take_bit_eq_mod k_def)
    moreover then have "ucast (ucast c :: byte) = c" unfolding word_unat_eq_iff unat_ucast_byte by (simp add: k_def)
    ultimately show ?thesis using 1 by (simp add: scalar_in_ascii del: scalar_in.simps)
  next
    case 2
    with enc obtain x t where e: "encode_utf8 c = [x, t]" "unat x = 192 + k div 64" "unat t = 128 + k mod 64"
      by (auto simp: Let_def map_unat_Cons)
    have "2 \<le> k div 64" "k div 64 < 32" using 2 by auto
    with lead_exists(1) [of x] e(2) obtain acc where acc: "op_lead x = Some (1, acc, 0x80)" "unat acc = k div 64" by auto
    have "\<not> refused 0x80 c" using 2 k by (simp add: refused_nat flip: k_def)
    then show ?thesis using scalar_in_long [OF acc(1), of "[t] @ rest" c rest] e acc(2) cont [OF e(3)]
      by (auto simp: length1 simp flip: k_def)
  next
    case 3
    with enc obtain x t u where e: "encode_utf8 c = [x, t, u]" "unat x = 224 + k div 4096"
      "unat t = 128 + k div 64 mod 64" "unat u = 128 + k mod 64"
      by (auto simp: Let_def map_unat_Cons)
    have "k div 4096 < 16" using 3 by auto
    with lead_exists(2) [of x] e(2) obtain acc where acc: "op_lead x = Some (2, acc, 0x800)" "unat acc = k div 4096" by auto
    have "\<not> refused 0x800 c" using 3 k by (simp add: refused_nat flip: k_def)
    moreover have "k = (k div 4096 * 64 + k div 64 mod 64) * 64 + k mod 64" by (simp add: div_4096)
    ultimately show ?thesis using scalar_in_long [OF acc(1), of "[t, u] @ rest" c rest] e acc(2) cont [OF e(3)] cont [OF e(4)]
      by (auto simp: length2 simp flip: k_def)
  next
    case 4
    with enc obtain x t u w where e: "encode_utf8 c = [x, t, u, w]" "unat x = 240 + k div 262144"
      "unat t = 128 + k div 4096 mod 64" "unat u = 128 + k div 64 mod 64" "unat w = 128 + k mod 64"
      by (auto simp: Let_def map_unat_Cons)
    have "k div 262144 < 5" using k by auto
    with lead_exists(3) [of x] e(2) obtain acc where acc: "op_lead x = Some (3, acc, 0x10000)" "unat acc = k div 262144" by auto
    have "\<not> refused 0x10000 c" using 4 k by (simp add: refused_nat flip: k_def)
    moreover have "k = ((k div 262144 * 64 + k div 4096 mod 64) * 64 + k div 64 mod 64) * 64 + k mod 64"
      by (simp add: div_4096 div_262144)
    ultimately show ?thesis
      using scalar_in_long [OF acc(1), of "[t, u, w] @ rest" c rest] e acc(2) cont [OF e(3)] cont [OF e(4)] cont [OF e(5)]
      by (auto simp: length3 simp flip: k_def)
  qed
qed

theorem scalar_in_iff: "scalar_in bs = Some (c, rest) \<longleftrightarrow> is_scalar c \<and> bs = encode_utf8 c @ rest"
  using scalar_in_sound scalar_in_encode by blast

section \<open>Texts\<close>

definition utf8 :: "u32 list \<Rightarrow> byte list" where
  "utf8 cs = concat (map encode_utf8 cs)"

definition text_of :: "byte list \<Rightarrow> u32 list \<Rightarrow> bool" where
  "text_of bs cs \<longleftrightarrow> (\<forall>c \<in> set cs. is_scalar c) \<and> bs = utf8 cs"

lemma utf8_simps [simp]: "utf8 [] = []" "utf8 (c # cs) = encode_utf8 c @ utf8 cs" "utf8 (as @ cs) = utf8 as @ utf8 cs"
  by (simp_all add: utf8_def)

lemma text_of_Nil: "text_of bs [] \<longleftrightarrow> bs = []"
  by (simp add: text_of_def)

lemma text_of_Cons: "text_of bs (c # cs) \<longleftrightarrow> (\<exists>rest. scalar_in bs = Some (c, rest) \<and> text_of rest cs)"
proof
  assume "text_of bs (c # cs)"
  then have "is_scalar c" "bs = encode_utf8 c @ utf8 cs" "text_of (utf8 cs) cs" by (auto simp: text_of_def)
  then show "\<exists>rest. scalar_in bs = Some (c, rest) \<and> text_of rest cs" using scalar_in_encode by metis
next
  assume "\<exists>rest. scalar_in bs = Some (c, rest) \<and> text_of rest cs"
  then obtain rest where "scalar_in bs = Some (c, rest)" "text_of rest cs" by blast
  with scalar_in_sound [of bs c rest] show "text_of bs (c # cs)" by (simp add: text_of_def)
qed

text \<open>Bytes are the encoding of at most one text.\<close>

lemma text_of_unique: "text_of bs cs \<Longrightarrow> text_of bs cs' \<Longrightarrow> cs = cs'"
proof (induction cs arbitrary: bs cs')
  case Nil
  then show ?case by (cases cs') (auto simp: text_of_Nil text_of_Cons)
next
  case (Cons c cs)
  then obtain rest where r: "scalar_in bs = Some (c, rest)" "text_of rest cs" by (auto simp: text_of_Cons)
  with Cons.prems(2) obtain ds where "cs' = c # ds" "text_of rest ds" by (cases cs') (auto simp: text_of_Nil text_of_Cons)
  with Cons.IH r(2) show ?case by simp
qed

end
