(* ===== verification/String_Reader_Laws.thy ===== *)
theory String_Reader_Laws
  imports Utf8
begin

text \<open>
  The laws of the string reader.  With any callback that gives as many bytes as it is asked for the
  reader ends without a fault; with one that gives the same bytes in both passes it makes exactly
  the text these bytes encode, whatever the window.
\<close>

section \<open>Cursors\<close>

definition wf_cursor :: "cursor \<Rightarrow> bool" where
  "wf_cursor r \<longleftrightarrow> cu_capacity r = length (cu_window r) \<and> cu_window r \<noteq> [] \<and> cu_cursor r \<le> cu_available r \<and>
     cu_available r \<le> cu_capacity r \<and> cu_next r \<le> cu_length r"

definition cu_left :: "cursor \<Rightarrow> nat" where
  "cu_left r = (cu_available r - cu_cursor r) + (cu_length r - cu_next r)"

text \<open>The bytes that are still to be read, of a source that does not change.\<close>

definition unread :: "byte list \<Rightarrow> cursor \<Rightarrow> byte list" where
  "unread src r = take (cu_available r - cu_cursor r) (drop (cu_cursor r) (cu_window r)) @ drop (cu_next r) src"

text \<open>A later cursor of the same pass.\<close>

definition later :: "cursor \<Rightarrow> cursor \<Rightarrow> bool" where
  "later r r' \<longleftrightarrow> wf_cursor r' \<and> cu_length r' = cu_length r \<and> cu_capacity r' = cu_capacity r"

lemma later_trans: "later r r' \<Longrightarrow> later r' r'' \<Longrightarrow> later r r''"
  by (simp add: later_def)

lemma later_refl: "wf_cursor r \<Longrightarrow> later r r"
  by (simp add: later_def)

lemma later_status [simp]: "later r (r'\<lparr>cu_status := x\<rparr>) = later r r'"
  by (simp add: later_def wf_cursor_def)

lemma unread_status [simp]: "unread src (r\<lparr>cu_status := x\<rparr>) = unread src r"
  by (simp add: unread_def)

lemma cu_left_status [simp]: "cu_left (r\<lparr>cu_status := x\<rparr>) = cu_left r"
  by (simp add: cu_left_def)

lemma wf_later: "later r r' \<Longrightarrow> wf_cursor r'"
  by (simp add: later_def)

lemma wf_start: "workspace \<noteq> [] \<Longrightarrow> wf_cursor (op_start workspace n)"
  by (simp add: op_start_def wf_cursor_def)

text \<open>A second pass starts from the same bytes.\<close>

abbreviation rewound :: "cursor \<Rightarrow> cursor" where
  "rewound r \<equiv> r\<lparr>cu_cursor := 0, cu_available := 0, cu_next := 0\<rparr>"

lemma rewound_facts:
  "wf_cursor r \<Longrightarrow> wf_cursor (rewound r)" "cu_left (rewound r) = cu_length r" "unread src (rewound r) = src"
  by (simp_all add: wf_cursor_def cu_left_def unread_def)

text \<open>What a step leaves: fewer bytes, the end, or a reason.\<close>

definition input_error :: "status \<Rightarrow> bool" where
  "input_error x \<longleftrightarrow> x = OP_STRING_READ_FAILED \<or> x = OP_STRING_INVALID_UTF8"

definition stepped :: "cursor \<Rightarrow> 'a step \<Rightarrow> cursor \<Rightarrow> bool" where
  "stepped r b r' \<longleftrightarrow> later r r' \<and>
     (case b of
        Got _ \<Rightarrow> cu_left r' < cu_left r \<and> cu_status r' = cu_status r
      | Stop \<Rightarrow> r' = r \<and> cu_left r = 0
      | Failed \<Rightarrow> input_error (cu_status r'))"

text \<open>The storage of so many units.\<close>

definition fits :: "nat \<Rightarrow> bool \<Rightarrow> storage \<Rightarrow> bool" where
  "fits units wide st \<longleftrightarrow> (if wide then \<exists>us. st = Wide us \<and> length us = units
     else \<exists>bs. st = Narrow bs \<and> length bs = units + 1)"

text \<open>A text from an index on, in the units of the storage.\<close>

definition utf16 :: "u32 \<Rightarrow> u16 list" where
  "utf16 c = (if c \<le> 0xffff then [ucast c]
     else [ucast (0xd800 OR drop_bit 10 (c - 0x10000)), ucast (0xdc00 OR ((c - 0x10000) AND 0x3ff))])"

fun put_text :: "storage \<Rightarrow> nat \<Rightarrow> u32 list \<Rightarrow> storage" where
  "put_text (Narrow bs) i cs = Narrow (take i bs @ map ucast cs @ drop (i + length cs) bs)"
| "put_text (Wide us) i cs = Wide (take i us @ concat (map utf16 cs) @ drop (i + length (concat (map utf16 cs))) us)"

lemma length_utf16 [simp]: "length (utf16 c) = units_of c"
  by (simp add: utf16_def units_of_def not_less)

lemma update_as_append: "i < length xs \<Longrightarrow> xs[i := x] = take i xs @ x # drop (Suc i) xs"
  by (simp add: upd_conv_take_nth_drop)

lemma op_store_fits:
  assumes "fits units wide st" and "i + units_of c \<le> units" and "wide \<or> \<not> c > 0xff"
  shows "op_store wide c i st = Some (i + units_of c, put_text st i [c])" and "fits units wide (put_text st i [c])"
proof -
  show "op_store wide c i st = Some (i + units_of c, put_text st i [c])"
  proof (cases wide)
    case False
    with assms obtain bs where "st = Narrow bs" "length bs = units + 1" by (auto simp: fits_def)
    moreover have "units_of c = 1" using assms(3) False by (auto simp: units_of_def word_less_nat_alt)
    ultimately show ?thesis using False assms(2) by (simp add: op_store_def put_narrow_def update_as_append)
  next
    case True
    with assms obtain us where us: "st = Wide us" "length us = units" by (auto simp: fits_def)
    show ?thesis
    proof (cases "c \<le> 0xffff")
      case c: True
      then have "units_of c = 1" by (simp add: units_of_def)
      with True us c assms(2) show ?thesis by (simp add: op_store_def put_wide_def utf16_def update_as_append)
    next
      case False
      then have "units_of c = 2" by (simp add: units_of_def)
      with True us False assms(2) show ?thesis
        by (simp add: op_store_def put_wide_def utf16_def update_as_append drop_Suc nth_append take_Suc_conv_app_nth Let_def)
    qed
  qed
  show "fits units wide (put_text st i [c])"
    using assms by (auto simp: fits_def units_of_def word_less_nat_alt split: if_splits)
qed

lemma put_text_Nil [simp]: "put_text st i [] = st"
  by (cases st) simp_all

lemma put_text_Cons:
  assumes "fits units wide st" and "i + units_of c \<le> units" and "wide \<or> \<not> c > 0xff"
  shows "put_text (put_text st i [c]) (i + units_of c) cs = put_text st i (c # cs)"
proof (cases st)
  case (Narrow bs)
  with assms have "length bs = units + 1" "units_of c = 1" by (auto simp: fits_def units_of_def word_less_nat_alt split: if_splits)
  with assms(2) Narrow show ?thesis by (simp add: add.commute)
next
  case (Wide us)
  with assms have "length us = units" by (auto simp: fits_def split: if_splits)
  with assms(2) Wide show ?thesis by (simp add: ac_simps)
qed

definition text_units :: "u32 list \<Rightarrow> nat" where
  "text_units cs = sum_list (map units_of cs)"

definition wide_text :: "u32 list \<Rightarrow> bool" where
  "wide_text cs \<longleftrightarrow> (\<exists>c \<in> set cs. c > 0xff)"

lemma text_units_simps [simp]: "text_units [] = 0" "text_units (c # cs) = units_of c + text_units cs"
  by (simp_all add: text_units_def)

lemma wide_text_simps [simp]: "\<not> wide_text []" "wide_text (c # cs) \<longleftrightarrow> c > 0xff \<or> wide_text cs"
  by (auto simp: wide_text_def)

section \<open>A callback that gives what it is asked for\<close>

locale exact_source =
  fixes rd :: "'s string_read"
  assumes exact: "rd s off n = (Some bs, s') \<Longrightarrow> length bs = n"
begin

lemma op_byte_total:
  assumes "wf_cursor r"
  shows "\<exists>b r' s'. op_byte rd r s = Some (b, r', s') \<and> stepped r b r'"
proof (cases "cu_cursor r = cu_available r")
  case False
  with assms have "cu_cursor r < cu_available r" "cu_available r \<le> length (cu_window r)" by (auto simp: wf_cursor_def)
  with assms show ?thesis by (simp add: op_byte_def stepped_def wf_cursor_def later_def cu_left_def) linarith
next
  case True
  show ?thesis
  proof (cases "cu_next r = cu_length r")
    case e: True
    with True assms show ?thesis by (simp add: op_byte_def stepped_def later_def cu_left_def)
  next
    case False
    obtain ob s' where rd: "rd s (cu_next r) (min (cu_length r - cu_next r) (cu_capacity r)) = (ob, s')" by (metis prod.exhaust)
    show ?thesis
    proof (cases ob)
      case None
      with True False rd assms show ?thesis
        by (simp add: op_byte_def stepped_def op_refill_def later_def wf_cursor_def Let_def input_error_def)
    next
      case (Some bs)
      define size where "size = min (cu_length r - cu_next r) (cu_capacity r)"
      from exact rd Some have len: "length bs = size" unfolding size_def by blast
      have size: "0 < size" "size \<le> length (cu_window r)" "size \<le> cu_length r - cu_next r"
        using assms False by (auto simp: size_def wf_cursor_def)
      then have window: "0 < length (cu_window r)" "cu_next r < cu_length r" by linarith+
      from True False rd Some have "op_byte rd r s =
          Some (Got ((bs @ drop size (cu_window r)) ! 0), r\<lparr>cu_window := bs @ drop size (cu_window r), cu_next := cu_next r + size,
            cu_cursor := 1, cu_available := size\<rparr>, s')"
        using len size window by (simp add: op_byte_def op_refill_def flip: size_def)
      then show ?thesis using assms size len True window
        by (auto simp: stepped_def later_def wf_cursor_def cu_left_def)
    qed
  qed
qed

lemma op_continue_total:
  "wf_cursor r \<Longrightarrow> \<exists>b r' s'. op_continue rd n acc r s = Some (b, r', s') \<and> later r r' \<and>
    (case b of Got x \<Rightarrow> cu_left r' \<le> cu_left r \<and> cu_status r' = cu_status r | Stop \<Rightarrow> False | Failed \<Rightarrow> input_error (cu_status r'))"
proof (induction n arbitrary: acc r s)
  case 0
  then show ?case by (simp add: later_refl)
next
  case (Suc n)
  from op_byte_total [OF Suc.prems, of s] obtain b r' s' where b: "op_byte rd r s = Some (b, r', s')" "stepped r b r'" by blast
  show ?case
  proof (cases b)
    case (Got x)
    with b(2) have l: "later r r'" "cu_left r' < cu_left r" "cu_status r' = cu_status r" by (simp_all add: stepped_def)
    show ?thesis
    proof (cases "x AND 0xc0 = 0x80")
      case True
      from Suc.IH [OF wf_later [OF l(1)]] obtain d r'' s'' where
        "op_continue rd n (push_bit 6 acc OR ucast (x AND 0x3f)) r' s' = Some (d, r'', s'')" "later r' r''"
        "case d of Got x \<Rightarrow> cu_left r'' \<le> cu_left r' \<and> cu_status r'' = cu_status r' | Stop \<Rightarrow> False | Failed \<Rightarrow> input_error (cu_status r'')" by blast
      with b Got True l later_trans [OF l(1)] show ?thesis by (cases d) simp_all
    next
      case False
      with b Got l show ?thesis by (simp add: op_invalid_def input_error_def)
    qed
  qed (use b Suc.prems in \<open>auto simp: op_invalid_def stepped_def input_error_def\<close>)
qed

lemma op_scalar_total:
  assumes "wf_cursor r"
  shows "\<exists>b r' s'. op_scalar rd r s = Some (b, r', s') \<and> stepped r b r'"
proof -
  from op_byte_total [OF assms, of s] obtain b r1 s1 where b: "op_byte rd r s = Some (b, r1, s1)" "stepped r b r1" by blast
  show ?thesis
  proof (cases b)
    case (Got lead)
    with b(2) have l: "later r r1" "cu_left r1 < cu_left r" "cu_status r1 = cu_status r" by (simp_all add: stepped_def)
    show ?thesis
    proof (cases "lead < 0x80 \<or> op_lead lead = None")
      case True
      with b Got show ?thesis by (auto simp: op_scalar_def op_invalid_def stepped_def input_error_def)
    next
      case False
      then obtain n acc m where lead: "op_lead lead = Some (n, acc, m)" by auto
      from op_continue_total [OF wf_later [OF l(1)]] obtain d r2 s2 where d:
        "op_continue rd n acc r1 s1 = Some (d, r2, s2)" "later r1 r2"
        "case d of Got x \<Rightarrow> cu_left r2 \<le> cu_left r1 \<and> cu_status r2 = cu_status r1 | Stop \<Rightarrow> False | Failed \<Rightarrow> input_error (cu_status r2)" by blast
      have "later r r2" using later_trans [OF l(1) d(2)] .
      with b(1) Got False lead d l show ?thesis
        by (cases d) (auto simp: op_scalar_def op_invalid_def stepped_def input_error_def)
    qed
  qed (use b in \<open>auto simp: op_scalar_def stepped_def\<close>)
qed


text \<open>The first pass ends, with units within the limit unless it stops at one too many.\<close>

lemma op_measure_total:
  "wf_cursor r \<Longrightarrow> cu_left r < fuel \<Longrightarrow> units \<le> limit \<Longrightarrow>
     \<exists>b n w r' s'. op_measure rd limit fuel units wide r s = Some (b, n, w, r', s') \<and> later r r' \<and>
       (case b of Got _ \<Rightarrow> True | Stop \<Rightarrow> n \<le> limit \<and> cu_status r' = cu_status r | Failed \<Rightarrow> input_error (cu_status r'))"
proof (induction fuel arbitrary: units wide r s)
  case 0
  then show ?case by simp
next
  case (Suc fuel)
  from op_scalar_total [OF Suc.prems(1), of s] obtain b r1 s1 where b: "op_scalar rd r s = Some (b, r1, s1)" "stepped r b r1" by blast
  show ?case
  proof (cases b)
    case (Got c)
    with b(2) have l: "later r r1" "cu_left r1 < cu_left r" "cu_status r1 = cu_status r" by (simp_all add: stepped_def)
    show ?thesis
    proof (cases "units + units_of c > limit")
      case True
      with b Got l show ?thesis by (simp add: Let_def)
    next
      case False
      with l Suc.prems(2) Suc.IH [OF wf_later [OF l(1)], of "units + units_of c" "wide \<or> c > 0xff" s1] obtain d n w r2 s2 where
        "op_measure rd limit fuel (units + units_of c) (wide \<or> c > 0xff) r1 s1 = Some (d, n, w, r2, s2)" "later r1 r2"
        "case d of Got _ \<Rightarrow> True | Stop \<Rightarrow> n \<le> limit \<and> cu_status r2 = cu_status r1 | Failed \<Rightarrow> input_error (cu_status r2)" by auto
      with b Got False l later_trans [OF l(1)] show ?thesis by (cases d) (simp_all add: Let_def)
    qed
  qed (use b Suc.prems in \<open>auto simp: stepped_def\<close>)
qed

text \<open>The second pass never writes outside of the storage.\<close>

lemma op_fill_total:
  "wf_cursor r \<Longrightarrow> cu_left r < fuel \<Longrightarrow> i \<le> units \<Longrightarrow> fits units wide st \<Longrightarrow>
     \<exists>failed j st' r' s'. op_fill rd units wide fuel i st r s = Some (failed, j, st', r', s') \<and> later r r' \<and>
       fits units wide st' \<and> (if failed then input_error (cu_status r') \<or> cu_status r' = OP_STRING_INPUT_CHANGED else True)"
proof (induction fuel arbitrary: i st r s)
  case 0
  then show ?case by simp
next
  case (Suc fuel)
  from op_scalar_total [OF Suc.prems(1), of s] obtain b r1 s1 where b: "op_scalar rd r s = Some (b, r1, s1)" "stepped r b r1" by blast
  show ?case
  proof (cases b)
    case (Got c)
    with b(2) have l: "later r r1" "cu_left r1 < cu_left r" "cu_status r1 = cu_status r" by (simp_all add: stepped_def)
    show ?thesis
    proof (cases "units_of c > units - i \<or> (\<not> wide \<and> c > 0xff)")
      case True
      with b Got l Suc.prems(4) show ?thesis by auto
    next
      case False
      then have room: "i + units_of c \<le> units" "wide \<or> \<not> c > 0xff" using Suc.prems(3) by auto
      note put = op_store_fits [OF Suc.prems(4) room]
      from l Suc.prems(2) put room Suc.IH [OF wf_later [OF l(1)], of "i + units_of c" "put_text st i [c]" s1] obtain failed j st' r2 s2 where
        "op_fill rd units wide fuel (i + units_of c) (put_text st i [c]) r1 s1 = Some (failed, j, st', r2, s2)" "later r1 r2"
        "fits units wide st'" "if failed then input_error (cu_status r2) \<or> cu_status r2 = OP_STRING_INPUT_CHANGED else True" by auto
      with b Got False put l later_trans [OF l(1)] show ?thesis by auto
    qed
  qed (use b Suc.prems in \<open>auto simp: stepped_def\<close>)
qed

text \<open>What the callback keeps, the passes keep.\<close>

definition kept :: "('s \<Rightarrow> bool) \<Rightarrow> bool" where
  "kept P \<longleftrightarrow> (\<forall>s off n. P s \<longrightarrow> P (snd (rd s off n)))"

lemma op_byte_kept: "kept P \<Longrightarrow> op_byte rd r s = Some (b, r', s') \<Longrightarrow> P s \<Longrightarrow> P s'"
  by (auto simp: kept_def op_byte_def op_refill_def Let_def split: if_splits prod.splits option.splits)
    (metis snd_conv)+

lemma op_continue_kept: "kept P \<Longrightarrow> op_continue rd n acc r s = Some (b, r', s') \<Longrightarrow> P s \<Longrightarrow> P s'"
proof (induction n arbitrary: acc r s)
  case (Suc n)
  from Suc.prems(2) obtain c r1 s1 where c: "op_byte rd r s = Some (c, r1, s1)" by auto
  from op_byte_kept [OF Suc.prems(1) c Suc.prems(3)] c Suc show ?case
    by (auto simp: op_invalid_def split: step.splits if_splits)
qed simp

lemma op_scalar_kept:
  assumes "kept P" and "op_scalar rd r s = Some (b, r', s')" and "P s"
  shows "P s'"
proof -
  from assms(2) obtain c r1 s1 where c: "op_byte rd r s = Some (c, r1, s1)" by (auto simp: op_scalar_def)
  note P1 = op_byte_kept [OF assms(1) c assms(3)]
  show ?thesis
  proof (cases "\<exists>lead n acc m. c = Got lead \<and> \<not> lead < 0x80 \<and> op_lead lead = Some (n, acc, m)")
    case False
    with P1 c assms(2) show ?thesis by (auto simp: op_scalar_def op_invalid_def split: step.splits if_splits option.splits)
  next
    case True
    then obtain lead n acc m where l: "c = Got lead" "\<not> lead < 0x80" "op_lead lead = Some (n, acc, m)" by blast
    with c assms(2) obtain d r2 s2 where d: "op_continue rd n acc r1 s1 = Some (d, r2, s2)" by (auto simp: op_scalar_def)
    from op_continue_kept [OF assms(1) d P1] c l d assms(2) show ?thesis
      by (cases d) (auto simp: op_scalar_def op_invalid_def split: if_splits)
  qed
qed

lemma op_measure_kept:
  "kept P \<Longrightarrow> op_measure rd limit fuel units wide r s = Some (b, n, w, r', s') \<Longrightarrow> P s \<Longrightarrow> P s'"
proof (induction fuel arbitrary: units wide r s)
  case (Suc fuel)
  from Suc.prems(2) obtain c r1 s1 where c: "op_scalar rd r s = Some (c, r1, s1)" by auto
  from op_scalar_kept [OF Suc.prems(1) c Suc.prems(3)] c Suc show ?case
    by (auto simp: Let_def split: step.splits if_splits)
qed simp

lemma op_fill_kept:
  "kept P \<Longrightarrow> op_fill rd units wide fuel i st r s = Some (f, j, st', r', s') \<Longrightarrow> P s \<Longrightarrow> P s'"
proof (induction fuel arbitrary: i st r s)
  case (Suc fuel)
  from Suc.prems(2) obtain c r1 s1 where c: "op_scalar rd r s = Some (c, r1, s1)" by auto
  from op_scalar_kept [OF Suc.prems(1) c Suc.prems(3)] c Suc show ?case
    by (auto split: step.splits if_splits)
qed simp

end

section \<open>A source that does not change\<close>

text \<open>
  The callback gives the bytes of the source, in every state that satisfies the invariant, and
  keeps the invariant.
\<close>

locale steady_source = exact_source rd for rd :: "'s string_read" +
  fixes src :: "byte list" and inv :: "'s \<Rightarrow> bool"
  assumes steady: "inv s \<Longrightarrow> rd s off n = (Some bs, s') \<Longrightarrow> off + n \<le> length src \<Longrightarrow> bs = take n (drop off src)"
    and steady_kept: "inv s \<Longrightarrow> inv (snd (rd s off n))"
begin

lemma inv_kept: "kept inv"
  using steady_kept by (simp add: kept_def)

text \<open>One byte of the cursor is one byte of what is unread.\<close>

definition reads :: "cursor \<Rightarrow> 's \<Rightarrow> bool" where
  "reads r s \<longleftrightarrow> wf_cursor r \<and> cu_length r = length src \<and> inv s"

lemma op_byte_unread:
  assumes "reads r s" and "op_byte rd r s = Some (b, r', s')"
  shows "reads r' s' \<and> (case b of Got x \<Rightarrow> unread src r = x # unread src r' | Stop \<Rightarrow> unread src r = [] \<and> r' = r | Failed \<Rightarrow> cu_status r' = OP_STRING_READ_FAILED)"
proof -
  from op_byte_total [of r s] assms have "stepped r b r'" by (auto simp: reads_def)
  then have "reads r' s'" using op_byte_kept [OF inv_kept assms(2)] assms(1) by (auto simp: reads_def stepped_def later_def)
  moreover have "case b of Got x \<Rightarrow> unread src r = x # unread src r' | Stop \<Rightarrow> unread src r = [] \<and> r' = r | Failed \<Rightarrow> cu_status r' = OP_STRING_READ_FAILED"
  proof (cases "cu_cursor r = cu_available r")
    case False
    with assms have k: "cu_cursor r < cu_available r" "cu_available r \<le> length (cu_window r)" by (auto simp: reads_def wf_cursor_def)
    then obtain m where m: "cu_available r - cu_cursor r = Suc m" "cu_available r - Suc (cu_cursor r) = m"
      by (metis Suc_diff_Suc)
    from False k assms(2) have "b = Got (cu_window r ! cu_cursor r)" "r' = r\<lparr>cu_cursor := cu_cursor r + 1\<rparr>"
      by (auto simp: op_byte_def split: if_splits)
    with k m show ?thesis by (simp add: unread_def Cons_nth_drop_Suc [symmetric])
  next
    case True
    show ?thesis
    proof (cases "cu_next r = cu_length r")
      case e: True
      with True assms show ?thesis by (auto simp: op_byte_def unread_def reads_def)
    next
      case False
      define size where "size = min (cu_length r - cu_next r) (cu_capacity r)"
      obtain ob s1 where rd: "rd s (cu_next r) size = (ob, s1)" by (metis prod.exhaust)
      show ?thesis
      proof (cases ob)
        case None
        with True False rd assms(2) show ?thesis by (auto simp: op_byte_def op_refill_def simp flip: size_def)
      next
        case (Some bs)
        have size: "0 < size" "size \<le> length src - cu_next r" "cu_next r \<le> length src" "size \<le> length (cu_window r)"
          using assms(1) False by (auto simp: size_def reads_def wf_cursor_def)
        then have bs: "bs = take size (drop (cu_next r) src)" using steady rd Some assms(1) by (auto simp: reads_def)
        then have "length bs = size" using size by simp
        with size(1) obtain y ys where y: "bs = y # ys" "length ys = size - 1" by (cases bs) auto
        have "unread src r = bs @ drop (cu_next r + size) src"
          using True bs append_take_drop_id [of size "drop (cu_next r) src"] by (simp add: unread_def add.commute)
        with y True False rd Some assms(2) size show ?thesis
          by (auto simp: op_byte_def op_refill_def unread_def simp flip: size_def split: if_splits)
      qed
    qed
  qed
  ultimately show ?thesis ..
qed

lemma op_continue_unread:
  "reads r s \<Longrightarrow> op_continue rd n acc r s = Some (b, r', s') \<Longrightarrow> reads r' s' \<and>
    (case b of Got v \<Rightarrow> continue_bytes n acc (unread src r) = Some (v, unread src r') | Stop \<Rightarrow> False
     | Failed \<Rightarrow> cu_status r' = OP_STRING_READ_FAILED \<or>
         cu_status r' = OP_STRING_INVALID_UTF8 \<and> continue_bytes n acc (unread src r) = None)"
proof (induction n arbitrary: acc r s)
  case 0
  then show ?case by auto
next
  case (Suc n)
  from Suc.prems(2) obtain c r1 s1 where c: "op_byte rd r s = Some (c, r1, s1)" by auto
  note one = op_byte_unread [OF Suc.prems(1) c]
  show ?case
  proof (cases c)
    case (Got x)
    with one have u: "reads r1 s1" "unread src r = x # unread src r1" by simp_all
    show ?thesis
    proof (cases "x AND 0xc0 = 0x80")
      case True
      with Suc.prems(2) c Got have "op_continue rd n (push_bit 6 acc OR ucast (x AND 0x3f)) r1 s1 = Some (b, r', s')" by simp
      from Suc.IH [OF u(1) this] True u(2) show ?thesis by (cases b) simp_all
    next
      case False
      with Suc.prems(2) c Got u show ?thesis by (auto simp: op_invalid_def reads_def wf_cursor_def)
    qed
  qed (use Suc.prems(2) c one in \<open>auto simp: op_invalid_def reads_def wf_cursor_def\<close>)
qed

lemma reads_status [simp]: "reads (r\<lparr>cu_status := x\<rparr>) s = reads r s"
  by (simp add: reads_def wf_cursor_def)

lemma op_scalar_unread:
  assumes "reads r s" and "op_scalar rd r s = Some (b, r', s')"
  shows "reads r' s' \<and>
    (case b of Got v \<Rightarrow> scalar_in (unread src r) = Some (v, unread src r') | Stop \<Rightarrow> unread src r = [] \<and> r' = r
     | Failed \<Rightarrow> cu_status r' = OP_STRING_READ_FAILED \<or>
         cu_status r' = OP_STRING_INVALID_UTF8 \<and> unread src r \<noteq> [] \<and> scalar_in (unread src r) = None)"
proof -
  from assms(2) obtain c r1 s1 where c: "op_byte rd r s = Some (c, r1, s1)" by (auto simp: op_scalar_def)
  note one = op_byte_unread [OF assms(1) c]
  show ?thesis
  proof (cases "\<exists>lead n acc m. c = Got lead \<and> \<not> lead < 0x80 \<and> op_lead lead = Some (n, acc, m)")
    case False
    with one c assms(2) show ?thesis
      by (auto simp: op_scalar_def op_invalid_def split: step.splits if_splits option.splits)
  next
    case True
    then obtain lead n acc m where l: "c = Got lead" "\<not> lead < 0x80" "op_lead lead = Some (n, acc, m)" by blast
    with c assms(2) obtain d r2 s2 where d: "op_continue rd n acc r1 s1 = Some (d, r2, s2)" by (auto simp: op_scalar_def)
    from one l(1) have u: "reads r1 s1" "unread src r = lead # unread src r1" by simp_all
    from op_continue_unread [OF u(1) d] u(2) c l d assms(2) show ?thesis
      by (cases d) (auto simp: op_scalar_def op_invalid_def split: if_splits)
  qed
qed

lemma op_measure_unread:
  "reads r s \<Longrightarrow> op_measure rd limit fuel units wide r s = Some (b, n, w, r', s') \<Longrightarrow> units \<le> limit \<Longrightarrow> reads r' s' \<and>
    (case b of
       Stop \<Rightarrow> \<exists>cs. text_of (unread src r) cs \<and> n = units + text_units cs \<and> n \<le> limit \<and> w = (wide \<or> wide_text cs)
     | Failed \<Rightarrow> cu_status r' = OP_STRING_READ_FAILED \<or>
         cu_status r' = OP_STRING_INVALID_UTF8 \<and> (\<nexists>cs. text_of (unread src r) cs)
     | Got _ \<Rightarrow> \<exists>cs rest. unread src r = utf8 cs @ rest \<and> (\<forall>c \<in> set cs. is_scalar c) \<and> units + text_units cs > limit)"
proof (induction fuel arbitrary: units wide r s)
  case 0
  then show ?case by simp
next
  case (Suc fuel)
  from Suc.prems(2) obtain c r1 s1 where c: "op_scalar rd r s = Some (c, r1, s1)" by auto
  note one = op_scalar_unread [OF Suc.prems(1) c]
  show ?case
  proof (cases c)
    case Stop
    with Suc.prems c one have "b = Stop" "n = units" "w = wide" "r' = r1" "s' = s1" by auto
    with one Stop Suc.prems(3) show ?thesis by (auto simp: text_of_Nil intro!: exI [of _ "[]"])
  next
    case Failed
    moreover have "\<nexists>cs. text_of (unread src r) cs" if "scalar_in (unread src r) = None" "unread src r \<noteq> []"
    proof
      assume "\<exists>cs. text_of (unread src r) cs"
      then obtain cs where "text_of (unread src r) cs" by blast
      with that show False by (cases cs) (auto simp: text_of_Nil text_of_Cons)
    qed
    ultimately show ?thesis using Suc.prems c one by auto
  next
    case (Got x)
    with one have u: "reads r1 s1" "scalar_in (unread src r) = Some (x, unread src r1)" by simp_all
    from scalar_in_sound [OF u(2)] have x: "is_scalar x" "unread src r = encode_utf8 x @ unread src r1" by simp_all
    show ?thesis
    proof (cases "units + units_of x > limit")
      case True
      with Suc.prems c Got have "b = Got x" "r' = r1" "s' = s1" by (auto simp: Let_def)
      with u(1) x True show ?thesis by (auto intro!: exI [of _ "[x]"] exI [of _ "unread src r1"])
    next
      case False
      with Suc.prems c Got have run: "op_measure rd limit fuel (units + units_of x) (wide \<or> x > 0xff) r1 s1 = Some (b, n, w, r', s')"
        by (simp add: Let_def)
      have le: "units + units_of x \<le> limit" using False by simp
      note rest = Suc.IH [OF u(1) run le]
      show ?thesis
      proof (cases b)
        case Stop
        with rest obtain cs where "text_of (unread src r1) cs" "n = units + units_of x + text_units cs" "n \<le> limit"
          "w = ((wide \<or> x > 0xff) \<or> wide_text cs)" by auto
        with Stop rest u(2) show ?thesis by (auto simp: text_of_Cons intro!: exI [of _ "x # cs"])
      next
        case Failed
        have "\<nexists>cs. text_of (unread src r) cs" if "\<nexists>cs. text_of (unread src r1) cs"
        proof
          assume "\<exists>cs. text_of (unread src r) cs"
          then obtain cs where "text_of (unread src r) cs" by blast
          with that u(2) x(2) show False by (cases cs) (auto simp: text_of_Nil text_of_Cons)
        qed
        with Failed rest show ?thesis by auto
      next
        case (Got y)
        with rest obtain cs tail where "unread src r1 = utf8 cs @ tail" "\<forall>c \<in> set cs. is_scalar c"
          "units + units_of x + text_units cs > limit" by auto
        with Got rest x show ?thesis by (auto intro!: exI [of _ "x # cs"] exI [of _ tail])
      qed
    qed
  qed
qed

lemma op_fill_unread:
  "reads r s \<Longrightarrow> op_fill rd units wide fuel i st r s = Some (f, j, st', r', s') \<Longrightarrow> text_of (unread src r) cs \<Longrightarrow>
     fits units wide st \<Longrightarrow> i + text_units cs = units \<Longrightarrow> wide \<or> \<not> wide_text cs \<Longrightarrow>
     (if f then cu_status r' = OP_STRING_READ_FAILED else j = units \<and> st' = put_text st i cs)"
proof (induction fuel arbitrary: i st r s cs)
  case 0
  then show ?case by simp
next
  case (Suc fuel)
  from Suc.prems(2) obtain c r1 s1 where c: "op_scalar rd r s = Some (c, r1, s1)" by auto
  note one = op_scalar_unread [OF Suc.prems(1) c]
  show ?case
  proof (cases c)
    case Stop
    with one Suc.prems(3) have "cs = []" by (cases cs) (auto simp: text_of_Cons)
    with Stop Suc.prems c one show ?thesis by auto
  next
    case Failed
    with one Suc.prems(3) have "cu_status r1 = OP_STRING_READ_FAILED"
      by (cases cs) (auto simp: text_of_Cons text_of_Nil)
    with Failed Suc.prems c show ?thesis by auto
  next
    case (Got x)
    with one have u: "reads r1 s1" "scalar_in (unread src r) = Some (x, unread src r1)" by simp_all
    then have "unread src r \<noteq> []" by auto
    with u(2) Suc.prems(3) obtain ds where cs: "cs = x # ds" "text_of (unread src r1) ds"
      by (cases cs) (auto simp: text_of_Cons text_of_Nil)
    from cs Suc.prems(5,6) have room: "i + units_of x \<le> units" "wide \<or> \<not> x > 0xff" "i + units_of x + text_units ds = units" "wide \<or> \<not> wide_text ds"
      by auto
    note put = op_store_fits [OF Suc.prems(4) room(1,2)]
    have "\<not> (units_of x > units - i \<or> \<not> wide \<and> x > 0xff)" using room by auto
    with Suc.prems(2) c Got put(1) have "op_fill rd units wide fuel (i + units_of x) (put_text st i [x]) r1 s1 = Some (f, j, st', r', s')"
      by simp
    from Suc.IH [OF u(1) this cs(2) put(2) room(3,4)] put_text_Cons [OF Suc.prems(4) room(1,2)] cs(1) show ?thesis by simp
  qed
qed

end

section \<open>The reader with an engine\<close>

text \<open>An engine whose storage has the size it was asked for.\<close>

locale exact_reader = exact_source rd for rd :: "'s string_read" +
  fixes e :: "('v, 's) js_engine"
  assumes alloc_fits: "js_alloc_string e units wide s = (Some st, s') \<Longrightarrow> fits units wide st"
begin

lemma allocated_fits:
  assumes "op_allocate_string e units wide s = Some (Some st, s')"
  shows "fits units wide st \<and> (\<not> wide \<longrightarrow> (\<exists>bs. st = Narrow bs \<and> bs ! units = 0))"
proof -
  from assms obtain st0 where a: "js_alloc_string e units wide s = (Some st0, s')"
    by (auto simp: op_allocate_string_def split: prod.splits option.splits storage.splits if_splits)
  from alloc_fits [OF a] a assms show ?thesis
    by (auto simp: op_allocate_string_def fits_def split: if_splits)
qed

lemma allocate_total: "\<exists>r s'. op_allocate_string e units wide s = Some (r, s')"
proof -
  obtain a s1 where a: "js_alloc_string e units wide s = (a, s1)" by fastforce
  show ?thesis
  proof (cases a)
    case (Some st)
    with a alloc_fits have "fits units wide st" by blast
    with a Some show ?thesis by (cases st) (auto simp: op_allocate_string_def fits_def split: if_splits)
  qed (simp add: op_allocate_string_def a)
qed

text \<open>Whatever the callback gives: the reader ends, within bounds, and says why it failed.\<close>

lemma reader_total:
  assumes "workspace \<noteq> []"
  shows "\<exists>v x w s'. OP_NewStringUTF8Reader e n rd workspace s = Some (v, x, w, s') \<and>
    length w = length workspace \<and> (v = None \<longleftrightarrow> x \<noteq> OP_STRING_OK)"
proof -
  let ?r = "op_start workspace n"
  have wf: "wf_cursor ?r" and left: "cu_left ?r < n + 1" using wf_start [OF assms] by (simp_all add: op_start_def cu_left_def)
  from op_measure_total [OF wf left, of 0 "js_string_len_max e" False s] obtain b u w r1 s1 where m:
    "op_measure rd (js_string_len_max e) (n + 1) 0 False ?r s = Some (b, u, w, r1, s1)" "later ?r r1"
    "case b of Got _ \<Rightarrow> True | Stop \<Rightarrow> u \<le> js_string_len_max e \<and> cu_status r1 = cu_status ?r | Failed \<Rightarrow> input_error (cu_status r1)" by auto
  have size: "length (cu_window r) = length workspace" if "later ?r r" for r
    using that by (auto simp: later_def wf_cursor_def op_start_def)
  show ?thesis
  proof (cases b)
    case Stop
    obtain a s2 where a: "op_allocate_string e u w s1 = Some (a, s2)" using allocate_total by blast
    show ?thesis
    proof (cases a)
      case None
      with assms m Stop a size show ?thesis by (simp add: OP_NewStringUTF8Reader_def del: op_measure.simps)
    next
      case (Some st)
      have wf1: "wf_cursor (rewound r1)" "cu_left (rewound r1) < n + 1" using rewound_facts(1) [OF wf_later [OF m(2)]] rewound_facts(2) m(2)
        by (simp_all add: later_def op_start_def)
      have "fits u w st" using allocated_fits a Some by blast
      from op_fill_total [OF wf1 _ this, of 0 s2] obtain f j st' r3 s3 where f:
        "op_fill rd u w (n + 1) 0 st (rewound r1) s2 = Some (f, j, st', r3, s3)" "later (rewound r1) r3"
        "if f then input_error (cu_status r3) \<or> cu_status r3 = OP_STRING_INPUT_CHANGED else True" by auto
      have "later ?r r3" using m(2) f(2) by (simp add: later_def)
      with assms m Stop a Some f size show ?thesis
        by (auto simp: OP_NewStringUTF8Reader_def input_error_def Let_def simp del: op_measure.simps op_fill.simps)
    qed
  qed (use assms m size in \<open>auto simp: OP_NewStringUTF8Reader_def input_error_def simp del: op_measure.simps\<close>)
qed

end

text \<open>The string of a text, as the engine stores it.\<close>

definition string_of :: "u32 list \<Rightarrow> storage" where
  "string_of cs = (if wide_text cs then Wide (concat (map utf16 cs)) else Narrow (map ucast cs @ [0]))"

lemma length_concat_utf16: "length (concat (map utf16 cs)) = text_units cs"
  by (induction cs) simp_all

lemma text_units_narrow: "\<not> wide_text cs \<Longrightarrow> text_units cs = length cs"
  by (induction cs) (auto simp: units_of_def word_less_nat_alt)

lemma put_string:
  assumes "fits (text_units cs) (wide_text cs) st" and "\<not> wide_text cs \<Longrightarrow> \<exists>bs. st = Narrow bs \<and> bs ! text_units cs = 0"
  shows "put_text st 0 cs = string_of cs"
proof (cases "wide_text cs")
  case True
  with assms(1) show ?thesis by (auto simp: fits_def string_of_def length_concat_utf16)
next
  case False
  with assms obtain bs where bs: "st = Narrow bs" "bs ! length cs = 0" "length bs = length cs + 1"
    by (auto simp: fits_def text_units_narrow)
  then have "drop (length cs) bs = [0]" using Cons_nth_drop_Suc [of "length cs" bs] by simp
  with bs False show ?thesis by (simp add: string_of_def)
qed

text \<open>With a source that does not change, and an engine that leaves it alone.\<close>

locale steady_reader = exact_reader rd e + steady_source rd src inv
  for rd :: "'s string_read" and e :: "('v, 's) js_engine" and src :: "byte list" and inv :: "'s \<Rightarrow> bool" +
  assumes alloc_inv: "inv s \<Longrightarrow> inv (snd (js_alloc_string e units wide s))"
begin

lemma reader_exact:
  assumes "inv s" and "OP_NewStringUTF8Reader e (length src) rd workspace s = Some (v, x, w, s')"
  shows "case x of
      OP_STRING_OK \<Rightarrow> \<exists>cs. text_of src cs \<and> text_units cs \<le> js_string_len_max e \<and> v = Some (js_mk_string e (string_of cs))
    | OP_STRING_INVALID_UTF8 \<Rightarrow> v = None \<and> (\<nexists>cs. text_of src cs)
    | OP_STRING_UNREPRESENTABLE \<Rightarrow> v = None \<and>
        (\<exists>cs rest. src = utf8 cs @ rest \<and> (\<forall>c \<in> set cs. is_scalar c) \<and> text_units cs > js_string_len_max e)
    | OP_STRING_INPUT_CHANGED \<Rightarrow> False
    | _ \<Rightarrow> v = None"
proof -
  let ?n = "length src" let ?r = "op_start workspace ?n" let ?max = "js_string_len_max e"
  from assms(2) have "workspace \<noteq> []" by (auto simp: OP_NewStringUTF8Reader_def)
  with assms(1) have start: "reads ?r s" "unread src ?r = src"
    by (simp_all add: reads_def wf_start unread_def) (simp_all add: op_start_def)
  from assms(2) obtain b u wd r1 s1 where m: "op_measure rd ?max (?n + 1) 0 False ?r s = Some (b, u, wd, r1, s1)"
    by (auto simp: OP_NewStringUTF8Reader_def simp del: op_measure.simps split: if_splits)
  note first = op_measure_unread [OF start(1) m zero_le, unfolded start(2)]
  show ?thesis
  proof (cases b)
    case Failed
    with first m assms(2) show ?thesis
      by (auto simp: OP_NewStringUTF8Reader_def simp del: op_measure.simps split: if_splits)
  next
    case (Got y)
    with first m assms(2) show ?thesis
      by (auto simp: OP_NewStringUTF8Reader_def simp del: op_measure.simps split: if_splits)
  next
    case Stop
    with first obtain cs where cs: "text_of src cs" "u = text_units cs" "u \<le> ?max" "wd = wide_text cs" and r1: "reads r1 s1" by auto
    obtain a s2 where a: "op_allocate_string e u wd s1 = Some (a, s2)" using allocate_total by blast
    show ?thesis
    proof (cases a)
      case None
      with Stop m a assms(2) show ?thesis
        by (auto simp: OP_NewStringUTF8Reader_def simp del: op_measure.simps split: if_splits)
    next
      case (Some st)
      from a have "s2 = snd (js_alloc_string e u wd s1)"
        by (auto simp: op_allocate_string_def split: prod.splits option.splits storage.splits if_splits)
      with alloc_inv r1 have "reads (rewound r1) s2" by (auto simp: reads_def wf_cursor_def)
      note again = this rewound_facts(3) [of src r1]
      from Stop m a Some assms(2) obtain f j st' r3 s3 where f: "op_fill rd u wd (?n + 1) 0 st (rewound r1) s2 = Some (f, j, st', r3, s3)"
        by (auto simp: OP_NewStringUTF8Reader_def simp del: op_measure.simps op_fill.simps split: if_splits)
      note st = allocated_fits [OF a [unfolded Some]]
      from op_fill_unread [OF again(1) f, of cs] again(2) cs st
      have "if f then cu_status r3 = OP_STRING_READ_FAILED else j = u \<and> st' = put_text st 0 cs" by simp
      moreover have "put_text st 0 cs = string_of cs" using st cs by (intro put_string) auto
      ultimately show ?thesis using Stop m a Some f cs assms(2)
        by (auto simp: OP_NewStringUTF8Reader_def Let_def simp del: op_measure.simps op_fill.simps split: if_splits)
    qed
  qed
qed

end

section \<open>The comparison\<close>

lemma length_encode_utf8: "length (encode_utf8 c) \<le> 4"
  by (simp add: encode_utf8_def)

context exact_source begin

lemma op_collect_total:
  "wf_cursor r \<Longrightarrow> cu_left r < fuel \<Longrightarrow> length bs \<le> 4096 \<Longrightarrow>
     \<exists>ended parts' i' r' s'. op_collect e rd fuel parts i bs r s = Some (ended, parts', i', r', s') \<and> later r r' \<and>
       (case ended of Some (True, _) \<Rightarrow> input_error (cu_status r') | _ \<Rightarrow> True)"
proof (induction fuel arbitrary: parts i bs r s)
  case 0
  then show ?case by simp
next
  case (Suc fuel)
  from op_scalar_total [OF Suc.prems(1), of s] obtain b r1 s1 where b: "op_scalar rd r s = Some (b, r1, s1)" "stepped r b r1" by blast
  show ?case
  proof (cases b)
    case (Got c)
    with b(2) Suc.prems(2) have l: "later r r1" "cu_left r1 < fuel" by (simp_all add: stepped_def)
    show ?thesis
    proof (cases "length bs > 4096 - 4")
      case True
      obtain p s2 where p: "op_public_part e parts i bs s1 = (p, s2)" by fastforce
      show ?thesis
      proof (cases p)
        case None
        with b Got True l p show ?thesis by simp
      next
        case (Some parts1)
        have put: "put_bytes [] (encode_utf8 c) = Some (encode_utf8 c)" using length_encode_utf8 [of c] by (simp add: put_bytes_def)
        have "length (encode_utf8 c) \<le> 4096" using length_encode_utf8 [of c] by simp
        from Suc.IH [OF wf_later [OF l(1)] l(2) this, of parts1 "i + 1" s2] b Got True p Some put show ?thesis
          using later_trans [OF l(1)] by (fastforce split: option.splits)
      qed
    next
      case False
      then have put: "put_bytes bs (encode_utf8 c) = Some (bs @ encode_utf8 c)" "length (bs @ encode_utf8 c) \<le> 4096"
        using length_encode_utf8 [of c] by (simp_all add: put_bytes_def)
      from Suc.IH [OF wf_later [OF l(1)] l(2) put(2), of parts i s1] b Got False put(1) show ?thesis
        using later_trans [OF l(1)] by (fastforce split: option.splits)
    qed
  qed (use b Suc.prems in \<open>auto simp: stepped_def\<close>)
qed

lemma op_join_total:
  "\<exists>v x s'. op_join e join parts r s = Some (v, x, cu_window r, s') \<and> (v = None \<longleftrightarrow> x \<noteq> OP_STRING_OK)"
proof -
  obtain a s1 where a: "js_new_string_len e [] s = (a, s1)" by fastforce
  show ?thesis
  proof (cases a)
    case (Some sep)
    obtain v s2 where "js_call_join e join parts sep s1 = (v, s2)" by fastforce
    with a Some show ?thesis by (auto simp: op_join_def Let_def)
  qed (use a in \<open>auto simp: op_join_def memory_error_def\<close>)
qed

lemma op_last_part_total:
  "\<exists>v x s'. op_last_part e join parts i bs r s = Some (v, x, cu_window r, s') \<and> (v = None \<longleftrightarrow> x \<noteq> OP_STRING_OK)"
proof (cases "bs = []")
  case True
  with op_join_total show ?thesis by (simp add: op_last_part_def)
next
  case False
  obtain p s1 where p: "op_public_part e parts i bs s = (p, s1)" by fastforce
  show ?thesis
  proof (cases p)
    case (Some parts1)
    with False p op_join_total [of e join parts1 r s1] show ?thesis by (simp add: op_last_part_def)
  qed (use False p in \<open>simp add: op_last_part_def memory_error_def\<close>)
qed

lemma public_total:
  assumes "workspace \<noteq> []"
  shows "\<exists>v x w s'. OP_NewStringUTF8Public e n rd workspace join s = Some (v, x, w, s') \<and>
    length w = length workspace \<and> (v = None \<longleftrightarrow> x \<noteq> OP_STRING_OK)"
proof -
  let ?r = "op_start workspace n"
  have wf: "wf_cursor ?r" and left: "cu_left ?r < n + 1" using wf_start [OF assms] by (simp_all add: op_start_def cu_left_def)
  from op_measure_total [OF wf left, of 0 "js_string_len_max e" False s] obtain b u w r1 s1 where m:
    "op_measure rd (js_string_len_max e) (n + 1) 0 False ?r s = Some (b, u, w, r1, s1)" "later ?r r1"
    "case b of Got _ \<Rightarrow> True | Stop \<Rightarrow> u \<le> js_string_len_max e \<and> cu_status r1 = cu_status ?r | Failed \<Rightarrow> input_error (cu_status r1)" by auto
  have size: "length (cu_window r) = length workspace" if "later ?r r" for r
    using that by (auto simp: later_def wf_cursor_def op_start_def)
  show ?thesis
  proof (cases b)
    case Stop
    obtain a s2 where a: "js_new_array e s1 = (a, s2)" by fastforce
    show ?thesis
    proof (cases a)
      case None
      with assms m Stop a size show ?thesis by (simp add: OP_NewStringUTF8Public_def del: op_measure.simps)
    next
      case (Some parts)
      have wf1: "wf_cursor (rewound r1)" "cu_left (rewound r1) < n + 1" using rewound_facts(1) [OF wf_later [OF m(2)]] rewound_facts(2) m(2)
        by (simp_all add: later_def op_start_def)
      from op_collect_total [OF wf1, of "[]" e parts 0 s2] obtain ended parts' i' r3 s3 where f:
        "op_collect e rd (n + 1) parts 0 [] (rewound r1) s2 = Some (ended, parts', i', r3, s3)" "later (rewound r1) r3"
        "case ended of Some (True, _) \<Rightarrow> input_error (cu_status r3) | _ \<Rightarrow> True" by auto
      then have w3: "length (cu_window r3) = length workspace" using m(2) size by (simp add: later_def)
      have run: "OP_NewStringUTF8Public e n rd workspace join s = (case ended of None \<Rightarrow> memory_error e parts' r3 s3
          | Some (True, _) \<Rightarrow> Some (None, cu_status r3, cu_window r3, js_free_value e parts' s3)
          | Some (False, bs) \<Rightarrow> op_last_part e join parts' i' bs r3 s3)"
        using assms m Stop a Some f by (simp add: OP_NewStringUTF8Public_def del: op_measure.simps op_collect.simps)
      consider "ended = None" | bs where "ended = Some (True, bs)" | bs where "ended = Some (False, bs)" by (cases ended) auto
      then show ?thesis
      proof cases
        case (3 bs)
        with run w3 op_last_part_total [of e join parts' i' bs r3 s3] show ?thesis by auto
      qed (use run f(3) w3 in \<open>auto simp: memory_error_def input_error_def\<close>)
    qed
  qed (use assms m size in \<open>auto simp: OP_NewStringUTF8Public_def input_error_def simp del: op_measure.simps\<close>)
qed

end

text \<open>What the callback and the engine keep, the constructors keep.\<close>

definition engine_keeps :: "('v, 's) js_engine \<Rightarrow> ('s \<Rightarrow> bool) \<Rightarrow> bool" where
  "engine_keeps e P \<longleftrightarrow> (\<forall>s. P s \<longrightarrow>
     (\<forall>units wide. P (snd (js_alloc_string e units wide s))) \<and> (\<forall>v. P (js_free_value e v s)) \<and>
     (\<forall>bs. P (snd (js_new_string_len e bs s))) \<and> P (snd (js_new_array e s)) \<and>
     (\<forall>a i v. P (snd (js_define_index e a i v s))) \<and> (\<forall>j a sep. P (snd (js_call_join e j a sep s))))"

lemma engine_keepsD:
  assumes "engine_keeps e P" and "P s"
  shows "js_alloc_string e units wide s = (r, s1) \<Longrightarrow> P s1" "P (js_free_value e v s)" "js_new_string_len e bs s = (q, s2) \<Longrightarrow> P s2"
    "js_new_array e s = (a, s3) \<Longrightarrow> P s3" "js_define_index e b i v s = (c, s4) \<Longrightarrow> P s4" "js_call_join e j b d s = (f, s5) \<Longrightarrow> P s5"
  using assms unfolding engine_keeps_def by (metis snd_conv)+

context exact_source begin

lemma public_part_kept: "engine_keeps e P \<Longrightarrow> P s \<Longrightarrow> op_public_part e parts i bs s = (r, s') \<Longrightarrow> P s'"
  by (auto simp: op_public_part_def dest: engine_keepsD split: prod.splits option.splits)

lemma op_collect_kept:
  "kept P \<Longrightarrow> engine_keeps e P \<Longrightarrow> op_collect e rd fuel parts i bs r s = Some (ended, parts', i', r', s') \<Longrightarrow> P s \<Longrightarrow> P s'"
proof (induction fuel arbitrary: parts i bs r s)
  case (Suc fuel)
  from Suc.prems(3) obtain c r1 s1 where c: "op_scalar rd r s = Some (c, r1, s1)" by auto
  note P1 = op_scalar_kept [OF Suc.prems(1) c Suc.prems(4)]
  obtain p s2 where p: "op_public_part e parts i bs s1 = (p, s2)" by fastforce
  note P2 = public_part_kept [OF Suc.prems(2) P1 p]
  note IH = Suc.IH [OF Suc.prems(1,2)]
  show ?case
  proof (cases c)
    case (Got x)
    show ?thesis
    proof (cases "length bs > 4096 - 4")
      case True
      show ?thesis
      proof (cases p)
        case None
        with Suc.prems(3) c Got True p P2 show ?thesis by simp
      next
        case (Some parts1)
        with Suc.prems(3) c Got True p obtain cs where "op_collect e rd fuel parts1 (i + 1) cs r1 s2 = Some (ended, parts', i', r', s')"
          by auto
        from IH [OF this P2] show ?thesis .
      qed
    next
      case False
      with Suc.prems(3) c Got obtain cs where "op_collect e rd fuel parts i cs r1 s1 = Some (ended, parts', i', r', s')" by auto
      from IH [OF this P1] show ?thesis .
    qed
  next
    case Stop
    with Suc.prems(3) c P1 show ?thesis by simp
  next
    case Failed
    with Suc.prems(3) c P1 show ?thesis by simp
  qed
qed simp

lemma memory_error_kept: "engine_keeps e P \<Longrightarrow> P s \<Longrightarrow> memory_error e parts r s = Some (v, x, w, s') \<Longrightarrow> P s'"
  using engine_keepsD(2) [of e P s parts] by (simp add: memory_error_def)

lemma op_join_kept: "engine_keeps e P \<Longrightarrow> P s \<Longrightarrow> op_join e join parts r s = Some (v, x, w, s') \<Longrightarrow> P s'"
proof -
  assume e: "engine_keeps e P" and P: "P s" and run: "op_join e join parts r s = Some (v, x, w, s')"
  obtain a s1 where a: "js_new_string_len e [] s = (a, s1)" by fastforce
  note P1 = engine_keepsD(3) [OF e P a]
  show ?thesis
  proof (cases a)
    case None
    with run a memory_error_kept [OF e P1] show ?thesis by (auto simp: op_join_def)
  next
    case (Some sep)
    obtain b s2 where b: "js_call_join e join parts sep s1 = (b, s2)" by fastforce
    note P2 = engine_keepsD(6) [OF e P1 b]
    have "P (js_free_value e parts (js_free_value e sep s2))" by (intro engine_keepsD(2) [OF e] P2)
    with run a Some b show ?thesis by (auto simp: op_join_def Let_def)
  qed
qed

lemma op_last_part_kept: "engine_keeps e P \<Longrightarrow> P s \<Longrightarrow> op_last_part e join parts i bs r s = Some (v, x, w, s') \<Longrightarrow> P s'"
proof -
  assume e: "engine_keeps e P" and P: "P s" and run: "op_last_part e join parts i bs r s = Some (v, x, w, s')"
  obtain p s1 where p: "op_public_part e parts i bs s = (p, s1)" by fastforce
  note P1 = public_part_kept [OF e P p]
  from run p op_join_kept [OF e P] op_join_kept [OF e P1] memory_error_kept [OF e P1] show ?thesis
    by (auto simp: op_last_part_def split: if_splits option.splits)
qed

lemma reader_kept:
  assumes "kept P" and "engine_keeps e P" and "P s" and "OP_NewStringUTF8Reader e n rd workspace s = Some (v, x, w, s')"
  shows "P s'"
proof -
  from assms(4) obtain b u wd r1 s1 where m: "op_measure rd (js_string_len_max e) (n + 1) 0 False (op_start workspace n) s = Some (b, u, wd, r1, s1)"
    by (auto simp: OP_NewStringUTF8Reader_def simp del: op_measure.simps split: if_splits)
  note P1 = op_measure_kept [OF assms(1) m assms(3)]
  show ?thesis
  proof (cases b)
    case Stop
    with m assms(4) obtain a s2 where a: "op_allocate_string e u wd s1 = Some (a, s2)"
      by (auto simp: OP_NewStringUTF8Reader_def simp del: op_measure.simps split: if_splits)
    then have "s2 = snd (js_alloc_string e u wd s1)"
      by (auto simp: op_allocate_string_def split: prod.splits option.splits storage.splits if_splits)
    then have P2: "P s2" using assms(2) P1 by (simp add: engine_keeps_def)
    show ?thesis
    proof (cases a)
      case None
      with Stop m a P2 assms(4) show ?thesis
        by (auto simp: OP_NewStringUTF8Reader_def simp del: op_measure.simps split: if_splits)
    next
      case (Some st)
      with Stop m a assms(4) obtain f j st' r3 s3 where f: "op_fill rd u wd (n + 1) 0 st (rewound r1) s2 = Some (f, j, st', r3, s3)"
        by (auto simp: OP_NewStringUTF8Reader_def simp del: op_measure.simps op_fill.simps split: if_splits)
      note P3 = op_fill_kept [OF assms(1) f P2]
      from Stop m a Some f P3 engine_keepsD(2) [OF assms(2) P3] assms(4) show ?thesis
        by (auto simp: OP_NewStringUTF8Reader_def Let_def simp del: op_measure.simps op_fill.simps split: if_splits)
    qed
  qed (use m P1 assms(4) in \<open>auto simp: OP_NewStringUTF8Reader_def simp del: op_measure.simps split: if_splits\<close>)
qed

lemma public_kept:
  assumes "kept P" and "engine_keeps e P" and "P s" and "OP_NewStringUTF8Public e n rd workspace join s = Some (v, x, w, s')"
  shows "P s'"
proof -
  from assms(4) obtain b u wd r1 s1 where m: "op_measure rd (js_string_len_max e) (n + 1) 0 False (op_start workspace n) s = Some (b, u, wd, r1, s1)"
    by (auto simp: OP_NewStringUTF8Public_def simp del: op_measure.simps split: if_splits)
  note P1 = op_measure_kept [OF assms(1) m assms(3)]
  show ?thesis
  proof (cases b)
    case Stop
    obtain a s2 where a: "js_new_array e s1 = (a, s2)" by fastforce
    note P2 = engine_keepsD(4) [OF assms(2) P1 a]
    show ?thesis
    proof (cases a)
      case None
      with Stop m a P2 assms(4) show ?thesis
        by (auto simp: OP_NewStringUTF8Public_def simp del: op_measure.simps split: if_splits)
    next
      case (Some parts)
      with Stop m a assms(4) obtain ended parts' i' r3 s3 where
        f: "op_collect e rd (n + 1) parts 0 [] (rewound r1) s2 = Some (ended, parts', i', r3, s3)"
        and run: "(case ended of None \<Rightarrow> memory_error e parts' r3 s3
          | Some (True, _) \<Rightarrow> Some (None, cu_status r3, cu_window r3, js_free_value e parts' s3)
          | Some (False, bs) \<Rightarrow> op_last_part e join parts' i' bs r3 s3) = Some (v, x, w, s')"
        by (auto simp: OP_NewStringUTF8Public_def simp del: op_measure.simps op_collect.simps split: if_splits)
      note P3 = op_collect_kept [OF assms(1,2) f P2]
      from run P3 memory_error_kept [OF assms(2) P3] op_last_part_kept [OF assms(2) P3] engine_keepsD(2) [OF assms(2) P3]
      show ?thesis by (auto split: option.splits prod.splits bool.splits)
    qed
  qed (use m P1 assms(4) in \<open>auto simp: OP_NewStringUTF8Public_def simp del: op_measure.simps split: if_splits\<close>)
qed

end

text \<open>
  What the engine documents of its own strings: the bytes of a string made from UTF-8 are those
  bytes, an array keeps its items in order, and the join of an array of strings with the empty
  separator is their concatenation.
\<close>

locale joining_reader = steady_reader rd e src inv
  for rd :: "'s string_read" and e :: "('v, 's) js_engine" and src :: "byte list" and inv :: "'s \<Rightarrow> bool" +
  fixes content :: "'v \<Rightarrow> byte list" and items :: "'v \<Rightarrow> byte list list"
  assumes string_content: "js_new_string_len e (utf8 cs) s = (Some v, s') \<Longrightarrow> \<forall>c \<in> set cs. is_scalar c \<Longrightarrow> content v = utf8 cs"
    and array_items: "js_new_array e s = (Some a, s') \<Longrightarrow> items a = []"
    and define_items: "js_define_index e a i v s = (Some a', s') \<Longrightarrow> unat i = length (items a) \<Longrightarrow> items a' = items a @ [content v]"
    and join_content: "js_call_join e j a sep s = (Some v, s') \<Longrightarrow> content sep = [] \<Longrightarrow> content v = concat (items a)"
    and stored_content: "\<forall>c \<in> set cs. is_scalar c \<Longrightarrow> content (js_mk_string e (string_of cs)) = utf8 cs"
    and string_inv: "inv s \<Longrightarrow> inv (snd (js_new_string_len e bs s))"
    and array_inv: "inv s \<Longrightarrow> inv (snd (js_new_array e s))"
    and define_inv: "inv s \<Longrightarrow> inv (snd (js_define_index e a i v s))"
begin

lemma public_part_items:
  assumes "op_public_part e parts i (utf8 ds) s = (Some parts', s')" and "\<forall>c \<in> set ds. is_scalar c" and "unat i = length (items parts)"
  shows "items parts' = items parts @ [utf8 ds]"
  using assms string_content define_items
  by (fastforce simp: op_public_part_def split: prod.splits option.splits)

lemma public_part_inv: "inv s \<Longrightarrow> inv (snd (op_public_part e parts i bs s))"
  using string_inv [of s bs] define_inv by (auto simp: op_public_part_def split: prod.splits option.splits)

text \<open>The parts and the collected bytes are what was read.\<close>

lemma op_collect_content:
  "reads r s \<Longrightarrow> op_collect e rd fuel parts i (utf8 ds) r s = Some (ended, parts', i', r', s') \<Longrightarrow>
   text_of (unread src r) cs \<Longrightarrow> \<forall>c \<in> set ds. is_scalar c \<Longrightarrow> unat i = length (items parts) \<Longrightarrow> unat i + length cs < 2 ^ 32 \<Longrightarrow>
     (case ended of
        None \<Rightarrow> True
      | Some (True, _) \<Rightarrow> cu_status r' = OP_STRING_READ_FAILED
      | Some (False, bs) \<Rightarrow> \<exists>es. bs = utf8 es \<and> (\<forall>c \<in> set es. is_scalar c) \<and> unat i' = length (items parts') \<and>
          concat (items parts') @ utf8 es = concat (items parts) @ utf8 ds @ utf8 cs)"
proof (induction fuel arbitrary: parts i ds r s cs)
  case 0
  then show ?case by simp
next
  case (Suc fuel)
  from Suc.prems(2) obtain c r1 s1 where c: "op_scalar rd r s = Some (c, r1, s1)" by auto
  note one = op_scalar_unread [OF Suc.prems(1) c]
  show ?case
  proof (cases c)
    case Stop
    with one Suc.prems(3) have "cs = []" by (cases cs) (auto simp: text_of_Cons)
    with Stop Suc.prems c show ?thesis by auto
  next
    case Failed
    with one Suc.prems(3) have "cu_status r1 = OP_STRING_READ_FAILED"
      by (cases cs) (auto simp: text_of_Cons text_of_Nil)
    with Failed Suc.prems c show ?thesis by auto
  next
    case (Got x)
    with one have u: "reads r1 s1" "scalar_in (unread src r) = Some (x, unread src r1)" by simp_all
    then have "unread src r \<noteq> []" by auto
    with u(2) Suc.prems(3) obtain es where cs: "cs = x # es" "text_of (unread src r1) es"
      by (cases cs) (auto simp: text_of_Cons text_of_Nil)
    have x: "is_scalar x" using scalar_in_sound [OF u(2)] by simp
    show ?thesis
    proof (cases "length (utf8 ds) > 4096 - 4")
      case False
      with Suc.prems(2) c Got have "op_collect e rd fuel parts i (utf8 (ds @ [x])) r1 s1 = Some (ended, parts', i', r', s')"
        by (auto simp: put_bytes_def split: if_splits)
      note rest = Suc.IH [OF u(1) this cs(2)]
      have "\<forall>c \<in> set (ds @ [x]). is_scalar c" "unat i + length es < 2 ^ 32" using Suc.prems(4,6) x cs(1) by auto
      note rest = rest [OF this(1) Suc.prems(5) this(2)]
      have "concat (items parts) @ utf8 (ds @ [x]) @ utf8 es = concat (items parts) @ utf8 ds @ utf8 cs" using cs(1) by simp
      from rest [unfolded this] show ?thesis .
    next
      case True
      obtain p s2 where p: "op_public_part e parts i (utf8 ds) s1 = (p, s2)" by fastforce
      show ?thesis
      proof (cases p)
        case None
        with Suc.prems(2) c Got True p show ?thesis by auto
      next
        case (Some parts1)
        with Suc.prems(2) c Got True p have run: "op_collect e rd fuel parts1 (i + 1) (utf8 [x]) r1 s2 = Some (ended, parts', i', r', s')"
          by (auto simp: put_bytes_def split: if_splits)
        have reads: "reads r1 s2" using u(1) p public_part_inv [of s1 parts i "utf8 ds"] by (simp add: reads_def)
        have "items parts1 = items parts @ [utf8 ds]" using public_part_items p Some Suc.prems(4,5) by blast
        moreover have "unat (i + 1) = unat i + 1" using Suc.prems(6) cs(1) by (simp add: unat_plus_simple [THEN iffD1] word_le_nat_alt unat_word_ariths)
        ultimately have "unat (i + 1) = length (items parts1)" "unat (i + 1) + length es < 2 ^ 32" "\<forall>c \<in> set [x]. is_scalar c"
          "concat (items parts1) @ utf8 [x] @ utf8 es = concat (items parts) @ utf8 ds @ utf8 cs"
          using Suc.prems(5,6) x cs(1) by simp_all
        with Suc.IH [OF reads run cs(2) this(3,1,2)] show ?thesis by (simp only:)
      qed
    qed
  qed
qed

lemma op_join_content:
  assumes "op_join e join parts r s = Some (v, x, w, s')"
  shows "if x = OP_STRING_OK then \<exists>v'. v = Some v' \<and> content v' = concat (items parts) else v = None \<and> x = OP_STRING_ENGINE_MEMORY"
proof -
  obtain a s1 where a: "js_new_string_len e [] s = (a, s1)" by fastforce
  show ?thesis
  proof (cases a)
    case None
    with a assms show ?thesis by (auto simp: op_join_def memory_error_def)
  next
    case (Some sep)
    with string_content [of "[]" s sep s1] a have sep: "content sep = []" by simp
    obtain b s2 where b: "js_call_join e join parts sep s1 = (b, s2)" by fastforce
    with a Some assms sep join_content [of join parts sep s1 _ s2] show ?thesis
      by (cases b) (auto simp: op_join_def Let_def)
  qed
qed

lemma public_exact:
  assumes "inv s" and "length src < 2 ^ 32" and "OP_NewStringUTF8Public e (length src) rd workspace join s = Some (v, x, w, s')"
  shows "case x of
      OP_STRING_OK \<Rightarrow> \<exists>cs v'. text_of src cs \<and> text_units cs \<le> js_string_len_max e \<and> v = Some v' \<and> content v' = src
    | OP_STRING_INVALID_UTF8 \<Rightarrow> v = None \<and> (\<nexists>cs. text_of src cs)
    | OP_STRING_UNREPRESENTABLE \<Rightarrow> v = None \<and>
        (\<exists>cs rest. src = utf8 cs @ rest \<and> (\<forall>c \<in> set cs. is_scalar c) \<and> text_units cs > js_string_len_max e)
    | OP_STRING_INPUT_CHANGED \<Rightarrow> False
    | _ \<Rightarrow> v = None"
proof -
  let ?n = "length src" let ?r = "op_start workspace ?n" let ?max = "js_string_len_max e"
  from assms(3) have "workspace \<noteq> []" by (auto simp: OP_NewStringUTF8Public_def)
  with assms(1) have start: "reads ?r s" "unread src ?r = src"
    by (simp_all add: reads_def wf_start unread_def) (simp_all add: op_start_def)
  from assms(3) obtain b u wd r1 s1 where m: "op_measure rd ?max (?n + 1) 0 False ?r s = Some (b, u, wd, r1, s1)"
    by (auto simp: OP_NewStringUTF8Public_def simp del: op_measure.simps split: if_splits)
  note first = op_measure_unread [OF start(1) m zero_le, unfolded start(2)]
  show ?thesis
  proof (cases b)
    case Failed
    with first m assms(3) show ?thesis
      by (auto simp: OP_NewStringUTF8Public_def simp del: op_measure.simps split: if_splits)
  next
    case (Got y)
    with first m assms(3) show ?thesis
      by (auto simp: OP_NewStringUTF8Public_def simp del: op_measure.simps split: if_splits)
  next
    case Stop
    with first obtain cs where cs: "text_of src cs" "u = text_units cs" "u \<le> ?max" and r1: "reads r1 s1" by auto
    obtain a s2 where a: "js_new_array e s1 = (a, s2)" by fastforce
    show ?thesis
    proof (cases a)
      case None
      with Stop m a assms(3) show ?thesis
        by (auto simp: OP_NewStringUTF8Public_def simp del: op_measure.simps split: if_splits)
    next
      case (Some parts)
      have again: "reads (rewound r1) s2" "unread src (rewound r1) = src"
        using r1 array_inv [of s1] a rewound_facts(3) by (auto simp: reads_def wf_cursor_def)
      from Stop m a Some assms(3) obtain ended parts' i' r3 s3 where
        f: "op_collect e rd (?n + 1) parts 0 (utf8 []) (rewound r1) s2 = Some (ended, parts', i', r3, s3)"
        and run: "(case ended of None \<Rightarrow> memory_error e parts' r3 s3
          | Some (True, _) \<Rightarrow> Some (None, cu_status r3, cu_window r3, js_free_value e parts' s3)
          | Some (False, bs) \<Rightarrow> op_last_part e join parts' i' bs r3 s3) = Some (v, x, w, s')"
        by (auto simp: OP_NewStringUTF8Public_def simp del: op_measure.simps op_collect.simps split: if_splits)
      have empty: "items parts = []" using array_items a Some by blast
      have short: "length cs \<le> length src"
      proof -
        have "length cs \<le> length (utf8 cs)"
        proof (induction cs)
          case (Cons c cs)
          moreover have "0 < length (encode_utf8 c)" by simp
          ultimately show ?case by (simp only: utf8_simps length_append list.size)
        qed simp
        with cs(1) show ?thesis by (simp add: text_of_def)
      qed
      note content = op_collect_content [OF again(1) f, unfolded again(2), OF cs(1)]
      consider "ended = None" | bs where "ended = Some (True, bs)" | bs where "ended = Some (False, bs)" by (cases ended) auto
      then show ?thesis
      proof cases
        case 1
        with run show ?thesis by (auto simp: memory_error_def)
      next
        case (2 bs)
        with run content empty short assms(2) show ?thesis by auto
      next
        case (3 bs)
        with content empty short assms(2) obtain es where es: "bs = utf8 es" "\<forall>c \<in> set es. is_scalar c" "unat i' = length (items parts')"
          "concat (items parts') @ utf8 es = src" using cs(1) by (auto simp: text_of_def)
        obtain q s4 where q: "op_public_part e parts' i' bs s3 = (q, s4)" by fastforce
        have last: "op_last_part e join parts' i' bs r3 s3 = Some (v, x, w, s')" using run 3 by simp
        have joined: "case x of OP_STRING_OK \<Rightarrow> \<exists>v'. v = Some v' \<and> content v' = src | OP_STRING_ENGINE_MEMORY \<Rightarrow> v = None | _ \<Rightarrow> False"
        proof (cases "bs = []")
          case True
          with last have "op_join e join parts' r3 s3 = Some (v, x, w, s')" by (simp add: op_last_part_def)
          from op_join_content [OF this] True es show ?thesis by (cases x) auto
        next
          case False
          show ?thesis
          proof (cases q)
            case None
            with last q False show ?thesis by (auto simp: op_last_part_def memory_error_def)
          next
            case (Some parts2)
            with last q False have "op_join e join parts2 r3 s4 = Some (v, x, w, s')" by (simp add: op_last_part_def)
            moreover have "items parts2 = items parts' @ [utf8 es]" using public_part_items q Some es by blast
            ultimately show ?thesis using op_join_content [of join parts2 r3 s4 v x w s'] es(4) by (cases x) auto
          qed
        qed
        then show ?thesis using cs by (cases x) auto
      qed
    qed
  qed
qed

end

end
