(* ===== verification/Plain_Engine.thy ===== *)
theory Plain_Engine
  imports String_Reader_Laws
begin

text \<open>
  An engine whose values are data: it shows that the laws asked of an engine can hold, and is where
  the interfaces of the string reader are interpreted.  With it the reader is a function that can be
  evaluated.
\<close>

section \<open>Values\<close>

datatype tree = TNull | TBool bool | TNumber u64 | TString "u32 list" | TArray "tree list" | TObject "(u32 list \<times> tree) list"

text \<open>The text of units of UTF-16.\<close>

fun units_text :: "u16 list \<Rightarrow> u32 list" where
  "units_text [] = []"
| "units_text [u] = [ucast u]"
| "units_text (u # v # us) =
     (if 0xd800 \<le> u \<and> u \<le> 0xdbff
      then (0x10000 + push_bit 10 (ucast u - 0xd800) + (ucast v - 0xdc00)) # units_text us
      else ucast u # units_text (v # us))"

fun text_in :: "storage \<Rightarrow> u32 list" where
  "text_in (Narrow bs) = map ucast (butlast bs)"
| "text_in (Wide us) = units_text us"

lemma unat_ucast_u16: "unat (ucast (u :: u16) :: u32) = unat u"
proof -
  have "unat u < 65536" using unsigned_less [of u, where ?'a = nat] by simp
  then show ?thesis by (simp add: unsigned_ucast_eq take_bit_eq_mod)
qed

lemma unat_unit_or:
  assumes "unat x < 2 ^ 10" and "q < 64"
  shows "unat (ucast ((word_of_nat (q * 2 ^ 10) :: u32) OR x) :: u16) = q * 2 ^ 10 + unat x"
proof -
  have "unat (word_of_nat (q * 2 ^ 10) :: u32) = q * 2 ^ 10" unfolding unat_of_nat using assms(2) by simp
  then have "unat ((word_of_nat (q * 2 ^ 10) :: u32) OR x) = q * 2 ^ 10 + unat x"
    using or_add_nat [OF assms(1), of q] by (simp add: unsigned_or_eq)
  with assms show ?thesis by (simp add: unsigned_ucast_eq take_bit_eq_mod)
qed

lemma units_text_utf16:
  assumes "is_scalar c"
  shows "units_text (utf16 c @ us) = c # units_text us"
proof (cases "c \<le> 0xffff")
  case True
  then have small: "unat c < 65536" by (simp add: word_le_nat_alt)
  have u: "unat (ucast c :: u16) = unat c" using small by (simp add: unsigned_ucast_eq take_bit_eq_mod)
  then have "ucast (ucast c :: u16) = c" unfolding word_unat_eq_iff unat_ucast_u16 by simp
  moreover have "\<not> (0xd800 \<le> (ucast c :: u16) \<and> (ucast c :: u16) \<le> 0xdbff)"
    using assms u by (auto simp: word_le_nat_alt is_scalar_nat)
  ultimately show ?thesis using True by (cases us) (auto simp: utf16_def)
next
  case False
  define k where "k = c - 0x10000"
  from False have big: "65536 \<le> unat c" by (simp add: word_le_nat_alt)
  then have k: "unat k = unat c - 65536" by (simp add: k_def unat_sub word_le_nat_alt)
  with assms have lim: "unat k < 2 ^ 20" using big by (auto simp: is_scalar_nat)
  let ?u = "ucast (0xd800 OR drop_bit 10 k) :: u16" let ?v = "ucast (0xdc00 OR (k AND 0x3ff)) :: u16"
  have dk: "unat (drop_bit 10 k) = unat k div 1024" using unat_drop6 [of 10 k] by simp
  have mk: "unat (k AND 0x3ff) = unat k mod 1024" using unat_and_mask [of k 10] by (simp add: mask_eq_exp_minus_1)
  have u: "unat ?u = 55296 + unat k div 1024" using unat_unit_or [of "drop_bit 10 k" 54] dk lim by simp
  have v: "unat ?v = 56320 + unat k mod 1024" using unat_unit_or [of "k AND 0x3ff" 55] mk by simp
  have range: "0xd800 \<le> ?u \<and> ?u \<le> 0xdbff" using u lim by (simp add: word_le_nat_alt)
  have "ucast ?u - 0xd800 = drop_bit 10 k"
    unfolding word_unat_eq_iff using u dk by (simp add: unat_sub word_le_nat_alt unat_ucast_u16)
  moreover have "ucast ?v - 0xdc00 = k AND 0x3ff"
    unfolding word_unat_eq_iff using v mk by (simp add: unat_sub word_le_nat_alt unat_ucast_u16)
  moreover have "push_bit 10 (drop_bit 10 k) + (k AND 0x3ff) = k"
    using bits_ident [of 10 k] take_bit_eq_mask [of 10 k] by (simp add: mask_eq_exp_minus_1)
  ultimately have "0x10000 + push_bit 10 (ucast ?u - 0xd800) + (ucast ?v - 0xdc00) = c"
    unfolding k_def by (simp add: algebra_simps)
  with range False show ?thesis by (simp add: utf16_def flip: k_def)
qed

lemma text_in_string_of: "\<forall>c \<in> set cs. is_scalar c \<Longrightarrow> text_in (string_of cs) = cs"
proof (cases "wide_text cs")
  case True
  assume "\<forall>c \<in> set cs. is_scalar c"
  then have "units_text (concat (map utf16 cs)) = cs" by (induction cs) (simp_all add: units_text_utf16)
  with True show ?thesis by (simp add: string_of_def)
next
  case False
  then have "map (\<lambda>c. ucast (ucast c :: byte)) cs = cs"
  proof (induction cs)
    case (Cons c cs)
    then have "unat c < 256" by (simp add: word_less_nat_alt)
    then have "unat (ucast c :: byte) = unat c" by (simp add: unsigned_ucast_eq take_bit_eq_mod)
    then have "ucast (ucast c :: byte) = c" unfolding word_unat_eq_iff unat_ucast_byte by simp
    with Cons show ?case by simp
  qed simp
  with False show ?thesis by (simp add: string_of_def comp_def)
qed

section \<open>The text of bytes\<close>

function decode_utf8 :: "byte list \<Rightarrow> u32 list option" where
  "decode_utf8 bs =
     (if bs = [] then Some []
      else case scalar_in bs of
        None \<Rightarrow> None
      | Some (c, rest) \<Rightarrow> map_option ((#) c) (decode_utf8 rest))"
  by pat_completeness auto
termination
proof (relation "measure length")
  fix bs :: "byte list" and x c rest
  assume "bs \<noteq> []" "scalar_in bs = Some x" "(c, rest) = x"
  then have "bs = encode_utf8 c @ rest" using scalar_in_sound [of bs c rest] by auto
  moreover have "encode_utf8 c \<noteq> []" by simp
  ultimately show "(rest, bs) \<in> measure length" by simp
qed simp

declare decode_utf8.simps [simp del]

lemma decode_utf8_text: "decode_utf8 bs = Some cs \<longleftrightarrow> text_of bs cs"
proof (induction cs arbitrary: bs)
  case Nil
  then show ?case by (subst decode_utf8.simps) (auto simp: text_of_Nil split: option.splits)
next
  case (Cons c cs)
  then show ?case by (subst decode_utf8.simps) (auto simp: text_of_Cons split: option.splits)
qed

section \<open>The engine\<close>

definition plain_engine :: "nat \<Rightarrow> (tree, 's) js_engine" where
  "plain_engine limit = \<lparr>
     js_string_len_max = limit,
     js_alloc_string = (\<lambda>units wide s. (Some (if wide then Wide (replicate units 0) else Narrow (replicate (units + 1) 0)), s)),
     js_mk_string = (\<lambda>st. TString (text_in st)),
     js_free_value = (\<lambda>v s. s),
     js_new_string_len = (\<lambda>bs s. (map_option TString (decode_utf8 bs), s)),
     js_new_array = (\<lambda>s. (Some (TArray []), s)),
     js_define_index = (\<lambda>a i v s. (case a of TArray vs \<Rightarrow> Some (TArray (vs @ [v])) | _ \<Rightarrow> None, s)),
     js_call_join = (\<lambda>j a sep s. (case a of
        TArray vs \<Rightarrow> Some (TString (concat (map (\<lambda>v. case v of TString cs \<Rightarrow> cs | _ \<Rightarrow> []) vs))) | _ \<Rightarrow> None, s)) \<rparr>"

text \<open>A source in memory.\<close>

definition held :: "byte list \<Rightarrow> 's string_read" where
  "held src s off n = (if off + n \<le> length src then Some (take n (drop off src)) else None, s)"

definition plain_content :: "tree \<Rightarrow> byte list" where
  "plain_content v = (case v of TString cs \<Rightarrow> utf8 cs | _ \<Rightarrow> [])"

definition plain_items :: "tree \<Rightarrow> byte list list" where
  "plain_items v = (case v of TArray vs \<Rightarrow> map plain_content vs | _ \<Rightarrow> [])"

lemma utf8_concat: "utf8 (concat css) = concat (map utf8 css)"
  by (induction css) simp_all

lemma plain_join: "utf8 (concat (map (\<lambda>v. case v of TString cs \<Rightarrow> cs | _ \<Rightarrow> []) vs)) = concat (map plain_content vs)"
  by (induction vs) (auto simp: plain_content_def split: tree.splits)

interpretation plain: joining_reader "held src" "plain_engine limit" src "\<lambda>_. True" plain_content plain_items
  for src limit
proof unfold_locales
  fix s :: 'a and off n bs s'
  assume "held src s off n = (Some bs, s')"
  then show "length bs = n" by (auto simp: held_def split: if_splits)
next
  fix units wide st and s s' :: 'a
  assume "js_alloc_string (plain_engine limit) units wide s = (Some st, s')"
  then show "fits units wide st" by (auto simp: plain_engine_def fits_def)
next
  fix cs v and s s' :: 'a
  assume "js_new_string_len (plain_engine limit) (utf8 cs) s = (Some v, s')" "\<forall>c \<in> set cs. is_scalar c"
  moreover then have "decode_utf8 (utf8 cs) = Some cs" by (simp add: decode_utf8_text text_of_def)
  ultimately show "plain_content v = utf8 cs" by (auto simp: plain_engine_def plain_content_def)
next
  fix cs :: "u32 list"
  assume "\<forall>c \<in> set cs. is_scalar c"
  then show "plain_content (js_mk_string (plain_engine limit) (string_of cs)) = utf8 cs"
    by (simp add: plain_engine_def plain_content_def text_in_string_of)
qed (auto simp: held_def plain_engine_def plain_items_def plain_content_def plain_join split: if_splits tree.splits)

section \<open>The two constructors\<close>

text \<open>
  C14. Whatever the callback gives, as long as it is as many bytes as it is asked for, and whatever
  the window, the reader ends without an access out of bounds and without running forever, keeps the
  size of the workspace, and returns a value exactly when the status says so.
\<close>

theorem reader_stays_in_bounds:
  assumes "\<forall>s off k bs s'. rd s off k = (Some bs, s') \<longrightarrow> length bs = k"
    and "\<forall>units wide s st s'. js_alloc_string e units wide s = (Some st, s') \<longrightarrow> fits units wide st"
    and "workspace \<noteq> []"
  shows "\<exists>v x w s'. OP_NewStringUTF8Reader e n rd workspace s = Some (v, x, w, s') \<and>
    length w = length workspace \<and> (v = None \<longleftrightarrow> x \<noteq> OP_STRING_OK)"
proof -
  have "exact_reader rd e" using assms(1,2) by unfold_locales blast+
  from exact_reader.reader_total [OF this assms(3)] show ?thesis .
qed

text \<open>A callback that gives something else in the second pass, and a workspace of three bytes.\<close>

definition changing :: "nat string_read" where
  "changing s off k = (Some (replicate k (if s < 2 then 0x61 else 0xc4)), s + 1)"

lemma reader_stays_in_bounds_witness:
  "\<exists>v x w s'. OP_NewStringUTF8Reader (plain_engine 100) 5 changing [0, 0, 0] 0 = Some (v, x, w, s') \<and>
    length w = 3 \<and> (v = None \<longleftrightarrow> x \<noteq> OP_STRING_OK)"
proof -
  have "\<forall>units wide s st s'. js_alloc_string (plain_engine 100) units wide (s :: nat) = (Some st, s') \<longrightarrow> fits units wide st"
    by (auto simp: plain_engine_def fits_def)
  from reader_stays_in_bounds [OF _ this, of changing "[0, 0, 0]" 5 0] show ?thesis by (simp add: changing_def numeral_3_eq_3)
qed

text \<open>
  C13. Over a source that does not change the reader makes exactly the text its bytes encode, in
  Latin-1 or UTF-16, whatever the window; it rejects the bytes as invalid only if they encode no
  text, and as too long only if the units exceed the limit, and never says that the input changed.
\<close>

theorem reader_makes_the_text:
  assumes "\<forall>s off k bs s'. rd s off k = (Some bs, s') \<longrightarrow> length bs = k"
    and "\<forall>s off k bs s'. holds s \<longrightarrow> rd s off k = (Some bs, s') \<longrightarrow> off + k \<le> length src \<longrightarrow> bs = take k (drop off src)"
    and "\<forall>s off k. holds s \<longrightarrow> holds (snd (rd s off k))"
    and "\<forall>units wide s st s'. js_alloc_string e units wide s = (Some st, s') \<longrightarrow> fits units wide st"
    and "\<forall>units wide s. holds s \<longrightarrow> holds (snd (js_alloc_string e units wide s))"
    and "holds s" and "OP_NewStringUTF8Reader e (length src) rd workspace s = Some (v, x, w, s')"
  shows "case x of
      OP_STRING_OK \<Rightarrow> \<exists>cs. text_of src cs \<and> text_units cs \<le> js_string_len_max e \<and> v = Some (js_mk_string e (string_of cs))
    | OP_STRING_INVALID_UTF8 \<Rightarrow> v = None \<and> (\<nexists>cs. text_of src cs)
    | OP_STRING_UNREPRESENTABLE \<Rightarrow> v = None \<and>
        (\<exists>cs rest. src = utf8 cs @ rest \<and> (\<forall>c \<in> set cs. is_scalar c) \<and> text_units cs > js_string_len_max e)
    | OP_STRING_INPUT_CHANGED \<Rightarrow> False
    | _ \<Rightarrow> v = None"
proof -
  have "steady_reader rd e src holds"
  proof unfold_locales
    show "length bs = n" if "rd s off n = (Some bs, s')" for s off n bs s' using assms(1) that by blast
    show "fits units wide st" if "js_alloc_string e units wide s = (Some st, s')" for units wide s st s'
      using assms(4) that by blast
    show "bs = take n (drop off src)" if "holds s" "rd s off n = (Some bs, s')" "off + n \<le> length src" for s off n bs s'
      using assms(2) that by blast
    show "holds (snd (rd s off n))" if "holds s" for s off n using assms(3) that by blast
    show "holds (snd (js_alloc_string e units wide s))" if "holds s" for units wide s using assms(5) that by blast
  qed
  from steady_reader.reader_exact [OF this assms(6,7)] show ?thesis .
qed

lemma held_laws:
  "\<forall>s off k bs s'. held src s off k = (Some bs, s') \<longrightarrow> length bs = k"
  "\<forall>s off k bs s'. True \<longrightarrow> held src s off k = (Some bs, s') \<longrightarrow> off + k \<le> length src \<longrightarrow> bs = take k (drop off src)"
  "\<forall>units wide s st s'. js_alloc_string (plain_engine limit) units wide s = (Some st, s') \<longrightarrow> fits units wide st"
  by (auto simp: held_def plain_engine_def fits_def split: if_splits)

lemma reader_makes_the_text_witness:
  "\<exists>cs. text_of [0x61, 0xe4, 0xb8, 0xad, 0xc3, 0xa9] cs \<and> text_in (string_of cs) = [0x61, 0x4e2d, 0xe9]"
proof -
  let ?src = "[0x61, 0xe4, 0xb8, 0xad, 0xc3, 0xa9] :: byte list"
  have run: "OP_NewStringUTF8Reader (plain_engine 100) (length ?src) (held ?src) [0, 0] () =
      Some (Some (TString [0x61, 0x4e2d, 0xe9]), OP_STRING_OK, [0xc3, 0xa9], ())" by code_simp
  from reader_makes_the_text [where holds = "\<lambda>_. True", OF held_laws(1,2) _ held_laws(3) _ _ run] show ?thesis
    by (auto simp: plain_engine_def)
qed

lemma utf8_prefix_units:
  "utf8 cs = utf8 ds @ rest \<Longrightarrow> \<forall>c \<in> set cs. is_scalar c \<Longrightarrow> \<forall>c \<in> set ds. is_scalar c \<Longrightarrow> text_units ds \<le> text_units cs"
proof (induction ds arbitrary: cs)
  case (Cons d ds)
  from Cons.prems have one: "scalar_in (utf8 cs) = Some (d, utf8 ds @ rest)" by (simp add: scalar_in_encode)
  then obtain c cs' where cs: "cs = c # cs'" by (cases cs) auto
  have "scalar_in (utf8 cs) = Some (c, utf8 cs')" using cs Cons.prems(2) by (simp add: scalar_in_encode)
  with one have "c = d" "utf8 cs' = utf8 ds @ rest" by simp_all
  with Cons.IH [of cs'] Cons.prems cs show ?case by simp
qed simp

text \<open>
  C15. The two constructors agree: over the same source, with an engine that keeps what strings and
  arrays are given (\<open>joining_reader\<close>), the string made in place and the string joined from parts
  both have the bytes of the source as content, and where one of them exists the other was not
  refused because of its input.
\<close>

theorem constructors_agree:
  assumes "joining_reader rd e src holds content items" and "holds s" and "holds t" and "length src < 2 ^ 32"
    and "OP_NewStringUTF8Reader e (length src) rd workspace s = Some (v, x, w, s')"
    and "OP_NewStringUTF8Public e (length src) rd workspace' join t = Some (v', x', w', t')"
  shows "(\<forall>u. v = Some u \<longrightarrow> content u = src) \<and> (\<forall>u. v' = Some u \<longrightarrow> content u = src) \<and>
    (x = OP_STRING_OK \<longrightarrow> x' \<notin> {OP_STRING_INVALID_UTF8, OP_STRING_UNREPRESENTABLE, OP_STRING_INPUT_CHANGED}) \<and>
    (x' = OP_STRING_OK \<longrightarrow> x \<notin> {OP_STRING_INVALID_UTF8, OP_STRING_UNREPRESENTABLE, OP_STRING_INPUT_CHANGED})"
proof -
  note joining = assms(1)
  have steady: "steady_reader rd e src holds" using joining by (rule joining_reader.axioms)
  note one = steady_reader.reader_exact [OF steady assms(2,5)]
  note two = joining_reader.public_exact [OF joining assms(3,4,6)]
  have content: "content (js_mk_string e (string_of cs)) = src" if "text_of src cs" for cs
    using joining_reader.stored_content [OF joining, of cs] that by (simp add: text_of_def)
  have short: False if "text_of src cs" "text_units cs \<le> m" "src = utf8 ds @ rest" "\<forall>c \<in> set ds. is_scalar c" "m < text_units ds" for cs ds rest m
    using that utf8_prefix_units [of cs ds rest] by (auto simp: text_of_def)
  have "\<forall>u. v = Some u \<longrightarrow> content u = src" using one content by (cases x) auto
  moreover have "\<forall>u. v' = Some u \<longrightarrow> content u = src" using two by (cases x') auto
  moreover have "x' \<notin> {OP_STRING_INVALID_UTF8, OP_STRING_UNREPRESENTABLE, OP_STRING_INPUT_CHANGED}" if "x = OP_STRING_OK"
    using one two that short by (cases x') auto
  moreover have "x \<notin> {OP_STRING_INVALID_UTF8, OP_STRING_UNREPRESENTABLE, OP_STRING_INPUT_CHANGED}" if "x' = OP_STRING_OK"
    using one two that short by (cases x) auto
  ultimately show ?thesis by blast
qed

lemma constructors_agree_witness:
  "plain_content (TString [0xe9]) = [0xc3, 0xa9] \<and>
   OP_NewStringUTF8Public (plain_engine 100) 2 (held [0xc3, 0xa9]) [0, 0, 0] TNull () =
      Some (Some (TString [0xe9]), OP_STRING_OK, [0xc3, 0xa9, 0], ())"
proof -
  let ?src = "[0xc3, 0xa9] :: byte list"
  have one: "OP_NewStringUTF8Reader (plain_engine 100) (length ?src) (held ?src) [0] () = Some (Some (TString [0xe9]), OP_STRING_OK, [0xa9], ())"
    by code_simp
  have two: "OP_NewStringUTF8Public (plain_engine 100) (length ?src) (held ?src) [0, 0, 0] TNull () =
      Some (Some (TString [0xe9]), OP_STRING_OK, [0xc3, 0xa9, 0], ())"
    by code_simp
  have "length ?src < 2 ^ 32" by simp
  from constructors_agree [OF plain.joining_reader_axioms TrueI TrueI this one two] two show ?thesis by (simp add: numeral_2_eq_2)
qed

end
