(* ===== verification/Fixture_Decoder_Laws.thy ===== *)
theory Fixture_Decoder_Laws
  imports Fixture_Decoder Plain_Engine
begin

text \<open>
  The laws of the decoder fixture: its callback is a source of the string reader, and whatever
  happens, a lookup comes to its end and its native memory is released.
\<close>

section \<open>The callback as a source\<close>

lemma length_copy_of [simp]: "length (copy_of bs off n) = n"
  by (simp add: copy_of_def)

lemma copy_of_take: "off + n \<le> length bs \<Longrightarrow> copy_of bs off n = take n (drop off bs)"
  by (rule nth_equalityI) (simp_all add: copy_of_def)

lemma take_length_take: "take (length (take n xs)) xs = take n xs"
  by (simp add: min_def)

lemma pread_loop_exact:
  "pread_loop src off n rs = (Some bs, m, rs') \<Longrightarrow> length bs = n \<and> bs = take n (drop off src)"
proof (induction src off n rs arbitrary: bs m rs' rule: pread_loop.induct)
  case (5 src off v k rs)
  let ?bs = "take (min (Suc v) k) (drop off src)"
  have ne: "?bs \<noteq> []"
  proof
    assume "?bs = []"
    with "5.prems" show False by (simp only: pread_loop.simps Let_def if_True prod.inject) simp
  qed
  obtain q m1 rs1 where q: "pread_loop src (off + length ?bs) (Suc v - length ?bs) rs = (q, m1, rs1)" by (rule prod_cases3)
  from "5.prems" ne q obtain cs where cs: "q = Some cs" "bs = ?bs @ cs"
    by (cases q) (simp_all only: pread_loop.simps Let_def if_False case_prod_conv option.case prod.inject option.distinct option.inject simp_thms)
  note cs = q [unfolded cs(1)] cs(2)
  define part where "part = ?bs"
  from "5.IH" [OF refl ne cs(1)] have ih: "length cs = Suc v - length part" "cs = take (Suc v - length part) (drop (off + length part) src)"
    unfolding part_def by (rule conjunct1, rule conjunct2)
  have le: "length part \<le> Suc v" by (simp add: part_def)
  have take: "take (length part) (drop off src) = part" unfolding part_def by (rule take_length_take)
  from le have "take (Suc v) (drop off src) = take (length part) (drop off src) @ take (Suc v - length part) (drop (length part) (drop off src))"
    using take_add [of "length part" "Suc v - length part" "drop off src"] by simp
  also have "\<dots> = part @ cs" using ih(2) take by (simp add: add.commute)
  finally have "take (Suc v) (drop off src) = part @ cs" .
  with ih(1) le cs(2) show ?case unfolding part_def [symmetric] by simp
qed (auto simp: Let_def split: if_splits)

text \<open>No read has left its block, and none can: what is staged is the whole input.\<close>

definition intact :: "'e fixture \<Rightarrow> bool" where
  "intact w \<longleftrightarrow> \<not> fx_fault w \<and> (\<forall>p bs. de_whole_input (fx_decoder w) = Some (p, bs) \<longrightarrow> length bs = de_size (fx_decoder w))"

text \<open>What a read changes.\<close>

definition read_frame :: "'e fixture \<Rightarrow> 'e fixture \<Rightarrow> bool" where
  "read_frame w w' \<longleftrightarrow> (\<exists>a b c rs n f. w' = (set_decoder (\<lambda>d. d\<lparr>de_read_calls := a, de_bytes_read := b, de_failure := c\<rparr>) w)
     \<lparr>fx_reads := rs, fx_starts := n, fx_fault := f\<rparr> \<and> (intact w \<longrightarrow> \<not> f))"

definition input_of :: "'e fixture \<Rightarrow> byte list" where
  "input_of w = (case de_whole_input (fx_decoder w) of Some (p, bs) \<Rightarrow> bs | None \<Rightarrow> fx_file w)"

lemma read_frame_parts:
  "w' = (set_decoder (\<lambda>d. d\<lparr>de_read_calls := a, de_bytes_read := b, de_failure := x\<rparr>) w)\<lparr>fx_reads := rs, fx_starts := n, fx_fault := f\<rparr> \<Longrightarrow>
     (intact w \<Longrightarrow> \<not> f) \<Longrightarrow> read_frame w w'"
  unfolding read_frame_def by blast

lemma source_read_frame:
  assumes "source_read off n w = (r, w')"
  shows "read_frame w w'"
proof (rule read_frame_parts)
  show "w' = (set_decoder (\<lambda>d. d\<lparr>de_read_calls := de_read_calls (fx_decoder w'), de_bytes_read := de_bytes_read (fx_decoder w'),
      de_failure := de_failure (fx_decoder w')\<rparr>) w)\<lparr>fx_reads := fx_reads w', fx_starts := fx_starts w', fx_fault := fx_fault w'\<rparr>"
    using assms unfolding source_read_def Let_def set_failure_def set_decoder_def
    by (cases w; cases "fx_decoder w") (auto split: if_splits option.splits prod.splits)
  show "\<not> fx_fault w'" if "intact w"
    using assms that unfolding source_read_def Let_def set_failure_def set_decoder_def intact_def
    by (auto split: if_splits option.splits prod.splits)
qed

lemma source_read_length: "source_read off n w = (Some bs, w') \<Longrightarrow> length bs = n"
  by (auto simp: source_read_def Let_def dest: pread_loop_exact split: if_splits option.splits prod.splits)

lemma source_read_input:
  "source_read off n w = (Some bs, w') \<Longrightarrow> de_size (fx_decoder w) = length (input_of w) \<Longrightarrow>
     off + n \<le> length (input_of w) \<and> bs = take n (drop off (input_of w))"
  by (auto simp: source_read_def Let_def set_decoder_def input_of_def copy_of_take not_less
    dest!: pread_loop_exact split: if_splits option.splits prod.splits)

lemma read_frame_starts:
  assumes "read_frame w w'"
  shows "read_frame w (w'\<lparr>fx_starts := n\<rparr>)"
proof -
  from assms obtain a b x rs m f where
    "w' = (set_decoder (\<lambda>d. d\<lparr>de_read_calls := a, de_bytes_read := b, de_failure := x\<rparr>) w)\<lparr>fx_reads := rs, fx_starts := m, fx_fault := f\<rparr>"
    "intact w \<Longrightarrow> \<not> f" unfolding read_frame_def by blast
  then show ?thesis by (intro read_frame_parts [where a = a and b = b and x = x and rs = rs and n = n and f = f]) simp_all
qed

lemma string_read_frame: "string_read base w off n = (r, w') \<Longrightarrow> read_frame w w'"
proof -
  assume run: "string_read base w off n = (r, w')"
  obtain q w1 where q: "source_read (base + off) n w = (q, w1)" by fastforce
  from source_read_frame [OF q] read_frame_starts [OF source_read_frame [OF q]] run q show ?thesis
    by (auto simp: string_read_def Let_def split: option.splits if_splits)
qed

text \<open>The bytes at a base, as long as the file is not tampered with.\<close>

definition steady_input :: "byte list \<Rightarrow> 'e fixture \<Rightarrow> bool" where
  "steady_input src w \<longleftrightarrow> de_mutate (fx_decoder w) = 0 \<and> input_of w = src \<and> de_size (fx_decoder w) = length src"

lemma read_frame_steady: "read_frame w w' \<Longrightarrow> steady_input src w' = steady_input src w"
  by (auto simp: read_frame_def steady_input_def input_of_def set_decoder_def split: option.splits)

interpretation callback: steady_source "string_read base" "take n (drop base src)" "steady_input src" for base n src
proof unfold_locales
  fix s off k bs s'
  assume "string_read base s off k = (Some bs, s')"
  then show "length bs = k"
    by (auto simp: string_read_def Let_def dest: source_read_length split: prod.splits option.splits if_splits)
next
  fix s off k bs s'
  assume inv: "steady_input src s" and run: "string_read base s off k = (Some bs, s')" and le: "off + k \<le> length (take n (drop base src))"
  obtain q w1 where q: "source_read (base + off) k s = (q, w1)" by fastforce
  have "de_mutate (fx_decoder w1) = 0" using read_frame_steady [OF source_read_frame [OF q], of src] inv by (simp add: steady_input_def)
  with run q have "q = Some bs" by (auto simp: string_read_def Let_def split: option.splits if_splits)
  with source_read_input [of "base + off" k s bs w1] q inv have "bs = take k (drop (base + off) src)" by (auto simp: steady_input_def)
  moreover from le have "off + k \<le> n" by simp
  then have "k \<le> n - off" by linarith
  ultimately show "bs = take k (drop off (take n (drop base src)))" by (simp add: drop_take min_def add.commute)
next
  fix s off k
  assume "steady_input src s"
  then show "steady_input src (snd (string_read base s off k))"
    using read_frame_steady string_read_frame by (metis prod.collapse)
qed

section \<open>What a decoding leaves alone\<close>

text \<open>An operation of the engine: it allocates through the functions it was given, and changes itself.\<close>

definition engine_only :: "c_library \<Rightarrow> ('e fixture \<Rightarrow> 'e fixture) \<Rightarrow> bool" where
  "engine_only c f \<longleftrightarrow> (\<forall>w. \<exists>t js. engine_reach c (fx_tracker w) t \<and> f w = w\<lparr>fx_tracker := t, fx_js := js\<rparr>)"

definition lawful_runtime :: "c_library \<Rightarrow> ('v, 'e fixture) js_runtime \<Rightarrow> bool" where
  "lawful_runtime c rt \<longleftrightarrow>
     (\<forall>units wide s st s'. js_alloc_string rt units wide s = (Some st, s') \<longrightarrow> fits units wide st) \<and>
     (\<forall>units wide. engine_only c (\<lambda>s. snd (js_alloc_string rt units wide s))) \<and>
     (\<forall>v. engine_only c (js_free_value rt v)) \<and>
     (\<forall>bs. engine_only c (\<lambda>s. snd (js_new_string_len rt bs s))) \<and>
     engine_only c (\<lambda>s. snd (js_new_array rt s)) \<and>
     (\<forall>a i v. engine_only c (\<lambda>s. snd (js_define_index rt a i v s))) \<and>
     (\<forall>j a sep. engine_only c (\<lambda>s. snd (js_call_join rt j a sep s))) \<and>
     engine_only c (\<lambda>s. snd (js_new_object rt s)) \<and>
     (\<forall>v. engine_only c (\<lambda>s. snd (js_to_atom rt v s))) \<and>
     (\<forall>a. engine_only c (js_free_atom rt a)) \<and>
     (\<forall>made a. engine_only c (\<lambda>s. snd (js_own_property rt made a s))) \<and>
     (\<forall>made a v. engine_only c (\<lambda>s. snd (js_define_property rt made a v s))) \<and>
     (\<forall>v. engine_only c (\<lambda>s. snd (js_settled_promise rt v s)))"

definition settings :: "'e fixture \<Rightarrow> _" where
  "settings w = (fx_file w, de_staged (fx_decoder w), de_mutate (fx_decoder w), de_size (fx_decoder w), de_whole_input (fx_decoder w),
     de_window_size (fx_decoder w), map_option (\<lambda>(p, bs). (p, length bs)) (de_workspace (fx_decoder w)))"

definition quiet :: "c_library \<Rightarrow> 'e fixture \<Rightarrow> 'e fixture \<Rightarrow> bool" where
  "quiet c w w' \<longleftrightarrow> engine_reach c (fx_tracker w) (fx_tracker w') \<and> settings w' = settings w \<and> (intact w \<longrightarrow> intact w')"

lemma engine_reach_trans: "engine_reach c u v \<Longrightarrow> engine_reach c t u \<Longrightarrow> engine_reach c t v"
  by (induction rule: engine_reach.induct) (auto intro: engine_reach.intros)

lemma quiet_refl [simp]: "quiet c w w"
  by (simp add: quiet_def engine_reach.stay)

lemma quiet_trans: "quiet c u v \<Longrightarrow> quiet c v w \<Longrightarrow> quiet c u w"
  by (auto simp: quiet_def intro: engine_reach_trans)

lemma quiet_frame: "read_frame w w' \<Longrightarrow> quiet c w w'"
  by (auto simp: read_frame_def quiet_def settings_def set_decoder_def intact_def engine_reach.stay)

lemma quiet_failure [simp]: "quiet c w (set_failure why w') = quiet c w w'"
  by (auto simp: quiet_def settings_def set_failure_def set_decoder_def intact_def)

lemma quiet_position [simp]: "quiet c w (set_decoder (\<lambda>d. d\<lparr>de_position := f d\<rparr>) w') = quiet c w w'"
  by (auto simp: quiet_def settings_def set_decoder_def intact_def)

lemma quiet_starts [simp]: "quiet c w (w'\<lparr>fx_starts := n\<rparr>) = quiet c w w'"
  by (auto simp: quiet_def settings_def intact_def)

lemma engine_only_quiet: "engine_only c f \<Longrightarrow> quiet c w (f w)"
proof -
  assume "engine_only c f"
  then obtain t js where "engine_reach c (fx_tracker w) t" "f w = w\<lparr>fx_tracker := t, fx_js := js\<rparr>" unfolding engine_only_def by blast
  then show ?thesis by (simp add: quiet_def settings_def intact_def)
qed

lemma lawful_quiet:
  assumes "lawful_runtime c rt"
  shows "js_alloc_string rt units wide w = (r1, w1) \<Longrightarrow> quiet c w w1" "quiet c w (js_free_value rt v w)"
    "js_new_string_len rt bs w = (r2, w2) \<Longrightarrow> quiet c w w2" "js_new_array rt w = (r3, w3) \<Longrightarrow> quiet c w w3"
    "js_define_index rt a i v w = (r4, w4) \<Longrightarrow> quiet c w w4" "js_call_join rt j a sep w = (r5, w5) \<Longrightarrow> quiet c w w5"
    "js_new_object rt w = (r6, w6) \<Longrightarrow> quiet c w w6" "js_to_atom rt v w = (r7, w7) \<Longrightarrow> quiet c w w7" "quiet c w (js_free_atom rt a w)"
    "js_own_property rt made a w = (r8, w8) \<Longrightarrow> quiet c w w8" "js_define_property rt made a v w = (r9, w9) \<Longrightarrow> quiet c w w9"
    "js_settled_promise rt v w = (r10, w10) \<Longrightarrow> quiet c w w10"
  using assms [unfolded lawful_runtime_def] engine_only_quiet [of c "\<lambda>s. snd (js_alloc_string rt units wide s)" w]
    engine_only_quiet [of c "\<lambda>s. snd (js_new_string_len rt bs s)" w] engine_only_quiet [of c "\<lambda>s. snd (js_new_array rt s)" w]
    engine_only_quiet [of c "\<lambda>s. snd (js_define_index rt a i v s)" w] engine_only_quiet [of c "\<lambda>s. snd (js_call_join rt j a sep s)" w]
    engine_only_quiet [of c "\<lambda>s. snd (js_new_object rt s)" w] engine_only_quiet [of c "\<lambda>s. snd (js_to_atom rt v s)" w]
    engine_only_quiet [of c "\<lambda>s. snd (js_own_property rt made a s)" w] engine_only_quiet [of c "\<lambda>s. snd (js_define_property rt made a v s)" w]
    engine_only_quiet [of c "\<lambda>s. snd (js_settled_promise rt v s)" w] engine_only_quiet [of c "js_free_value rt v" w] engine_only_quiet [of c "js_free_atom rt a" w]
  by simp_all

lemma take_bytes_quiet: "take_bytes n w = (r, w') \<Longrightarrow> quiet c w w'"
proof -
  assume run: "take_bytes n w = (r, w')"
  obtain q w1 where q: "source_read (de_position (fx_decoder w)) n w = (q, w1)" by fastforce
  from quiet_frame [OF source_read_frame [OF q], of c] run q show ?thesis by (cases q) (auto simp: take_bytes_def)
qed

text \<open>With a workspace, a step of the decoding comes to its end and leaves the rest alone.\<close>

definition working :: "'e fixture \<Rightarrow> bool" where
  "working w \<longleftrightarrow> (\<exists>p ws. de_workspace (fx_decoder w) = Some (p, ws) \<and> ws \<noteq> [])"

lemma quiet_working: "quiet c w w' \<Longrightarrow> working w \<Longrightarrow> working w'"
  by (auto simp: quiet_def settings_def working_def)

definition settles :: "c_library \<Rightarrow> ('e fixture \<Rightarrow> ('a \<times> 'e fixture) option) \<Rightarrow> bool" where
  "settles c f \<longleftrightarrow> (\<forall>w. working w \<longrightarrow> (\<exists>r w'. f w = Some (r, w') \<and> quiet c w w'))"

lemma settlesD: "settles c f \<Longrightarrow> working w \<Longrightarrow> \<exists>r w'. f w = Some (r, w') \<and> quiet c w w'"
  by (simp add: settles_def)

lemma status_failure_quiet [simp]: "quiet c w (status_failure x w') = quiet c w w'"
  by (cases x) (simp_all add: status_failure_def)

lemma truncate_select [simp]:
  "js_string_len_max (js_engine.truncate rt) = js_string_len_max rt" "js_alloc_string (js_engine.truncate rt) = js_alloc_string rt"
  "js_mk_string (js_engine.truncate rt) = js_mk_string rt" "js_free_value (js_engine.truncate rt) = js_free_value rt"
  "js_new_string_len (js_engine.truncate rt) = js_new_string_len rt" "js_new_array (js_engine.truncate rt) = js_new_array rt"
  "js_define_index (js_engine.truncate rt) = js_define_index rt" "js_call_join (js_engine.truncate rt) = js_call_join rt"
  by (simp_all add: js_engine.truncate_def)

lemma lawful_exact_reader:
  assumes "lawful_runtime c rt"
  shows "exact_reader (string_read base) (js_engine.truncate rt)"
proof unfold_locales
  have all: "\<forall>units wide s st s'. js_alloc_string rt units wide s = (Some st, s') \<longrightarrow> fits units wide st"
    using assms unfolding lawful_runtime_def by (rule conjunct1)
  show "fits units wide st" if "js_alloc_string (js_engine.truncate rt) units wide s = (Some st, s')" for units wide s st s'
    using all that unfolding truncate_select by blast
qed

lemma callback_keeps_quiet: "callback.kept base (quiet c w)"
proof -
  have "quiet c w (snd (string_read base s off n))" if "quiet c w s" for s off n
  proof -
    obtain r s1 where "string_read base s off n = (r, s1)" by fastforce
    with quiet_trans [OF that quiet_frame [OF string_read_frame]] show ?thesis by simp
  qed
  then show ?thesis by (simp add: callback.kept_def)
qed

lemma engine_keeps_quiet:
  assumes "lawful_runtime c rt"
  shows "engine_keeps (js_engine.truncate rt) (quiet c w)"
proof -
  have "quiet c s (snd (js_alloc_string rt units wide s))" "quiet c s (js_free_value rt v s)" "quiet c s (snd (js_new_string_len rt bs s))"
    "quiet c s (snd (js_new_array rt s))" "quiet c s (snd (js_define_index rt a i v s))" "quiet c s (snd (js_call_join rt j a sep s))"
    for s units wide v bs a i j sep
    using lawful_quiet(1-6) [OF assms] by (metis prod.collapse)+
  then show ?thesis unfolding engine_keeps_def truncate_select by (intro allI impI conjI; elim quiet_trans) assumption+
qed

lemma decode_string_settles:
  assumes "lawful_runtime c rt"
  shows "settles c (decode_string rt)"
  unfolding settles_def
proof (intro allI impI)
  fix w :: "'b fixture"
  assume work: "working w"
  obtain h w1 where h: "take_bytes 8 w = (h, w1)" by fastforce
  note q1 = take_bytes_quiet [OF h, of c]
  show "\<exists>r w'. decode_string rt w = Some (r, w') \<and> quiet c w w'"
  proof (cases "h = None \<or> unat (little (the h)) > de_size (fx_decoder w1) - de_position (fx_decoder w1)")
    case True
    with h q1 show ?thesis by (cases h) (auto simp: decode_string_def Let_def)
  next
    case False
    then obtain header where header: "h = Some header" by auto
    let ?n = "unat (little header)" let ?base = "de_position (fx_decoder w1)" let ?w = "w1\<lparr>fx_starts := 0\<rparr>"
    from quiet_working [OF q1 work] obtain p ws where ws: "de_workspace (fx_decoder w1) = Some (p, ws)" "ws \<noteq> []" by (auto simp: working_def)
    note exact = lawful_exact_reader [OF assms, of ?base]
    have start: "quiet c ?w ?w" by simp
    define made where "made = (if de_staged (fx_decoder w1) = 2
        then OP_NewStringUTF8Public (js_engine.truncate rt) ?n (string_read ?base) ws (js_join_intrinsic rt) ?w
        else OP_NewStringUTF8Reader (js_engine.truncate rt) ?n (string_read ?base) ws ?w)"
    have "\<exists>v x ws' w2. made = Some (v, x, ws', w2) \<and> length ws' = length ws \<and> quiet c ?w w2"
    proof (cases "de_staged (fx_decoder w1) = 2")
      case True
      from callback.public_total [OF ws(2), of "js_engine.truncate rt" ?n ?base "js_join_intrinsic rt" ?w]
      obtain v x ws' w2 where r: "made = Some (v, x, ws', w2)" "length ws' = length ws" using True by (auto simp: made_def)
      with True callback.public_kept [OF callback_keeps_quiet engine_keeps_quiet [OF assms] start] show ?thesis by (auto simp: made_def)
    next
      case False
      from exact_reader.reader_total [OF exact ws(2), of ?n ?w]
      obtain v x ws' w2 where r: "made = Some (v, x, ws', w2)" "length ws' = length ws" using False by (auto simp: made_def)
      with False callback.reader_kept [OF callback_keeps_quiet engine_keeps_quiet [OF assms] start] show ?thesis by (auto simp: made_def)
    qed
    then obtain v x ws' w2 where r: "made = Some (v, x, ws', w2)" "length ws' = length ws" "quiet c ?w w2" by blast
    let ?w2 = "set_decoder (\<lambda>d. d\<lparr>de_position := de_position d + ?n, de_workspace := Some (p, ws')\<rparr>) w2"
    have "settings w2 = settings ?w" using r(3) by (simp add: quiet_def)
    then have "map_option (\<lambda>(p, bs). (p, length bs)) (de_workspace (fx_decoder w2)) = Some (p, length ws)"
      using ws by (simp add: settings_def)
    with r(2) have "settings ?w2 = settings w2" by (auto simp: settings_def set_decoder_def)
    moreover have "intact ?w2 = intact w2" by (simp add: intact_def set_decoder_def)
    ultimately have "quiet c ?w ?w2" using r(3) by (simp add: quiet_def set_decoder_def)
    moreover have "quiet c w ?w" using q1 by simp
    ultimately have "quiet c w ?w2" by (rule quiet_trans [rotated])
    moreover have "decode_string rt w = Some (v, status_failure x ?w2)"
      using h header False ws(1) r(1) by (simp add: decode_string_def Let_def made_def)
    ultimately show ?thesis by simp
  qed
qed

locale fixture_runtime =
  fixes c :: c_library and rt :: "('v, 'e fixture) js_runtime"
  assumes lawful: "lawful_runtime c rt"
begin

lemmas runtime_quiet = lawful_quiet [OF lawful]

lemma decode_fail_quiet: "quiet c w w1 \<Longrightarrow> \<exists>w'. decode_fail rt made w1 = Some (None, w') \<and> quiet c w w'"
  using quiet_trans [OF _ runtime_quiet(2)] by (simp add: decode_fail_def)

lemma engine_error_quiet: "quiet c w w1 \<Longrightarrow> \<exists>w'. engine_error rt made w1 = Some (None, w') \<and> quiet c w w'"
  unfolding engine_error_def by (rule decode_fail_quiet) simp

lemma decode_key_settles: "settles c (decode_key rt made)"
  unfolding settles_def
proof (intro allI impI)
  fix w :: "'e fixture"
  assume work: "working w"
  from settlesD [OF decode_string_settles [OF lawful] work] obtain k w1 where k: "decode_string rt w = Some (k, w1)" and q1: "quiet c w w1" by blast
  show "\<exists>r w'. decode_key rt made w = Some (r, w') \<and> quiet c w w'"
  proof (cases k)
    case None
    with k decode_fail_quiet [OF q1, of made] show ?thesis by (auto simp: decode_key_def)
  next
    case (Some key)
    obtain atom w2 where atom: "js_to_atom rt key w1 = (atom, w2)" by fastforce
    let ?w3 = "js_free_value rt key w2"
    have q3: "quiet c w ?w3" using q1 runtime_quiet(8) [OF atom] runtime_quiet(2) quiet_trans by blast
    show ?thesis
    proof (cases atom)
      case None
      with k Some atom engine_error_quiet [OF q3, of made] show ?thesis by (auto simp: decode_key_def Let_def)
    next
      case a: (Some a)
      obtain exist w4 where e: "js_own_property rt made a ?w3 = (exist, w4)" by fastforce
      have q4: "quiet c w w4" using q3 runtime_quiet(10) [OF e] quiet_trans by blast
      have q5: "quiet c w (js_free_atom rt a w4)" using q4 runtime_quiet(9) quiet_trans by blast
      have q6: "quiet c w (set_failure ''duplicate_key'' (js_free_atom rt a w4))" using q5 by simp
      from k Some atom a e q4 engine_error_quiet [OF q5, of made] decode_fail_quiet [OF q6, of made] show ?thesis
        by (auto simp: decode_key_def Let_def)
    qed
  qed
qed

lemma decode_array_settles: "settles c decode \<Longrightarrow> settles c (decode_array rt decode n i made)"
proof (induction n arbitrary: i made)
  case 0
  then show ?case by (simp add: settles_def)
next
  case (Suc n)
  show ?case unfolding settles_def
  proof (intro allI impI)
    fix w :: "'e fixture"
    assume work: "working w"
    from settlesD [OF Suc.prems work] obtain item w1 where item: "decode w = Some (item, w1)" and q1: "quiet c w w1" by blast
    show "\<exists>r w'. decode_array rt decode (Suc n) i made w = Some (r, w') \<and> quiet c w w'"
    proof (cases item)
      case None
      with item decode_fail_quiet [OF q1, of made] show ?thesis by auto
    next
      case (Some v)
      obtain m w2 where m: "js_define_index rt made (of_nat i) v w1 = (m, w2)" by fastforce
      have q2: "quiet c w w2" using q1 runtime_quiet(5) [OF m] quiet_trans by blast
      show ?thesis
      proof (cases m)
        case None
        with item Some m engine_error_quiet [OF q2, of made] show ?thesis by auto
      next
        case (Some made1)
        from settlesD [OF Suc.IH [OF Suc.prems] quiet_working [OF q2 work], of "i + 1" made1] quiet_trans [OF q2]
        show ?thesis using item \<open>item = Some v\<close> m Some by fastforce
      qed
    qed
  qed
qed

lemma decode_object_settles: "settles c decode \<Longrightarrow> settles c (decode_object rt decode n made)"
proof (induction n arbitrary: made)
  case 0
  then show ?case by (simp add: settles_def)
next
  case (Suc n)
  show ?case unfolding settles_def
  proof (intro allI impI)
    fix w :: "'e fixture"
    assume work: "working w"
    from settlesD [OF decode_key_settles work] obtain k w1 where k: "decode_key rt made w = Some (k, w1)" and q1: "quiet c w w1" by blast
    show "\<exists>r w'. decode_object rt decode (Suc n) made w = Some (r, w') \<and> quiet c w w'"
    proof (cases k)
      case None
      with k q1 show ?thesis by auto
    next
      case a: (Some a)
      from settlesD [OF Suc.prems quiet_working [OF q1 work]] obtain item w2 where item: "decode w1 = Some (item, w2)" and q: "quiet c w1 w2" by blast
      have q2: "quiet c w w2" using q1 q quiet_trans by blast
      have f2: "quiet c w (js_free_atom rt a w2)" using q2 runtime_quiet(9) quiet_trans by blast
      show ?thesis
      proof (cases item)
        case None
        with k a item decode_fail_quiet [OF f2, of made] show ?thesis by auto
      next
        case v: (Some v)
        obtain m w3 where m: "js_define_property rt made a v w2 = (m, w3)" by fastforce
        have q3: "quiet c w w3" using q2 runtime_quiet(11) [OF m] quiet_trans by blast
        have f3: "quiet c w (js_free_atom rt a w3)" using q3 runtime_quiet(9) quiet_trans by blast
        show ?thesis
        proof (cases m)
          case None
          with k a item v m engine_error_quiet [OF f3, of made] show ?thesis by auto
        next
          case (Some made1)
          from settlesD [OF Suc.IH [OF Suc.prems] quiet_working [OF f3 work], of made1] quiet_trans [OF f3]
          show ?thesis using k a item v m Some by fastforce
        qed
      qed
    qed
  qed
qed

lemma decode_value_settles: "settles c (decode_value rt levels)"
proof (induction levels)
  case 0
  then show ?case by (simp add: settles_def)
next
  case (Suc levels)
  show ?case unfolding settles_def
  proof (intro allI impI)
    fix w :: "'e fixture"
    assume work: "working w"
    obtain h w1 where h: "take_bytes 1 w = (h, w1)" by fastforce
    note q1 = take_bytes_quiet [OF h, of c]
    note work1 = quiet_working [OF q1 work]
    show "\<exists>r w'. decode_value rt (Suc levels) w = Some (r, w') \<and> quiet c w w'"
    proof (cases h)
      case None
      with h q1 show ?thesis by simp
    next
      case (Some header)
      let ?tag = "header ! 0"
      consider "?tag = 0 \<or> ?tag = 1 \<or> ?tag = 2 \<or> ?tag \<notin> {0, 1, 2, 3, 4, 5, 6}" | "?tag = 3" | "?tag = 4" | "?tag = 5 \<or> ?tag = 6" by blast
      then show ?thesis
      proof cases
        case 1
        with h Some q1 show ?thesis by (auto simp: Let_def)
      next
        case 2
        obtain g w2 where g: "take_bytes 8 w1 = (g, w2)" by fastforce
        note q2 = quiet_trans [OF q1 take_bytes_quiet [OF g]]
        with h Some 2 g show ?thesis by (cases g) (auto simp: decode_number_def Let_def)
      next
        case 3
        from settlesD [OF decode_string_settles [OF lawful] work1] quiet_trans [OF q1] h Some 3 show ?thesis by fastforce
      next
        case 4
        obtain g w2 where g: "take_bytes 4 w1 = (g, w2)" by fastforce
        note q2 = quiet_trans [OF q1 take_bytes_quiet [OF g]]
        obtain m w3 where m: "(if ?tag = 5 then js_new_array rt w2 else js_new_object rt w2) = (m, w3)" by fastforce
        have q3: "quiet c w w3" using m runtime_quiet(4,7) quiet_trans [OF q2] by (metis (full_types))
        note work3 = quiet_working [OF q3 work]
        note array = settlesD [OF decode_array_settles [OF Suc] work3] and object = settlesD [OF decode_object_settles [OF Suc] work3]
        have "decode_value rt (Suc levels) w = (case g of None \<Rightarrow> Some (None, w2)
          | Some header' \<Rightarrow> (case m of None \<Rightarrow> Some (None, set_failure ''engine_exhaustion'' w3)
              | Some made \<Rightarrow> if ?tag = 5 then decode_array rt (decode_value rt levels) (unat (little header')) 0 made w3
                  else decode_object rt (decode_value rt levels) (unat (little header')) made w3))"
          using h Some 4 g m by (auto simp: Let_def split: option.splits)
        with q2 q3 array object quiet_trans [OF q3] show ?thesis by (cases g; cases m; cases "?tag = 5") fastforce+
      qed
    qed
  qed
qed

end

section \<open>Native memory\<close>

text \<open>The tracker owes these native blocks, the last one first, on top of those it began with.\<close>

definition borrowed :: "tracker \<Rightarrow> nat list \<Rightarrow> tracker \<Rightarrow> bool" where
  "borrowed t0 ps t \<longleftrightarrow> accounted t \<and> (\<exists>bs. map fst bs = ps \<and> blocks_of Native t = bs @ blocks_of Native t0 \<and>
     po_live (tk_native t) = sum_list (map (tb_usable \<circ> snd) bs) + po_live (tk_native t0) \<and>
     po_requested (tk_native t) = sum_list (map (tb_requested \<circ> snd) bs) + po_requested (tk_native t0))"

lemma borrowed_Nil: "borrowed t0 [] t \<longleftrightarrow> accounted t \<and> books Native t = books Native t0"
  by (auto simp: borrowed_def books_def owned_by_def)

lemma borrowed_books: "borrowed t0 ps t \<Longrightarrow> accounted t' \<Longrightarrow> books Native t' = books Native t \<Longrightarrow> borrowed t0 ps t'"
  by (auto simp: borrowed_def books_def owned_by_def)

lemma borrowed_reach:
  assumes "borrowed t0 ps t" and "engine_reach c t t'"
  shows "borrowed t0 ps t'"
proof -
  have "accounted t" using assms(1) by (simp add: borrowed_def)
  with engine_reach_kept [OF assms(2)] have "accounted t'" "books Native t' = books Native t" by (simp_all add: native_kept_def)
  then show ?thesis by (rule borrowed_books [OF assms(1)])
qed

lemma borrowed_malloc:
  assumes "borrowed t0 ps t" and "tracked_malloc c Native sz t = (r, t')"
  shows "case r of None \<Rightarrow> borrowed t0 ps t'
    | Some q \<Rightarrow> borrowed t0 (q # ps) t' \<and> (\<exists>b. map_of (tk_blocks t') q = Some b \<and> length (tb_bytes b) = unat sz)"
proof -
  note took = tracked_malloc_took [OF assms(2)]
  have acc: "accounted t'" using took_accounted [OF took] assms(1) by (simp add: borrowed_def)
  show ?thesis
  proof (cases r)
    case None
    with took acc borrowed_books [OF assms(1)] show ?thesis by (simp add: took_def)
  next
    case (Some q)
    with took obtain b where b: "tk_blocks t' = (q, b) # tk_blocks t" "tb_owner b = Native" "tb_requested b = sz" "length (tb_bytes b) = unat sz"
      "po_live (tk_native t') = po_live (tk_native t) + tb_usable b" "po_requested (tk_native t') = po_requested (tk_native t) + sz"
      by (auto simp: took_def owned_by_def)
    from assms(1) obtain bs where bs: "map fst bs = ps" "blocks_of Native t = bs @ blocks_of Native t0"
      "po_live (tk_native t) = sum_list (map (tb_usable \<circ> snd) bs) + po_live (tk_native t0)"
      "po_requested (tk_native t) = sum_list (map (tb_requested \<circ> snd) bs) + po_requested (tk_native t0)" by (auto simp: borrowed_def)
    have "blocks_of Native t' = ((q, b) # bs) @ blocks_of Native t0" using b(1,2) bs(2) by (simp add: blocks_of_def)
    with b bs acc have "borrowed t0 (q # ps) t'" unfolding borrowed_def
      by (intro conjI exI [of _ "(q, b) # bs"]) (simp_all add: ac_simps)
    with b Some show ?thesis by simp
  qed
qed

lemma borrowed_free:
  assumes "borrowed t0 (q # ps) t"
  shows "\<exists>t'. tracked_free Native (Some q) t = Some t' \<and> borrowed t0 ps t'"
proof -
  from assms obtain b bs where bs: "map fst bs = ps" "blocks_of Native t = (q, b) # bs @ blocks_of Native t0"
    "po_live (tk_native t) = tb_usable b + sum_list (map (tb_usable \<circ> snd) bs) + po_live (tk_native t0)"
    "po_requested (tk_native t) = tb_requested b + sum_list (map (tb_requested \<circ> snd) bs) + po_requested (tk_native t0)"
    and acc: "accounted t"
    by (auto simp: borrowed_def Cons_eq_map_conv)
  have d: "distinct (map fst (tk_blocks t))" using acc by (simp add: accounted_def)
  have "(q, b) \<in> set (blocks_of Native t)" using bs(2) by simp
  then have "(q, b) \<in> set (tk_blocks t)" "tb_owner b = Native" by (auto simp: blocks_of_def)
  with d have b: "map_of (tk_blocks t) q = Some b" "tb_owner b = Native" by (simp_all only: map_of_is_SomeI)
  then obtain t' where t': "tracked_free Native (Some q) t = Some t'" by (simp add: tracked_free_def Let_def)
  note acc' = free_accounted [OF acc t' b]
  from tracked_free_gave [OF t'] b(1) have f: "tk_blocks t' = filter (\<lambda>(r, _). r \<noteq> q) (tk_blocks t)"
    "po_live (tk_native t') = po_live (tk_native t) - tb_usable b" "po_requested (tk_native t') = po_requested (tk_native t) - tb_requested b"
    by (metis option.inject owned_native)+
  have "blocks_of Native t' = filter (\<lambda>(r, _). r \<noteq> q) (blocks_of Native t)"
    by (simp add: blocks_of_def f(1) conj_commute case_prod_beta)
  also have "\<dots> = bs @ blocks_of Native t0"
  proof -
    have "distinct (map fst (blocks_of Native t))" using d by (simp add: blocks_of_def distinct_map_filter)
    moreover have "filter (\<lambda>(r, _). r \<noteq> q) xs = xs" if "q \<notin> fst ` set xs" for xs :: "(nat \<times> tracked) list"
      by (rule filter_True) (use that in force)
    ultimately show ?thesis using bs(2) by auto
  qed
  finally have "borrowed t0 ps t'" using bs f acc' by (auto simp: borrowed_def)
  with t' show ?thesis by blast
qed

lemma borrowed_settings:
  "borrowed t0 ps t \<Longrightarrow> borrowed t0 ps (t\<lparr>tk_in_decode := d, tk_engine := (tk_engine t)\<lparr>po_fail_at := x\<rparr>, tk_native := (tk_native t)\<lparr>po_fail_at := y\<rparr>\<rparr>)"
  by (auto simp: borrowed_def accounted_def accounted_for_def blocks_of_def owned_by_def)

text \<open>The native blocks of the decoder.\<close>

definition scratch_of :: "'e fixture \<Rightarrow> nat list" where
  "scratch_of w = (case de_whole_input (fx_decoder w) of None \<Rightarrow> [] | Some (p, _) \<Rightarrow> [p]) @
     (case de_workspace (fx_decoder w) of None \<Rightarrow> [] | Some (p, _) \<Rightarrow> [p])"

abbreviation window_of :: "'e fixture \<Rightarrow> nat" where
  "window_of w \<equiv> de_window_size (fx_decoder w)"

abbreviation sizes_of :: "'e fixture \<Rightarrow> nat \<times> nat" where
  "sizes_of w \<equiv> (window_of w, de_size (fx_decoder w))"

lemma window_quiet: "quiet c w w' \<Longrightarrow> sizes_of w' = sizes_of w"
  by (simp add: quiet_def settings_def)

lemma window_same [simp]: "window_of (disarm w) = window_of w" "window_of (set_failure why w) = window_of w"
  "de_size (fx_decoder (disarm w)) = de_size (fx_decoder w)" "de_size (fx_decoder (set_failure why w)) = de_size (fx_decoder w)"
  by (simp_all add: disarm_def set_tracker_def set_failure_def set_decoder_def)

definition owing :: "tracker \<Rightarrow> 'e fixture \<Rightarrow> bool" where
  "owing t0 w \<longleftrightarrow> borrowed t0 (scratch_of w) (fx_tracker w) \<and> intact w"

lemma scratch_settings: "settings w' = settings w \<Longrightarrow> scratch_of w' = scratch_of w"
  by (cases "de_workspace (fx_decoder w)"; cases "de_workspace (fx_decoder w')") (auto simp: settings_def scratch_of_def)

lemma owing_quiet: "quiet c w w' \<Longrightarrow> owing t0 w \<Longrightarrow> owing t0 w'"
  unfolding quiet_def owing_def by (metis borrowed_reach scratch_settings)

lemma owing_failure [simp]: "owing t0 (set_failure why w) = owing t0 w"
  by (simp add: owing_def scratch_of_def set_failure_def set_decoder_def intact_def)

definition released :: "tracker \<Rightarrow> 'e fixture \<Rightarrow> bool" where
  "released t0 w \<longleftrightarrow> borrowed t0 [] (fx_tracker w) \<and> \<not> fx_fault w \<and> de_whole_input (fx_decoder w) = None \<and> de_workspace (fx_decoder w) = None"

lemma free_scratch_released:
  assumes "owing t0 w"
  shows "\<exists>w'. free_scratch w = Some w' \<and> released t0 w' \<and> sizes_of w' = sizes_of w"
proof -
  have one: "\<exists>t'. tracked_free Native (map_option fst p) t = Some t' \<and> borrowed t0 ps t'"
    if "borrowed t0 ((case p of None \<Rightarrow> [] | Some (q, _) \<Rightarrow> [q]) @ ps) t" for p :: "(nat \<times> byte list) option" and ps t
    using that borrowed_free by (cases p) (auto simp: tracked_free_def [of _ None])
  from assms one [of "de_whole_input (fx_decoder w)"] obtain t1 where t1:
    "tracked_free Native (map_option fst (de_whole_input (fx_decoder w))) (fx_tracker w) = Some t1"
    "borrowed t0 ((case de_workspace (fx_decoder w) of None \<Rightarrow> [] | Some (p, _) \<Rightarrow> [p]) @ []) t1"
    by (fastforce simp: owing_def scratch_of_def)
  from one [OF t1(2)] t1(1) show ?thesis
    using assms by (auto simp: free_scratch_def native_free_def set_decoder_def Let_def released_def owing_def intact_def)
qed

lemma released_quiet: "quiet c w w' \<Longrightarrow> released t0 w \<Longrightarrow> released t0 w'"
  using borrowed_reach by (auto simp: quiet_def released_def settings_def intact_def)

text \<open>How a lookup leaves the fixture.\<close>

definition idle :: "tracker \<Rightarrow> 'e fixture \<Rightarrow> bool" where
  "idle t0 w \<longleftrightarrow> released t0 w \<and> \<not> tk_in_decode (fx_tracker w) \<and> po_fail_at (tk_engine (fx_tracker w)) = 0 \<and> po_fail_at (tk_native (fx_tracker w)) = 0"

lemma disarm_idle: "released t0 w \<Longrightarrow> idle t0 (disarm w)"
  using borrowed_settings [of t0 "[]" "fx_tracker w", where d = False and x = 0 and y = 0]
  by (simp add: idle_def released_def disarm_def set_tracker_def)

lemma borrowed_same:
  assumes "borrowed t0 ps t" and "tk_blocks t' = tk_blocks t" and "tk_calls t' = tk_calls t"
    and "\<And>who. po_live (owned_by who t') = po_live (owned_by who t)" "\<And>who. po_requested (owned_by who t') = po_requested (owned_by who t)"
  shows "borrowed t0 ps t'"
proof (rule borrowed_books [OF assms(1)])
  have blocks: "blocks_of who t' = blocks_of who t" for who using assms(2) by (rule blocks_of_same)
  then show "books Native t' = books Native t" by (simp only: books_def assms(4,5))
  have "accounted t' = accounted t" unfolding accounted_def accounted_for_def owned_native by (simp only: assms(2-5) blocks)
  with assms(1) show "accounted t'" by (simp add: borrowed_def)
qed

lemma lookup_start_facts:
  assumes "borrowed t0 [] (fx_tracker w)"
  shows "borrowed t0 [] (fx_tracker (lookup_start w))" "settings (lookup_start w) = settings w"
    "sizes_of (lookup_start w) = sizes_of w" "fx_fault (lookup_start w) = fx_fault w"
proof -
  have "po_live (owned_by who (fx_tracker (lookup_start w))) = po_live (owned_by who (fx_tracker w))"
    "po_requested (owned_by who (fx_tracker (lookup_start w))) = po_requested (owned_by who (fx_tracker w))" for who
    by (cases who; simp add: lookup_start_def arm_def set_tracker_def set_decoder_def Let_def allocation_sample_def owned_by_def)+
  moreover have "tk_blocks (fx_tracker (lookup_start w)) = tk_blocks (fx_tracker w)" "tk_calls (fx_tracker (lookup_start w)) = tk_calls (fx_tracker w)"
    by (simp_all add: lookup_start_def arm_def set_tracker_def set_decoder_def Let_def)
  ultimately show "borrowed t0 [] (fx_tracker (lookup_start w))" by (intro borrowed_same [OF assms])
  show "settings (lookup_start w) = settings w" "sizes_of (lookup_start w) = sizes_of w"
    "fx_fault (lookup_start w) = fx_fault w"
    by (simp_all add: lookup_start_def arm_def set_tracker_def set_decoder_def Let_def settings_def)
qed

lemma native_malloc_facts:
  assumes "borrowed t0 ps (fx_tracker w)" and "native_malloc c n w = (r, w')"
  shows "(\<exists>t. w' = w\<lparr>fx_tracker := t\<rparr>) \<and> (case r of None \<Rightarrow> borrowed t0 ps (fx_tracker w')
    | Some (q, bs) \<Rightarrow> borrowed t0 (q # ps) (fx_tracker w') \<and> length bs = unat (of_nat n :: u64))"
proof -
  obtain a t where a: "tracked_malloc c Native (of_nat n) (fx_tracker w) = (a, t)" by fastforce
  from borrowed_malloc [OF assms(1) a] a assms(2) show ?thesis by (cases a) (auto simp: native_malloc_def)
qed

context fixture_runtime begin

lemma lookup_fail_idle:
  assumes "owing t0 w"
  shows "\<exists>w'. lookup_fail rt v w = Some (None, w') \<and> idle t0 w' \<and> sizes_of w' = sizes_of w"
proof -
  let ?w = "case v of None \<Rightarrow> w | Some v \<Rightarrow> js_free_value rt v w"
  have "owing t0 ?w" "sizes_of ?w = sizes_of w"
    using assms owing_quiet [OF runtime_quiet(2)] window_quiet [OF runtime_quiet(2)] by (cases v; simp)+
  with free_scratch_released [of t0 ?w] disarm_idle show ?thesis by (auto simp: lookup_fail_def)
qed

text \<open>Staging leaves the blocks that it owes, and works on with a workspace.\<close>

lemma stage_input_owing:
  assumes "owing t0 w" and "working w" and "de_whole_input (fx_decoder w) = None" and "de_size (fx_decoder w) < 2 ^ 64"
  shows "\<exists>good w'. stage_input c w = Some (good, w') \<and> owing t0 w' \<and> working w' \<and> sizes_of w' = sizes_of w"
proof (cases "de_staged (fx_decoder w) = 1")
  case False
  with assms show ?thesis by (auto simp: stage_input_def)
next
  case True
  obtain r w1 where m: "native_malloc c (de_size (fx_decoder w)) w = (r, w1)" by fastforce
  note facts = native_malloc_facts [OF conjunct1 [OF assms(1) [unfolded owing_def]] m]
  have scratch: "scratch_of w1 = scratch_of w" "fx_decoder w1 = fx_decoder w" using facts by (auto simp: scratch_of_def)
  show ?thesis
  proof (cases r)
    case None
    with True m facts scratch assms(1,2) show ?thesis
      by (auto simp: stage_input_def owing_def working_def set_failure_def set_decoder_def scratch_of_def intact_def)
  next
    case (Some pb)
    then obtain p bs where p: "r = Some (p, bs)" by (cases pb) auto
    with facts have b: "borrowed t0 (p # scratch_of w) (fx_tracker w1)" by simp
    from facts p assms(4) have room: "\<not> length bs < de_size (fx_decoder w1)" by (simp add: unat_of_nat scratch(2))
    have "intact w1" using assms(1) facts p by (auto simp: owing_def intact_def)
    obtain q w2 where q: "source_read 0 (de_size (fx_decoder w1)) w1 = (q, w2)" by fastforce
    from source_read_frame [OF q] have same: "fx_tracker w2 = fx_tracker w1" "de_workspace (fx_decoder w2) = de_workspace (fx_decoder w)"
      "de_whole_input (fx_decoder w2) = None" "sizes_of w2 = sizes_of w" "de_size (fx_decoder w2) = de_size (fx_decoder w1)" "intact w2"
      using scratch assms(3) \<open>intact w1\<close> by (auto simp: read_frame_def set_decoder_def intact_def)
    then have work: "working w2" "scratch_of w2 = scratch_of w" using assms(2,3) by (simp_all add: working_def scratch_of_def)
    show ?thesis
    proof (cases q)
      case None
      from borrowed_free [OF b] same obtain t3 where "tracked_free Native (Some p) (fx_tracker w2) = Some t3" "borrowed t0 (scratch_of w) t3" by auto
      with True m p q None work same room show ?thesis
        by (auto simp: stage_input_def native_free_def owing_def working_def scratch_of_def intact_def)
    next
      case read: (Some cs)
      with b same work source_read_length [OF q [unfolded read]] have "owing t0 (set_decoder (\<lambda>d. d\<lparr>de_whole_input := Some (p, cs)\<rparr>) w2)"
        by (simp add: owing_def scratch_of_def set_decoder_def intact_def)
      with True m p q read work same(4) room show ?thesis by (auto simp: stage_input_def working_def set_decoder_def)
    qed
  qed
qed

lemma lookup_body_idle:
  assumes "accounted (fx_tracker w)" and "de_workspace (fx_decoder w) = None" and "de_whole_input (fx_decoder w) = None"
    and "0 < de_window_size (fx_decoder w)" and "de_window_size (fx_decoder w) < 2 ^ 64" and "de_size (fx_decoder w) < 2 ^ 64" and "\<not> fx_fault w"
  shows "\<exists>v w'. lookup_body c rt w = Some (v, w') \<and> idle (fx_tracker w) w' \<and> sizes_of w' = sizes_of w"
proof -
  let ?t0 = "fx_tracker w" let ?s = "lookup_start w"
  have "borrowed ?t0 [] (fx_tracker w)" using assms(1) by (simp add: borrowed_Nil)
  note start = lookup_start_facts [OF this]
  have none: "de_whole_input (fx_decoder ?s) = None" "de_workspace (fx_decoder ?s) = None" using start(2) assms(2,3) by (simp_all add: settings_def)
  obtain r w1 where m: "native_malloc c (de_window_size (fx_decoder w)) ?s = (r, w1)" by fastforce
  note facts = native_malloc_facts [OF start(1) m]
  let ?w = "set_decoder (\<lambda>d. d\<lparr>de_workspace := r\<rparr>) w1"
  have fx: "fx_decoder w1 = fx_decoder ?s" using facts by auto
  have window: "sizes_of ?w = sizes_of w" using fx start(3) by (simp add: set_decoder_def)
  have owing: "owing ?t0 ?w" using facts none fx start(4) assms(7) by (cases r) (auto simp: owing_def scratch_of_def set_decoder_def intact_def)
  show ?thesis
  proof (cases r)
    case None
    have "owing ?t0 (set_failure ''native_exhaustion'' ?w)" using owing by simp
    from lookup_fail_idle [OF this, of None] None m start(3) window show ?thesis by (auto simp: lookup_body_def)
  next
    case (Some pb)
    have "unat (of_nat (de_window_size (fx_decoder w)) :: u64) = de_window_size (fx_decoder w)" using assms(5) by (simp add: unat_of_nat)
    with facts Some assms(4) have work: "working ?w" by (cases pb) (auto simp: working_def set_decoder_def)
    have "de_whole_input (fx_decoder ?w) = None" using none fx by (simp add: set_decoder_def)
    moreover have "de_size (fx_decoder ?w) < 2 ^ 64" using fx start(2) assms(6) by (simp add: set_decoder_def settings_def)
    ultimately obtain good w2 where st: "stage_input c ?w = Some (good, w2)" "owing ?t0 w2" "working w2"
      "sizes_of w2 = sizes_of w" using stage_input_owing [OF owing work] unfolding window by blast
    show ?thesis
    proof (cases good)
      case False
      with lookup_fail_idle [OF st(2), of None] m start(3) Some st(1,4) show ?thesis by (auto simp: lookup_body_def)
    next
      case True
      from settlesD [OF decode_value_settles st(3)] obtain v w3 where v: "decode_value rt 65 w2 = Some (v, w3)" "quiet c w2 w3" by blast
      note owing3 = owing_quiet [OF v(2) st(2)]
      have window3: "sizes_of w3 = sizes_of w" using window_quiet [OF v(2)] st(4) by simp
      have run: "lookup_body c rt w = (case v of
          None \<Rightarrow> lookup_fail rt None w3
        | Some v \<Rightarrow>
            if de_position (fx_decoder w3) \<noteq> de_size (fx_decoder w3) then lookup_fail rt (Some v) (set_failure ''trailing_bytes'' w3)
            else do {
              w \<leftarrow> free_scratch w3;
              let (promise, w) = js_settled_promise rt v w;
              let w = js_free_value rt v w;
              let w = (if promise = None then set_failure ''engine_exhaustion'' w else w);
              Some (promise, disarm w) })"
        using m start(3) Some st(1) True v(1) by (simp add: lookup_body_def split: option.splits)
      show ?thesis
      proof (cases "v = None \<or> de_position (fx_decoder w3) \<noteq> de_size (fx_decoder w3)")
        case True
        have "owing ?t0 (set_failure ''trailing_bytes'' w3)" using owing3 by simp
        with True run window3 lookup_fail_idle [OF owing3, of None] lookup_fail_idle [OF this, of v] show ?thesis by (cases v) auto
      next
        case False
        then obtain u where u: "v = Some u" by auto
        from free_scratch_released [OF owing3] obtain w4 where w4: "free_scratch w3 = Some w4" "released ?t0 w4"
          "sizes_of w4 = sizes_of w" unfolding window3 [symmetric] by blast
        obtain promise w5 where p: "js_settled_promise rt u w4 = (promise, w5)" by fastforce
        let ?w6 = "js_free_value rt u w5"
        have "quiet c w4 ?w6" using runtime_quiet(12) [OF p] runtime_quiet(2) quiet_trans by blast
        then have "quiet c w4 (if promise = None then set_failure ''engine_exhaustion'' ?w6 else ?w6)" by simp
        from disarm_idle [OF released_quiet [OF this w4(2)]] window_quiet [OF this] run False u w4(1,3) p show ?thesis by (simp add: Let_def)
      qed
    qed
  qed
qed

lemma lookup_idle:
  assumes "accounted (fx_tracker w)" and "de_workspace (fx_decoder w) = None" and "de_whole_input (fx_decoder w) = None"
    and "0 < de_window_size (fx_decoder w)" and "de_window_size (fx_decoder w) < 2 ^ 64" and "de_size (fx_decoder w) < 2 ^ 64"
  shows "\<exists>v w'. lookup c rt w = Some (v, w') \<and> idle (fx_tracker w) w' \<and> sizes_of w' = sizes_of w"
  using lookup_body_idle [of "w\<lparr>fx_fault := False\<rparr>"] assms by (auto simp: lookup_def idle_def released_def)

end

end
