(* ===== verification/Plain_Fixture.thy ===== *)
theory Plain_Fixture
  imports Fixture_Decoder_Laws
begin

text \<open>
  An engine for the decoder fixture whose values are data and whose every new value takes memory
  from the tracker.  It shows that the laws asked of an engine can hold while allocations fail, and
  is where the interface of the decoder is interpreted; then the properties of a whole lookup.
\<close>

section \<open>The engine\<close>

text \<open>A value that costs so much of the memory of the engine.\<close>

definition spend :: "c_library \<Rightarrow> u64 \<Rightarrow> 'a \<Rightarrow> 'e fixture \<Rightarrow> 'a option \<times> 'e fixture" where
  "spend c sz v w = (case engine_malloc c sz (fx_tracker w) of
     (p, t) \<Rightarrow> (map_option (\<lambda>_. v) p, w\<lparr>fx_tracker := t\<rparr>))"

definition pay :: "c_library \<Rightarrow> u64 \<Rightarrow> 'a option \<Rightarrow> 'e fixture \<Rightarrow> 'a option \<times> 'e fixture" where
  "pay c sz v w = (case v of None \<Rightarrow> (None, w) | Some v \<Rightarrow> spend c sz v w)"

definition plain_runtime :: "c_library \<Rightarrow> nat \<Rightarrow> (tree, 'e fixture) js_runtime" where
  "plain_runtime c limit = \<lparr>
     js_string_len_max = limit,
     js_alloc_string = (\<lambda>units wide. spend c (of_nat units) (if wide then Wide (replicate units 0) else Narrow (replicate (units + 1) 0))),
     js_mk_string = (\<lambda>st. TString (text_in st)),
     js_free_value = (\<lambda>v w. w),
     js_new_string_len = (\<lambda>bs. pay c (of_nat (length bs)) (map_option TString (decode_utf8 bs))),
     js_new_array = spend c 64 (TArray []),
     js_define_index = (\<lambda>a i v. pay c 16 (case a of TArray vs \<Rightarrow> Some (TArray (vs @ [v])) | _ \<Rightarrow> None)),
     js_call_join = (\<lambda>j a sep. pay c 32 (case a of
        TArray vs \<Rightarrow> Some (TString (concat (map (\<lambda>v. case v of TString cs \<Rightarrow> cs | _ \<Rightarrow> []) vs))) | _ \<Rightarrow> None)),
     js_null = TNull,
     js_bool = TBool,
     js_float = TNumber,
     js_new_object = spend c 64 (TObject []),
     js_to_atom = (\<lambda>v. spend c 16 v),
     js_free_atom = (\<lambda>a w. w),
     js_own_property = (\<lambda>made a w. (case (made, a) of
        (TObject kvs, TString k) \<Rightarrow> (if k \<in> fst ` set kvs then 1 else 0) | _ \<Rightarrow> - 1, w)),
     js_define_property = (\<lambda>made a v. pay c 24 (case (made, a) of
        (TObject kvs, TString k) \<Rightarrow> Some (TObject (kvs @ [(k, v)])) | _ \<Rightarrow> None)),
     js_settled_promise = (\<lambda>v. spend c 64 v),
     js_join_intrinsic = TNull \<rparr>"

lemma engine_onlyI: "(\<And>w. \<exists>t. engine_reach c (fx_tracker w) t \<and> f w = w\<lparr>fx_tracker := t\<rparr>) \<Longrightarrow> engine_only c f"
  unfolding engine_only_def
proof
  fix w
  assume "\<And>w. \<exists>t. engine_reach c (fx_tracker w) t \<and> f w = w\<lparr>fx_tracker := t\<rparr>"
  then obtain t where "engine_reach c (fx_tracker w) t" "f w = w\<lparr>fx_tracker := t\<rparr>" by blast
  then show "\<exists>t js. engine_reach c (fx_tracker w) t \<and> f w = w\<lparr>fx_tracker := t, fx_js := js\<rparr>"
    by (intro exI [of _ t] exI [of _ "fx_js w"]) simp
qed

lemma engine_only_same: "engine_only c (\<lambda>w. w)"
proof (rule engine_onlyI)
  show "\<exists>t. engine_reach c (fx_tracker w) t \<and> w = w\<lparr>fx_tracker := t\<rparr>" for w :: "'a fixture"
    by (rule exI [of _ "fx_tracker w"]) (simp add: engine_reach.stay)
qed

lemma engine_only_spend: "engine_only c (\<lambda>w. snd (spend c sz v w))"
proof (rule engine_onlyI)
  have "engine_reach c t (snd (engine_malloc c sz t))" for t
    by (rule engine_reach.call [OF engine_reach.stay, where k = "Malloc sz"]) (simp_all add: engine_may_def engine_step_def)
  then show "\<exists>t. engine_reach c (fx_tracker w) t \<and> snd (spend c sz v w) = w\<lparr>fx_tracker := t\<rparr>" for w :: "'a fixture"
    by (intro exI [of _ "snd (engine_malloc c sz (fx_tracker w))"]) (simp add: spend_def case_prod_beta)
qed

lemma engine_only_pay: "engine_only c (\<lambda>w. snd (pay c sz v w))"
  using engine_only_same engine_only_spend by (cases v) (simp_all add: pay_def)

lemma plain_lawful: "lawful_runtime c (plain_runtime c limit)"
proof -
  have "fits units wide st" if "spend c sz (if wide then Wide (replicate units 0) else Narrow (replicate (units + 1) 0)) s = (Some st, s')"
    for units wide sz st and s s' :: "'a fixture"
    using that by (auto simp: spend_def fits_def split: prod.splits)
  then show ?thesis
    by (simp add: lawful_runtime_def plain_runtime_def engine_only_same engine_only_spend engine_only_pay)
qed

interpretation plain_decoder: fixture_runtime c "plain_runtime c limit" for c limit
  by unfold_locales (rule plain_lawful)

section \<open>A whole lookup\<close>

text \<open>
  C12. Whatever the file, the failures that are injected and the engine, as long as it allocates only
  through the functions it was given, a lookup comes to its end without an access out of bounds; it
  leaves the native memory as it found it, keeps no pointer into it, and the accounts still agree
  with the blocks that are allocated and no failure is armed any more.
\<close>

theorem lookup_releases:
  assumes "lawful_runtime c rt" and "accounted (fx_tracker w)"
    and "de_workspace (fx_decoder w) = None" and "de_whole_input (fx_decoder w) = None"
    and "0 < de_window_size (fx_decoder w)" and "de_window_size (fx_decoder w) < 2 ^ 64" and "de_size (fx_decoder w) < 2 ^ 64"
  shows "\<exists>v w'. lookup c rt w = Some (v, w') \<and> accounted (fx_tracker w') \<and>
    books Native (fx_tracker w') = books Native (fx_tracker w) \<and>
    de_workspace (fx_decoder w') = None \<and> de_whole_input (fx_decoder w') = None \<and> \<not> tk_in_decode (fx_tracker w') \<and>
    po_fail_at (tk_engine (fx_tracker w')) = 0 \<and> po_fail_at (tk_native (fx_tracker w')) = 0"
proof -
  have "fixture_runtime c rt" using assms(1) by unfold_locales
  from fixture_runtime.lookup_idle [OF this assms(2-7)] show ?thesis
    by (auto simp: idle_def released_def borrowed_Nil)
qed

definition ample :: c_library where
  "ample = \<lparr>lib_header = 32, lib_malloc = (\<lambda>n sz. Some (sz + 8, []))\<rparr>"

definition new_tracker :: tracker where
  "new_tracker = \<lparr>tk_engine = no_population, tk_native = no_population, tk_overlap_peak = 0, tk_decode_peak = 0,
     tk_decode_native_peak = 0, tk_decode_engine_peak = 0, tk_in_decode = False, tk_blocks = [], tk_calls = 0\<rparr>"

text \<open>A file that is read straight or staged, and the failure of one allocation of the engine or none.\<close>

definition new_fixture :: "int \<Rightarrow> byte list \<Rightarrow> u64 \<Rightarrow> unit fixture" where
  "new_fixture staged src at = \<lparr>
     fx_decoder = \<lparr>de_staged = staged, de_mutate = 0, de_size = length src, de_position = 0, de_bytes_read = 0, de_calls = 0,
       de_read_calls = 0, de_fail_read_at = 0, de_workspace = None, de_whole_input = None, de_window_size = 3, de_failure = []\<rparr>,
     fx_tracker = new_tracker, fx_js = (), fx_file = src, fx_reads = [Read_interrupted, Read_some 1], fx_starts = 0, fx_armed = 0,
     fx_engine_failure = at, fx_native_failure = 0, fx_decode_attempts = 0, fx_fault = False\<rparr>"

definition sample_file :: "byte list" where
  "sample_file = [5, 2, 0, 0, 0, 2, 4, 2, 0, 0, 0, 0, 0, 0, 0, 0xc3, 0xa9]"

lemma lookup_releases_witness:
  "\<exists>v w'. lookup ample (plain_runtime ample 100) (new_fixture 1 sample_file 3) = Some (v, w') \<and>
    books Native (fx_tracker w') = (0, 0, []) \<and> v = None \<and> de_failure (fx_decoder w') = ''engine_exhaustion''"
proof -
  let ?w = "new_fixture 1 sample_file 3"
  have "accounted (fx_tracker ?w)"
    by (simp add: new_fixture_def new_tracker_def accounted_def accounted_for_def blocks_of_def owned_by_def no_population_def)
  from lookup_releases [OF plain_lawful this, of ample 100] have "\<exists>v w'. lookup ample (plain_runtime ample 100) ?w = Some (v, w') \<and>
      books Native (fx_tracker w') = books Native (fx_tracker ?w)" by (auto simp: new_fixture_def sample_file_def)
  moreover have "map_option (\<lambda>(v, w'). (v, de_failure (fx_decoder w'))) (lookup ample (plain_runtime ample 100) ?w) = Some (None, ''engine_exhaustion'')"
    by code_simp
  moreover have "books Native (fx_tracker ?w) = (0, 0, [])"
    by (simp add: new_fixture_def new_tracker_def books_def blocks_of_def owned_by_def no_population_def)
  ultimately show ?thesis by auto
qed

text \<open>
  C16. The allocations of the engine, in any order and with any failures, as long as it frees and
  reallocates only blocks of its own: they never fault, the accounts of both populations stay exact,
  and nothing native changes.
\<close>

theorem engine_calls_accounted:
  assumes "accounted t" and "engine_reach c t u" and "engine_may k u"
  shows "accounted u \<and> native_kept t u \<and> (\<exists>v. engine_step c k u = Some v)"
proof -
  from engine_reach_kept [OF assms(2,1)] have u: "accounted u" "native_kept t u" by simp_all
  with engine_step_kept [OF u(1) assms(3), of c] show ?thesis by blast
qed

lemma engine_calls_accounted_witness:
  "\<exists>u v. engine_step ample (Malloc 16) new_tracker = Some u \<and> accounted u \<and> engine_step ample (Realloc (Some 0) 64) u = Some v \<and>
    po_requested (tk_engine v) = 64"
proof -
  define u where "u = snd (engine_malloc ample 16 new_tracker)"
  have start: "accounted new_tracker"
    by (simp add: new_tracker_def accounted_def accounted_for_def blocks_of_def owned_by_def no_population_def)
  have one: "engine_step ample (Malloc 16) new_tracker = Some u" by (simp add: engine_step_def u_def)
  then have reach: "engine_reach ample new_tracker u"
    by (intro engine_reach.call [OF engine_reach.stay, where k = "Malloc 16"]) (simp_all add: engine_may_def)
  have may: "engine_may (Realloc (Some 0) 64) u"
  proof -
    have "map_option tb_owner (map_of (tk_blocks u) 0) = Some Engine" unfolding u_def by code_simp
    then show ?thesis by (auto simp: engine_may_def engine_owns_def)
  qed
  from engine_calls_accounted [OF start reach may] have "accounted u" "\<exists>v. engine_step ample (Realloc (Some 0) 64) u = Some v" by simp_all
  moreover have "map_option (\<lambda>v. po_requested (tk_engine v)) (engine_step ample (Realloc (Some 0) 64) u) = Some 64"
    unfolding u_def by code_simp
  ultimately show ?thesis using one by auto
qed

end
