(* ===== verification/Fixture_Format.thy ===== *)
theory Fixture_Format
  imports Plain_Fixture
begin

text \<open>
  The format of the fixture as an encoding of trees, and the law of the decoder: a value that a
  lookup hands over is the one the whole file encodes.
\<close>

section \<open>The encoding\<close>

definition le_bytes :: "nat \<Rightarrow> u64 \<Rightarrow> byte list" where
  "le_bytes n v = map (\<lambda>i. ucast (drop_bit (8 * i) v)) [0..<n]"

definition encode_text :: "u32 list \<Rightarrow> byte list" where
  "encode_text cs = le_bytes 8 (of_nat (length (utf8 cs))) @ utf8 cs"

fun encode :: "tree \<Rightarrow> byte list" where
  "encode TNull = [0]"
| "encode (TBool b) = [if b then 2 else 1]"
| "encode (TNumber bits) = 3 # le_bytes 8 bits"
| "encode (TString cs) = 4 # encode_text cs"
| "encode (TArray ts) = 5 # le_bytes 4 (of_nat (length ts)) @ concat (map encode ts)"
| "encode (TObject kvs) = 6 # le_bytes 4 (of_nat (length kvs)) @ concat (map (\<lambda>(k, t). encode_text k @ encode t) kvs)"

text \<open>A number, by its bits, is finite if not all of the eleven bits of its exponent are set.\<close>

definition finite_number :: "u64 \<Rightarrow> bool" where
  "finite_number bits \<longleftrightarrow> unat bits div 2 ^ 52 mod 2 ^ 11 \<noteq> 2047"

text \<open>Trees of so many levels that the format allows: finite numbers, texts, distinct keys.\<close>

fun valid_tree :: "nat \<Rightarrow> tree \<Rightarrow> bool" where
  "valid_tree 0 t = False"
| "valid_tree (Suc n) t = (case t of
       TNumber bits \<Rightarrow> finite_number bits
     | TString cs \<Rightarrow> \<forall>c \<in> set cs. is_scalar c
     | TArray ts \<Rightarrow> length ts < 2 ^ 32 \<and> (\<forall>t \<in> set ts. valid_tree n t)
     | TObject kvs \<Rightarrow> length kvs < 2 ^ 32 \<and> distinct (map fst kvs) \<and>
         (\<forall>(k, t) \<in> set kvs. (\<forall>c \<in> set k. is_scalar c) \<and> valid_tree n t)
     | _ \<Rightarrow> True)"

text \<open>The value keeps no negative zero, which has the sign bit alone.\<close>

fun normal :: "tree \<Rightarrow> tree" where
  "normal (TNumber bits) = TNumber (if bits = 0x8000000000000000 then 0 else bits)"
| "normal (TArray ts) = TArray (map normal ts)"
| "normal (TObject kvs) = TObject (map (\<lambda>(k, t). (k, normal t)) kvs)"
| "normal t = t"

lemma finite_double_number: "finite_double bits = finite_number bits"
proof -
  have "unat (drop_bit 52 bits AND mask 11) = unat bits div 2 ^ 52 mod 2 ^ 11"
    unfolding take_bit_eq_mask [symmetric] unsigned_take_bit_eq unat_drop_bit_eq by (simp only: take_bit_eq_mod drop_bit_eq_div)
  moreover have "mask 11 = (0x7ff :: u64)" by (simp add: mask_eq_exp_minus_1)
  ultimately have "unat (drop_bit 52 bits AND 0x7ff) = unat bits div 2 ^ 52 mod 2 ^ 11" by simp
  moreover have "drop_bit 52 bits AND 0x7ff = 0x7ff \<longleftrightarrow> unat (drop_bit 52 bits AND 0x7ff) = 2047"
    by (simp add: word_unat_eq_iff)
  ultimately show ?thesis by (simp only: finite_double_def finite_number_def)
qed

lemma positive_zero_number: "positive_zero bits = (if bits = 0x8000000000000000 then 0 else bits)"
proof -
  have "unat (bits AND mask 63) = unat bits mod 2 ^ 63"
    unfolding take_bit_eq_mask [symmetric] unsigned_take_bit_eq by (simp only: take_bit_eq_mod)
  moreover have "mask 63 = (0x7fffffffffffffff :: u64)" by (simp add: mask_eq_exp_minus_1)
  ultimately have "bits AND 0x7fffffffffffffff = 0 \<longleftrightarrow> unat bits mod 2 ^ 63 = 0" by (simp add: word_unat_eq_iff)
  moreover have "unat bits < 2 ^ 64" using unsigned_less [of bits] by simp
  then have "unat bits mod 2 ^ 63 = 0 \<longleftrightarrow> unat bits = 0 \<or> unat bits = 2 ^ 63" by (auto elim!: dvdE simp: mod_eq_0_iff_dvd)
  ultimately show ?thesis by (auto simp: positive_zero_def word_unat_eq_iff)
qed

lemma bit_little_from:
  "bit (little_from i bs) m \<longleftrightarrow> m < 64 \<and> 8 * i \<le> m \<and> (m - 8 * i) div 8 < length bs \<and> bit (bs ! ((m - 8 * i) div 8)) ((m - 8 * i) mod 8)"
proof (induction bs arbitrary: i m)
  case (Cons b bs)
  show ?case
  proof (cases "8 * i \<le> m \<and> m < 8 * i + 8")
    case True
    then have "m - 8 * i < 8" by linarith
    then have "(m - 8 * i) div 8 = 0" "(m - 8 * i) mod 8 = m - 8 * i" by simp_all
    with True show ?thesis by (auto simp: bit_or_iff bit_push_bit_iff bit_ucast_iff Cons.IH)
  next
    case False
    show ?thesis
    proof (cases "8 * i \<le> m")
      case ge: True
      with False have "8 * (i + 1) \<le> m" by auto
      then obtain d where d: "m = 8 * (i + 1) + d" by (metis le_Suc_ex)
      have "\<not> bit b (m - 8 * i)" using d by (simp add: impossible_bit)
      moreover have "(8 + d) div 8 = Suc (d div 8)" by (simp add: div_add_self1)
      ultimately show ?thesis using ge d by (auto simp: bit_or_iff bit_push_bit_iff bit_ucast_iff Cons.IH)
    next
      case lt: False
      then show ?thesis by (auto simp: bit_or_iff bit_push_bit_iff bit_ucast_iff Cons.IH)
    qed
  qed
qed simp

lemma le_little:
  assumes "length bs = n" and "n \<le> 8"
  shows "le_bytes n (little bs) = bs"
proof (rule nth_equalityI)
  show "length (le_bytes n (little bs)) = length bs" using assms by (simp add: le_bytes_def)
  fix i
  assume "i < length (le_bytes n (little bs))"
  then have i: "i < n" by (simp add: le_bytes_def)
  show "le_bytes n (little bs) ! i = bs ! i"
  proof (rule bit_eqI)
    fix k
    assume "possible_bit TYPE(8 word) k"
    then have k: "k < 8" by (simp add: possible_bit_word)
    have "8 * i + k < 64" using i k assms(2) by linarith
    with i k assms show "bit (le_bytes n (little bs) ! i) k = bit (bs ! i) k"
      by (simp add: le_bytes_def little_def bit_ucast_iff bit_drop_bit_eq bit_little_from)
  qed
qed

lemma unat_little4: "length bs = 4 \<Longrightarrow> unat (little bs) < 2 ^ 32"
proof -
  assume bs: "length bs = 4"
  have "take_bit 32 (little bs) = little bs"
  proof (rule bit_eqI)
    fix m
    have "bit (little bs) m \<Longrightarrow> m < 32" using bs by (auto simp: little_def bit_little_from less_mult_imp_div_less div_less_iff_less_mult)
    then show "bit (take_bit 32 (little bs)) m = bit (little bs) m" by (auto simp: bit_take_bit_iff)
  qed
  then have "unat (little bs) = unat (little bs) mod 2 ^ 32" by (metis take_bit_eq_mod unsigned_take_bit_eq)
  then show ?thesis using mod_less_divisor [of "2 ^ 32" "unat (little bs)"] by simp
qed

section \<open>Where the decoder stands\<close>

definition stands :: "byte list \<Rightarrow> nat \<Rightarrow> 'e fixture \<Rightarrow> bool" where
  "stands src k w \<longleftrightarrow> steady_input src w \<and> de_staged (fx_decoder w) \<noteq> 2 \<and> working w \<and> de_position (fx_decoder w) = k"

lemma stands_same: "fx_decoder w' = fx_decoder w \<Longrightarrow> fx_file w' = fx_file w \<Longrightarrow> stands src k w' = stands src k w"
  by (simp add: stands_def steady_input_def input_of_def working_def cong: option.case_cong)

lemma steady_engine: "engine_only c f \<Longrightarrow> steady_input src (f w) = steady_input src w"
  by (auto simp: engine_only_def steady_input_def input_of_def dest!: spec [of _ w] cong: option.case_cong)

lemma stands_engine: "engine_only c f \<Longrightarrow> stands src k (f w) = stands src k w"
proof (rule stands_same)
  assume "engine_only c f"
  then obtain t js where "f w = w\<lparr>fx_tracker := t, fx_js := js\<rparr>" unfolding engine_only_def by blast
  then show "fx_decoder (f w) = fx_decoder w" "fx_file (f w) = fx_file w" by simp_all
qed

lemma stands_frame: "read_frame w w' \<Longrightarrow> stands src k w' = stands src k w"
  using read_frame_steady [of w w' src] by (auto simp: stands_def read_frame_def set_decoder_def working_def)

lemma take_bytes_stands:
  assumes "stands src k w" and "take_bytes n w = (Some bs, w')"
  shows "stands src (k + n) w' \<and> length bs = n \<and> drop k src = bs @ drop (k + n) src"
proof -
  from assms(2) obtain w1 where r: "source_read (de_position (fx_decoder w)) n w = (Some bs, w1)"
    and w': "w' = set_decoder (\<lambda>d. d\<lparr>de_position := de_position d + n\<rparr>) w1"
    by (auto simp: take_bytes_def split: prod.splits option.splits)
  from stands_frame [OF source_read_frame [OF r]] assms(1) have "stands src k w1" by simp
  then have "stands src (k + n) w'"
    by (auto simp: w' stands_def steady_input_def input_of_def working_def set_decoder_def cong: option.case_cong)
  moreover from source_read_input [OF r] assms(1) have "k + n \<le> length src" "bs = take n (drop k src)"
    by (simp_all add: stands_def steady_input_def)
  ultimately show ?thesis using append_take_drop_id [of n "drop k src"] by (simp add: add.commute)
qed

lemma callback_keeps_stands: "callback.kept base (stands src k :: 'e fixture \<Rightarrow> bool)"
proof -
  have "stands src k (snd (string_read base s off n))" if "stands src k s" for s :: "'e fixture" and off n
  proof -
    obtain r s1 where r: "string_read base s off n = (r, s1)" by fastforce
    with stands_frame [OF string_read_frame [OF r]] that show ?thesis by simp
  qed
  then show ?thesis by (simp add: callback.kept_def)
qed

lemma little_bytes: "length bs = 8 \<Longrightarrow> le_bytes 8 (of_nat (unat (little bs))) = bs"
  "length bs = 4 \<Longrightarrow> le_bytes 4 (of_nat (unat (little bs))) = bs"
  by (simp_all add: le_little)

section \<open>An engine that keeps what it is given\<close>

text \<open>What a value is as a tree, and what the promise of a value resolves with.\<close>

locale recording_runtime = fixture_runtime c rt for c :: c_library and rt :: "('v, 'e fixture) js_runtime" +
  fixes den :: "'v \<Rightarrow> tree" and resolved :: "'v \<Rightarrow> tree"
  assumes den_scalars: "den (js_null rt) = TNull" "den (js_bool rt b) = TBool b" "den (js_float rt bits) = TNumber bits"
    and den_string: "\<forall>ch \<in> set cs. is_scalar ch \<Longrightarrow> den (js_mk_string rt (string_of cs)) = TString cs"
    and den_new_array: "js_new_array rt w = (Some v, w') \<Longrightarrow> den v = TArray []"
    and den_define_index: "js_define_index rt a (of_nat (length us)) v w = (Some a', w') \<Longrightarrow> den a = TArray us \<Longrightarrow>
      den a' = TArray (us @ [den v])"
    and den_new_object: "js_new_object rt w = (Some v, w') \<Longrightarrow> den v = TObject []"
    and den_to_atom: "js_to_atom rt v w = (Some a, w') \<Longrightarrow> den v = TString cs \<Longrightarrow> den a = TString cs"
    and den_own_property: "js_own_property rt made a w = (0, w') \<Longrightarrow> den made = TObject kvs \<Longrightarrow> den a = TString cs \<Longrightarrow>
      cs \<notin> fst ` set kvs"
    and den_define_property: "js_define_property rt made a v w = (Some made', w') \<Longrightarrow> den made = TObject kvs \<Longrightarrow>
      den a = TString cs \<Longrightarrow> cs \<notin> fst ` set kvs \<Longrightarrow> den made' = TObject (kvs @ [(cs, den v)])"
    and den_promise: "js_settled_promise rt v w = (Some p, w') \<Longrightarrow> resolved p = den v"
begin

lemma runtime_stands:
  "js_alloc_string rt units wide w = (r1, w1) \<Longrightarrow> stands src k w1 = stands src k w" "stands src k (js_free_value rt v w) = stands src k w"
  "js_new_array rt w = (r3, w3) \<Longrightarrow> stands src k w3 = stands src k w"
  "js_define_index rt a i v w = (r4, w4) \<Longrightarrow> stands src k w4 = stands src k w"
  "js_new_object rt w = (r6, w6) \<Longrightarrow> stands src k w6 = stands src k w" "js_to_atom rt v w = (r7, w7) \<Longrightarrow> stands src k w7 = stands src k w"
  "stands src k (js_free_atom rt a w) = stands src k w"
  "js_own_property rt made a w = (r8, w8) \<Longrightarrow> stands src k w8 = stands src k w"
  "js_define_property rt made a v w = (r9, w9) \<Longrightarrow> stands src k w9 = stands src k w"
  using lawful [unfolded lawful_runtime_def] stands_engine [of c "\<lambda>s. snd (js_alloc_string rt units wide s)" src k w]
    stands_engine [of c "\<lambda>s. snd (js_new_array rt s)" src k w] stands_engine [of c "\<lambda>s. snd (js_define_index rt a i v s)" src k w]
    stands_engine [of c "\<lambda>s. snd (js_new_object rt s)" src k w] stands_engine [of c "\<lambda>s. snd (js_to_atom rt v s)" src k w]
    stands_engine [of c "\<lambda>s. snd (js_own_property rt made a s)" src k w] stands_engine [of c "\<lambda>s. snd (js_define_property rt made a v s)" src k w]
    stands_engine [of c "js_free_value rt v" src k w] stands_engine [of c "js_free_atom rt a" src k w]
  by simp_all

lemma engine_keeps_stands: "engine_keeps (js_engine.truncate rt) (stands src k)"
proof -
  have "stands src k (snd (js_alloc_string rt units wide s)) = stands src k s" "stands src k (js_free_value rt v s) = stands src k s"
    "stands src k (snd (js_new_string_len rt bs s)) = stands src k s" "stands src k (snd (js_new_array rt s)) = stands src k s"
    "stands src k (snd (js_define_index rt a i v s)) = stands src k s" "stands src k (snd (js_call_join rt j a sep s)) = stands src k s"
    for s units wide v bs a i j sep
    using lawful [unfolded lawful_runtime_def] stands_engine [of c "\<lambda>s. snd (js_new_string_len rt bs s)" src k s]
      stands_engine [of c "\<lambda>s. snd (js_call_join rt j a sep s)" src k s] runtime_stands by (metis prod.collapse)+
  then show ?thesis by (simp add: engine_keeps_def)
qed

lemma string_reader: "steady_reader (string_read base) (js_engine.truncate rt) (take n (drop base src)) (steady_input src)"
  unfolding steady_reader_def steady_reader_axioms_def
proof (intro conjI allI impI)
  show "exact_reader (string_read base) (js_engine.truncate rt)" by (rule lawful_exact_reader [OF lawful])
  show "steady_source (string_read base) (take n (drop base src)) (steady_input src)" by (rule callback.steady_source_axioms)
  have "engine_only c (\<lambda>s. snd (js_alloc_string rt units wide s))" for units wide using lawful by (simp add: lawful_runtime_def)
  note same = steady_engine [OF this]
  fix s :: "'e fixture" and units wide
  assume "steady_input src s"
  with same show "steady_input src (snd (js_alloc_string (js_engine.truncate rt) units wide s))" by simp
qed

lemma decode_string_made:
  assumes "stands src k w" and "decode_string rt w = Some (Some v, w')"
  shows "\<exists>cs k'. stands src k' w' \<and> drop k src = encode_text cs @ drop k' src \<and> (\<forall>ch \<in> set cs. is_scalar ch) \<and> den v = TString cs"
proof -
  obtain h w1 where h: "take_bytes 8 w = (h, w1)" by fastforce
  with assms(2) obtain header where header: "h = Some header" by (cases h) (auto simp: decode_string_def)
  note t = take_bytes_stands [OF assms(1) h [unfolded header]]
  let ?n = "unat (little header)" let ?k = "k + 8" let ?w = "w1\<lparr>fx_starts := 0\<rparr>" let ?src = "take ?n (drop ?k src)"
  have d: "de_position (fx_decoder w1) = ?k" "de_size (fx_decoder w1) = length src" "de_staged (fx_decoder w1) \<noteq> 2"
    using t by (simp_all add: stands_def steady_input_def)
  obtain p ws where ws: "de_workspace (fx_decoder w1) = Some (p, ws)" "ws \<noteq> []" using t by (auto simp: stands_def working_def)
  have n: "?n \<le> length src - ?k" using assms(2) h header d by (auto simp: decode_string_def Let_def split: if_splits)
  then have len: "length ?src = ?n" by simp
  from assms(2) h header d n ws obtain x ws' w2 where
    r: "OP_NewStringUTF8Reader (js_engine.truncate rt) (length ?src) (string_read ?k) ws ?w = Some (Some v, x, ws', w2)"
    and w': "w' = status_failure x (set_decoder (\<lambda>d. d\<lparr>de_position := de_position d + ?n, de_workspace := Some (p, ws')\<rparr>) w2)"
    by (auto simp: decode_string_def Let_def)
  from exact_reader.reader_total [OF lawful_exact_reader [OF lawful] ws(2), of "length ?src" ?k ?w] obtain v1 x1 ws1 s1 where
    "OP_NewStringUTF8Reader (js_engine.truncate rt) (length ?src) (string_read ?k) ws ?w = Some (v1, x1, ws1, s1)"
    "length ws1 = length ws" "v1 = None \<longleftrightarrow> x1 \<noteq> OP_STRING_OK" by blast
  with r have x: "x = OP_STRING_OK" "length ws' = length ws" by auto
  have at: "stands src ?k ?w" using t stands_same [of ?w w1] by simp
  then have "steady_input src ?w" by (simp add: stands_def)
  from steady_reader.reader_exact [OF string_reader this r] x obtain cs where cs: "text_of ?src cs" "v = js_mk_string rt (string_of cs)"
    by auto
  have "stands src ?k w2" using callback.reader_kept [OF callback_keeps_stands engine_keeps_stands at r] .
  then have "stands src (?k + ?n) w'" using x ws(2)
    by (auto simp: w' status_failure_def stands_def steady_input_def input_of_def working_def set_decoder_def cong: option.case_cong)
  moreover have "drop k src = encode_text cs @ drop (?k + ?n) src"
  proof -
    have "encode_text cs = header @ ?src" using cs(1) len t little_bytes(1) [of header] by (simp add: text_of_def encode_text_def)
    moreover have "drop ?k src = ?src @ drop (?k + ?n) src" using append_take_drop_id [of ?n "drop ?k src"] by (simp add: add.commute)
    ultimately show ?thesis using t by simp
  qed
  ultimately show ?thesis using cs den_string [of cs] by (auto simp: text_of_def)
qed

lemma decode_key_made:
  assumes "stands src k w" and "decode_key rt made w = Some (Some a, w')" and "den made = TObject us"
  shows "\<exists>cs k'. stands src k' w' \<and> drop k src = encode_text cs @ drop k' src \<and> (\<forall>ch \<in> set cs. is_scalar ch) \<and>
    den a = TString cs \<and> cs \<notin> fst ` set us"
proof -
  from assms(2) obtain key w1 where s: "decode_string rt w = Some (Some key, w1)"
    by (auto simp: decode_key_def decode_fail_def split: option.splits)
  obtain atom w2 where atom: "js_to_atom rt key w1 = (atom, w2)" by fastforce
  obtain exist w3 where e: "js_own_property rt made (the atom) (js_free_value rt key w2) = (exist, w3)" by fastforce
  have a: "atom = Some a" "exist = 0" "w' = w3" using assms(2) s atom e
    by (auto simp: decode_key_def decode_fail_def engine_error_def Let_def split: option.splits if_splits)
  from decode_string_made [OF assms(1) s] obtain cs k' where cs: "stands src k' w1" "drop k src = encode_text cs @ drop k' src"
    "\<forall>ch \<in> set cs. is_scalar ch" "den key = TString cs" by blast
  have "den a = TString cs" using den_to_atom [OF atom [unfolded a(1)] cs(4)] .
  moreover have "cs \<notin> fst ` set us" using den_own_property [OF e [unfolded a(2)] assms(3)] calculation a(1) by simp
  moreover have "stands src k' w'" using cs(1) runtime_stands(2,6,8) atom e a by metis
  ultimately show ?thesis using cs by blast
qed

text \<open>What it means of a decoder of values that a value it makes is the one that is encoded.\<close>

definition decodes :: "nat \<Rightarrow> ('e fixture \<Rightarrow> ('v option \<times> 'e fixture) option) \<Rightarrow> bool" where
  "decodes levels decode \<longleftrightarrow> (\<forall>src k w v w'. stands src k w \<longrightarrow> decode w = Some (Some v, w') \<longrightarrow>
     (\<exists>t k'. stands src k' w' \<and> drop k src = encode t @ drop k' src \<and> valid_tree levels t \<and> den v = normal t))"

lemma decodesD:
  assumes "decodes levels decode" and "stands src k w" and "decode w = Some (Some v, w')"
  obtains t k' where "stands src k' w'" "drop k src = encode t @ drop k' src" "valid_tree levels t" "den v = normal t"
  using assms unfolding decodes_def by blast

lemma decode_array_made:
  assumes "decodes levels decode"
  shows "stands src k w \<Longrightarrow> decode_array rt decode n (length us) made w = Some (Some v, w') \<Longrightarrow> den made = TArray us \<Longrightarrow>
    \<exists>ts k'. stands src k' w' \<and> length ts = n \<and> drop k src = concat (map encode ts) @ drop k' src \<and>
      (\<forall>t \<in> set ts. valid_tree levels t) \<and> den v = TArray (us @ map normal ts)"
proof (induction n arbitrary: us made k w)
  case 0
  then show ?case by (intro exI [of _ "[]"] exI [of _ k]) simp
next
  case (Suc n)
  from Suc.prems(2) obtain item w1 where item: "decode w = Some (Some item, w1)"
    by (auto simp: decode_fail_def split: option.splits)
  from decodesD [OF assms Suc.prems(1) item] obtain t k1 where t: "stands src k1 w1" "drop k src = encode t @ drop k1 src"
    "valid_tree levels t" "den item = normal t" .
  obtain m w2 where m: "js_define_index rt made (of_nat (length us)) item w1 = (m, w2)" by fastforce
  with Suc.prems(2) item obtain made1 where made1: "m = Some made1" "decode_array rt decode n (length (us @ [normal t])) made1 w2 = Some (Some v, w')"
    by (cases m) (auto simp: decode_fail_def engine_error_def)
  have "den made1 = TArray (us @ [normal t])" using den_define_index [OF m [unfolded made1(1)] Suc.prems(3)] t(4) by simp
  moreover have "stands src k1 w2" using runtime_stands(4) [OF m] t(1) by simp
  ultimately obtain ts k' where "stands src k' w'" "length ts = n" "drop k1 src = concat (map encode ts) @ drop k' src"
    "\<forall>t \<in> set ts. valid_tree levels t" "den v = TArray ((us @ [normal t]) @ map normal ts)"
    using Suc.IH made1(2) by blast
  with t show ?case by (intro exI [of _ "t # ts"] exI [of _ k']) simp
qed

lemma decode_object_made:
  assumes "decodes levels decode"
  shows "stands src k w \<Longrightarrow> decode_object rt decode n made w = Some (Some v, w') \<Longrightarrow> den made = TObject us \<Longrightarrow>
    \<exists>kvs k'. stands src k' w' \<and> length kvs = n \<and>
      drop k src = concat (map (\<lambda>(cs, t). encode_text cs @ encode t) kvs) @ drop k' src \<and>
      (\<forall>(cs, t) \<in> set kvs. (\<forall>ch \<in> set cs. is_scalar ch) \<and> valid_tree levels t) \<and>
      distinct (map fst kvs) \<and> fst ` set us \<inter> fst ` set kvs = {} \<and>
      den v = TObject (us @ map (\<lambda>(cs, t). (cs, normal t)) kvs)"
proof (induction n arbitrary: us made k w)
  case 0
  then show ?case by (intro exI [of _ "[]"] exI [of _ k]) simp
next
  case (Suc n)
  from Suc.prems(2) obtain a w1 where key: "decode_key rt made w = Some (Some a, w1)" by (auto split: option.splits)
  from decode_key_made [OF Suc.prems(1) key Suc.prems(3)] obtain cs k1 where cs: "stands src k1 w1" "drop k src = encode_text cs @ drop k1 src"
    "\<forall>ch \<in> set cs. is_scalar ch" "den a = TString cs" "cs \<notin> fst ` set us" by blast
  from Suc.prems(2) key obtain item w2 where item: "decode w1 = Some (Some item, w2)"
    by (auto simp: decode_fail_def split: option.splits)
  from decodesD [OF assms cs(1) item] obtain t k2 where t: "stands src k2 w2" "drop k1 src = encode t @ drop k2 src"
    "valid_tree levels t" "den item = normal t" .
  obtain m w3 where m: "js_define_property rt made a item w2 = (m, w3)" by fastforce
  with Suc.prems(2) key item obtain made1 where made1: "m = Some made1" "decode_object rt decode n made1 (js_free_atom rt a w3) = Some (Some v, w')"
    by (cases m) (auto simp: decode_fail_def engine_error_def)
  have "den made1 = TObject (us @ [(cs, normal t)])" using den_define_property [OF m [unfolded made1(1)] Suc.prems(3) cs(4,5)] t(4) by simp
  moreover have "stands src k2 (js_free_atom rt a w3)" using runtime_stands(7,9) m t(1) by metis
  ultimately obtain kvs k' where kvs: "stands src k' w'" "length kvs = n"
    "drop k2 src = concat (map (\<lambda>(cs, t). encode_text cs @ encode t) kvs) @ drop k' src"
    "\<forall>(cs, t) \<in> set kvs. (\<forall>ch \<in> set cs. is_scalar ch) \<and> valid_tree levels t" "distinct (map fst kvs)"
    "fst ` set (us @ [(cs, normal t)]) \<inter> fst ` set kvs = {}"
    "den v = TObject ((us @ [(cs, normal t)]) @ map (\<lambda>(cs, t). (cs, normal t)) kvs)"
    using Suc.IH [OF _ made1(2)] by blast
  from kvs(6) have fresh: "cs \<notin> fst ` set kvs" "fst ` set us \<inter> fst ` set kvs = {}" by auto
  have "drop k src = concat (map (\<lambda>(cs, t). encode_text cs @ encode t) ((cs, t) # kvs)) @ drop k' src"
    using cs(2) t(2) kvs(3) by simp
  moreover have "\<forall>(cs, t) \<in> set ((cs, t) # kvs). (\<forall>ch \<in> set cs. is_scalar ch) \<and> valid_tree levels t" using cs(3) t(3) kvs(4) by simp
  moreover have "distinct (map fst ((cs, t) # kvs))" "fst ` set us \<inter> fst ` set ((cs, t) # kvs) = {}" using fresh kvs(5) cs(5) by auto
  moreover have "den v = TObject (us @ map (\<lambda>(cs, t). (cs, normal t)) ((cs, t) # kvs))" using kvs(7) by simp
  ultimately show ?case using kvs(1,2) by (intro exI [of _ "(cs, t) # kvs"] exI [of _ k'] conjI) simp_all
qed

lemma decode_number_made:
  assumes "stands src k w" and "decode_number rt w = Some (Some v, w')"
  shows "\<exists>bits. stands src (k + 8) w' \<and> drop k src = le_bytes 8 bits @ drop (k + 8) src \<and> finite_number bits \<and> den v = normal (TNumber bits)"
proof -
  from assms(2) obtain header where h: "take_bytes 8 w = (Some header, w')" "finite_double (little header)"
    "v = js_float rt (positive_zero (little header))"
    by (auto simp: decode_number_def Let_def split: prod.splits option.splits if_splits)
  from take_bytes_stands [OF assms(1) h(1)] h(2,3) den_scalars(3) show ?thesis
    by (intro exI [of _ "little header"]) (simp add: le_little finite_double_number positive_zero_number)
qed

lemma decode_value_made: "decodes levels (decode_value rt levels)"
proof (induction levels)
  case 0
  then show ?case by (simp add: decodes_def)
next
  case (Suc levels)
  show ?case unfolding decodes_def
  proof (intro allI impI)
    fix src :: "byte list" and k and w w' :: "'e fixture" and v
    assume at: "stands src k w" and run: "decode_value rt (Suc levels) w = Some (Some v, w')"
    let ?made = "\<exists>t k'. stands src k' w' \<and> drop k src = encode t @ drop k' src \<and> valid_tree (Suc levels) t \<and> den v = normal t"
    from run obtain header w1 where h: "take_bytes 1 w = (Some header, w1)" by (cases "take_bytes 1 w") (auto split: option.splits)
    from take_bytes_stands [OF at h] have h1: "stands src (k + 1) w1" "length header = 1" "drop k src = header @ drop (k + 1) src" by simp_all
    then obtain tag where tag: "header = [tag]" by (cases header) auto
    note scalar = h tag den_scalars
    consider "tag = 0" | "tag = 1" | "tag = 2" | "tag = 3" | "tag = 4" | "tag = 5 \<or> tag = 6"
      using run h tag by (auto simp: Let_def split: if_splits)
    then show ?made
    proof cases
      case 1
      with run scalar h1 show ?thesis by (intro exI [of _ TNull] exI [of _ "k + 1"]) (auto simp: Let_def)
    next
      case 2
      with run scalar h1 show ?thesis by (intro exI [of _ "TBool False"] exI [of _ "k + 1"]) (auto simp: Let_def)
    next
      case 3
      with run scalar h1 show ?thesis by (intro exI [of _ "TBool True"] exI [of _ "k + 1"]) (auto simp: Let_def)
    next
      case 4
      with run h tag have "decode_number rt w1 = Some (Some v, w')" by (simp add: Let_def)
      from decode_number_made [OF h1(1) this] obtain bits where "stands src (k + 1 + 8) w'"
        "drop (k + 1) src = le_bytes 8 bits @ drop (k + 1 + 8) src" "finite_number bits" "den v = normal (TNumber bits)" by blast
      with 4 tag h1(3) show ?thesis by (intro exI [of _ "TNumber bits"] exI [of _ "k + 1 + 8"]) simp
    next
      case 5
      with run h tag have "decode_string rt w1 = Some (Some v, w')" by (simp add: Let_def)
      from decode_string_made [OF h1(1) this] obtain cs k' where "stands src k' w'" "drop (k + 1) src = encode_text cs @ drop k' src"
        "\<forall>ch \<in> set cs. is_scalar ch" "den v = TString cs" by blast
      with 5 tag h1(3) show ?thesis by (intro exI [of _ "TString cs"] exI [of _ k']) simp
    next
      case 6
      from run h tag 6 obtain count w2 where g: "take_bytes 4 w1 = (Some count, w2)"
        by (cases "take_bytes 4 w1") (auto simp: Let_def split: option.splits)
      from take_bytes_stands [OF h1(1) g] have g1: "stands src (k + 5) w2" "length count = 4" "drop (k + 1) src = count @ drop (k + 5) src" by (simp_all add: add.commute)
      obtain m w3 where m: "(if tag = 5 then js_new_array rt w2 else js_new_object rt w2) = (m, w3)" by fastforce
      have w3: "stands src (k + 5) w3" using m g1(1) runtime_stands(3,5) by (metis (full_types))
      let ?n = "unat (little count)"
      have small: "?n < 2 ^ 32" and le: "le_bytes 4 (of_nat ?n) = count" using unat_little4 little_bytes(2) g1(2) by blast+
      from run h tag 6 g m obtain made where made: "m = Some made"
        "(if tag = 5 then decode_array rt (decode_value rt levels) ?n 0 made w3 else decode_object rt (decode_value rt levels) ?n made w3) = Some (Some v, w')"
        by (cases m) (auto simp: Let_def)
      show ?thesis
      proof (cases "tag = 5")
        case True
        with m made have "den made = TArray []" "decode_array rt (decode_value rt levels) ?n (length ([] :: tree list)) made w3 = Some (Some v, w')"
          using den_new_array by auto
        from decode_array_made [OF Suc w3 this(2,1)] obtain ts k' where ts: "stands src k' w'" "length ts = ?n"
          "drop (k + 5) src = concat (map encode ts) @ drop k' src" "\<forall>t \<in> set ts. valid_tree levels t" "den v = TArray (map normal ts)" by auto
        have "drop k src = encode (TArray ts) @ drop k' src" using h1(3) tag True g1(3) le ts(2,3) by simp
        with ts small show ?thesis by (intro exI [of _ "TArray ts"] exI [of _ k']) simp
      next
        case False
        with m made have "den made = TObject []" "decode_object rt (decode_value rt levels) ?n made w3 = Some (Some v, w')"
          using den_new_object by auto
        from decode_object_made [OF Suc w3 this(2,1)] obtain kvs k' where kvs: "stands src k' w'" "length kvs = ?n"
          "drop (k + 5) src = concat (map (\<lambda>(cs, t). encode_text cs @ encode t) kvs) @ drop k' src"
          "\<forall>(cs, t) \<in> set kvs. (\<forall>ch \<in> set cs. is_scalar ch) \<and> valid_tree levels t" "distinct (map fst kvs)"
          "den v = TObject (map (\<lambda>(cs, t). (cs, normal t)) kvs)" by auto
        have "drop k src = encode (TObject kvs) @ drop k' src" using h1(3) tag False 6 g1(3) le kvs(2,3) by simp
        with kvs small show ?thesis by (intro exI [of _ "TObject kvs"] exI [of _ k']) simp
      qed
    qed
  qed
qed

lemma stage_input_stands:
  assumes "stands src 0 w" and "de_whole_input (fx_decoder w) = None" and "stage_input c w = Some (True, w')"
  shows "stands src 0 w'"
proof (cases "de_staged (fx_decoder w) = 1")
  case False
  with assms show ?thesis by (simp add: stage_input_def)
next
  case True
  obtain r w1 where m: "native_malloc c (de_size (fx_decoder w)) w = (r, w1)" by fastforce
  then have "\<exists>t. w1 = w\<lparr>fx_tracker := t\<rparr>" by (auto simp: native_malloc_def split: prod.splits option.splits)
  then have w1: "fx_decoder w1 = fx_decoder w" "fx_file w1 = fx_file w" by auto
  from True m assms(3) obtain p bs cs w2 where r: "r = Some (p, bs)" "source_read 0 (de_size (fx_decoder w1)) w1 = (Some cs, w2)"
    "w' = set_decoder (\<lambda>d. d\<lparr>de_whole_input := Some (p, cs)\<rparr>) w2"
    by (auto simp: stage_input_def split: option.splits prod.splits if_splits)
  have at: "stands src 0 w1" using stands_same [OF w1] assms(1) by simp
  then have steady: "de_size (fx_decoder w1) = length (input_of w1)" "input_of w1 = src" by (simp_all add: stands_def steady_input_def)
  from source_read_input [OF r(2) steady(1)] steady have cs: "cs = src" by simp
  from stands_frame [OF source_read_frame [OF r(2)]] at have "stands src 0 w2" by simp
  then show ?thesis using cs r(3) by (simp add: stands_def steady_input_def input_of_def working_def set_decoder_def)
qed

lemma lookup_body_made:
  assumes "accounted (fx_tracker w)" and "de_workspace (fx_decoder w) = None" and "de_whole_input (fx_decoder w) = None"
    and "0 < de_window_size (fx_decoder w)" and "de_window_size (fx_decoder w) < 2 ^ 64"
    and "de_mutate (fx_decoder w) = 0" and "de_staged (fx_decoder w) \<noteq> 2" and "de_size (fx_decoder w) = length (fx_file w)"
    and "lookup_body c rt w = Some (Some p, w')"
  shows "\<exists>t. fx_file w = encode t \<and> valid_tree 65 t \<and> resolved p = normal t"
proof -
  let ?s = "lookup_start w" let ?src = "fx_file w"
  have "borrowed (fx_tracker w) [] (fx_tracker w)" using assms(1) by (simp add: borrowed_Nil)
  note start = lookup_start_facts [OF this]
  obtain r w1 where m: "native_malloc c (de_window_size (fx_decoder w)) ?s = (r, w1)" by fastforce
  note facts = native_malloc_facts [OF start(1) m]
  let ?w = "set_decoder (\<lambda>d. d\<lparr>de_workspace := r\<rparr>) w1"
  have failed: "lookup_fail rt u v \<noteq> Some (Some p, w')" for u v by (auto simp: lookup_fail_def bind_eq_Some_conv)
  have "r \<noteq> None"
  proof
    assume "r = None"
    with m start(3) have "lookup_body c rt w = lookup_fail rt None (set_failure ''native_exhaustion'' ?w)" by (simp add: lookup_body_def)
    with assms(9) failed show False by simp
  qed
  then obtain q bs where r: "r = Some (q, bs)" by auto
  with facts assms(4,5) have bs: "bs \<noteq> []" by (auto simp: unat_of_nat)
  have fx: "fx_decoder w1 = fx_decoder ?s" "fx_file w1 = ?src" using facts start(2) by (auto simp: settings_def)
  have pos: "de_position (fx_decoder ?s) = 0" by (simp add: lookup_start_def set_decoder_def Let_def)
  have at: "stands ?src 0 ?w" "de_whole_input (fx_decoder ?w) = None"
    using start(2) assms(3,6-8) bs fx r pos by (simp_all add: stands_def steady_input_def input_of_def working_def set_decoder_def settings_def)
  from assms(9) m r start(3) obtain good w2 where st: "stage_input c ?w = Some (good, w2)"
    by (auto simp: lookup_body_def bind_eq_Some_conv)
  have good: good
  proof (rule ccontr)
    assume "\<not> good"
    with m r start(3) st have "lookup_body c rt w = lookup_fail rt None w2" by (simp add: lookup_body_def)
    with assms(9) failed show False by simp
  qed
  note at2 = stage_input_stands [OF at st [unfolded eqTrueI [OF good]]]
  from assms(9) m r start(3) st good obtain v w3 where v: "decode_value rt 65 w2 = Some (Some v, w3)"
    by (auto simp: lookup_body_def failed bind_eq_Some_conv split: option.splits)
  from decodesD [OF decode_value_made at2 v] obtain t k where t: "stands ?src k w3" "drop 0 ?src = encode t @ drop k ?src"
    "valid_tree 65 t" "den v = normal t" .
  have run: "lookup_body c rt w = (if de_position (fx_decoder w3) \<noteq> de_size (fx_decoder w3)
      then lookup_fail rt (Some v) (set_failure ''trailing_bytes'' w3)
      else do {
        w \<leftarrow> free_scratch w3;
        let (promise, w) = js_settled_promise rt v w;
        let w = js_free_value rt v w;
        let w = (if promise = None then set_failure ''engine_exhaustion'' w else w);
        Some (promise, disarm w) })"
    using m start(3) r st good v by (simp add: lookup_body_def)
  with assms(9) have last: "de_position (fx_decoder w3) = de_size (fx_decoder w3)" by (auto simp: failed split: if_splits)
  with t(1) have "k = length ?src" by (simp add: stands_def steady_input_def)
  moreover from run last assms(9) obtain w4 where "fst (js_settled_promise rt v w4) = Some p"
    by (cases "free_scratch w3") (auto simp: Let_def case_prod_beta)
  then have "js_settled_promise rt v w4 = (Some p, snd (js_settled_promise rt v w4))" by (metis prod.collapse)
  from den_promise [OF this] have "resolved p = normal t" using t(4) by simp
  ultimately show ?thesis using t by (intro exI [of _ t]) simp
qed

lemma lookup_made:
  assumes "accounted (fx_tracker w)" and "de_workspace (fx_decoder w) = None" and "de_whole_input (fx_decoder w) = None"
    and "0 < de_window_size (fx_decoder w)" and "de_window_size (fx_decoder w) < 2 ^ 64"
    and "de_mutate (fx_decoder w) = 0" and "de_staged (fx_decoder w) \<noteq> 2" and "de_size (fx_decoder w) = length (fx_file w)"
    and "lookup c rt w = Some (Some p, w')"
  shows "\<exists>t. fx_file w = encode t \<and> valid_tree 65 t \<and> resolved p = normal t"
proof -
  from assms(9) have "lookup_body c rt (w\<lparr>fx_fault := False\<rparr>) = Some (Some p, w')"
    by (auto simp: lookup_def split: option.splits if_splits)
  from lookup_body_made [OF _ _ _ _ _ _ _ _ this] assms(1-8) show ?thesis by simp
qed

end

section \<open>A lookup that succeeds\<close>

interpretation plain_recorder: recording_runtime c "plain_runtime c limit" "\<lambda>v. v" "\<lambda>v. v" for c limit
proof unfold_locales
  fix cs
  show "js_mk_string (plain_runtime c limit) (string_of cs) = TString cs" if "\<forall>ch \<in> set cs. is_scalar ch"
    using that by (simp add: plain_runtime_def text_in_string_of)
qed (auto simp: plain_runtime_def spend_def pay_def split: prod.splits option.splits tree.splits if_splits)

text \<open>
  C11. With an engine that keeps what it is given (\<open>recording_runtime\<close>), a promise that a lookup hands
  over is that of the one value which the whole file encodes, with zeros made positive: nothing
  follows it, all its numbers are finite, its texts valid and the keys of an object distinct, and it
  has at most 64 levels below the top, whether the input was staged or read through the window.
\<close>

theorem lookup_decodes_file:
  assumes "recording_runtime c rt den resolved" and "accounted (fx_tracker w)"
    and "de_workspace (fx_decoder w) = None" and "de_whole_input (fx_decoder w) = None"
    and "0 < de_window_size (fx_decoder w)" and "de_window_size (fx_decoder w) < 2 ^ 64"
    and "de_mutate (fx_decoder w) = 0" and "de_staged (fx_decoder w) \<noteq> 2" and "de_size (fx_decoder w) = length (fx_file w)"
    and "lookup c rt w = Some (Some p, w')"
  shows "\<exists>t. fx_file w = encode t \<and> valid_tree 65 t \<and> resolved p = normal t"
  using recording_runtime.lookup_made [OF assms] .

lemma lookup_decodes_file_witness:
  "\<exists>t. sample_file = encode t \<and> valid_tree 65 t \<and> normal t = TArray [TBool True, TString [0xe9]]"
proof -
  let ?w = "new_fixture 0 sample_file 0"
  let ?t = "TArray [TBool True, TString [0xe9]]"
  have "accounted (fx_tracker ?w)"
    by (simp add: new_fixture_def new_tracker_def accounted_def accounted_for_def blocks_of_def owned_by_def no_population_def)
  note law = lookup_decodes_file [OF plain_recorder.recording_runtime_axioms this, of ample 100]
  have "map_option fst (lookup ample (plain_runtime ample 100) ?w) = Some (Some ?t)" by code_simp
  then obtain w' where "lookup ample (plain_runtime ample 100) ?w = Some (Some ?t, w')" by auto
  from law [OF _ _ _ _ _ _ _ this] show ?thesis by (auto simp: new_fixture_def)
qed

end
