(* ===== verification/Fixture_Run.thy ===== *)
theory Fixture_Run
  imports Fixture_Format
begin

text \<open>
  The run of the decoder fixture: \<open>main\<close> checks its arguments and starts an engine that then calls
  the allocation functions and \<open>lookup\<close> in any order; what it evaluates, and the reports, are its own.
\<close>

section \<open>The start\<close>

text \<open>The arguments as numbers, and their count.\<close>

record fixture_arguments =
  fa_argc :: nat
  fa_size :: u64
  fa_staged :: int
  fa_window :: u64
  fa_engine_failure :: u64
  fa_native_failure :: u64
  fa_fail_read_at :: u64
  fa_mutate :: int
  fa_diagnostic :: int

datatype fixture_end = Exit int | Assertion_failed

text \<open>The limits that \<open>main\<close> sets either hold or not; the statics that it does not set are zero.\<close>

definition fixture_start :: "fixture_arguments \<Rightarrow> byte list \<Rightarrow> read_reply list \<Rightarrow> bool \<Rightarrow> 'e \<Rightarrow> fixture_end + 'e fixture" where
  "fixture_start a src rs limits js =
     (if fa_argc a \<noteq> 11 then Inl (Exit 2)
      else if fa_window a = 0 \<or> fa_size a > 0x7fffffffffffffff then Inl (Exit 2)
      else if fa_diagnostic a \<noteq> 0 \<and> fa_diagnostic a \<noteq> 1 then Inl Assertion_failed
      else if \<not> limits then Inl (Exit 3)
      else Inr \<lparr>
        fx_decoder = \<lparr>de_staged = fa_staged a, de_mutate = fa_mutate a, de_size = unat (fa_size a), de_position = 0,
          de_bytes_read = 0, de_calls = 0, de_read_calls = 0, de_fail_read_at = unat (fa_fail_read_at a), de_workspace = None,
          de_whole_input = None, de_window_size = unat (fa_window a), de_failure = ''none''\<rparr>,
        fx_tracker = new_tracker, fx_js = js, fx_file = src, fx_reads = rs, fx_starts = 0, fx_armed = 0,
        fx_engine_failure = fa_engine_failure a, fx_native_failure = fa_native_failure a, fx_decode_attempts = 0, fx_fault = False\<rparr>)"

section \<open>What the engine does\<close>

text \<open>It calls an allocation function, which may change it, or \<open>lookup\<close>.\<close>

datatype 'e fixture_event = Engine_event engine_call 'e | Lookup_event

fun fixture_events :: "c_library \<Rightarrow> ('v, 'e fixture) js_runtime \<Rightarrow> 'e fixture_event list \<Rightarrow> 'e fixture \<Rightarrow> 'e fixture option" where
  "fixture_events c rt [] w = Some w"
| "fixture_events c rt (Engine_event k js # es) w = do {
     t \<leftarrow> engine_step c k (fx_tracker w);
     fixture_events c rt es (w\<lparr>fx_tracker := t, fx_js := js\<rparr>) }"
| "fixture_events c rt (Lookup_event # es) w = do { (v, w) \<leftarrow> lookup c rt w; fixture_events c rt es w }"

text \<open>It frees and reallocates only what is its own at that time.\<close>

fun events_allowed :: "c_library \<Rightarrow> ('v, 'e fixture) js_runtime \<Rightarrow> 'e fixture_event list \<Rightarrow> 'e fixture \<Rightarrow> bool" where
  "events_allowed c rt [] w = True"
| "events_allowed c rt (Engine_event k js # es) w \<longleftrightarrow> engine_may k (fx_tracker w) \<and>
     (case engine_step c k (fx_tracker w) of None \<Rightarrow> True | Some t \<Rightarrow> events_allowed c rt es (w\<lparr>fx_tracker := t, fx_js := js\<rparr>))"
| "events_allowed c rt (Lookup_event # es) w \<longleftrightarrow> (case lookup c rt w of None \<Rightarrow> True | Some (v, w) \<Rightarrow> events_allowed c rt es w)"

text \<open>Between two events: nothing native, no pointer, no failure armed.\<close>

definition at_rest :: "'e fixture \<Rightarrow> bool" where
  "at_rest w \<longleftrightarrow> accounted (fx_tracker w) \<and> books Native (fx_tracker w) = (0, 0, []) \<and>
     de_workspace (fx_decoder w) = None \<and> de_whole_input (fx_decoder w) = None \<and> \<not> tk_in_decode (fx_tracker w) \<and>
     (\<forall>who. po_fail_at (owned_by who (fx_tracker w)) = 0)"

lemma new_tracker_accounted: "accounted new_tracker" "books Native new_tracker = (0, 0, [])"
  by (simp_all add: new_tracker_def accounted_def accounted_for_def books_def blocks_of_def owned_by_def no_population_def)

lemma start_at_rest:
  assumes "fixture_start a src rs limits js = Inr w"
  shows "at_rest w \<and> 0 < window_of w \<and> window_of w < 2 ^ 64 \<and> de_size (fx_decoder w) < 2 ^ 64"
proof -
  have "po_fail_at (owned_by who new_tracker) = 0" for who
    by (cases who) (simp_all add: new_tracker_def owned_by_def no_population_def)
  moreover have "unat (fa_window a) < 2 ^ 64" using unsigned_less [of "fa_window a"] by simp
  moreover have "unat (fa_size a) < 2 ^ 64" using unsigned_less [of "fa_size a"] by simp
  moreover have "fa_window a \<noteq> 0" using assms by (auto simp: fixture_start_def split: if_splits)
  then have "0 < unat (fa_window a)" by (simp add: unat_gt_0)
  ultimately show ?thesis
    using assms new_tracker_accounted by (auto simp: fixture_start_def at_rest_def new_tracker_def split: if_splits)
qed

lemma engine_event_at_rest:
  assumes "at_rest w" and "engine_may k (fx_tracker w)"
  shows "\<exists>t. engine_step c k (fx_tracker w) = Some t \<and> at_rest (w\<lparr>fx_tracker := t, fx_js := js\<rparr>)"
proof -
  from engine_step_kept [OF _ assms(2)] assms(1) obtain t where
    "engine_step c k (fx_tracker w) = Some t" "accounted t" "native_kept (fx_tracker w) t" by (auto simp: at_rest_def)
  with assms(1) show ?thesis by (simp add: at_rest_def native_kept_def)
qed

lemma lookup_at_rest:
  assumes "lawful_runtime c rt" and "at_rest w" and "0 < window_of w" and "window_of w < 2 ^ 64" and "de_size (fx_decoder w) < 2 ^ 64"
  shows "\<exists>v w'. lookup c rt w = Some (v, w') \<and> at_rest w' \<and> sizes_of w' = sizes_of w"
proof -
  have "fixture_runtime c rt" using assms(1) by unfold_locales
  from fixture_runtime.lookup_idle [OF this, of w] assms(2-5) obtain v w' where
    w': "lookup c rt w = Some (v, w')" "idle (fx_tracker w) w'" "sizes_of w' = sizes_of w" by (auto simp: at_rest_def)
  have "po_fail_at (owned_by who (fx_tracker w')) = 0" for who
    using w'(2) by (cases who) (simp_all add: idle_def owned_by_def)
  with w' assms(2) show ?thesis by (auto simp: at_rest_def idle_def released_def borrowed_Nil)
qed

lemma events_at_rest:
  "lawful_runtime c rt \<Longrightarrow> at_rest w \<Longrightarrow> 0 < window_of w \<Longrightarrow> window_of w < 2 ^ 64 \<Longrightarrow> de_size (fx_decoder w) < 2 ^ 64 \<Longrightarrow> events_allowed c rt es w \<Longrightarrow>
    \<exists>w'. fixture_events c rt es w = Some w' \<and> at_rest w'"
proof (induction es arbitrary: w)
  case (Cons ev es)
  show ?case
  proof (cases ev)
    case (Engine_event k js)
    with Cons.prems(6) have "engine_may k (fx_tracker w)" by simp
    from engine_event_at_rest [OF Cons.prems(2) this, of c js] obtain t where
      "engine_step c k (fx_tracker w) = Some t" "at_rest (w\<lparr>fx_tracker := t, fx_js := js\<rparr>)" by blast
    with Cons.IH [of "w\<lparr>fx_tracker := t, fx_js := js\<rparr>"] Cons.prems Engine_event show ?thesis by simp
  next
    case Lookup_event
    from lookup_at_rest [OF Cons.prems(1-5)] obtain v w' where
      "lookup c rt w = Some (v, w')" "at_rest w'" "sizes_of w' = sizes_of w" by blast
    with Cons.IH [of w'] Cons.prems Lookup_event show ?thesis by simp
  qed
qed simp

text \<open>
  C33. From the start that \<open>main\<close> makes, whatever the arguments, the file and the failures, and
  however often and in whatever order the engine allocates, frees, reallocates and calls \<open>lookup\<close>,
  no call faults, and after each of them no native memory is held, no pointer into it is kept, no
  failure is armed and the accounts are those of the blocks that are allocated.
\<close>

theorem run_returns_native:
  assumes "lawful_runtime c rt" and "fixture_start a src rs limits js = Inr w" and "events_allowed c rt es w"
  shows "\<exists>w'. fixture_events c rt es w = Some w' \<and> accounted (fx_tracker w') \<and> books Native (fx_tracker w') = (0, 0, []) \<and>
    de_workspace (fx_decoder w') = None \<and> de_whole_input (fx_decoder w') = None \<and> \<not> tk_in_decode (fx_tracker w') \<and>
    (\<forall>who. po_fail_at (owned_by who (fx_tracker w')) = 0)"
  using events_at_rest [OF assms(1) _ _ _ _ assms(3)] start_at_rest [OF assms(2)] by (auto simp: at_rest_def)

definition sample_arguments :: fixture_arguments where
  "sample_arguments = \<lparr>fa_argc = 11, fa_size = 17, fa_staged = 1, fa_window = 3, fa_engine_failure = 0, fa_native_failure = 2,
     fa_fail_read_at = 0, fa_mutate = 0, fa_diagnostic = 0\<rparr>"

text \<open>The first lookup fails to stage its input; the second succeeds.\<close>

lemma engine_owns_code [code]: "engine_owns p t = (case p of None \<Rightarrow> True
    | Some q \<Rightarrow> (case map_of (tk_blocks t) q of None \<Rightarrow> False | Some b \<Rightarrow> tb_owner b = Engine))"
  by (auto simp: engine_owns_def split: option.splits)

lemma run_returns_native_witness:
  "\<exists>w w'. fixture_start sample_arguments sample_file [] True () = Inr w \<and>
    fixture_events ample (plain_runtime ample 100) [Engine_event (Malloc 8) (), Lookup_event, Engine_event (Realloc (Some 0) 16) (), Lookup_event] w = Some w' \<and>
    books Native (fx_tracker w') = (0, 0, []) \<and> de_calls (fx_decoder w') = 2 \<and> po_injected (tk_native (fx_tracker w')) = 1"
proof -
  let ?es = "[Engine_event (Malloc 8) (), Lookup_event, Engine_event (Realloc (Some 0) 16) (), Lookup_event]"
  let ?run = "fixture_events ample (plain_runtime ample 100) ?es"
  define w where "w = (case fixture_start sample_arguments sample_file [] True () of Inr w \<Rightarrow> w)"
  then have w: "fixture_start sample_arguments sample_file [] True () = Inr w"
    by (simp add: fixture_start_def sample_arguments_def)
  have "events_allowed ample (plain_runtime ample 100) ?es w" unfolding w_def by code_simp
  from run_returns_native [OF plain_lawful w this] obtain w' where w': "?run w = Some w'" "books Native (fx_tracker w') = (0, 0, [])" by blast
  have "map_option (\<lambda>w. (de_calls (fx_decoder w), po_injected (tk_native (fx_tracker w)))) (?run w) = Some (2, 1)"
    unfolding w_def by code_simp
  with w w' show ?thesis by auto
qed

end
