(* ===== verification/Spec2Isabelle.thy ===== *)
theory Spec2Isabelle
  imports Bash_Platform Host_Launch_Laws Custody_Run Slots Custody_Protocol Reactor_Spool Lifetimes_Laws Cache_Restat Fixture_Run
begin

text \<open>
  Rui is a terminal client and a Host for coding agents.  The Host keeps durable operations in
  SQLite and gives each of them to a lane that works on it: a model transport, a Bash child, or a
  file change.  Most of the program is Zig; the parts in C are the platform layer under \<open>src/src\<close>
  and the experiments under \<open>src/research\<close> in which the custody design of the Host was worked out.
  This development models the C.

  The operating system (\<open>Os_Script\<close>).  A run is driven by a script, the replies the system will
  give, and leaves a trace, the calls the code made.  A theorem about every script is a theorem
  about every behaviour of the system its manual pages allow (\<open>documented\<close>); a script that is too
  short or gives a reply no manual page allows has no completed run, \<open>None\<close>.  \<open>runs f \<Phi>\<close> says
  that every completed run of \<open>f\<close> satisfies \<open>\<Phi>\<close> of its result and its own calls; its rules follow
  the text of the program.  Loops end because each turn consumes a reply.  \<open>Exact_Io\<close> holds the
  loops that write or read exactly, with the interface \<open>exact_writer\<close>; \<open>descriptor_discipline\<close> is
  the interface of what acquires descriptors.

  \<open>Bash_Platform\<close>: \<open>src/src/bash_platform.c\<close>, every function: observing and reaping a child,
  queued bytes, group absence, pipes and the isolated spawn.  Its theorems: the two observations of
  one death agree; the spawn leaves exactly its read ends; its spawn objects are destroyed once.

  \<open>Host_Identity\<close>, \<open>Host_Identity_Laws\<close>: \<open>src/src/host_identity.c\<close>, every function, both
  platforms: peer, canonical path, start time, arguments and environment, the double snapshot.
  Its theorems: parsing recovers what the kernel laid out; a snapshot was observed twice alike; a
  failed one reveals nothing and leaks nothing.

  \<open>Host_Launch\<close>, \<open>Host_Launch_Laws\<close>: \<open>src/src/host_launch.c\<close>, every function, both platforms: the
  receipts, the child between fork and exec, the helper, the readiness write, the parent.  Its
  theorems: an exact launch is accepted only after the whole handshake; the child executes only
  with its three descriptors and, in exact mode, only once confirmed; the parent keeps only the
  startup pipe; readiness restores the signal mask.

  The custody program, \<open>integrated_capacity.c\<close> of the integrated capacity proof.  A table of cells
  holds what the Host owes to each attempt; the state of a cell says which lane owns it:
  vacant, reserved and dispatchable by the owner, active in a lane, sealed for settlement.
    \<^item> \<open>Custody_Cells\<close>, \<open>Custody_Signals\<close>: one cell: the scratch accounts, the transport's
      callbacks, the pipes of a shell, its deadlines and signals, sealing, release.  The accounts hold
      over every sequence of operations (\<open>scheduled\<close>); signals are sent at most once until an
      occupancy ends, and an abandonment adds one SIGKILL.
    \<^item> \<open>Custody_Store\<close>, \<open>Custody_Store_Laws\<close>: admission, the terminal search, import, settlement.
      Commits are counted in the trace: one per success, none per failure; a statement carries the
      values bound to it, so a success inserted the rows of its own attempt.
    \<^item> \<open>Custody_Patch\<close>: the target, its markers, one patch, and the shell fixture.
    \<^item> \<open>Custody_Ledger\<close>: every operation opens and closes exactly what it adds to and takes from
      the cell.
    \<^item> \<open>Custody_Lanes\<close>: starting a shell or a transport, and what a lane does to a cell.
    \<^item> \<open>Custody_Flow\<close>: any interleaving of the lanes' steps, each guarded by the state it needs:
      attempts, descriptors, space and commits are conserved.  The fatal path is two of the steps,
      the reactor's abandonment of a cell and the owner's release of one: what they vacate is
      counted as abandoned, not as settled.
    \<^item> \<open>Custody_Reactor\<close>: the reactor thread.
    \<^item> \<open>Custody_Plan\<close>, \<open>Custody_Owner\<close>, \<open>Custody_Run\<close>: arguments, table, the owner's cycles with the
      other lanes beside it (a turn of theirs before each cell it looks at or admits, and a last
      one before they are joined), and the whole run: status 0 means that everything admitted is settled and
      nothing is left.

  The other experiments.
    \<^item> \<open>Slots\<close>: \<open>slots.c\<close>, four walks over a table of slots: they visit exactly what is occupied,
      whenever there is memory and a clock.
    \<^item> \<open>Custody_Protocol\<close>: \<open>custody.c\<close>, a slot whose events carry a generation, over a store with
      transactions: what a stale event can do; the scenarios are evaluated on a fresh store.
    \<^item> \<open>Script_Loop\<close>: assertions and loops of the experiments over the script.
    \<^item> \<open>Reactor_Spool\<close>: \<open>reactor_spool.c\<close>, many transfers on one thread: a histogram quantile against
      the exact one, and the accounts of a run, against the data callbacks counted in its trace.
    \<^item> \<open>Lifetimes_Memory\<close>, \<open>Lifetimes\<close>, \<open>Lifetimes_Laws\<close>: \<open>probe.c\<close> of the execution lifetimes: the
      counting allocator, the slots with their effects and the whole program: a run that comes to its
      last assertion owns nothing, and a captured file is accepted only byte for byte.
    \<^item> \<open>Cache_Restat\<close>: \<open>tests/ci/zig_cache_restat.c\<close>, a tool of the build: only the size, inode and time
      of a record change, and only to those of a file with the recorded bytes; a second run changes
      nothing.

  The string extension of the evaluator and its fixture, \<open>research/evaluator-memory/string-reader\<close>.
  They call a JavaScript engine that is not part of the repository, so they are functions of a
  record of its operations, of the callback and of the state these keep.
    \<^item> \<open>String_Reader\<close>: \<open>rui_string_reader.inc\<close>: one string made in place from two passes over UTF-8
      bytes through a window, and the same string joined from parts.
    \<^item> \<open>Utf8\<close>, \<open>String_Reader_Laws\<close>: the text that bytes encode, and the interfaces of a callback
      (\<open>exact_source\<close>, \<open>steady_source\<close>) and of an engine (\<open>exact_reader\<close>, \<open>steady_reader\<close>,
      \<open>joining_reader\<close>) with what the reader does over each: no access out of bounds with any
      callback, exactly the encoded text with a steady one.
    \<^item> \<open>Plain_Engine\<close>: an engine of plain data, on which the interfaces are interpreted, and the
      properties of the two constructors.
    \<^item> \<open>Fixture_Memory\<close>: \<open>allocation_tracker.h\<close>, the accounts of the engine's and the native blocks.
    \<^item> \<open>Fixture_Decoder\<close>, \<open>Fixture_Decoder_Laws\<close>, \<open>Plain_Fixture\<close>: \<open>probe.c\<close>: a value decoded from a
      file into the engine; whatever fails, a lookup returns its native memory.  A copy out of a staged
      input that leaves its block is a fault, and there is none.
    \<^item> \<open>Fixture_Format\<close>: the format as an encoding of trees: what a lookup hands over is the tree that
      the whole file encodes.
    \<^item> \<open>Fixture_Run\<close>: the start of the fixture, and any sequence of lookups and engine allocations: no
      call faults, and between them nothing native is held.

  Bounds.  Machine integers are words of their width where the code computes with them; file
  descriptors, process numbers and error numbers, on which it only compares, are integers.  A
  loop either recurs on a list or consumes the script; only the passes of the string reader have
  fuel, one turn for each byte of the length and one for the end, which is enough for every source
  (\<open>reader_stays_in_bounds\<close>), and the decoder has its own bound of 65 levels.

  Not modelled: the Zig program (store, HTTP, terminal, providers), the TypeScript client, tests
  and build scripts, the Python and TLA experiments; the printed reports of the C experiments; the
  copies of the transport experiments kept with their results, which repeat the sources beside them.
  libcurl, SQLite and the kernel are parameters: replies of the script; QuickJS is the record of the
  functions the string reader and its decoder call.
\<close>

end
